(* ===== verification/Prelude.thy ===== *)
theory Prelude
  imports Complex_Main
    "HOL-Library.AList" "HOL-Library.Char_ord" "HOL-Library.List_Lexorder"
    "HOL-Library.Product_Lexorder" "HOL-Library.Multiset" "HOL-Library.Sublist"
begin

text \<open>
  Shared vocabulary of the development: Python dictionaries as association lists that keep
  insertion order, Python's rounding and number formatting on exact rationals, stable sorting
  facts, and counting lemmas. Every component theory imports this one.

  A Python \<open>float\<close> that is known to be finite is a \<^typ>\<open>rat\<close>: every finite binary float is a
  rational, so comparisons are exact; sums and products are not rounded. Where the code
  handles infinities or NaN, the component says so in its own datatype.
\<close>

section \<open>Collections of facts\<close>

named_theorems dict_simps \<open>lookup after update, deletion and default on dictionaries\<close>
named_theorems dict_intros \<open>operations that keep the keys of a dictionary distinct\<close>

section \<open>Dictionaries in insertion order\<close>

type_synonym ('k, 'v) dict = "('k \<times> 'v) list"

type_synonym secs = rat \<comment> \<open>a Python time stamp or duration in seconds\<close>

abbreviation dict_get :: "('k, 'v) dict \<Rightarrow> 'k \<Rightarrow> 'v option" where
  "dict_get d k \<equiv> map_of d k"

abbreviation dict_keys :: "('k, 'v) dict \<Rightarrow> 'k list" where
  "dict_keys d \<equiv> map fst d"

abbreviation dict_values :: "('k, 'v) dict \<Rightarrow> 'v list" where
  "dict_values d \<equiv> map snd d"

text \<open>\<^verbatim>\<open>d[k] = v\<close>: in place when the key is there, at the end otherwise.\<close>

abbreviation dict_set :: "'k \<Rightarrow> 'v \<Rightarrow> ('k, 'v) dict \<Rightarrow> ('k, 'v) dict" where
  "dict_set k v d \<equiv> AList.update k v d"

text \<open>\<^verbatim>\<open>d.pop(k, None)\<close>.\<close>

abbreviation dict_pop :: "'k \<Rightarrow> ('k, 'v) dict \<Rightarrow> ('k, 'v) dict" where
  "dict_pop k d \<equiv> AList.delete k d"

text \<open>\<^verbatim>\<open>d.get(k, v)\<close>.\<close>

definition dict_get_or :: "('k, 'v) dict \<Rightarrow> 'k \<Rightarrow> 'v \<Rightarrow> 'v" where
  "dict_get_or d k v = (case map_of d k of None \<Rightarrow> v | Some w \<Rightarrow> w)"

text \<open>\<^verbatim>\<open>d.setdefault(k, v)\<close>, the updated dictionary.\<close>

definition dict_setdefault :: "'k \<Rightarrow> 'v \<Rightarrow> ('k, 'v) dict \<Rightarrow> ('k, 'v) dict" where
  "dict_setdefault k v d = (if map_of d k = None then d @ [(k, v)] else d)"

text \<open>A dictionary is well formed when no key occurs twice.\<close>

abbreviation dict_ok :: "('k, 'v) dict \<Rightarrow> bool" where
  "dict_ok d \<equiv> distinct (dict_keys d)"

lemmas dict_set_get [dict_simps] = update_conv
lemmas dict_pop_get [dict_simps] = delete_conv

lemma dict_setdefault_get [dict_simps]:
  "map_of (dict_setdefault k v d) j =
     (case map_of d j of None \<Rightarrow> if j = k then Some v else None | Some w \<Rightarrow> Some w)"
  by (auto simp: dict_setdefault_def map_add_def map_of_append split: option.splits)

lemma dict_get_or_set [dict_simps]:
  "dict_get_or (dict_set k v d) j w = (if j = k then v else dict_get_or d j w)"
  by (simp add: dict_get_or_def update_conv)

lemma dict_get_or_pop [dict_simps]:
  "dict_get_or (dict_pop k d) j w = (if j = k then w else dict_get_or d j w)"
  by (simp add: dict_get_or_def delete_conv)

lemma dict_ok_set [dict_intros]: "dict_ok d \<Longrightarrow> dict_ok (dict_set k v d)"
  by (rule distinct_update)

lemma dict_ok_pop [dict_intros]: "dict_ok d \<Longrightarrow> dict_ok (dict_pop k d)"
  by (rule distinct_delete)

lemma dict_ok_setdefault [dict_intros]: "dict_ok d \<Longrightarrow> dict_ok (dict_setdefault k v d)"
  by (auto simp: dict_setdefault_def map_of_eq_None_iff)

lemma dict_keys_set: "dict_keys (dict_set k v d) = (if k \<in> set (dict_keys d) then dict_keys d else dict_keys d @ [k])"
  by (simp add: update_keys)

lemma dict_get_iff: "dict_ok d \<Longrightarrow> map_of d k = Some v \<longleftrightarrow> (k, v) \<in> set d"
  by (simp add: map_of_eq_Some_iff)

text \<open>
  A dictionary comprehension \<^verbatim>\<open>{f(x): g(x) for x in xs}\<close> on top of \<open>d\<close>: the last element with a key
  decides its value.
\<close>

definition dict_comp :: "('a \<Rightarrow> 'k) \<Rightarrow> ('a \<Rightarrow> 'v) \<Rightarrow> 'a list \<Rightarrow> ('k, 'v) dict \<Rightarrow> ('k, 'v) dict" where
  "dict_comp f g xs d = foldl (\<lambda>d x. dict_set (f x) (g x) d) d xs"

lemma dict_comp_snoc: "dict_comp f g (xs @ [x]) d = dict_set (f x) (g x) (dict_comp f g xs d)"
  by (simp add: dict_comp_def)

lemma dict_comp_get:
  "map_of (dict_comp f g xs d) k =
     (case find (\<lambda>x. f x = k) (rev xs) of None \<Rightarrow> map_of d k | Some x \<Rightarrow> Some (g x))"
proof (induction xs rule: rev_induct)
  case Nil
  then show ?case by (simp add: dict_comp_def)
next
  case (snoc x xs)
  then show ?case by (auto simp: dict_comp_snoc update_conv)
qed

lemma dict_comp_keys: "set (dict_keys (dict_comp f g xs d)) = f ` set xs \<union> set (dict_keys d)"
proof (induction xs rule: rev_induct)
  case Nil
  show ?case by (simp add: dict_comp_def)
next
  case (snoc x xs)
  then show ?case unfolding dict_comp_snoc dict_keys_set by auto
qed

lemma dict_comp_ok: "dict_ok d \<Longrightarrow> dict_ok (dict_comp f g xs d)"
  by (induction xs rule: rev_induct) (auto simp: dict_comp_snoc dict_comp_def intro: distinct_update)

section \<open>Python numbers\<close>

text \<open>\<^verbatim>\<open>round(x)\<close>: to the nearest integer, halves to the even one.\<close>

definition py_round :: "'a::floor_ceiling \<Rightarrow> int" where
  "py_round x =
     (let f = \<lfloor>x\<rfloor>; r = x - of_int f
      in if r < 1 / 2 then f else if r > 1 / 2 then f + 1 else if even f then f else f + 1)"

lemma py_round_of_int [simp]: "py_round (of_int n) = n"
  by (simp add: py_round_def)

lemma py_round_error: "\<bar>of_int (py_round x) - x\<bar> \<le> 1 / 2"
proof -
  have "of_int \<lfloor>x\<rfloor> \<le> x" "x < of_int \<lfloor>x\<rfloor> + 1" by linarith+
  then show ?thesis by (auto simp: py_round_def Let_def abs_le_iff; linarith)
qed

lemma py_round_mono: "x \<le> y \<Longrightarrow> py_round x \<le> py_round y"
proof -
  assume le: "x \<le> y"
  show ?thesis
  proof (cases "\<lfloor>x\<rfloor> = \<lfloor>y\<rfloor>")
    case True
    then show ?thesis using le by (auto simp: py_round_def Let_def)
  next
    case False
    with le have "\<lfloor>x\<rfloor> + 1 \<le> \<lfloor>y\<rfloor>" using floor_mono [OF le] by linarith
    then show ?thesis by (auto simp: py_round_def Let_def)
  qed
qed

text \<open>\<^verbatim>\<open>round(x, d)\<close> on an exact value.\<close>

definition py_round_to :: "nat \<Rightarrow> 'a::floor_ceiling \<Rightarrow> 'a" where
  "py_round_to d x = of_int (py_round (x * 10 ^ d)) / 10 ^ d"

section \<open>Printing numbers\<close>

definition digit_char :: "nat \<Rightarrow> char" where
  "digit_char n = char_of (48 + n)"

fun show_nat :: "nat \<Rightarrow> string" where
  "show_nat n = (if n < 10 then [digit_char n] else show_nat (n div 10) @ [digit_char (n mod 10)])"

declare show_nat.simps [simp del]

definition show_int :: "int \<Rightarrow> string" where
  "show_int i = (if i < 0 then ''-'' @ show_nat (nat (- i)) else show_nat (nat i))"

definition read_digits :: "string \<Rightarrow> nat" where
  "read_digits s = foldl (\<lambda>a c. 10 * a + (of_char c - 48)) 0 s"

lemma of_char_digit: "n < 10 \<Longrightarrow> (of_char (digit_char n) :: nat) = 48 + n"
  by (simp add: digit_char_def of_char_of)

lemma read_show_nat: "read_digits (show_nat n) = n"
proof (induction n rule: show_nat.induct)
  case (1 n)
  show ?case
  proof (cases "n < 10")
    case True
    then show ?thesis by (simp add: show_nat.simps [of n] read_digits_def of_char_digit)
  next
    case False
    with 1 have "read_digits (show_nat (n div 10)) = n div 10" by simp
    with False show ?thesis
      by (simp add: show_nat.simps [of n] read_digits_def of_char_digit)
  qed
qed

lemma show_nat_inj: "show_nat m = show_nat n \<longleftrightarrow> m = n"
  by (metis read_show_nat)

lemma show_nat_nonempty [simp]: "show_nat n \<noteq> []"
  by (subst show_nat.simps) simp

text \<open>\<^verbatim>\<open>f"{x:.1f}"\<close>: one decimal, halves to even, the sign of \<open>x\<close> kept.\<close>

definition fmt1 :: "rat \<Rightarrow> string" where
  "fmt1 x =
     (let t = nat (py_round (\<bar>x\<bar> * 10))
      in (if x < 0 then ''-'' else []) @ show_nat (t div 10) @ ''.'' @ [digit_char (t mod 10)])"

text \<open>\<^verbatim>\<open>f"{x:.df}"\<close> in general, and \<^verbatim>\<open>str(x)\<close> of a float: the shortest decimal that is exactly \<open>x\<close>, with
  at least one and at most 17 places (numbers below \<^term>\<open>10 ^ 16 :: nat\<close>, which Python prints without an exponent).\<close>

definition pad_digits :: "nat \<Rightarrow> string \<Rightarrow> string" where
  "pad_digits d s = replicate (d - length s) (CHR ''0'') @ s"

definition fmt_fixed :: "nat \<Rightarrow> 'a::floor_ceiling \<Rightarrow> string" where
  "fmt_fixed d x =
     (let t = nat (py_round (\<bar>x\<bar> * 10 ^ d))
      in (if x < 0 then ''-'' else []) @ show_nat (t div 10 ^ d) @
         (if d = 0 then [] else ''.'' @ pad_digits d (show_nat (t mod 10 ^ d))))"

definition show_float :: "'a::floor_ceiling \<Rightarrow> string" where
  "show_float x =
     (case find (\<lambda>d. of_int \<lfloor>x * 10 ^ d\<rfloor> = x * 10 ^ d) [1..<18] of
        None \<Rightarrow> fmt_fixed 17 x | Some d \<Rightarrow> fmt_fixed d x)"

section \<open>Strings\<close>

text \<open>\<^verbatim>\<open>s.lower()\<close> on ASCII letters; other characters are kept.\<close>

definition lower_char :: "char \<Rightarrow> char" where
  "lower_char c =
     (let n = of_char c :: nat in if 65 \<le> n \<and> n \<le> 90 then char_of (n + 32) else c)"

definition lower :: "string \<Rightarrow> string" where
  "lower s = map lower_char s"

text \<open>\<^verbatim>\<open>s.strip()\<close> on ASCII white space.\<close>

definition is_space :: "char \<Rightarrow> bool" where
  "is_space c = (let n = of_char c :: nat in (9 \<le> n \<and> n \<le> 13) \<or> (28 \<le> n \<and> n \<le> 32))"

definition py_strip :: "string \<Rightarrow> string" where
  "py_strip s = rev (dropWhile is_space (rev (dropWhile is_space s)))"

text \<open>\<^verbatim>\<open>x in s\<close> for strings.\<close>

definition contains :: "string \<Rightarrow> string \<Rightarrow> bool" where
  "contains x s = list_ex (prefix x) (suffixes s)"

lemma contains_iff: "contains x s \<longleftrightarrow> sublist x s"
  by (auto simp: contains_def list_ex_iff sublist_altdef')

text \<open>\<^verbatim>\<open>sep.join(xs)\<close>.\<close>

fun py_join :: "string \<Rightarrow> string list \<Rightarrow> string" where
  "py_join sep [] = []"
| "py_join sep [x] = x"
| "py_join sep (x # y # ys) = x @ sep @ py_join sep (y # ys)"

text \<open>\<^verbatim>\<open>repr(s)\<close> of a printable string.\<close>

definition py_repr :: "string \<Rightarrow> string" where
  "py_repr s =
     (let q = (if CHR 0x27 \<in> set s \<and> CHR 0x22 \<notin> set s then CHR 0x22 else CHR 0x27);
          esc = (\<lambda>c. if c = CHR 0x5C \<or> c = q then [CHR 0x5C, c] else [c])
      in [q] @ concat (map esc s) @ [q])"

section \<open>Optional values\<close>

text \<open>\<^verbatim>\<open>x or d\<close> for an optional number: \<open>None\<close> and zero give the default.\<close>

definition or_num :: "'a::zero option \<Rightarrow> 'a \<Rightarrow> 'a" where
  "or_num x d = (case x of None \<Rightarrow> d | Some v \<Rightarrow> if v = 0 then d else v)"

text \<open>\<^verbatim>\<open>x or d\<close> for an optional string or list: \<open>None\<close> and the empty one give the default.\<close>

definition or_list :: "'a list option \<Rightarrow> 'a list \<Rightarrow> 'a list" where
  "or_list x d = (case x of None \<Rightarrow> d | Some v \<Rightarrow> if v = [] then d else v)"

lemma or_num_simps [simp]: "or_num None d = d" "or_num (Some v) d = (if v = 0 then d else v)"
  by (simp_all add: or_num_def)

lemma or_list_simps [simp]: "or_list None d = d" "or_list (Some v) d = (if v = [] then d else v)"
  by (simp_all add: or_list_def)

lemma find_SomeD: "find P xs = Some x \<Longrightarrow> x \<in> set xs \<and> P x"
  by (induction xs) (auto split: if_splits)

section \<open>Sorting by a key\<close>

lemma hd_sort_key_min:
  assumes "xs \<noteq> []" and "y \<in> set xs"
  shows "f (hd (sort_key f xs)) \<le> f y"
proof -
  have ne: "sort_key f xs \<noteq> []" using assms(1) by (metis set_empty set_sort)
  have "sorted (map f (sort_key f xs))" by simp
  with ne have "\<forall>z \<in> set (sort_key f xs). f (hd (sort_key f xs)) \<le> f z"
    by (cases "sort_key f xs") auto
  with assms(2) show ?thesis by simp
qed

lemma hd_sort_key_mem: "xs \<noteq> [] \<Longrightarrow> hd (sort_key f xs) \<in> set xs"
  by (metis hd_in_set set_empty set_sort)

end
