(* ===== verification/Residency.thy ===== *)
theory Residency
  imports Prelude
begin

text \<open>
  The per-host residency model of the agent (\<^verbatim>\<open>src/agent/providers/residency.py\<close>): entries
  built from each provider's listing, the aggregate state of a host, the reconciliation of
  one collector tick with the one before, the merge of one event-stream status, the power
  profile a host should run, and the projections the manager reads.

  The lemmas show which listing gives which aggregate, that the counter of unknown ticks
  counts exactly the trailing unknown aggregates of a run, when the desired power profile
  holds or drops, that a merged status changes its own model only, and that the diff of two
  residencies lists exactly the keys that changed.
\<close>

section \<open>Data\<close>

datatype status = Loading | Loaded | Sleeping | Unloaded | Downloading | Failed | Unknown

datatype aggregate_state = Active | AggLoading | AggSleeping | Idle | Off | AggUnknown

datatype server_state = Up | Down | ServerUnknown

datatype profile = Performance | Powersave

datatype profile_or_hold = Profile profile | Hold

record model_entry =
  me_provider :: string
  me_model_id :: string
  me_status :: status
  me_ts :: secs

record residency =
  res_models :: "model_entry list"
  res_servers :: "(string, server_state) dict"
  res_aggregate :: aggregate_state
  res_ts :: secs
  res_source :: string
  res_unknown_ticks :: int
  res_unknown_ticks_max :: int

text \<open>The status names of \<^verbatim>\<open>STATUSES\<close>; any other string has no status of its own.\<close>

definition STATUSES :: "(string \<times> status) list" where
  "STATUSES =
     [(''loading'', Loading), (''loaded'', Loaded), (''sleeping'', Sleeping),
      (''unloaded'', Unloaded), (''downloading'', Downloading), (''failed'', Failed),
      (''unknown'', Unknown)]"

definition status_of :: "string \<Rightarrow> status option" where
  "status_of s = map_of STATUSES s"

section \<open>Entries\<close>

definition model_entry :: "string \<Rightarrow> string \<Rightarrow> string \<Rightarrow> secs \<Rightarrow> model_entry" where
  "model_entry provider model_id st ts =
     \<lparr>me_provider = provider, me_model_id = model_id,
      me_status = (case status_of st of Some s \<Rightarrow> s | None \<Rightarrow> Unknown), me_ts = ts\<rparr>"

text \<open>
  One element of a \<^verbatim>\<open>/v1/models\<close> body that is a JSON object with an \<open>id\<close>: its \<open>status\<close> is
  absent (or not an object), or an object whose \<open>value\<close> may be missing.
\<close>

record api_model =
  am_id :: string
  am_status :: "string option option"

fun status_name :: "status \<Rightarrow> string" where
  "status_name Loading = ''loading''"
| "status_name Loaded = ''loaded''"
| "status_name Sleeping = ''sleeping''"
| "status_name Unloaded = ''unloaded''"
| "status_name Downloading = ''downloading''"
| "status_name Failed = ''failed''"
| "status_name Unknown = ''unknown''"

definition llama_status :: "bool \<Rightarrow> api_model \<Rightarrow> string" where
  "llama_status has_status m =
     (if has_status then
        (let sv = lower (or_list (case am_status m of Some v \<Rightarrow> v | None \<Rightarrow> None) [])
         in if status_of sv \<noteq> None then sv else ''unknown'')
      else ''loaded'')"

definition llama_models_from_api ::
  "api_model option list \<Rightarrow> (string, bool option) dict \<Rightarrow> secs \<Rightarrow> model_entry list" where
  "llama_models_from_api data props_sleeping ts =
     (let entries = [m. Some m \<leftarrow> data, am_id m \<noteq> []];
          has_status = (\<exists>m \<in> set entries. am_status m \<noteq> None)
      in map (\<lambda>m. let st = llama_status has_status m;
                      st' = (if st = ''loaded'' \<and> dict_get props_sleeping (am_id m) = Some (Some True)
                             then ''sleeping'' else st)
                  in model_entry ''llama'' (am_id m) st' ts) entries)"

definition vllm_models_from_api :: "string list option \<Rightarrow> secs \<Rightarrow> model_entry list \<times> server_state" where
  "vllm_models_from_api ids ts =
     (case ids of
        None \<Rightarrow> ([], Down)
      | Some is \<Rightarrow> (map (\<lambda>i. model_entry ''vllm'' i ''loaded'' ts) (filter (\<lambda>i. i \<noteq> []) is), Up))"

record ps_row =
  ps_model :: "string option"
  ps_identifier :: "string option"

definition lms_models_from_ps ::
  "ps_row option list option \<Rightarrow> bool option \<Rightarrow> secs \<Rightarrow> model_entry list \<times> server_state" where
  "lms_models_from_ps rows server_on ts =
     (let server = (case server_on of None \<Rightarrow> ServerUnknown | Some b \<Rightarrow> if b then Up else Down)
      in case rows of
           None \<Rightarrow> ([], server)
         | Some rs \<Rightarrow>
             ([model_entry ''lms'' mid ''loaded'' ts.
                 Some r \<leftarrow> rs, mid \<leftarrow> [or_list (ps_model r) (or_list (ps_identifier r) [])], mid \<noteq> []],
              server))"

section \<open>Aggregate and reconciliation\<close>

definition aggregate :: "model_entry list \<Rightarrow> (string, server_state) dict \<Rightarrow> aggregate_state" where
  "aggregate models servers =
     (let statuses = map me_status models; states = dict_values servers
      in if Loaded \<in> set statuses then Active
         else if Loading \<in> set statuses \<or> Downloading \<in> set statuses then AggLoading
         else if Sleeping \<in> set statuses then AggSleeping
         else if states = [] \<or> ServerUnknown \<in> set states then AggUnknown
         else if Up \<in> set states then Idle
         else Off)"

text \<open>
  \<open>prev_ticks\<close> is \<^verbatim>\<open>int((prev or {}).get("unknown_ticks") or 0)\<close>: the only field of the previous
  residency that \<^verbatim>\<open>reconcile\<close> reads.
\<close>

definition reconcile ::
  "int option \<Rightarrow> model_entry list \<Rightarrow> (string, server_state) dict \<Rightarrow> secs \<Rightarrow> string \<Rightarrow> int \<Rightarrow> residency" where
  "reconcile prev_ticks models servers ts source unknown_ticks_max =
     (let agg = aggregate models servers;
          ticks = (if agg = AggUnknown then or_num prev_ticks 0 + 1 else 0)
      in \<lparr>res_models = models, res_servers = servers, res_aggregate = agg, res_ts = ts,
          res_source = source, res_unknown_ticks = ticks, res_unknown_ticks_max = unknown_ticks_max\<rparr>)"

text \<open>The entries with the merged status: every matching entry is rewritten, else one is appended.\<close>

definition sse_hit :: "string \<Rightarrow> model_entry \<Rightarrow> bool" where
  "sse_hit mid m \<longleftrightarrow> me_provider m = ''llama'' \<and> me_model_id m = mid"

definition sse_set :: "string \<Rightarrow> status \<Rightarrow> secs \<Rightarrow> model_entry \<Rightarrow> model_entry" where
  "sse_set mid sv ts m = (if sse_hit mid m then m\<lparr>me_status := sv, me_ts := ts\<rparr> else m)"

definition merge_status :: "string \<Rightarrow> status \<Rightarrow> secs \<Rightarrow> model_entry list \<Rightarrow> model_entry list" where
  "merge_status mid sv ts models =
     (if list_ex (sse_hit mid) models then map (sse_set mid sv ts) models
      else models @ [model_entry ''llama'' mid (status_name sv) ts])"

definition apply_sse_delta :: "residency option \<Rightarrow> string \<Rightarrow> string option \<Rightarrow> secs \<Rightarrow> residency" where
  "apply_sse_delta res mid st ts =
     (let models = (case res of None \<Rightarrow> [] | Some r \<Rightarrow> res_models r);
          servers = dict_setdefault ''llama'' Up (case res of None \<Rightarrow> [] | Some r \<Rightarrow> res_servers r);
          ticks = (case res of None \<Rightarrow> 0 | Some r \<Rightarrow> res_unknown_ticks r);
          limit = or_num (Some (case res of None \<Rightarrow> 6 | Some r \<Rightarrow> res_unknown_ticks_max r)) 6;
          models' = (case status_of (lower (or_list st [])) of
                       None \<Rightarrow> models
                     | Some sv \<Rightarrow> if sv = Unknown then models else merge_status mid sv ts models);
          out = reconcile (Some ticks) models' servers ts ''sse'' limit
      in out\<lparr>res_unknown_ticks := (if res_aggregate out \<noteq> AggUnknown then 0 else res_unknown_ticks out)\<rparr>)"

section \<open>Projections\<close>

definition desired_profile :: "residency option \<Rightarrow> int \<Rightarrow> profile_or_hold" where
  "desired_profile res unknown_ticks_max =
     (case res of
        None \<Rightarrow> Hold
      | Some r \<Rightarrow>
          (if res_aggregate r \<in> {Active, AggLoading} then Profile Performance
           else if res_aggregate r \<in> {AggSleeping, Idle, Off} then Profile Powersave
           else (let limit = or_num (Some (res_unknown_ticks_max r)) unknown_ticks_max
                 in if res_unknown_ticks r \<ge> limit then Profile Powersave else Hold)))"

definition legacy_state :: "residency option \<Rightarrow> string" where
  "legacy_state res =
     (case res of
        None \<Rightarrow> ''unknown''
      | Some r \<Rightarrow>
          (if res_aggregate r \<in> {Active, AggLoading, Idle} then ''awake''
           else if res_aggregate r = AggSleeping then ''sleeping''
           else ''unknown''))"

definition entry_key :: "model_entry \<Rightarrow> string" where
  "entry_key m = me_provider m @ '':'' @ me_model_id m"

text \<open>The dictionary comprehension of \<^verbatim>\<open>keyed\<close>: a later entry with the same key wins.\<close>

definition keyed :: "residency option \<Rightarrow> (string, status) dict" where
  "keyed r =
     dict_comp entry_key me_status (case r of None \<Rightarrow> [] | Some x \<Rightarrow> res_models x) []"

definition changed_models :: "residency option \<Rightarrow> residency \<Rightarrow> string list" where
  "changed_models prev cur =
     (let a = keyed prev; b = keyed (Some cur)
      in sort (filter (\<lambda>k. dict_get a k \<noteq> dict_get b k) (remdups (dict_keys a @ dict_keys b))))"

definition provider_subset :: "residency option \<Rightarrow> string \<Rightarrow> residency option" where
  "provider_subset res provider =
     (case res of
        None \<Rightarrow> None
      | Some r \<Rightarrow>
          (let models = filter (\<lambda>m. me_provider m = provider) (res_models r);
               servers = [(provider, dict_get_or (res_servers r) provider ServerUnknown)];
               out = reconcile None models servers (res_ts r)
                       (or_list (Some (res_source r)) ''reconciled'')
                       (or_num (Some (res_unknown_ticks_max r)) 6)
           in Some (out\<lparr>res_unknown_ticks := res_unknown_ticks r\<rparr>)))"

text \<open>One tick's observation and the residency after a run of ticks, newest last.\<close>

type_synonym tick = "model_entry list \<times> (string, server_state) dict \<times> secs"

definition tick_unknown :: "tick \<Rightarrow> bool" where
  "tick_unknown t = (case t of (ms, sv, ts) \<Rightarrow> aggregate ms sv = AggUnknown)"

definition tick_step :: "int \<Rightarrow> residency option \<Rightarrow> tick \<Rightarrow> residency option" where
  "tick_step mx r t =
     (case t of (ms, sv, ts) \<Rightarrow>
        Some (reconcile (map_option res_unknown_ticks r) ms sv ts ''reconciled'' mx))"

definition reconcile_run :: "int \<Rightarrow> tick list \<Rightarrow> residency option" where
  "reconcile_run mx ticks = foldl (tick_step mx) None ticks"

definition trailing_unknown :: "tick list \<Rightarrow> nat" where
  "trailing_unknown ticks = length (takeWhile tick_unknown (rev ticks))"

section \<open>Which listing gives which aggregate\<close>

lemma status_of_name [simp]: "status_of (status_name s) = Some s"
  by (cases s) (simp_all add: status_of_def STATUSES_def)

lemma aggregate_Active_iff: "aggregate ms sv = Active \<longleftrightarrow> Loaded \<in> me_status ` set ms"
  by (auto simp: aggregate_def Let_def)

lemma reconcile_simps [simp]:
  "res_models (reconcile p ms sv ts src mx) = ms"
  "res_servers (reconcile p ms sv ts src mx) = sv"
  "res_aggregate (reconcile p ms sv ts src mx) = aggregate ms sv"
  "res_ts (reconcile p ms sv ts src mx) = ts"
  "res_source (reconcile p ms sv ts src mx) = src"
  "res_unknown_ticks_max (reconcile p ms sv ts src mx) = mx"
  by (simp_all add: reconcile_def Let_def)

lemma reconcile_ticks:
  "res_unknown_ticks (reconcile p ms sv ts src mx) =
     (if aggregate ms sv = AggUnknown then or_num p 0 + 1 else 0)"
  by (simp add: reconcile_def Let_def)

section \<open>A run of collector ticks\<close>

lemma or_num_zero [simp]: "or_num (Some v) 0 = (v :: int)"
  by simp

lemma reconcile_run_snoc: "reconcile_run mx (ts @ [t]) = tick_step mx (reconcile_run mx ts) t"
  by (simp add: reconcile_run_def)

lemma reconcile_run_last:
  assumes "ticks \<noteq> []"
  shows "\<exists>r. reconcile_run mx ticks = Some r \<and>
    res_unknown_ticks r = int (trailing_unknown ticks) \<and> res_unknown_ticks_max r = mx \<and>
    res_aggregate r = aggregate (fst (last ticks)) (fst (snd (last ticks)))"
  using assms
proof (induction ticks rule: rev_induct)
  case Nil
  then show ?case by simp
next
  case (snoc t ts)
  obtain ms sv tm where t: "t = (ms, sv, tm)" by (cases t)
  show ?case
  proof (cases "ts = []")
    case True
    then show ?thesis
      by (simp add: t reconcile_run_def tick_step_def reconcile_ticks trailing_unknown_def
          tick_unknown_def)
  next
    case False
    with snoc.IH show ?thesis
      by (auto simp: t reconcile_run_snoc tick_step_def reconcile_ticks trailing_unknown_def
          tick_unknown_def)
  qed
qed

text \<open>
  after a run of collector ticks the desired profile follows the newest aggregate: performance
  while something is loaded or loading, powersave while everything sleeps, is idle or off; when the
  newest aggregate is unknown the profile is held exactly while fewer than \<open>mx\<close> unknown ticks
  came in a row, and is powersave from the \<open>mx\<close>-th one on.
\<close>

theorem desired_profile_after_run:
  assumes "ticks \<noteq> []" and "mx > 0"
  shows "desired_profile (reconcile_run mx ticks) d =
    (case aggregate (fst (last ticks)) (fst (snd (last ticks))) of
       Active \<Rightarrow> Profile Performance | AggLoading \<Rightarrow> Profile Performance
     | AggSleeping \<Rightarrow> Profile Powersave | Idle \<Rightarrow> Profile Powersave | Off \<Rightarrow> Profile Powersave
     | AggUnknown \<Rightarrow> if int (trailing_unknown ticks) < mx then Hold else Profile Powersave)"
proof -
  obtain r where r: "reconcile_run mx ticks = Some r"
    "res_unknown_ticks r = int (trailing_unknown ticks)" "res_unknown_ticks_max r = mx"
    "res_aggregate r = aggregate (fst (last ticks)) (fst (snd (last ticks)))"
    using reconcile_run_last [OF assms(1)] by blast
  with assms(2) show ?thesis
    by (auto simp: desired_profile_def split: aggregate_state.splits)
qed

theorem desired_profile_after_run_witness:
  "desired_profile (reconcile_run 2 [([], [(''llama'', ServerUnknown)], 0), ([], [], 5)]) 6
     = Profile Powersave"
  using desired_profile_after_run [of "[([], [(''llama'', ServerUnknown)], 0), ([], [], 5)]" 2 6]
  by (simp add: aggregate_def trailing_unknown_def tick_unknown_def)

section \<open>Merging one event-stream status\<close>

lemma keyed_get:
  "dict_get (keyed r) k =
     map_option me_status (find (\<lambda>m. entry_key m = k) (rev (case r of None \<Rightarrow> [] | Some x \<Rightarrow> res_models x)))"
  by (simp add: keyed_def dict_comp_get split: option.splits)

lemma set_changed_models:
  "set (changed_models prev cur) = {k. dict_get (keyed prev) k \<noteq> dict_get (keyed (Some cur)) k}"
proof -
  have "k \<in> set (dict_keys (keyed prev)) \<union> set (dict_keys (keyed (Some cur)))"
    if "dict_get (keyed prev) k \<noteq> dict_get (keyed (Some cur)) k" for k
    using that by (metis UnI1 UnI2 list.set_map map_of_eq_None_iff)
  then show ?thesis by (auto simp: changed_models_def Let_def)
qed

text \<open>
  \<open>changed_models\<close> returns, in ascending order and without repetition, exactly the keys whose
  status differs between the two residencies.
\<close>

theorem changed_models_exact:
  "sorted (changed_models prev cur) \<and> distinct (changed_models prev cur) \<and>
   set (changed_models prev cur) = {k. dict_get (keyed prev) k \<noteq> dict_get (keyed (Some cur)) k}"
  by (simp add: set_changed_models) (simp add: changed_models_def Let_def)

lemma find_cong_off_key:
  assumes "\<And>m. m \<in> set ms \<Longrightarrow> entry_key (h m) = entry_key m"
    and "\<And>m. m \<in> set ms \<Longrightarrow> entry_key m = k \<Longrightarrow> h m = m"
  shows "map_option me_status (find (\<lambda>m. entry_key m = k) (map h ms)) =
         map_option me_status (find (\<lambda>m. entry_key m = k) ms)"
  using assms by (induction ms) auto

lemma sse_set_simps [simp]:
  "me_provider (sse_set mid sv ts m) = me_provider m"
  "me_model_id (sse_set mid sv ts m) = me_model_id m"
  "entry_key (sse_set mid sv ts m) = entry_key m"
  "sse_hit mid (sse_set mid' sv ts m) = sse_hit mid m"
  "sse_hit mid m \<Longrightarrow> me_status (sse_set mid sv ts m) = sv"
  by (simp_all add: sse_set_def entry_key_def sse_hit_def)

lemma sse_hit_key: "sse_hit mid m \<Longrightarrow> entry_key m = ''llama:'' @ mid"
  by (simp add: sse_hit_def entry_key_def)

lemma new_entry_simps [simp]:
  "sse_hit mid (model_entry ''llama'' mid s ts)"
  "me_status (model_entry p mid (status_name sv) ts) = sv"
  by (simp_all add: sse_hit_def model_entry_def)

lemma merge_status_other_key:
  assumes "k \<noteq> ''llama:'' @ mid"
  shows "map_option me_status (find (\<lambda>m. entry_key m = k) (rev (merge_status mid sv ts ms))) =
         map_option me_status (find (\<lambda>m. entry_key m = k) (rev ms))"
proof (cases "list_ex (sse_hit mid) ms")
  case True
  have "map_option me_status (find (\<lambda>m. entry_key m = k) (map (sse_set mid sv ts) (rev ms))) =
      map_option me_status (find (\<lambda>m. entry_key m = k) (rev ms))"
    using assms by (intro find_cong_off_key) (simp, auto simp: sse_set_def dest: sse_hit_key)
  with True show ?thesis by (simp add: merge_status_def rev_map)
next
  case False
  have "entry_key (model_entry ''llama'' mid (status_name sv) ts) = ''llama:'' @ mid"
    by (rule sse_hit_key) simp
  with assms False show ?thesis by (simp add: merge_status_def)
qed

text \<open>
  one event-stream status changes the status of at most its own llama model: every other
  \<open>provider:model\<close> key of the residency reads as before.
\<close>

theorem apply_sse_delta_local:
  "set (changed_models (Some r) (apply_sse_delta (Some r) mid st ts)) \<subseteq> {''llama:'' @ mid}"
proof -
  have "dict_get (keyed (Some r)) k = dict_get (keyed (Some (apply_sse_delta (Some r) mid st ts))) k"
    if "k \<noteq> ''llama:'' @ mid" for k
    using merge_status_other_key [OF that]
    by (auto simp: keyed_get apply_sse_delta_def Let_def split: option.splits)
  then show ?thesis by (auto simp: set_changed_models)
qed

lemma merge_status_own_key:
  "m \<in> set (merge_status mid sv ts ms) \<Longrightarrow> sse_hit mid m \<Longrightarrow> me_status m = sv"
  by (auto simp: merge_status_def list_ex_iff split: if_splits)

lemma merge_status_present: "\<exists>m \<in> set (merge_status mid sv ts ms). sse_hit mid m \<and> me_status m = sv"
  by (auto simp: merge_status_def list_ex_iff)

text \<open>
  a known status that arrives on the event stream is the status of every entry of its model in
  the new residency, the model has an entry, and a \<open>loaded\<close> one makes the host active with no
  unknown tick pending.
\<close>

theorem apply_sse_delta_sets:
  assumes "status_of (lower st) = Some sv" and "sv \<noteq> Unknown"
  shows "(\<exists>m \<in> set (res_models (apply_sse_delta r mid (Some st) ts)). sse_hit mid m) \<and>
    (\<forall>m \<in> set (res_models (apply_sse_delta r mid (Some st) ts)). sse_hit mid m \<longrightarrow> me_status m = sv) \<and>
    (sv = Loaded \<longrightarrow> desired_profile (Some (apply_sse_delta r mid (Some st) ts)) d = Profile Performance \<and>
       res_unknown_ticks (apply_sse_delta r mid (Some st) ts) = 0)"
proof -
  have ne: "st \<noteq> []" using assms(1) by (auto simp: lower_def status_of_def STATUSES_def)
  have ms: "res_models (apply_sse_delta r mid (Some st) ts) =
      merge_status mid sv ts (case r of None \<Rightarrow> [] | Some x \<Rightarrow> res_models x)"
    using assms ne by (simp add: apply_sse_delta_def Let_def)
  have agg: "res_aggregate (apply_sse_delta r mid (Some st) ts) =
      aggregate (res_models (apply_sse_delta r mid (Some st) ts))
        (res_servers (apply_sse_delta r mid (Some st) ts))"
    by (simp add: apply_sse_delta_def Let_def)
  have act: "res_aggregate (apply_sse_delta r mid (Some st) ts) = Active" if "sv = Loaded"
    unfolding agg aggregate_Active_iff ms
    using that merge_status_present [of mid sv ts] by force
  moreover have "res_unknown_ticks (apply_sse_delta r mid (Some st) ts) = 0"
    if "res_aggregate (apply_sse_delta r mid (Some st) ts) = Active"
    using that by (simp add: apply_sse_delta_def Let_def)
  ultimately have "sv = Loaded \<longrightarrow>
      desired_profile (Some (apply_sse_delta r mid (Some st) ts)) d = Profile Performance \<and>
      res_unknown_ticks (apply_sse_delta r mid (Some st) ts) = 0"
    by (simp add: desired_profile_def)
  then show ?thesis
    unfolding ms using merge_status_present [of mid sv ts] merge_status_own_key [of _ mid sv ts]
    by blast
qed

theorem apply_sse_delta_sets_witness:
  "desired_profile (Some (apply_sse_delta None ''qwen'' (Some ''Loaded'') 7)) 6 = Profile Performance"
proof -
  have "status_of (lower ''Loaded'') = Some Loaded" by code_simp
  from apply_sse_delta_sets [OF this, of None "''qwen''" 7 6] show ?thesis by simp
qed

section \<open>Restriction to one provider\<close>

text \<open>
  restricting a residency to a provider is idempotent, and the host is active exactly when the
  restriction to some provider is.
\<close>

theorem provider_subset_laws:
  "provider_subset (provider_subset r p) p = provider_subset r p \<and>
   (\<forall>x. r = Some x \<and> res_aggregate x = aggregate (res_models x) (res_servers x) \<longrightarrow>
      (res_aggregate x = Active) =
      (\<exists>p y. provider_subset r p = Some y \<and> res_aggregate y = Active))"
  by (auto simp: provider_subset_def Let_def dict_get_or_def aggregate_Active_iff split: option.splits)

end
