(* ===== verification/Interfaces.thy ===== *)
theory Interfaces
  imports Prelude
begin

text \<open>
  The contracts that several components share, as locales whose lemmas are proved once and
  reused through interpretations on the components' own definitions.

  \<^item> \<open>pruned_window\<close>: a queue of time-stamped elements whose expired head is dropped, as the rate
    counters, the switch limiter of the power arbiter and the counter ring of the agent do.
  \<^item> \<open>machine\<close>: a deterministic component driven by events, with an invariant every event keeps;
    \<open>guarded_machine\<close> adds a transition property that holds for every step of a run.
\<close>

section \<open>Queues pruned by age\<close>

text \<open>\<^verbatim>\<open>deque(maxlen=m).append(x)\<close>: a full queue loses its oldest element.\<close>

definition lastn :: "nat \<Rightarrow> 'a list \<Rightarrow> 'a list" where
  "lastn m xs = drop (length xs - m) xs"

definition push_max :: "nat \<Rightarrow> 'a \<Rightarrow> 'a list \<Rightarrow> 'a list" where
  "push_max m x xs = lastn m (xs @ [x])"

lemma length_lastn [simp]: "length (lastn m xs) = min m (length xs)"
  by (simp add: lastn_def)

lemma set_lastn: "set (lastn m xs) \<subseteq> set xs"
  by (simp add: lastn_def set_drop_subset)

lemma push_max_lastn: "push_max m x (lastn m xs) = lastn m (xs @ [x])"
proof (cases "length xs \<le> m")
  case True
  then show ?thesis by (simp add: push_max_def lastn_def)
next
  case False
  then have "length xs - m + (Suc m - m) = Suc (length xs) - m" by simp
  with False show ?thesis by (cases m) (auto simp: push_max_def lastn_def)
qed

locale pruned_window =
  fixes stamp :: "'e \<Rightarrow> secs"
    and expired :: "secs \<Rightarrow> 'e \<Rightarrow> bool"
  assumes expired_older: "expired now e \<Longrightarrow> stamp e' \<le> stamp e \<Longrightarrow> expired now e'"
    and expired_later: "expired now e \<Longrightarrow> now \<le> now' \<Longrightarrow> expired now' e"
begin

lemma prune_eq_filter:
  "sorted (map stamp es) \<Longrightarrow> dropWhile (expired now) es = filter (\<lambda>e. \<not> expired now e) es"
proof (induction es)
  case Nil
  show ?case by simp
next
  case (Cons e es)
  show ?case
  proof (cases "expired now e")
    case True
    with Cons show ?thesis by simp
  next
    case False
    have "\<not> expired now x" if "x \<in> set es" for x
      using that Cons.prems False expired_older by fastforce
    with False show ?thesis by (simp add: filter_id_conv)
  qed
qed

lemma prune_sorted: "sorted (map stamp es) \<Longrightarrow> sorted (map stamp (dropWhile (expired now) es))"
  by (metis sorted_wrt_drop dropWhile_eq_drop drop_map)

lemma prune_live: "sorted (map stamp es) \<Longrightarrow> e \<in> set (dropWhile (expired now) es) \<Longrightarrow> \<not> expired now e"
  by (simp add: prune_eq_filter)

text \<open>
  \<open>tracks t0 h q\<close>: the queue \<open>q\<close> is what is left of the whole history \<open>h\<close> of appended elements
  after prunings that happened no later than \<open>t0\<close>.
\<close>

definition tracks :: "secs \<Rightarrow> 'e list \<Rightarrow> 'e list \<Rightarrow> bool" where
  "tracks t0 h q \<longleftrightarrow> sorted (map stamp h) \<and> (\<exists>d. h = d @ q \<and> (\<forall>x \<in> set d. expired t0 x))"

lemma tracks_empty [simp]: "tracks t0 [] []"
  by (simp add: tracks_def)

lemma tracks_sorted: "tracks t0 h q \<Longrightarrow> sorted (map stamp q)"
  by (auto simp: tracks_def sorted_append)

lemma tracks_append:
  assumes "tracks t0 h q" and "\<forall>x \<in> set h. stamp x \<le> stamp e"
  shows "tracks t0 (h @ [e]) (q @ [e])"
  using assms by (auto simp: tracks_def sorted_append)

lemma tracks_prune:
  assumes "tracks t0 h q" and "t0 \<le> now"
  shows "tracks now h (dropWhile (expired now) q)"
proof -
  obtain d where h: "h = d @ q" and d: "\<forall>x \<in> set d. expired t0 x" and so: "sorted (map stamp h)"
    using assms(1) by (auto simp: tracks_def)
  have "h = (d @ takeWhile (expired now) q) @ dropWhile (expired now) q" by (simp add: h)
  moreover have "\<forall>x \<in> set (d @ takeWhile (expired now) q). expired now x"
    using d assms(2) by (auto intro: expired_later dest: set_takeWhileD)
  ultimately show ?thesis using so unfolding tracks_def by blast
qed

lemma tracks_live:
  assumes "tracks t0 h q" and "t0 \<le> now"
  shows "filter (\<lambda>e. \<not> expired now e) h = dropWhile (expired now) q"
proof -
  obtain d where h: "h = d @ q" and d: "\<forall>x \<in> set d. expired t0 x"
    using assms(1) by (auto simp: tracks_def)
  have "filter (\<lambda>e. \<not> expired now e) d = []"
    using d assms(2) by (auto simp: filter_empty_conv intro: expired_later)
  then show ?thesis
    using prune_eq_filter [OF tracks_sorted [OF assms(1)], of now] by (simp add: h)
qed

text \<open>
  With a length limit \<open>m\<close> as well: \<open>keeps m t0 h q\<close> says that \<open>q\<close> is the last \<open>m\<close> elements of the
  part of the history that had not expired at \<open>t0\<close>.
\<close>

definition keeps :: "nat \<Rightarrow> secs \<Rightarrow> 'e list \<Rightarrow> 'e list \<Rightarrow> bool" where
  "keeps m t0 h q \<longleftrightarrow> sorted (map stamp h) \<and> q = lastn m (filter (\<lambda>e. \<not> expired t0 e) h)"

lemma keeps_empty [simp]: "keeps m t0 [] []"
  by (simp add: keeps_def lastn_def)

lemma keeps_sorted: "keeps m t0 h q \<Longrightarrow> sorted (map stamp q)"
  unfolding keeps_def lastn_def by (metis drop_map sorted_filter sorted_wrt_drop)

lemma filter_lastn:
  assumes "sorted (map stamp xs)"
  shows "filter (\<lambda>e. \<not> expired now e) (lastn m xs) = lastn m (filter (\<lambda>e. \<not> expired now e) xs)"
proof -
  define k where "k = length (takeWhile (expired now) xs)"
  have drop: "filter (\<lambda>e. \<not> expired now e) xs = drop k xs"
    using prune_eq_filter [OF assms, of now] by (simp add: dropWhile_eq_drop k_def)
  let ?j = "length xs - m"
  have so: "sorted (map stamp (drop ?j xs))" using assms by (metis drop_map sorted_wrt_drop)
  have len: "k \<le> length xs" by (simp add: k_def length_takeWhile_le)
  have early: "expired now e" if "e \<in> set (take k xs)" for e
    using that by (metis k_def set_takeWhileD takeWhile_eq_take)
  have late: "\<not> expired now e" if "e \<in> set (drop k xs)" for e
    using that unfolding drop [symmetric] by simp
  have "drop ?j xs = drop ?j (take k xs) @ drop (?j - k) (drop k xs)"
    using len by (metis append_take_drop_id drop_append length_take min.absorb2)
  moreover have "filter (\<lambda>e. \<not> expired now e) (drop ?j (take k xs)) = []"
    by (auto simp: filter_empty_conv intro: early dest: in_set_dropD)
  moreover have "filter (\<lambda>e. \<not> expired now e) (drop (?j - k) (drop k xs)) = drop (?j - k) (drop k xs)"
    unfolding filter_id_conv using late in_set_dropD by metis
  ultimately show ?thesis by (simp add: lastn_def drop add.commute)
qed

lemma keeps_prune:
  assumes "keeps m t0 h q" and "t0 \<le> now"
  shows "keeps m now h (dropWhile (expired now) q)"
proof -
  have so: "sorted (map stamp (filter (\<lambda>e. \<not> expired t0 e) h))"
    using assms(1) by (simp add: keeps_def sorted_filter)
  have "dropWhile (expired now) q = filter (\<lambda>e. \<not> expired now e) q"
    by (rule prune_eq_filter [OF keeps_sorted [OF assms(1)]])
  also have "\<dots> = lastn m (filter (\<lambda>e. \<not> expired now e) (filter (\<lambda>e. \<not> expired t0 e) h))"
    using assms(1) filter_lastn [OF so] by (simp add: keeps_def)
  also have "filter (\<lambda>e. \<not> expired now e) (filter (\<lambda>e. \<not> expired t0 e) h) = filter (\<lambda>e. \<not> expired now e) h"
    using expired_later [OF _ assms(2)] by (auto intro!: filter_cong)
  finally show ?thesis using assms(1) by (simp add: keeps_def)
qed

lemma keeps_push:
  assumes "keeps m t0 h q" and "\<forall>x \<in> set h. stamp x \<le> stamp e" and "\<not> expired t0 e"
  shows "keeps m t0 (h @ [e]) (push_max m e q)"
  using assms by (auto simp: keeps_def sorted_append push_max_lastn)

end

section \<open>Components driven by events\<close>

locale machine =
  fixes start :: "'s \<Rightarrow> bool"
    and step :: "'e \<Rightarrow> 's \<Rightarrow> 's"
    and inv :: "'s \<Rightarrow> bool"
  assumes inv_start: "start s \<Longrightarrow> inv s"
    and inv_step: "inv s \<Longrightarrow> inv (step e s)"
begin

lemma inv_fold: "inv s \<Longrightarrow> inv (fold step es s)"
  by (induction es arbitrary: s) (auto intro: inv_step)

lemma inv_run: "start s \<Longrightarrow> inv (fold step es s)"
  by (intro inv_fold inv_start)

end

locale guarded_machine = machine +
  fixes legal :: "'s \<Rightarrow> 's \<Rightarrow> bool"
  assumes legal_step: "inv s \<Longrightarrow> legal s (step e s)"
    and legal_refl: "legal s s"
    and legal_trans: "legal a b \<Longrightarrow> legal b c \<Longrightarrow> legal a c"
begin

lemma legal_fold: "inv s \<Longrightarrow> legal s (fold step es s)"
proof (induction es arbitrary: s)
  case Nil
  show ?case by (simp add: legal_refl)
next
  case (Cons e es)
  then have "legal (step e s) (fold step es (step e s))" by (intro Cons.IH inv_step)
  with legal_step [OF Cons.prems, of e] show ?case by (auto intro: legal_trans)
qed

lemma legal_run: "start s \<Longrightarrow> legal (fold step es s) (fold step (es @ es') s)"
  by (simp add: legal_fold inv_run)

end

end
