(* ===== verification/PowerArbiter.thy ===== *)
theory PowerArbiter
  imports Residency Interfaces
begin

text \<open>
  The host power arbiter of the agent (\<^verbatim>\<open>src/agent/providers/power_arbiter.py\<close>): job, manual and
  policy owners ask for a power profile, one worker thread applies the profile of the
  highest-priority owner by restarting a systemd unit, at most so many times a minute, and reads
  the result back.

  Every section of the class that runs under its condition variable is one function on the record
  \<open>arbiter\<close>; the worker loop is its decision (\<open>loop_decide\<close>) and the switch it makes
  (\<open>apply_run\<close>, which returns the restarts and record writes it causes next to the new state). What comes from outside (clock readings, the two \<^verbatim>\<open>systemctl\<close> calls, the
  governor, the record file) is an argument. The sets that only keep log lines from repeating
  (\<^verbatim>\<open>_warned_governors\<close>, \<^verbatim>\<open>_warned_switch_error\<close>) are left out, and so are the thread handles.
\<close>

section \<open>Data\<close>

datatype outcome = Verified | Unverifiable | SwitchFailed | Skipped | Deferred

datatype owner = OJob | OManual | OPolicy

datatype arb_mode = Full | Observe | Disabled

datatype arb_exn = ValueError string

record check =
  ck_label :: string
  ck_expected :: string
  ck_actual :: "string option"
  ck_ok :: "bool option"

record readback =
  rb_outcome :: "outcome option"
  rb_checks :: "check list"
  rb_governor :: "string option"
  rb_error :: "string option"

record attempt =
  at_to :: profile
  at_seq :: int
  at_outcome :: outcome
  at_error :: "string option"

record counters =
  c_switches :: int
  c_failures :: int
  c_unverifiable :: int
  c_deferred :: int
  c_reconcile_corrections :: int
  c_unknown_streak_max :: int

record arbiter =
  a_units :: "profile \<Rightarrow> string"
  a_mode :: arb_mode
  a_dwell :: int
  a_cap :: int
  a_holds :: "owner \<Rightarrow> profile option"
  a_holders :: "owner \<Rightarrow> (string, profile) dict"
  a_policy :: "profile option"
  a_pending :: "profile option \<times> int"
  a_applied :: "profile option"
  a_outcome :: "outcome option"
  a_error :: "string option"
  a_governor :: "string option"
  a_readback_last :: "check list"
  a_applied_state :: "outcome option \<times> string option \<times> check list"
  a_last_switch :: "attempt option"
  a_last_defer :: "attempt option"
  a_last_aggregate :: "aggregate_state option"
  a_counters :: counters
  a_attempts :: int
  a_switch_times :: "secs list"
  a_fail_streak :: int
  a_retry_at :: "secs option"
  a_busy :: bool
  a_stop :: bool

definition profile_name :: "profile \<Rightarrow> string" where
  "profile_name p = (case p of Performance \<Rightarrow> ''performance'' | Powersave \<Rightarrow> ''powersave'')"

definition profile_of :: "string \<Rightarrow> profile option" where
  "profile_of s = (if s = ''performance'' then Some Performance
                   else if s = ''powersave'' then Some Powersave else None)"

definition owner_name :: "owner \<Rightarrow> string" where
  "owner_name w = (case w of OJob \<Rightarrow> ''job'' | OManual \<Rightarrow> ''manual'' | OPolicy \<Rightarrow> ''policy'')"

definition RETRY_S :: "secs list" where
  "RETRY_S = [5, 15, 60]"

definition SYSTEMCTL :: string where
  "SYSTEMCTL = ''/usr/bin/systemctl''"

section \<open>Mode\<close>

definition select_mode ::
  "bool \<Rightarrow> bool \<Rightarrow> string option \<Rightarrow> bool \<Rightarrow> (profile \<Rightarrow> string) \<Rightarrow> arb_mode \<times> string" where
  "select_mode enabled is_linux sudo_list unit_files_present units =
     (if \<not> enabled then (Disabled, ''PERF_CONTROLLER_ENABLED is false'')
      else if \<not> is_linux then (Observe, ''perf units are Linux-only'')
      else if \<not> unit_files_present then
        (Observe, ''perf unit files missing: '' @ units Performance @ '' / '' @ units Powersave)
      else
        (let text = or_list sudo_list [];
             missing = filter (\<lambda>u. \<not> contains (''reload-or-restart '' @ u) text)
                         [units Performance, units Powersave]
         in if missing \<noteq> [] then
              (Observe, ''sudoers lacks: '' @
                py_join '', '' (map (\<lambda>u. SYSTEMCTL @ '' reload-or-restart '' @ u) missing))
            else (Full, [])))"

section \<open>Life cycle\<close>

definition init_arbiter :: "(profile \<Rightarrow> string) \<Rightarrow> arb_mode \<Rightarrow> int \<Rightarrow> int \<Rightarrow> arbiter" where
  "init_arbiter units mode dwell_ticks max_switches_per_min =
     \<lparr>a_units = units, a_mode = mode, a_dwell = max 1 dwell_ticks, a_cap = max 1 max_switches_per_min,
      a_holds = (\<lambda>_. None), a_holders = (\<lambda>_. []), a_policy = None, a_pending = (None, 0),
      a_applied = None, a_outcome = None, a_error = None, a_governor = None, a_readback_last = [],
      a_applied_state = (None, None, []), a_last_switch = None, a_last_defer = None,
      a_last_aggregate = None,
      a_counters = \<lparr>c_switches = 0, c_failures = 0, c_unverifiable = 0, c_deferred = 0,
                    c_reconcile_corrections = 0, c_unknown_streak_max = 0\<rparr>,
      a_attempts = 0, a_switch_times = [], a_fail_streak = 0, a_retry_at = None,
      a_busy = False, a_stop = False\<rparr>"

definition adopt_holds :: "arbiter \<Rightarrow> arbiter \<Rightarrow> arbiter" where
  "adopt_holds other a =
     a\<lparr>a_holds := a_holds other, a_holders := a_holders other, a_last_aggregate := a_last_aggregate other\<rparr>"

text \<open>The fields of the durable record that \<^verbatim>\<open>recover\<close> reads.\<close>

record arb_record =
  ar_applied_profile :: "string option"
  ar_outcome :: "outcome option"

text \<open>
  \<open>rec\<close> is the decoded record file (\<open>None\<close>: no path, unreadable or not JSON), \<open>safe_readback\<close> and
  \<open>governor\<close> what the host reads.
\<close>

definition recover ::
  "arb_record option \<Rightarrow> (profile \<Rightarrow> readback) \<Rightarrow> string option \<Rightarrow> arbiter \<Rightarrow> arbiter" where
  "recover rec safe_readback governor a =
     (case rec of
        None \<Rightarrow> a
      | Some r \<Rightarrow>
          (case (case ar_applied_profile r of None \<Rightarrow> None | Some s \<Rightarrow> profile_of s) of
             None \<Rightarrow> a\<lparr>a_governor := governor, a_readback_last := []\<rparr>
           | Some p \<Rightarrow>
               (let rb = safe_readback p;
                    a1 = a\<lparr>a_governor := rb_governor rb, a_readback_last := rb_checks rb\<rparr>
                in if rb_outcome rb = Some SwitchFailed then a1
                   else (let out = (case rb_outcome rb of None \<Rightarrow> ar_outcome r | x \<Rightarrow> x)
                         in a1\<lparr>a_applied := Some p, a_outcome := out,
                               a_applied_state := (out, None, rb_checks rb)\<rparr>))))"

section \<open>Requests\<close>

definition last_value :: "('k, 'v) dict \<Rightarrow> 'v option" where
  "last_value d = (if d = [] then None else Some (snd (last d)))"

definition request ::
  "string \<Rightarrow> owner \<Rightarrow> string option \<Rightarrow> arbiter \<Rightarrow> arb_exn + (int \<times> arbiter)" where
  "request prof w holder a =
     (case profile_of prof of
        None \<Rightarrow> Inl (ValueError (''bad request '' @ owner_name w @ '':'' @ prof))
      | Some p \<Rightarrow>
          (if w = OPolicy then Inl (ValueError (''bad request '' @ owner_name w @ '':'' @ prof))
           else Inr (a_attempts a,
                     a\<lparr>a_holds := (a_holds a)(w := Some p),
                       a_holders := (a_holders a)(w := dict_set (or_list holder []) p (a_holders a w))\<rparr>)))"

definition release :: "owner \<Rightarrow> string option \<Rightarrow> arbiter \<Rightarrow> arb_exn + arbiter" where
  "release w holder a =
     (if w = OPolicy then Inl (ValueError (''bad release '' @ owner_name w))
      else (let names = (case holder of None \<Rightarrow> [] | Some h \<Rightarrow> dict_pop h (a_holders a w))
            in Inr (a\<lparr>a_holders := (a_holders a)(w := names),
                      a_holds := (a_holds a)(w := last_value names)\<rparr>)))"

definition set_policy :: "profile_or_hold \<Rightarrow> arbiter \<Rightarrow> arbiter" where
  "set_policy ph a =
     (case ph of
        Hold \<Rightarrow> a
      | Profile p \<Rightarrow>
          (let (prof, n0) = a_pending a;
               n = (if prof = Some p then n0 + 1 else 1);
               a1 = a\<lparr>a_pending := (Some p, n)\<rparr>
           in if n \<ge> a_dwell a then a1\<lparr>a_policy := Some p\<rparr> else a1))"

definition on_aggregate :: "aggregate_state \<Rightarrow> arbiter \<Rightarrow> arbiter" where
  "on_aggregate agg a =
     (let a1 = (if a_last_aggregate a \<noteq> None \<and> a_last_aggregate a \<noteq> Some agg \<and> a_holds a OManual \<noteq> None
                then a\<lparr>a_holds := (a_holds a)(OManual := None),
                       a_holders := (a_holders a)(OManual := [])\<rparr>
                else a)
      in a1\<lparr>a_last_aggregate := Some agg\<rparr>)"

section \<open>What the requests amount to\<close>

definition effective :: "arbiter \<Rightarrow> profile option \<times> owner option" where
  "effective a =
     (case a_holds a OJob of
        Some p \<Rightarrow> (Some p, Some OJob)
      | None \<Rightarrow>
          (case a_holds a OManual of
             Some p \<Rightarrow> (Some p, Some OManual)
           | None \<Rightarrow> (a_policy a, if a_policy a \<noteq> None then Some OPolicy else None)))"

definition latest_attempt :: "profile \<Rightarrow> int \<Rightarrow> arbiter \<Rightarrow> attempt option" where
  "latest_attempt p seq0 a =
     (let seen = [x. Some x \<leftarrow> [a_last_switch a, a_last_defer a], at_to x = p \<and> at_seq x > seq0]
      in case seen of
           [] \<Rightarrow> None
         | x # xs \<Rightarrow> Some (foldl (\<lambda>m y. if at_seq y > at_seq m then y else m) x xs))"

record arb_result =
  r_outcome :: outcome
  r_applied :: "profile option"
  r_governor :: "string option"
  r_readback :: "check list"
  r_error :: "string option"
  r_owner :: "owner option"
  r_desired :: "profile option"
  r_mode :: arb_mode

definition arb_result :: "outcome \<Rightarrow> string option \<Rightarrow> arbiter \<Rightarrow> arb_result" where
  "arb_result out err a =
     \<lparr>r_outcome = out, r_applied = a_applied a, r_governor = a_governor a,
      r_readback = a_readback_last a, r_error = err, r_owner = snd (effective a),
      r_desired = fst (effective a), r_mode = a_mode a\<rparr>"

definition mode_name :: "arb_mode \<Rightarrow> string" where
  "mode_name m = (case m of Full \<Rightarrow> ''full'' | Observe \<Rightarrow> ''observe'' | Disabled \<Rightarrow> ''disabled'')"

text \<open>One look of \<^verbatim>\<open>_wait_settled\<close> at the state; \<open>None\<close> means that it waits on.\<close>

definition settle_poll :: "profile \<Rightarrow> owner \<Rightarrow> int \<Rightarrow> secs \<Rightarrow> arbiter \<Rightarrow> arb_result option" where
  "settle_poll p w seq0 remaining a =
     (let timed = (if remaining \<le> 0
                   then Some (arb_result SwitchFailed (Some ''timeout waiting for the arbiter'') a)
                   else None)
      in if a_mode a \<noteq> Full then
           Some (arb_result Skipped (Some (''arbiter mode is '' @ mode_name (a_mode a))) a)
         else if a_busy a then timed
         else (case latest_attempt p seq0 a of
                 Some done \<Rightarrow> Some (arb_result (at_outcome done) (at_error done) a)
               | None \<Rightarrow>
                   (if a_holds a w \<noteq> Some p then
                      Some (arb_result Skipped (Some (owner_name w @ '' hold released'')) a)
                    else if snd (effective a) \<noteq> Some w then
                      Some (arb_result Skipped
                        (Some (''outranked by '' @
                           (case snd (effective a) of None \<Rightarrow> ''None'' | Some o' \<Rightarrow> owner_name o'))) a)
                    else if a_applied a = Some p then
                      Some (arb_result (if a_outcome a = Some Unverifiable then Unverifiable else Verified) None a)
                    else timed)))"

text \<open>The whole wait: the states the caller sees at its wake-ups, with the time left at each.\<close>

fun wait_settled :: "profile \<Rightarrow> owner \<Rightarrow> int \<Rightarrow> (secs \<times> arbiter) list \<Rightarrow> arb_result option" where
  "wait_settled p w seq0 [] = None"
| "wait_settled p w seq0 ((remaining, a) # rest) =
     (case settle_poll p w seq0 remaining a of
        Some r \<Rightarrow> Some r
      | None \<Rightarrow> wait_settled p w seq0 rest)"

section \<open>The worker\<close>

datatype loop_action = LoopStop | LoopWait | LoopBackoff | LoopApply profile owner

definition loop_decide :: "secs \<Rightarrow> arbiter \<Rightarrow> arbiter \<times> loop_action" where
  "loop_decide now a =
     (if a_stop a then (a, LoopStop)
      else (case effective a of (desired, w) \<Rightarrow>
        (if desired = None \<or> desired = a_applied a \<or> a_mode a \<noteq> Full then
           (let a1 = (if desired = None \<or> desired = a_applied a then
                        (let a0 = a\<lparr>a_retry_at := None\<rparr>
                         in if a_outcome a = Some SwitchFailed \<and> a_applied a \<noteq> None
                            then (case a_applied_state a of (out, err, cks) \<Rightarrow>
                                    a0\<lparr>a_outcome := out, a_error := err, a_readback_last := cks\<rparr>)
                            else a0)
                      else a)
            in (a1, LoopWait))
         else if (case a_retry_at a of None \<Rightarrow> False | Some t \<Rightarrow> now < t) then (a, LoopBackoff)
         else (a\<lparr>a_busy := True\<rparr>,
               case (desired, w) of (Some p, Some o') \<Rightarrow> LoopApply p o' | _ \<Rightarrow> LoopWait))))"

datatype run_result = RunRaised string | Ran int string string

definition is_success :: "run_result \<Rightarrow> bool" where
  "is_success r = (case r of RunRaised _ \<Rightarrow> False | Ran rc _ _ \<Rightarrow> rc = 0)"

text \<open>
  \<open>restart\<close> is the \<^verbatim>\<open>systemctl reload-or-restart\<close> run, \<open>show_run\<close> the \<^verbatim>\<open>systemctl show\<close> run,
  \<open>rb\<close> the readback taken after them.
\<close>

definition arb_switch ::
  "run_result \<Rightarrow> run_result \<Rightarrow> readback \<Rightarrow> outcome \<times> string option \<times> readback" where
  "arb_switch restart show_run rb =
     (case restart of
        RunRaised e \<Rightarrow> (SwitchFailed, Some (take 240 e), rb)
      | Ran rc out err \<Rightarrow>
          (if rc \<noteq> 0 then
             (SwitchFailed,
              Some (take 240 (py_strip (or_list (Some err) (or_list (Some out) (''rc='' @ show_int rc))))), rb)
           else (case show_run of
                   Ran _ sout _ \<Rightarrow>
                     (if contains ''Result=success'' sout
                      then ((case rb_outcome rb of None \<Rightarrow> Unverifiable | Some x \<Rightarrow> x), rb_error rb, rb)
                      else (SwitchFailed, Some (''unit result: '' @ take 120 (py_strip sout)), rb))
                 | RunRaised _ \<Rightarrow>
                     ((case rb_outcome rb of None \<Rightarrow> Unverifiable | Some x \<Rightarrow> x), rb_error rb, rb))))"

definition safe_readback :: "readback option \<Rightarrow> readback" where
  "safe_readback rb =
     (case rb of
        None \<Rightarrow> \<lparr>rb_outcome = Some Unverifiable, rb_checks = [], rb_governor = None, rb_error = None\<rparr>
      | Some r \<Rightarrow> r)"

definition governor_readback :: "profile \<Rightarrow> string option \<Rightarrow> readback" where
  "governor_readback p gov =
     (case gov of
        None \<Rightarrow> \<lparr>rb_outcome = Some Unverifiable, rb_checks = [], rb_governor = None, rb_error = None\<rparr>
      | Some g \<Rightarrow>
          (let ck = \<lparr>ck_label = ''cpu governor'', ck_expected = profile_name p, ck_actual = Some g,
                     ck_ok = Some (g = profile_name p)\<rparr>;
               other = (if p = Performance then Powersave else Performance)
           in if g = profile_name p then
                \<lparr>rb_outcome = Some Verified, rb_checks = [ck], rb_governor = Some g, rb_error = None\<rparr>
              else if g = profile_name other then
                \<lparr>rb_outcome = Some SwitchFailed, rb_checks = [ck], rb_governor = Some g,
                 rb_error = Some (''governor readback '' @ py_repr g @ '' != '' @ py_repr (profile_name p))\<rparr>
              else
                \<lparr>rb_outcome = Some Unverifiable, rb_checks = [ck], rb_governor = Some g, rb_error = None\<rparr>))"

text \<open>
  The environment of one \<^verbatim>\<open>_apply\<close>: the clock at its start, at the append to the switch times and
  at the retry deadline, and what the switch of a unit gives.
\<close>

record apply_env =
  e_now :: secs
  e_appended :: secs
  e_retry :: secs
  e_switch :: "string \<Rightarrow> profile \<Rightarrow> outcome \<times> string option \<times> readback"

definition recent_switches :: "secs \<Rightarrow> secs list \<Rightarrow> secs list" where
  "recent_switches now ts = dropWhile (\<lambda>t. now - t > 60) ts"

definition retry_delay :: "int \<Rightarrow> secs" where
  "retry_delay streak = RETRY_S ! (nat (min streak (int (length RETRY_S))) - 1)"

text \<open>
  What \<^verbatim>\<open>_apply\<close> does outside the arbiter: it has \<^verbatim>\<open>_switch\<close> restart a unit, and it writes the durable
  record. A deferred switch does neither.
\<close>

datatype arb_effect = Switch_Unit string profile | Write_Record arb_record

definition apply_run :: "profile \<Rightarrow> apply_env \<Rightarrow> arbiter \<Rightarrow> arbiter \<times> arb_effect list" where
  "apply_run p env a =
     (let times = recent_switches (e_now env) (a_switch_times a)
      in if int (length times) \<ge> a_cap a then
           (let n = a_attempts a + 1
            in (a\<lparr>a_switch_times := times, a_attempts := n,
                  a_counters := (a_counters a)\<lparr>c_deferred := c_deferred (a_counters a) + 1\<rparr>,
                  a_retry_at := Some (hd times + 60),
                  a_last_defer := Some \<lparr>at_to = p, at_seq = n, at_outcome = Deferred,
                    at_error = Some (''switch rate cap reached ('' @ show_int (a_cap a) @ ''/min)'')\<rparr>\<rparr>, []))
         else
           (case e_switch env (a_units a p) p of (out, err, rb) \<Rightarrow>
              (let n = a_attempts a + 1;
                   cs = a_counters a;
                   base = a\<lparr>a_switch_times := times @ [e_appended env], a_governor := rb_governor rb,
                            a_readback_last := rb_checks rb, a_attempts := n\<rparr>;
                   settled =
                     (if out = SwitchFailed then
                        base\<lparr>a_counters := cs\<lparr>c_failures := c_failures cs + 1\<rparr>,
                             a_fail_streak := a_fail_streak a + 1,
                             a_retry_at := Some (e_retry env + retry_delay (a_fail_streak a + 1))\<rparr>
                      else
                        base\<lparr>a_counters := cs\<lparr>c_switches := c_switches cs + 1,
                                c_unverifiable := c_unverifiable cs + (if out = Unverifiable then 1 else 0)\<rparr>,
                             a_applied := Some p, a_applied_state := (Some out, err, rb_checks rb),
                             a_fail_streak := 0, a_retry_at := None\<rparr>)
               in (settled\<lparr>a_outcome := Some out, a_error := err,
                           a_last_switch := Some \<lparr>at_to = p, at_seq = n, at_outcome = out, at_error = err\<rparr>\<rparr>,
                   [Switch_Unit (a_units a p) p,
                    Write_Record \<lparr>ar_applied_profile = map_option profile_name (a_applied settled),
                                  ar_outcome = Some out\<rparr>]))))"

definition arb_apply :: "profile \<Rightarrow> apply_env \<Rightarrow> arbiter \<Rightarrow> arbiter" where
  "arb_apply p env a = fst (apply_run p env a)"

definition apply_record :: "profile \<Rightarrow> apply_env \<Rightarrow> arbiter \<Rightarrow> arb_record option" where
  "apply_record p env a =
     (case [r. Write_Record r \<leftarrow> snd (apply_run p env a)] of [] \<Rightarrow> None | r # rs \<Rightarrow> Some r)"

text \<open>One turn of the worker: decide, and when a switch is due make it and clear the busy flag.\<close>

definition worker_run :: "secs \<Rightarrow> apply_env \<Rightarrow> arbiter \<Rightarrow> arbiter \<times> arb_effect list" where
  "worker_run now env a =
     (case loop_decide now a of
        (a1, LoopApply p w) \<Rightarrow> (case apply_run p env a1 of (b, fx) \<Rightarrow> (b\<lparr>a_busy := False\<rparr>, fx))
      | (a1, _) \<Rightarrow> (a1, []))"

definition worker_turn :: "secs \<Rightarrow> apply_env \<Rightarrow> arbiter \<Rightarrow> arbiter" where
  "worker_turn now env a = fst (worker_run now env a)"

text \<open>Rebuilding the singleton: a fresh arbiter recovers the record and takes over the holds.\<close>

definition configure ::
  "bool \<Rightarrow> bool \<Rightarrow> (profile \<Rightarrow> string) \<Rightarrow> string option \<Rightarrow> (string \<Rightarrow> bool) \<Rightarrow> int \<Rightarrow>
   arb_record option \<Rightarrow> (profile \<Rightarrow> readback) \<Rightarrow> string option \<Rightarrow> arbiter option \<Rightarrow> arbiter" where
  "configure enabled is_linux units sudo unit_exists dwell_ticks rec srb gov old =
     (let sudo_list = (if enabled \<and> is_linux then sudo else None);
          present = (enabled \<and> is_linux \<and> unit_exists (units Performance) \<and> unit_exists (units Powersave));
          mode = fst (select_mode enabled is_linux sudo_list present units);
          arb = recover rec srb gov (init_arbiter units mode dwell_ticks 6)
      in case old of None \<Rightarrow> arb | Some o' \<Rightarrow> adopt_holds o' arb)"


section \<open>The arbiter as a machine\<close>

text \<open>
  Every critical section as an event. A refused request or release raises before it changes
  anything.
\<close>

datatype arb_event =
    EvRequest string owner "string option"
  | EvRelease owner "string option"
  | EvPolicy profile_or_hold
  | EvAggregate aggregate_state
  | EvStop
  | EvTurn secs apply_env

fun arb_step :: "arb_event \<Rightarrow> arbiter \<Rightarrow> arbiter" where
  "arb_step (EvRequest p w h) a = (case request p w h a of Inl _ \<Rightarrow> a | Inr (_, a') \<Rightarrow> a')"
| "arb_step (EvRelease w h) a = (case release w h a of Inl _ \<Rightarrow> a | Inr a' \<Rightarrow> a')"
| "arb_step (EvPolicy ph) a = set_policy ph a"
| "arb_step (EvAggregate g) a = on_aggregate g a"
| "arb_step EvStop a = a\<lparr>a_stop := True\<rparr>"
| "arb_step (EvTurn now env) a = worker_turn now env a"

text \<open>
  The restarts a worker turn makes, read off its effects, and the times at which all restarts of a run
  were completed.
\<close>

definition is_switch :: "arb_effect \<Rightarrow> bool" where
  "is_switch fx = (case fx of Switch_Unit u p \<Rightarrow> True | Write_Record r \<Rightarrow> False)"

definition turn_restarts :: "secs \<Rightarrow> apply_env \<Rightarrow> arbiter \<Rightarrow> arb_effect list" where
  "turn_restarts now env a = filter is_switch (snd (worker_run now env a))"

definition turn_switches :: "secs \<Rightarrow> apply_env \<Rightarrow> arbiter \<Rightarrow> bool" where
  "turn_switches now env a \<longleftrightarrow> turn_restarts now env a \<noteq> []"

fun switch_log :: "arb_event list \<Rightarrow> arbiter \<Rightarrow> secs list" where
  "switch_log [] a = []"
| "switch_log (ev # es) a =
     (case ev of
        EvTurn now env \<Rightarrow> map (\<lambda>fx. e_appended env) (turn_restarts now env a)
      | _ \<Rightarrow> []) @ switch_log es (arb_step ev a)"

text \<open>The clock readings of a run never go back.\<close>

fun clock_ok :: "secs \<Rightarrow> arb_event list \<Rightarrow> bool" where
  "clock_ok t [] = True"
| "clock_ok t (EvTurn now env # es) =
     (t \<le> now \<and> now \<le> e_now env \<and> e_now env \<le> e_appended env \<and> e_appended env \<le> e_retry env \<and>
      clock_ok (e_retry env) es)"
| "clock_ok t (_ # es) = clock_ok t es"

definition holds_ok :: "arbiter \<Rightarrow> bool" where
  "holds_ok a \<longleftrightarrow>
     a_holds a OPolicy = None \<and>
     (\<forall>w. w \<noteq> OPolicy \<longrightarrow>
        dict_ok (a_holders a w) \<and> (a_holds a w = None \<longleftrightarrow> a_holders a w = []) \<and>
        (\<forall>p. a_holds a w = Some p \<longrightarrow> p \<in> snd ` set (a_holders a w)))"

definition attempts_ok :: "arbiter \<Rightarrow> bool" where
  "attempts_ok a \<longleftrightarrow>
     (\<forall>x. a_last_switch a = Some x \<longrightarrow>
        at_seq x \<le> a_attempts a \<and> (at_outcome x \<noteq> SwitchFailed \<longrightarrow> a_applied a = Some (at_to x))) \<and>
     (\<forall>x. a_last_defer a = Some x \<longrightarrow> at_seq x \<le> a_attempts a \<and> at_outcome x = Deferred) \<and>
     0 \<le> a_fail_streak a \<and> 1 \<le> a_cap a \<and> 1 \<le> a_dwell a"

definition arb_inv :: "arbiter \<Rightarrow> bool" where
  "arb_inv a \<longleftrightarrow> holds_ok a \<and> attempts_ok a"

text \<open>An arbiter as the singleton builds it, fresh or in place of an older one.\<close>

definition configured :: "arbiter \<Rightarrow> bool" where
  "configured a \<longleftrightarrow>
     (\<exists>en lin un su ex dw rec srb gov old.
        (\<forall>x. old = Some x \<longrightarrow> arb_inv x) \<and> a = configure en lin un su ex dw rec srb gov old)"

text \<open>A concrete arbiter and environments for evaluation.\<close>

definition ex_arbiter :: arbiter where
  "ex_arbiter = configure True True profile_name
     (Some ''reload-or-restart performance reload-or-restart powersave'') (\<lambda>_. True) 2 None
     (\<lambda>_. safe_readback None) None None"

definition ex_env :: "outcome \<Rightarrow> apply_env" where
  "ex_env out = \<lparr>e_now = 1, e_appended = 2, e_retry = 2,
     e_switch = (\<lambda>u p. (out, None, safe_readback None))\<rparr>"

section \<open>Reading the effects\<close>

text \<open>A turn restarts a unit exactly when the decision is to switch and the limiter has room.\<close>

lemma apply_restarts:
  "filter is_switch (snd (apply_run p env a)) =
     (if int (length (recent_switches (e_now env) (a_switch_times a))) < a_cap a then [Switch_Unit (a_units a p) p] else [])"
  by (simp add: apply_run_def is_switch_def Let_def split: prod.splits)

lemma turn_restarts_eq:
  "turn_restarts now env a =
     (case loop_decide now a of
        (a1, LoopApply p w) \<Rightarrow>
          if int (length (recent_switches (e_now env) (a_switch_times a1))) < a_cap a1
          then [Switch_Unit (a_units a1 p) p] else []
      | _ \<Rightarrow> [])"
  by (simp add: turn_restarts_def worker_run_def apply_restarts split_beta split: loop_action.split)

lemma turn_switches_iff:
  "turn_switches now env a \<longleftrightarrow>
     (case loop_decide now a of
        (a1, LoopApply p w) \<Rightarrow> int (length (recent_switches (e_now env) (a_switch_times a1))) < a_cap a1
      | _ \<Rightarrow> False)"
  by (simp add: turn_switches_def turn_restarts_eq split_beta split: loop_action.split)

lemma turn_log: "map (\<lambda>fx. t) (turn_restarts now env a) = (if turn_switches now env a then [t] else [])"
  by (simp add: turn_switches_def turn_restarts_eq split_beta split: loop_action.split)

lemma worker_turn_eq:
  "worker_turn now env a =
     (case loop_decide now a of
        (a1, LoopApply p w) \<Rightarrow> (arb_apply p env a1)\<lparr>a_busy := False\<rparr>
      | (a1, _) \<Rightarrow> a1)"
  by (simp add: worker_turn_def worker_run_def arb_apply_def split_beta split: loop_action.split)

lemma apply_record_eq:
  "apply_record p env a =
     (if int (length (recent_switches (e_now env) (a_switch_times a))) \<ge> a_cap a then None
      else Some \<lparr>ar_applied_profile = map_option profile_name (a_applied (arb_apply p env a)),
                 ar_outcome = Some (fst (e_switch env (a_units a p) p))\<rparr>)"
  by (simp add: apply_record_def arb_apply_def apply_run_def Let_def split: prod.splits)

lemmas arb_apply_unfold = arb_apply_def apply_run_def

section \<open>The invariant\<close>

lemma last_value_mem: "last_value d = Some v \<Longrightarrow> v \<in> snd ` set d"
  by (auto simp: last_value_def split: if_splits)

lemma last_value_None [simp]: "last_value d = None \<longleftrightarrow> d = []"
  by (simp add: last_value_def)

lemma update_value_mem: "v \<in> snd ` set (AList.update k v d)"
  by (induction d) auto

lemma holds_ok_request: "holds_ok a \<Longrightarrow> request p w h a = Inr (n, a') \<Longrightarrow> holds_ok a'"
  by (auto simp: holds_ok_def request_def update_value_mem distinct_update split: option.splits if_splits)

lemma holds_ok_release: "holds_ok a \<Longrightarrow> release w h a = Inr a' \<Longrightarrow> holds_ok a'"
  by (auto simp: holds_ok_def release_def Let_def distinct_delete dest!: last_value_mem
      split: option.splits if_splits)

lemma holds_ok_aggregate: "holds_ok a \<Longrightarrow> holds_ok (on_aggregate g a)"
  by (auto simp: holds_ok_def on_aggregate_def Let_def)

lemma holds_ok_cong:
  "a_holds a' = a_holds a \<Longrightarrow> a_holders a' = a_holders a \<Longrightarrow> holds_ok a' = holds_ok a"
  by (simp add: holds_ok_def)

lemma set_policy_frame [simp]:
  "a_holds (set_policy ph a) = a_holds a" "a_holders (set_policy ph a) = a_holders a"
  "a_last_switch (set_policy ph a) = a_last_switch a" "a_last_defer (set_policy ph a) = a_last_defer a"
  "a_attempts (set_policy ph a) = a_attempts a" "a_applied (set_policy ph a) = a_applied a"
  "a_fail_streak (set_policy ph a) = a_fail_streak a" "a_cap (set_policy ph a) = a_cap a"
  "a_dwell (set_policy ph a) = a_dwell a" "a_switch_times (set_policy ph a) = a_switch_times a"
  "a_retry_at (set_policy ph a) = a_retry_at a"
  by (auto simp: set_policy_def Let_def split: profile_or_hold.splits prod.splits)

lemma on_aggregate_frame [simp]:
  "a_last_switch (on_aggregate g a) = a_last_switch a" "a_last_defer (on_aggregate g a) = a_last_defer a"
  "a_attempts (on_aggregate g a) = a_attempts a" "a_applied (on_aggregate g a) = a_applied a"
  "a_fail_streak (on_aggregate g a) = a_fail_streak a" "a_cap (on_aggregate g a) = a_cap a"
  "a_dwell (on_aggregate g a) = a_dwell a" "a_switch_times (on_aggregate g a) = a_switch_times a"
  "a_retry_at (on_aggregate g a) = a_retry_at a"
  by (auto simp: on_aggregate_def Let_def)

lemma loop_decide_frame:
  assumes "loop_decide now a = (a', act)"
  shows "a_holds a' = a_holds a" "a_holders a' = a_holders a" "a_last_switch a' = a_last_switch a"
    "a_last_defer a' = a_last_defer a" "a_attempts a' = a_attempts a" "a_applied a' = a_applied a"
    "a_fail_streak a' = a_fail_streak a" "a_cap a' = a_cap a" "a_dwell a' = a_dwell a"
    "a_switch_times a' = a_switch_times a" "a_units a' = a_units a"
  using assms by (auto simp: loop_decide_def Let_def split: if_splits prod.splits option.splits)

lemma arb_apply_frame [simp]:
  "a_holds (arb_apply p env a) = a_holds a" "a_holders (arb_apply p env a) = a_holders a"
  "a_cap (arb_apply p env a) = a_cap a" "a_dwell (arb_apply p env a) = a_dwell a"
  by (auto simp: arb_apply_unfold Let_def split: prod.splits)

lemma attempts_ok_apply: "attempts_ok a \<Longrightarrow> attempts_ok (arb_apply p env a)"
  by (force simp: attempts_ok_def arb_apply_unfold Let_def split: prod.splits)

lemma attempts_ok_cong:
  "a_last_switch a' = a_last_switch a \<Longrightarrow> a_last_defer a' = a_last_defer a \<Longrightarrow>
   a_attempts a' = a_attempts a \<Longrightarrow> a_applied a' = a_applied a \<Longrightarrow>
   a_fail_streak a' = a_fail_streak a \<Longrightarrow> a_cap a' = a_cap a \<Longrightarrow> a_dwell a' = a_dwell a \<Longrightarrow>
   attempts_ok a' = attempts_ok a"
  by (simp add: attempts_ok_def)

lemma arb_inv_turn:
  assumes "arb_inv a"
  shows "arb_inv (worker_turn now env a)"
proof -
  obtain a1 act where d: "loop_decide now a = (a1, act)" by (cases "loop_decide now a")
  note fr = loop_decide_frame [OF d]
  have h1: "holds_ok a1" using assms holds_ok_cong [OF fr(1,2)] by (simp add: arb_inv_def)
  have t1: "attempts_ok a1"
    using assms attempts_ok_cong [OF fr(3-9)] by (simp add: arb_inv_def)
  have "holds_ok ((arb_apply p env a1)\<lparr>a_busy := False\<rparr>)" for p
    using h1 by (subst holds_ok_cong [of _ a1]) simp_all
  moreover have "attempts_ok ((arb_apply p env a1)\<lparr>a_busy := False\<rparr>)" for p
    using attempts_ok_apply [OF t1] by (subst attempts_ok_cong [of _ "arb_apply p env a1"]) simp_all
  ultimately show ?thesis
    using h1 t1 by (auto simp: worker_turn_eq d arb_inv_def split: loop_action.splits)
qed

lemma request_frame:
  "request p w h a = Inr (n, a') \<Longrightarrow>
     a' = a\<lparr>a_holds := a_holds a', a_holders := a_holders a'\<rparr> \<and> n = a_attempts a"
  by (auto simp: request_def split: option.splits if_splits)

lemma release_frame:
  "release w h a = Inr a' \<Longrightarrow> a' = a\<lparr>a_holds := a_holds a', a_holders := a_holders a'\<rparr>"
  by (auto simp: release_def Let_def split: option.splits if_splits)

lemma attempts_ok_hold_update [simp]:
  "attempts_ok (a\<lparr>a_holds := x, a_holders := y\<rparr>) = attempts_ok a"
  "attempts_ok (a\<lparr>a_stop := b\<rparr>) = attempts_ok a" "holds_ok (a\<lparr>a_stop := b\<rparr>) = holds_ok a"
  by (simp_all add: attempts_ok_def holds_ok_def)

lemma arb_inv_step: "arb_inv a \<Longrightarrow> arb_inv (arb_step ev a)"
proof (cases ev)
  case (EvRequest p w h)
  assume inv: "arb_inv a"
  show ?thesis
  proof (cases "request p w h a")
    case (Inr r)
    then obtain n a' where r: "request p w h a = Inr (n, a')" by (cases r) auto
    from inv holds_ok_request [OF _ r] attempts_ok_hold_update(1) request_frame [OF r]
    show ?thesis by (metis EvRequest arb_inv_def arb_step.simps(1) old.prod.case old.sum.simps(6) r)
  qed (use inv EvRequest in simp)
next
  case (EvRelease w h)
  assume inv: "arb_inv a"
  show ?thesis
  proof (cases "release w h a")
    case (Inr a')
    from inv holds_ok_release [OF _ Inr] attempts_ok_hold_update(1) release_frame [OF Inr]
    show ?thesis by (metis EvRelease Inr arb_inv_def arb_step.simps(2) old.sum.simps(6))
  qed (use inv EvRelease in simp)
next
  case (EvPolicy ph)
  assume "arb_inv a"
  then show ?thesis
    using holds_ok_cong [of "set_policy ph a" a] attempts_ok_cong [of "set_policy ph a" a]
    by (simp add: EvPolicy arb_inv_def)
next
  case (EvAggregate g)
  assume "arb_inv a"
  then show ?thesis
    using holds_ok_aggregate [of a g] attempts_ok_cong [of "on_aggregate g a" a]
    by (simp add: EvAggregate arb_inv_def)
qed (auto simp: arb_inv_turn, simp add: arb_inv_def)

lemma arb_inv_init: "arb_inv (init_arbiter u m d c)"
  by (simp add: arb_inv_def holds_ok_def attempts_ok_def init_arbiter_def)

lemma arb_inv_recover: "arb_inv a \<Longrightarrow> a_last_switch a = None \<Longrightarrow> arb_inv (recover rec srb gov a)"
  by (auto simp: arb_inv_def holds_ok_def attempts_ok_def recover_def Let_def split: option.splits)

lemma recover_frame [simp]:
  "a_last_switch (recover rec srb gov a) = a_last_switch a"
  "a_switch_times (recover rec srb gov a) = a_switch_times a"
  "a_cap (recover rec srb gov a) = a_cap a"
  by (auto simp: recover_def Let_def split: option.splits)

lemma arb_inv_adopt: "arb_inv a \<Longrightarrow> arb_inv old \<Longrightarrow> arb_inv (adopt_holds old a)"
  by (auto simp: arb_inv_def holds_ok_def attempts_ok_def adopt_holds_def)

lemma arb_inv_configure:
  assumes "\<And>x. old = Some x \<Longrightarrow> arb_inv x"
  shows "arb_inv (configure en lin un su ex dw rec srb gov old)"
proof -
  have "arb_inv (recover rec srb gov (init_arbiter u m d c))" for u m d c
    by (intro arb_inv_recover arb_inv_init) (simp add: init_arbiter_def)
  with assms show ?thesis
    by (auto simp: configure_def Let_def intro: arb_inv_adopt split: option.split)
qed

interpretation arb: machine configured arb_step arb_inv
  by unfold_locales (auto simp: configured_def intro: arb_inv_configure arb_inv_step)

section \<open>The switch limiter\<close>

interpretation sw: pruned_window "\<lambda>t. t" "\<lambda>now t :: secs. now - t > 60"
  by unfold_locales auto

lemma recent_switches_live:
  "sw.tracks t0 h q \<Longrightarrow> t0 \<le> now \<Longrightarrow> recent_switches now q = filter (\<lambda>t. now - t \<le> 60) h"
  using sw.tracks_live [of t0 h q now] by (simp add: recent_switches_def not_less)

text \<open>\<open>per_minute h c\<close>: every closed window of sixty seconds holds at most \<open>c\<close> of the times \<open>h\<close>.\<close>

definition per_minute :: "secs list \<Rightarrow> int \<Rightarrow> bool" where
  "per_minute h c \<longleftrightarrow> (\<forall>t. int (length (filter (\<lambda>s. t - 60 \<le> s \<and> s \<le> t) h)) \<le> c)"

lemma per_minute_snoc:
  assumes "per_minute h c" and "int (length (filter (\<lambda>s. now - s \<le> 60) h)) < c" and "now \<le> u"
  shows "per_minute (h @ [u]) c"
proof -
  have "int (length (filter (\<lambda>s. t - 60 \<le> s \<and> s \<le> t) (h @ [u]))) \<le> c" for t
  proof (cases "t - 60 \<le> u \<and> u \<le> t")
    case True
    have "length (filter (\<lambda>s. t - 60 \<le> s \<and> s \<le> t) h) \<le> length (filter (\<lambda>s. now - s \<le> 60) h)"
      using assms(3) True by (induction h) auto
    with True assms(2) show ?thesis by simp
  next
    case False
    with assms(1) show ?thesis by (auto simp: per_minute_def)
  qed
  then show ?thesis by (simp add: per_minute_def)
qed

text \<open>\<open>limited t0 h a\<close>: the switch times of \<open>a\<close> are what is left of the switches \<open>h\<close> made up to \<open>t0\<close>.\<close>

definition limited :: "secs \<Rightarrow> secs list \<Rightarrow> arbiter \<Rightarrow> bool" where
  "limited t0 h a \<longleftrightarrow>
     sw.tracks t0 h (a_switch_times a) \<and> (\<forall>x \<in> set h. x \<le> t0) \<and> per_minute h (a_cap a)"

lemma limited_cong:
  "a_switch_times a' = a_switch_times a \<Longrightarrow> a_cap a' = a_cap a \<Longrightarrow> limited t0 h a' = limited t0 h a"
  by (simp add: limited_def)

lemma limited_later: "limited t0 h a \<Longrightarrow> t0 \<le> t1 \<Longrightarrow> limited t1 h a"
  by (force simp: limited_def sw.tracks_def)

lemma limited_turn:
  assumes lim: "limited t0 h a" and "t0 \<le> e_now env" "e_now env \<le> e_appended env" "e_appended env \<le> e_retry env"
  shows "limited (e_retry env)
    (h @ (if turn_switches now env a then [e_appended env] else [])) (worker_turn now env a)"
proof -
  obtain a1 act where d: "loop_decide now a = (a1, act)" by (cases "loop_decide now a")
  note fr = loop_decide_frame [OF d]
  have lim1: "limited t0 h a1" using lim limited_cong [OF fr(10) fr(8)] by simp
  have tr: "sw.tracks (e_now env) h (recent_switches (e_now env) (a_switch_times a1))"
    using lim1 assms(2) sw.tracks_prune unfolding limited_def recent_switches_def by blast
  show ?thesis
  proof (cases "\<exists>p w. act = LoopApply p w")
    case False
    then have "worker_turn now env a = a1 \<and> \<not> turn_switches now env a"
      by (auto simp: worker_turn_eq turn_switches_iff d split: loop_action.splits)
    with limited_later [OF lim1] assms(2-4) show ?thesis by simp
  next
    case True
    then obtain p w where act: "act = LoopApply p w" by blast
    let ?q = "recent_switches (e_now env) (a_switch_times a1)"
    let ?b = "(arb_apply p env a1)\<lparr>a_busy := False\<rparr>"
    have b: "worker_turn now env a = ?b" by (simp add: worker_turn_eq d act)
    have old: "\<forall>x \<in> set h. x \<le> t0" using lim1 by (simp add: limited_def)
    show ?thesis
    proof (cases "int (length ?q) < a_cap a1")
      case sw: True
      have st: "a_switch_times ?b = ?q @ [e_appended env]"
        using sw by (auto simp: arb_apply_unfold Let_def split: prod.splits)
      have "sw.tracks (e_now env) (h @ [e_appended env]) (?q @ [e_appended env])"
        using old assms(2,3) by (intro sw.tracks_append tr) auto
      moreover have "per_minute (h @ [e_appended env]) (a_cap a1)"
        using lim1 sw assms(2,3) recent_switches_live [of t0 h "a_switch_times a1" "e_now env"]
        by (intro per_minute_snoc) (auto simp: limited_def)
      ultimately have "limited (e_appended env) (h @ [e_appended env]) ?b"
        using old assms(2,3) st by (force simp: limited_def sw.tracks_def)
      then show ?thesis
        using sw assms(4) by (simp add: b turn_switches_iff d act limited_later)
    next
      case False
      then have st: "a_switch_times ?b = ?q" by (auto simp: arb_apply_unfold Let_def)
      have "limited (e_now env) h ?b"
        using lim1 tr st old assms(2) by (force simp: limited_def)
      then show ?thesis
        using False assms(3,4) by (simp add: b turn_switches_iff d act limited_later)
    qed
  qed
qed

lemma quiet_step_frame:
  assumes "\<And>now env. ev \<noteq> EvTurn now env"
  shows "a_switch_times (arb_step ev a) = a_switch_times a \<and> a_cap (arb_step ev a) = a_cap a \<and>
         a_retry_at (arb_step ev a) = a_retry_at a"
proof (cases ev)
  case (EvRequest p w h)
  then show ?thesis by (auto simp: request_def split: option.splits sum.splits)
next
  case (EvRelease w h)
  then show ?thesis by (auto simp: release_def Let_def split: sum.splits)
qed (use assms in auto)

lemma limited_run:
  "limited t0 h a \<Longrightarrow> clock_ok t0 es \<Longrightarrow> per_minute (h @ switch_log es a) (a_cap a)"
proof (induction es arbitrary: t0 h a)
  case Nil
  then show ?case by (simp add: limited_def)
next
  case (Cons ev es)
  show ?case
  proof (cases "\<exists>now env. ev = EvTurn now env")
    case True
    then obtain now env where ev: "ev = EvTurn now env" by blast
    let ?new = "if turn_switches now env a then [e_appended env] else []"
    have "limited (e_retry env) (h @ ?new) (worker_turn now env a)"
      using Cons.prems by (intro limited_turn [of t0]) (auto simp: ev)
    then have "per_minute ((h @ ?new) @ switch_log es (worker_turn now env a))
        (a_cap (worker_turn now env a))"
      using Cons.prems by (intro Cons.IH) (auto simp: ev)
    moreover have "a_cap (worker_turn now env a) = a_cap a"
      using loop_decide_frame(8) by (force simp: worker_turn_eq split: prod.split loop_action.split)
    ultimately show ?thesis by (simp add: ev turn_log)
  next
    case False
    then have fr: "a_switch_times (arb_step ev a) = a_switch_times a" "a_cap (arb_step ev a) = a_cap a"
      using quiet_step_frame by blast+
    have "per_minute (h @ switch_log es (arb_step ev a)) (a_cap (arb_step ev a))"
    proof (rule Cons.IH)
      show "limited t0 h (arb_step ev a)" using Cons.prems(1) limited_cong [OF fr] by simp
      show "clock_ok t0 es" using Cons.prems(2) False by (cases ev) auto
    qed
    moreover have "switch_log (ev # es) a = switch_log es (arb_step ev a)"
      using False by (cases ev) auto
    ultimately show ?thesis by (simp add: fr)
  qed
qed

text \<open>
  C8: whatever is requested, released or observed in between, and however often a switch fails, the unit
  restarts that a freshly built arbiter issues are completed at most \<open>max_switches_per_min\<close> times (at least
  one) in any closed window of sixty seconds, as long as its clock does not go back. The restarts are those
  \<^verbatim>\<open>_apply\<close> hands to \<^verbatim>\<open>_switch\<close>.
\<close>

theorem switches_per_minute:
  assumes "clock_ok t0 es"
  shows "int (length (filter (\<lambda>s. t - 60 \<le> s \<and> s \<le> t)
      (switch_log es (recover rec srb gov (init_arbiter u m d c))))) \<le> max 1 c"
proof -
  let ?a = "recover rec srb gov (init_arbiter u m d c)"
  have "limited t0 [] ?a" by (simp add: limited_def per_minute_def init_arbiter_def)
  from limited_run [OF this assms] show ?thesis
    by (simp add: per_minute_def init_arbiter_def)
qed

theorem switches_per_minute_witness:
  "switch_log [EvRequest ''performance'' OJob None, EvTurn 1 (ex_env Verified), EvRequest ''powersave'' OJob None,
      EvTurn 3 (ex_env Verified\<lparr>e_now := 3, e_appended := 4, e_retry := 4\<rparr>)]
     (recover None (\<lambda>_. safe_readback None) None (init_arbiter profile_name Full 2 1)) = [2] \<and>
   int (length (filter (\<lambda>s. 30 - 60 \<le> s \<and> s \<le> 30)
     (switch_log [EvRequest ''performance'' OJob None, EvTurn 1 (ex_env Verified), EvRequest ''powersave'' OJob None,
        EvTurn 3 (ex_env Verified\<lparr>e_now := 3, e_appended := 4, e_retry := 4\<rparr>)]
       (recover None (\<lambda>_. safe_readback None) None (init_arbiter profile_name Full 2 1))))) \<le> max 1 1"
proof
  let ?es = "[EvRequest ''performance'' OJob None, EvTurn 1 (ex_env Verified), EvRequest ''powersave'' OJob None,
      EvTurn 3 (ex_env Verified\<lparr>e_now := 3, e_appended := 4, e_retry := 4\<rparr>)]"
  show "switch_log ?es (recover None (\<lambda>_. safe_readback None) None (init_arbiter profile_name Full 2 1)) = [2]"
    by code_simp
  have "clock_ok 0 ?es" by (simp add: ex_env_def)
  then show "int (length (filter (\<lambda>s. 30 - 60 \<le> s \<and> s \<le> 30)
      (switch_log ?es (recover None (\<lambda>_. safe_readback None) None (init_arbiter profile_name Full 2 1))))) \<le> max 1 1"
    by (rule switches_per_minute)
qed

section \<open>What a caller of request is told\<close>

lemma latest_attempt_sound:
  "latest_attempt p seq0 a = Some x \<Longrightarrow>
     (a_last_switch a = Some x \<or> a_last_defer a = Some x) \<and> at_to x = p \<and> at_seq x > seq0"
  by (auto simp: latest_attempt_def Let_def split: option.splits if_splits)

lemma settle_poll_sound:
  assumes "attempts_ok a" and "settle_poll p w seq0 rem a = Some r" and "r_outcome r \<in> {Verified, Unverifiable}"
  shows "r_applied r = Some p \<and> a_mode a = Full"
proof (cases "latest_attempt p seq0 a")
  case None
  with assms(2,3) show ?thesis
    by (auto simp: settle_poll_def arb_result_def Let_def split: if_splits)
next
  case (Some x)
  from latest_attempt_sound [OF this] assms(1) have
    "at_outcome x \<in> {Verified, Unverifiable} \<Longrightarrow> a_applied a = Some p"
    by (auto simp: attempts_ok_def)
  with Some assms(2,3) show ?thesis
    by (auto simp: settle_poll_def arb_result_def Let_def split: if_splits)
qed

text \<open>
  C28: when a caller that waits for a requested profile is told that it was verified or applied, then
  at the moment of the answer the host's applied profile is the requested one and the arbiter is in
  full mode, in every state any sequence of events can lead to.
\<close>

theorem settled_means_applied:
  assumes "configured a" and "settle_poll p w seq0 rem (fold arb_step es a) = Some r"
    and "r_outcome r \<in> {Verified, Unverifiable}"
  shows "r_applied r = Some p \<and> a_mode (fold arb_step es a) = Full"
proof -
  have "attempts_ok (fold arb_step es a)" using arb.inv_run [OF assms(1)] by (simp add: arb_inv_def)
  then show ?thesis using assms(2,3) by (rule settle_poll_sound)
qed

lemma ex_arbiter_configured: "configured ex_arbiter"
  unfolding configured_def ex_arbiter_def by blast

lemma ex_arbiter_mode [simp]: "a_mode ex_arbiter = Full"
  by code_simp

lemma ex_arbiter_simps [simp]:
  "a_holds ex_arbiter = (\<lambda>_. None)" "a_applied ex_arbiter = None"
  "a_attempts ex_arbiter = 0" "a_switch_times ex_arbiter = []" "a_cap ex_arbiter = 6"
  "a_retry_at ex_arbiter = None" "a_stop ex_arbiter = False" "a_busy ex_arbiter = False"
  "a_last_defer ex_arbiter = None" "a_fail_streak ex_arbiter = 0" "a_units ex_arbiter = profile_name"
  by (simp_all add: ex_arbiter_def configure_def recover_def init_arbiter_def Let_def)

lemma ex_request:
  "arb_step (EvRequest ''performance'' OJob None) ex_arbiter =
     ex_arbiter\<lparr>a_holds := (\<lambda>_. None)(OJob := Some Performance),
       a_holders := (a_holders ex_arbiter)(OJob := dict_set [] Performance (a_holders ex_arbiter OJob))\<rparr>"
  by (simp add: request_def profile_of_def)

theorem settled_means_applied_witness:
  "r_applied (the (settle_poll Performance OJob 0 1
     (fold arb_step [EvRequest ''performance'' OJob None, EvTurn 1 (ex_env Verified)] ex_arbiter)))
   = Some Performance"
proof -
  let ?a = "fold arb_step [EvRequest ''performance'' OJob None, EvTurn 1 (ex_env Verified)] ex_arbiter"
  have "\<exists>r. settle_poll Performance OJob 0 1 ?a = Some r \<and> r_outcome r = Verified"
    by (simp add: ex_request worker_turn_eq loop_decide_def effective_def arb_apply_unfold ex_env_def
        recent_switches_def settle_poll_def latest_attempt_def arb_result_def Let_def del: arb_step.simps(1))
  then obtain r where r: "settle_poll Performance OJob 0 1 ?a = Some r" "r_outcome r = Verified" by blast
  have "r_applied r = Some Performance \<and> a_mode ?a = Full"
    using ex_arbiter_configured r(1) by (rule settled_means_applied) (simp add: r(2))
  then show ?thesis by (simp only: r(1) option.sel)
qed

section \<open>Back-off\<close>

lemma quiet_fold_retry:
  "\<forall>ev \<in> set es. \<forall>now env. ev \<noteq> EvTurn now env \<Longrightarrow> a_retry_at (fold arb_step es a) = a_retry_at a"
proof (induction es arbitrary: a)
  case (Cons ev es)
  then show ?case using quiet_step_frame [of ev a] by auto
qed simp

lemma backoff_no_switch: "a_retry_at a = Some t \<Longrightarrow> now < t \<Longrightarrow> \<not> turn_switches now env a"
  by (auto simp: turn_switches_iff loop_decide_def Let_def split: if_splits prod.splits)

lemma arb_apply_failed_retry:
  "int (length (recent_switches (e_now env) (a_switch_times a))) < a_cap a \<Longrightarrow>
   e_switch env (a_units a p) p = (SwitchFailed, err, rb) \<Longrightarrow>
   a_retry_at (arb_apply p env a) = Some (e_retry env + retry_delay (a_fail_streak a + 1)) \<and>
   a_fail_streak (arb_apply p env a) = a_fail_streak a + 1"
  by (simp add: arb_apply_unfold Let_def)

text \<open>
  after a failed switch the worker restarts nothing for 5 seconds after the first failure in a row,
  15 after the second and 60 after every later one, whatever is requested meanwhile.
\<close>

theorem failed_switch_backs_off:
  assumes "loop_decide now a = (a1, LoopApply p w)" and "turn_switches now env a"
    and "e_switch env (a_units a p) p = (SwitchFailed, err, rb)" and "0 \<le> a_fail_streak a"
    and "\<forall>ev \<in> set es. \<forall>n e. ev \<noteq> EvTurn n e"
    and "later < e_retry env + (if a_fail_streak a = 0 then 5 else if a_fail_streak a = 1 then 15 else 60)"
  shows "\<not> turn_switches later env' (fold arb_step es (worker_turn now env a))"
proof -
  let ?b = "worker_turn now env a"
  note fr = loop_decide_frame [OF assms(1)]
  have b: "?b = (arb_apply p env a1)\<lparr>a_busy := False\<rparr>" by (simp add: worker_turn_eq assms(1))
  have "a_retry_at ?b = Some (e_retry env + retry_delay (a_fail_streak a + 1))"
    using arb_apply_failed_retry [of env a1 p err rb] assms(2,3)
    by (simp add: b fr turn_switches_iff assms(1))
  moreover have "retry_delay (a_fail_streak a + 1) =
      (if a_fail_streak a = 0 then 5 else if a_fail_streak a = 1 then 15 else 60)"
    using assms(4) by (auto simp: retry_delay_def RETRY_S_def min_def numeral_2_eq_2 numeral_3_eq_3)
  ultimately have "a_retry_at (fold arb_step es ?b) =
      Some (e_retry env + (if a_fail_streak a = 0 then 5 else if a_fail_streak a = 1 then 15 else 60))"
    using quiet_fold_retry [OF assms(5)] by simp
  then show ?thesis using assms(6) by (rule backoff_no_switch)
qed

theorem failed_switch_backs_off_witness:
  "\<not> turn_switches 6 (ex_env Verified)
     (worker_turn 1 (ex_env SwitchFailed)
       (arb_step (EvRequest ''performance'' OJob None) ex_arbiter))"
proof -
  let ?a = "arb_step (EvRequest ''performance'' OJob None) ex_arbiter"
  have d: "loop_decide 1 ?a = (?a\<lparr>a_busy := True\<rparr>, LoopApply Performance OJob)"
    by (simp add: ex_request loop_decide_def effective_def del: arb_step.simps)
  have t: "turn_switches 1 (ex_env SwitchFailed) ?a"
    by (simp add: turn_switches_iff d del: arb_step.simps) (simp add: ex_request recent_switches_def del: arb_step.simps)
  have "\<not> turn_switches 6 (ex_env Verified) (fold arb_step [] (worker_turn 1 (ex_env SwitchFailed) ?a))"
    by (rule failed_switch_backs_off [OF d t])
      (auto simp: ex_request ex_env_def simp del: arb_step.simps)
  then show ?thesis by simp
qed

section \<open>The policy owner\<close>

text \<open>The profiles of a sequence of policy calls, newest first; a hold asks for nothing.\<close>

definition asked :: "profile_or_hold list \<Rightarrow> profile list" where
  "asked phs = rev [p. Profile p \<leftarrow> phs]"

text \<open>
  The debounced policy: the profile of the newest position in the calls at which it was asked for
  \<open>n\<close> times in a row.
\<close>

fun debounced :: "nat \<Rightarrow> profile list \<Rightarrow> profile option" where
  "debounced n [] = None"
| "debounced n (p # ps) =
     (if n \<le> Suc (length (takeWhile ((=) p) ps)) then Some p else debounced n ps)"

lemma asked_snoc:
  "asked [] = []" "asked (phs @ [Hold]) = asked phs" "asked (phs @ [Profile p]) = p # asked phs"
  by (simp_all add: asked_def)

lemma set_policy_Hold [simp]: "set_policy Hold a = a"
  by (simp add: set_policy_def)

lemma set_policy_Profile:
  "a_pending (set_policy (Profile p) a) =
     (Some p, if fst (a_pending a) = Some p then snd (a_pending a) + 1 else 1)"
  "a_policy (set_policy (Profile p) a) =
     (if snd (a_pending (set_policy (Profile p) a)) \<ge> a_dwell a then Some p else a_policy a)"
  by (auto simp: set_policy_def Let_def split: prod.splits)

lemma fold_set_policy_dwell: "a_dwell (fold set_policy phs a) = a_dwell a"
  by (induction phs arbitrary: a) simp_all

lemma set_policy_pending:
  "a_pending (fold set_policy phs (init_arbiter u m d c)) =
     (case asked phs of [] \<Rightarrow> (None, 0) | p # ps \<Rightarrow> (Some p, 1 + int (length (takeWhile ((=) p) ps))))"
proof (induction phs rule: rev_induct)
  case Nil
  show ?case by (simp add: asked_snoc init_arbiter_def)
next
  case (snoc ph phs)
  then show ?case
    by (cases ph; cases "asked phs") (auto simp: asked_snoc set_policy_Profile)
qed

text \<open>
  the policy profile is the debounced one: it changes to a profile exactly when the collector has
  asked for that profile \<open>dwell_ticks\<close> times (at least once) in a row, holds in between not counting.
\<close>

theorem policy_debounced:
  "a_policy (fold set_policy phs (init_arbiter u m d c)) = debounced (nat (max 1 d)) (asked phs)"
proof (induction phs rule: rev_induct)
  case Nil
  show ?case by (simp add: asked_snoc init_arbiter_def)
next
  case (snoc ph phs)
  have dw: "a_dwell (fold set_policy phs (init_arbiter u m d c)) = max 1 d"
    by (simp add: fold_set_policy_dwell init_arbiter_def)
  show ?case
  proof (cases ph)
    case (Profile p)
    have "snd (a_pending (fold set_policy (phs @ [ph]) (init_arbiter u m d c))) =
        1 + int (length (takeWhile ((=) p) (asked phs)))"
      by (simp only: set_policy_pending) (simp add: Profile asked_snoc)
    then show ?thesis
      using snoc by (auto simp: Profile asked_snoc set_policy_Profile(2) dw)
  qed (simp add: snoc asked_snoc)
qed

section \<open>Priority of the owners\<close>

text \<open>
  a job hold outranks a manual one and a manual one the policy; the manual hold is dropped when
  the aggregate of the host changes and a job hold is not.
\<close>

theorem owner_priority:
  assumes "request prof w h a = Inr (n, a')" and "profile_of prof = Some p"
  shows "(w = OJob \<longrightarrow> effective a' = (Some p, Some OJob)) \<and>
    (w = OManual \<longrightarrow> effective a' = (case a_holds a OJob of Some q \<Rightarrow> (Some q, Some OJob)
                                                            | None \<Rightarrow> (Some p, Some OManual))) \<and>
    (a_last_aggregate a = Some g \<and> g' \<noteq> g \<longrightarrow>
       effective (on_aggregate g' a') =
         (case a_holds a' OJob of Some q \<Rightarrow> (Some q, Some OJob)
          | None \<Rightarrow> (a_policy a, if a_policy a = None then None else Some OPolicy)))"
  using assms
  by (auto simp: request_def effective_def on_aggregate_def Let_def split: option.splits if_splits)

theorem owner_priority_witness:
  "effective (arb_step (EvRequest ''performance'' OJob None) ex_arbiter) = (Some Performance, Some OJob)"
proof -
  have "request ''performance'' OJob None ex_arbiter =
      Inr (0, arb_step (EvRequest ''performance'' OJob None) ex_arbiter)"
    by (simp add: request_def profile_of_def)
  moreover have "profile_of ''performance'' = Some Performance" by (simp add: profile_of_def)
  ultimately show ?thesis by (rule owner_priority [THEN conjunct1, rule_format]) simp
qed

text \<open>Only the full mode switches, and it needs the sudo rule of both units.\<close>

lemma select_mode_Full_iff:
  "fst (select_mode en lin sudo present units) = Full \<longleftrightarrow>
     en \<and> lin \<and> present \<and>
     (\<forall>p. contains (''reload-or-restart '' @ units p) (or_list sudo []))"
proof -
  have "(\<forall>p. Q p) \<longleftrightarrow> Q Performance \<and> Q Powersave" for Q :: "profile \<Rightarrow> bool"
    by (metis profile.exhaust)
  then show ?thesis by (simp add: select_mode_def Let_def)
qed

lemma turn_switches_mode: "turn_switches now env a \<Longrightarrow> a_mode a = Full"
  by (auto simp: turn_switches_iff loop_decide_def Let_def split: if_splits prod.splits)

lemma arb_step_mode [simp]: "a_mode (arb_step ev a) = a_mode a"
proof (cases ev)
  case (EvTurn now env)
  have "a_mode (arb_apply p env b) = a_mode b" for p b
    by (auto simp: arb_apply_unfold Let_def split: prod.splits)
  moreover have "a_mode (fst (loop_decide now a)) = a_mode a"
    by (auto simp: loop_decide_def Let_def split: prod.splits)
  ultimately show ?thesis
    by (auto simp: EvTurn worker_turn_eq split: prod.splits loop_action.splits)
qed (auto simp: request_def release_def set_policy_def on_aggregate_def Let_def
    split: option.splits sum.splits profile_or_hold.splits prod.splits)

lemma switch_log_not_full: "a_mode a \<noteq> Full \<Longrightarrow> switch_log es a = []"
proof (induction es arbitrary: a)
  case (Cons ev es)
  then show ?case using turn_switches_mode turn_switches_def by (auto split: arb_event.splits)
qed simp

text \<open>
  an arbiter restarts a unit only when it is enabled, on Linux, both unit files exist and sudo
  lists the restart of both units; otherwise no sequence of events makes it restart anything.
\<close>

theorem no_switch_without_rights:
  assumes "\<not> (enabled \<and> is_linux \<and> (\<forall>p. unit_exists (units p)) \<and>
    (\<forall>p. contains (''reload-or-restart '' @ units p) (or_list sudo [])))"
  shows "switch_log es (configure enabled is_linux units sudo unit_exists dw rec srb gov old) = []"
proof (rule switch_log_not_full)
  have un: "(\<forall>p. Q p) \<longleftrightarrow> Q Performance \<and> Q Powersave" for Q :: "profile \<Rightarrow> bool"
    by (metis profile.exhaust)
  have "a_mode (recover rec srb gov b) = a_mode b" for b
    by (auto simp: recover_def Let_def split: option.splits)
  then have "a_mode (configure enabled is_linux units sudo unit_exists dw rec srb gov old) =
      fst (select_mode enabled is_linux (if enabled \<and> is_linux then sudo else None)
        (enabled \<and> is_linux \<and> unit_exists (units Performance) \<and> unit_exists (units Powersave)) units)"
    by (simp add: configure_def Let_def adopt_holds_def init_arbiter_def split: option.split)
  then show "a_mode (configure enabled is_linux units sudo unit_exists dw rec srb gov old) \<noteq> Full"
    using assms by (auto simp: select_mode_Full_iff un)
qed

theorem no_switch_without_rights_witness:
  "switch_log [EvRequest ''performance'' OJob None, EvTurn 1 (ex_env Verified)]
     (configure True True profile_name (Some ''reload-or-restart performance'') (\<lambda>_. True) 2 None
       (\<lambda>_. safe_readback None) None None) = []"
proof -
  have "\<not> contains (''reload-or-restart '' @ profile_name Powersave) ''reload-or-restart performance''"
    by code_simp
  then show ?thesis by (intro no_switch_without_rights) (auto)
qed

section \<open>Restart of the agent\<close>

lemma profile_of_name [simp]: "profile_of (profile_name p) = Some p"
  by (cases p) (simp_all add: profile_of_def profile_name_def)

lemma arb_apply_applied:
  "apply_record p env a = Some rec \<Longrightarrow>
   ar_applied_profile rec = map_option profile_name (a_applied (arb_apply p env a))"
  by (auto simp: apply_record_eq split: if_splits)

text \<open>
  C35: the record written after a switch survives a restart: an arbiter that recovers from it, on a
  host whose readback does not contradict it, starts with the applied profile of the one that wrote
  it; when the readback fails, nothing counts as applied and the profile is applied again.
\<close>

theorem record_recover_roundtrip:
  assumes "apply_record p env a = Some rec"
  shows "a_applied (recover (Some rec) srb gov (init_arbiter u m d c)) =
    (case a_applied (arb_apply p env a) of
       None \<Rightarrow> None
     | Some q \<Rightarrow> if rb_outcome (srb q) = Some SwitchFailed then None else Some q)"
  using arb_apply_applied [OF assms]
  by (auto simp: recover_def Let_def init_arbiter_def split: option.splits)

theorem record_recover_roundtrip_witness:
  "a_applied (recover (apply_record Powersave (ex_env Unverifiable) ex_arbiter)
     (\<lambda>_. safe_readback None) None (init_arbiter profile_name Full 2 6)) = Some Powersave"
proof -
  obtain r where r: "apply_record Powersave (ex_env Unverifiable) ex_arbiter = Some r"
    by (simp add: apply_record_eq recent_switches_def)
  have "a_applied (arb_apply Powersave (ex_env Unverifiable) ex_arbiter) = Some Powersave"
    by (simp add: arb_apply_unfold recent_switches_def ex_env_def Let_def)
  with record_recover_roundtrip [OF r, of "\<lambda>_. safe_readback None" None profile_name Full 2 6]
  show ?thesis by (simp add: r safe_readback_def)
qed

end
