(* ===== verification/AutopilotPlanner.thy ===== *)
theory AutopilotPlanner
  imports Prelude
begin

text \<open>
  The placement planner of Model Autopilot
  (\<^verbatim>\<open>src/llm-systems-manager/backend/autopilot_planner.py\<close>): from the desired entries, one observation
  of the fleet, the ledger of past actions and a clock reading it computes the loads, wakes,
  scale-ups and scale-downs of one pass, and the per-entry status the dashboard shows.

  Dictionaries whose iteration order matters (the agents of the observation, the ledger's
  placements) are association lists; memory sizes are whole megabytes; time stamps, speeds and
  saturations are exact rationals. \<^verbatim>\<open>observed["agents"][aid]\<close> is only read for agents the code has
  looked up before, so the looked-up record \<open>a\<close> is passed on where the code indexes again.
\<close>

section \<open>Data\<close>

record agent_obs =
  ao_live :: bool
  ao_liveness :: "string option"
  ao_caps :: "string list"
  ao_vram_total :: int
  ao_vram_free :: int
  ao_ram_free :: int
  ao_loaded :: "(string, string list) dict"
  ao_answered :: "(string, bool) dict option"
  ao_server_state :: "string option"
  ao_llama_build :: string

record autoscale_cfg =
  as_target :: rat
  as_up_window :: secs
  as_down_window :: secs

record entry =
  en_model :: string
  en_provider :: string
  en_placement :: string
  en_failover :: string
  en_priority :: int
  en_min :: int
  en_max :: int
  en_rank_by :: "string option"
  en_autoscale :: "autoscale_cfg option"

record desired =
  de_enabled :: bool
  de_protect :: bool
  de_entries :: "entry list"
  de_max_age_days :: "rat option"

record speed_row =
  sr_gen_tps :: "rat option"
  sr_latency :: "rat option"
  sr_wh :: "rat option"
  sr_ts :: "secs option"
  sr_build :: "string option"
  sr_run_id :: "string option"
  sr_hostname :: "string option"

record observed =
  ob_agents :: "(string, agent_obs) dict"
  ob_sizes :: "(string, int) dict"
  ob_gpu_layers :: "(string, int option) dict"
  ob_route_pins :: "(string, (string, string) dict) dict"
  ob_speed :: "(string, (string, speed_row) dict) dict"
  ob_sat :: "(string, (secs \<times> rat) list) dict"

record ledger =
  le_last_action :: "(string, secs) dict"
  le_placed_at :: "(string, (string, secs) dict) dict"
  le_in_flight :: int
  le_backoff :: "(string, secs) dict"
  le_unload_backoff :: "(string, (string, secs) dict) dict"
  le_confirmed :: "(string, string list) dict"

datatype action_kind = Wake | Load | ScaleUp | ScaleDown

record action =
  ac_kind :: action_kind
  ac_provider :: string
  ac_model :: string
  ac_agent :: string
  ac_reason :: string
  ac_auto :: bool
  ac_entry :: string

definition COOLDOWN_S :: secs where "COOLDOWN_S = 120"
definition DWELL_S :: secs where "DWELL_S = 600"
definition PLACEMENT_FRESH_S :: secs where "PLACEMENT_FRESH_S = 240"
definition VRAM_HEADROOM_MB :: int where "VRAM_HEADROOM_MB = 1024"
definition SPEED_MAX_AGE_DAYS :: rat where "SPEED_MAX_AGE_DAYS = 30"

definition SINGLE_RESIDENT_PROVIDERS :: "string list" where
  "SINGLE_RESIDENT_PROVIDERS = [''llama'', ''vllm'']"

definition UNLOADABLE_PROVIDERS :: "string list" where
  "UNLOADABLE_PROVIDERS = [''llama'', ''lms'']"

text \<open>A float that may be positive infinity, ordered as Python orders it.\<close>

datatype efloat = Num rat | PInf

instantiation efloat :: linorder
begin

definition less_eq_efloat :: "efloat \<Rightarrow> efloat \<Rightarrow> bool" where
  "less_eq_efloat x y =
     (case y of PInf \<Rightarrow> True | Num b \<Rightarrow> (case x of PInf \<Rightarrow> False | Num a \<Rightarrow> a \<le> b))"

definition less_efloat :: "efloat \<Rightarrow> efloat \<Rightarrow> bool" where
  "less_efloat x y = (case x of PInf \<Rightarrow> False | Num a \<Rightarrow> (case y of PInf \<Rightarrow> True | Num b \<Rightarrow> a < b))"

instance
  by standard (auto simp: less_eq_efloat_def less_efloat_def split: efloat.splits)

end

section \<open>Placements\<close>

definition entry_id :: "entry \<Rightarrow> string" where
  "entry_id e = en_model e @ ''/'' @ en_provider e"

definition provider_model :: "string \<Rightarrow> string \<Rightarrow> string" where
  "provider_model prov model = prov @ '':'' @ model"

definition reporting :: "agent_obs \<Rightarrow> bool" where
  "reporting a \<longleftrightarrow> ao_live a \<or> ao_liveness a = Some ''stale''"

definition loaded_models :: "agent_obs \<Rightarrow> string \<Rightarrow> string list" where
  "loaded_models a prov = dict_get_or (ao_loaded a) prov []"

definition placements :: "entry \<Rightarrow> observed \<Rightarrow> string list" where
  "placements e obs =
     [aid. (aid, a) \<leftarrow> ob_agents obs, reporting a \<and> en_model e \<in> set (loaded_models a (en_provider e))]"

definition fresh_placed :: "string \<Rightarrow> ledger option \<Rightarrow> secs option \<Rightarrow> string list" where
  "fresh_placed k led now =
     (case (led, now) of
        (Some l, Some t) \<Rightarrow>
          (let confirmed = dict_get_or (le_confirmed l) k []
           in [aid. (aid, ts) \<leftarrow> dict_get_or (le_placed_at l) k [],
                 t - ts < PLACEMENT_FRESH_S \<and> aid \<notin> set confirmed])
      | _ \<Rightarrow> [])"

definition agent_reporting :: "observed \<Rightarrow> string \<Rightarrow> bool" where
  "agent_reporting obs aid =
     (case dict_get (ob_agents obs) aid of None \<Rightarrow> False | Some a \<Rightarrow> reporting a)"

definition with_fresh ::
  "string list \<Rightarrow> string \<Rightarrow> observed \<Rightarrow> ledger option \<Rightarrow> secs option \<Rightarrow> string list" where
  "with_fresh placed k obs led now =
     foldl (\<lambda>out aid. if aid \<notin> set out \<and> agent_reporting obs aid then out @ [aid] else out)
       placed (fresh_placed k led now)"

definition effective_placements ::
  "entry \<Rightarrow> string \<Rightarrow> observed \<Rightarrow> ledger option \<Rightarrow> secs option \<Rightarrow> string list" where
  "effective_placements e k obs led now = with_fresh (placements e obs) k obs led now"

type_synonym residents = "(string \<times> string, string) dict"

definition observed_residents :: "observed \<Rightarrow> residents" where
  "observed_residents obs =
     foldl (\<lambda>res (aid, a).
              if \<not> reporting a then res
              else foldl (\<lambda>r prov. case loaded_models a prov of
                                      [] \<Rightarrow> r
                                    | m # _ \<Rightarrow> dict_set (prov, aid) m r)
                     res SINGLE_RESIDENT_PROVIDERS)
       [] (ob_agents obs)"

definition residents :: "desired \<Rightarrow> observed \<Rightarrow> ledger option \<Rightarrow> secs option \<Rightarrow> residents" where
  "residents des obs led now =
     foldl (\<lambda>res e.
              if en_provider e \<notin> set SINGLE_RESIDENT_PROVIDERS then res
              else foldl (\<lambda>r aid. if agent_reporting obs aid
                                  then dict_setdefault (en_provider e, aid) (en_model e) r else r)
                     res (fresh_placed (entry_id e) led now))
       (observed_residents obs) (de_entries des)"

section \<open>Ranking by measured speed\<close>

definition speed_rows :: "entry \<Rightarrow> observed \<Rightarrow> (string, speed_row) dict" where
  "speed_rows e obs = dict_get_or (ob_speed obs) (provider_model (en_provider e) (en_model e)) []"

datatype tier = Measured | Advisory

definition tier_name :: "tier \<Rightarrow> string" where
  "tier_name t = (case t of Measured \<Rightarrow> ''measured'' | Advisory \<Rightarrow> ''advisory'')"

definition speed_tier :: "speed_row \<Rightarrow> agent_obs option \<Rightarrow> secs \<Rightarrow> secs option \<Rightarrow> tier" where
  "speed_tier row agent max_age_s now =
     (if (case (now, sr_ts row) of (Some t, Some ts) \<Rightarrow> t - ts > max_age_s | _ \<Rightarrow> False) then Advisory
      else (let ran = or_list (sr_build row) [];
                cur = (case agent of None \<Rightarrow> [] | Some a \<Rightarrow> ao_llama_build a)
            in if ran \<noteq> [] \<and> cur \<noteq> [] \<and> ran \<noteq> cur then Advisory else Measured))"

definition max_age :: "desired \<Rightarrow> secs" where
  "max_age des = or_num (de_max_age_days des) SPEED_MAX_AGE_DAYS * 86400"

definition speed_key ::
  "entry \<Rightarrow> observed \<Rightarrow> desired \<Rightarrow> secs option \<Rightarrow> string \<Rightarrow> nat \<times> efloat \<times> efloat" where
  "speed_key e obs des now aid =
     (case dict_get (speed_rows e obs) aid of
        None \<Rightarrow> (2, Num 0, Num 0)
      | Some row \<Rightarrow>
          (let tr = (if speed_tier row (dict_get (ob_agents obs) aid) (max_age des) now = Measured
                     then 0 else 1);
               tps = Num (- or_num (sr_gen_tps row) 0);
               wh = (case sr_wh row of Some w \<Rightarrow> Num w | None \<Rightarrow> PInf)
           in if en_rank_by e = Some ''energy'' then (tr, wh, tps) else (tr, tps, wh)))"

definition ranked_candidates ::
  "entry \<Rightarrow> string list \<Rightarrow> observed \<Rightarrow> desired \<Rightarrow> secs option \<Rightarrow> string list" where
  "ranked_candidates e cands obs des now =
     (if en_placement e \<noteq> ''auto'' \<or> en_rank_by e = Some ''capacity'' \<or> speed_rows e obs = []
      then cands
      else sort_key (speed_key e obs des now) cands)"

definition candidates :: "entry \<Rightarrow> observed \<Rightarrow> desired \<Rightarrow> secs option \<Rightarrow> string list" where
  "candidates e obs des now =
     ranked_candidates e
       (if en_placement e \<noteq> ''auto'' then [en_placement e] else dict_keys (ob_agents obs)) obs des now"

definition middle_dot :: string where
  "middle_dot = [CHR 0xC2, CHR 0xB7]"

definition speed_note :: "entry \<Rightarrow> string \<Rightarrow> observed \<Rightarrow> desired \<Rightarrow> secs option \<Rightarrow> string" where
  "speed_note e aid obs des now =
     (case dict_get (speed_rows e obs) aid of
        None \<Rightarrow> []
      | Some row \<Rightarrow>
          (case sr_gen_tps row of
             None \<Rightarrow> []
           | Some tps \<Rightarrow>
               '' '' @ middle_dot @ '' '' @
               tier_name (speed_tier row (dict_get (ob_agents obs) aid) (max_age des) now) @ '' '' @
               fmt1 tps @ '' t/s''))"

section \<open>Memory budgets\<close>

definition model_size_mb :: "observed \<Rightarrow> string \<Rightarrow> string \<Rightarrow> int option" where
  "model_size_mb obs prov model = dict_get (ob_sizes obs) (provider_model prov model)"

type_synonym managed = "(string \<times> string) list"

definition displaced_by :: "entry \<Rightarrow> string \<Rightarrow> residents \<Rightarrow> managed \<Rightarrow> string option" where
  "displaced_by e aid res man =
     (if en_provider e \<notin> set SINGLE_RESIDENT_PROVIDERS then None
      else (case dict_get res (en_provider e, aid) of
              None \<Rightarrow> None
            | Some cur \<Rightarrow> if cur = en_model e \<or> (en_provider e, cur) \<in> set man then None else Some cur))"

definition uses_ram_budget :: "string \<Rightarrow> string \<Rightarrow> observed \<Rightarrow> string \<Rightarrow> bool" where
  "uses_ram_budget prov model obs aid =
     (if (case dict_get (ob_agents obs) aid of Some a \<Rightarrow> ao_vram_total a = 0 | None \<Rightarrow> False) then True
      else if prov \<noteq> ''llama'' then False
      else dict_get (ob_gpu_layers obs) (provider_model prov model) = Some (Some 0))"

definition displace_credit ::
  "entry \<Rightarrow> string \<Rightarrow> agent_obs \<Rightarrow> residents \<Rightarrow> managed \<Rightarrow> observed \<Rightarrow> int" where
  "displace_credit e aid a res man obs =
     (case displaced_by e aid res man of
        None \<Rightarrow> 0
      | Some cur \<Rightarrow>
          (let ram = uses_ram_budget (en_provider e) (en_model e) obs aid
           in if ram \<noteq> uses_ram_budget (en_provider e) cur obs aid then 0
              else (let sz = model_size_mb obs (en_provider e) cur;
                        used = max (ao_vram_total a - ao_vram_free a) 0
                    in if ram then or_num sz 0
                       else (case sz of Some s \<Rightarrow> min s used | None \<Rightarrow> used))))"

definition resident_conflict :: "entry \<Rightarrow> string \<Rightarrow> residents \<Rightarrow> managed \<Rightarrow> bool" where
  "resident_conflict e aid res man =
     (if en_provider e \<notin> set SINGLE_RESIDENT_PROVIDERS then False
      else (case dict_get res (en_provider e, aid) of
              None \<Rightarrow> False
            | Some cur \<Rightarrow> cur \<noteq> en_model e \<and> (en_provider e, cur) \<in> set man))"

definition unanswered :: "agent_obs \<Rightarrow> string \<Rightarrow> bool" where
  "unanswered a prov \<longleftrightarrow>
     prov = ''llama'' \<and>
     (case ao_answered a of None \<Rightarrow> False | Some d \<Rightarrow> dict_get d prov = Some False)"

definition fits :: "entry \<Rightarrow> agent_obs \<Rightarrow> int option \<Rightarrow> bool" where
  "fits e a sz \<longleftrightarrow>
     en_provider e \<in> set (ao_caps a) \<and> ao_live a \<and> \<not> unanswered a (en_provider e) \<and> sz \<noteq> None"

text \<open>The budgets and the resident slots of one pass.\<close>

record budgets =
  bu_free :: "(string, int) dict"
  bu_ram :: "(string, int) dict"
  bu_res :: residents

definition budget_of :: "entry \<Rightarrow> string \<Rightarrow> observed \<Rightarrow> budgets \<Rightarrow> int" where
  "budget_of e aid obs b =
     dict_get_or (if uses_ram_budget (en_provider e) (en_model e) obs aid then bu_ram b else bu_free b) aid 0"

definition fit_and_size ::
  "entry \<Rightarrow> string \<Rightarrow> agent_obs \<Rightarrow> observed \<Rightarrow> managed \<Rightarrow> budgets \<Rightarrow> bool \<times> int option \<times> int" where
  "fit_and_size e aid a obs man b =
     (let sz = model_size_mb obs (en_provider e) (en_model e);
          credit = displace_credit e aid a (bu_res b) man obs
      in (fits e a sz \<and> budget_of e aid obs b + credit \<ge> or_num sz 0 + VRAM_HEADROOM_MB, sz, credit))"

definition commit_budget :: "entry \<Rightarrow> string \<Rightarrow> int option \<Rightarrow> observed \<Rightarrow> budgets \<Rightarrow> budgets" where
  "commit_budget e aid sz obs b =
     (let left = budget_of e aid obs b - or_num sz 0;
          b1 = (if uses_ram_budget (en_provider e) (en_model e) obs aid
                then b\<lparr>bu_ram := dict_set aid left (bu_ram b)\<rparr>
                else b\<lparr>bu_free := dict_set aid left (bu_free b)\<rparr>)
      in if en_provider e \<in> set SINGLE_RESIDENT_PROVIDERS
         then b1\<lparr>bu_res := dict_set (en_provider e, aid) (en_model e) (bu_res b1)\<rparr> else b1)"

definition init_budgets :: "desired \<Rightarrow> observed \<Rightarrow> ledger option \<Rightarrow> secs option \<Rightarrow> budgets" where
  "init_budgets des obs led now =
     \<lparr>bu_free = map (\<lambda>(aid, a). (aid, ao_vram_free a)) (ob_agents obs),
      bu_ram = map (\<lambda>(aid, a). (aid, ao_ram_free a)) (ob_agents obs),
      bu_res = residents des obs led now\<rparr>"

definition pass_entries :: "desired \<Rightarrow> entry list" where
  "pass_entries des = sort_key en_priority (de_entries des)"

definition pass_managed :: "desired \<Rightarrow> observed \<Rightarrow> ledger option \<Rightarrow> secs option \<Rightarrow> managed" where
  "pass_managed des obs led now =
     map (\<lambda>e. (en_provider e, en_model e)) (pass_entries des) @
     (if de_protect des then map (\<lambda>((prov, aid), model). (prov, model)) (residents des obs led now) else [])"

section \<open>Guards\<close>

definition dwell_blocks :: "string \<Rightarrow> ledger \<Rightarrow> observed \<Rightarrow> secs \<Rightarrow> bool" where
  "dwell_blocks k led obs now =
     list_ex (\<lambda>(aid, ts).
        (case dict_get (ob_agents obs) aid of None \<Rightarrow> True | Some a \<Rightarrow> \<not> ao_live a) \<and> now - ts < DWELL_S)
       (dict_get_or (le_placed_at led) k [])"

definition has_dead_candidate :: "entry \<Rightarrow> string list \<Rightarrow> observed \<Rightarrow> bool" where
  "has_dead_candidate e cands obs =
     list_ex (\<lambda>aid. case dict_get (ob_agents obs) aid of
                      None \<Rightarrow> False
                    | Some a \<Rightarrow> en_provider e \<in> set (ao_caps a) \<and> \<not> ao_live a) cands"

definition may_auto :: "entry \<Rightarrow> desired \<Rightarrow> bool" where
  "may_auto e des =
     (if \<not> de_enabled des then False
      else if en_provider e = ''vllm'' then False
      else en_failover e = ''auto'')"

datatype decision = Up_Replica | Down_Replica | Hold_Replicas

definition evaluate_autoscale ::
  "entry \<Rightarrow> string list \<Rightarrow> (secs \<times> rat) list \<Rightarrow> secs \<Rightarrow> decision" where
  "evaluate_autoscale e placed hist now =
     (case (en_autoscale e, hist) of
        (Some cfg, h # _) \<Rightarrow>
          (let window = (\<lambda>w. [s. (t, s) \<leftarrow> hist, t \<ge> now - w]);
               up_pts = window (as_up_window cfg);
               down_pts = window (as_down_window cfg)
           in if up_pts \<noteq> [] \<and> (\<forall>s \<in> set up_pts. s > as_target cfg) \<and> fst h \<le> now - as_up_window cfg \<and>
                 int (length placed) < en_max e then Up_Replica
              else if down_pts \<noteq> [] \<and> (\<forall>s \<in> set down_pts. s < as_target cfg * (1 / 2)) \<and>
                 fst h \<le> now - as_down_window cfg \<and> int (length placed) > en_min e then Down_Replica
              else Hold_Replicas)
      | _ \<Rightarrow> Hold_Replicas)"

definition cooling :: "string \<Rightarrow> ledger \<Rightarrow> secs \<Rightarrow> bool" where
  "cooling aid led now \<longleftrightarrow> now - dict_get_or (le_last_action led) aid 0 < COOLDOWN_S"

definition backing_off :: "string \<Rightarrow> ledger \<Rightarrow> secs \<Rightarrow> bool" where
  "backing_off k led now \<longleftrightarrow> now < dict_get_or (le_backoff led) k 0"

definition scale_down_target ::
  "entry \<Rightarrow> string list \<Rightarrow> observed \<Rightarrow> (string, secs) dict \<Rightarrow> (string, secs) dict \<Rightarrow> string list \<Rightarrow>
   ledger \<Rightarrow> secs \<Rightarrow> string option" where
  "scale_down_target e placed obs pak unload_backoff touched led now =
     (let others = filter (\<lambda>aid. aid \<noteq> en_placement e) placed;
          routed = dict_get (dict_get_or (ob_route_pins obs) (en_provider e) []) (en_model e);
          others' = (case routed of
                       Some r \<Rightarrow> if r \<in> set others \<and> length others > 1 then remove1 r others else others
                     | None \<Rightarrow> others)
      in find (\<lambda>aid. (case dict_get (ob_agents obs) aid of None \<Rightarrow> False | Some a \<Rightarrow> ao_live a) \<and>
                     aid \<notin> set touched \<and> now \<ge> dict_get_or unload_backoff aid 0 \<and> \<not> cooling aid led now)
           (sort_key (\<lambda>x. dict_get_or pak x 0) others'))"

definition live_capable :: "entry \<Rightarrow> string list \<Rightarrow> observed \<Rightarrow> string list" where
  "live_capable e cands obs =
     filter (\<lambda>aid. case dict_get (ob_agents obs) aid of
                     None \<Rightarrow> False
                   | Some a \<Rightarrow> en_provider e \<in> set (ao_caps a) \<and> ao_live a) cands"

section \<open>The pass\<close>

record pass_state =
  pa_budgets :: budgets
  pa_actions :: "action list"
  pa_touched :: "string list"
  pa_migrations :: int

definition wake_first :: "entry \<Rightarrow> agent_obs \<Rightarrow> bool" where
  "wake_first e a \<longleftrightarrow> en_provider e = ''llama'' \<and> ao_server_state a = Some ''sleeping''"

definition mk_action :: "action_kind \<Rightarrow> entry \<Rightarrow> string \<Rightarrow> string \<Rightarrow> bool \<Rightarrow> action" where
  "mk_action kind e aid reason auto =
     \<lparr>ac_kind = kind, ac_provider = en_provider e, ac_model = en_model e, ac_agent = aid,
      ac_reason = reason, ac_auto = auto, ac_entry = entry_id e\<rparr>"

definition load_reason ::
  "entry \<Rightarrow> string \<Rightarrow> bool \<Rightarrow> nat \<Rightarrow> string option \<Rightarrow> desired \<Rightarrow> observed \<Rightarrow> secs \<Rightarrow> string" where
  "load_reason e aid is_failover n displaced des obs now =
     (if is_failover then ''failover: '' @ entry_id e @ '' recovering onto '' @ aid
      else entry_id e @ '': '' @ show_nat n @ ''/'' @ show_int (en_min e) @ '' replicas placed'') @
     speed_note e aid obs des (Some now) @
     (case displaced of None \<Rightarrow> [] | Some m \<Rightarrow> if m = [] then [] else '' (displacing '' @ m @ '')'')"

text \<open>One candidate of the placement loop: \<open>Some\<close> of the load it queues, \<open>None\<close> for \<^verbatim>\<open>continue\<close>.\<close>

definition place_one ::
  "desired \<Rightarrow> observed \<Rightarrow> ledger \<Rightarrow> secs \<Rightarrow> managed \<Rightarrow> entry \<Rightarrow> bool \<Rightarrow> string list \<Rightarrow> string \<Rightarrow>
   pass_state \<Rightarrow> pass_state option" where
  "place_one des obs led now man e is_failover placed aid st =
     (case dict_get (ob_agents obs) aid of
        None \<Rightarrow> None
      | Some a \<Rightarrow>
          (if aid \<in> set placed \<or> cooling aid led now \<or>
              (is_failover \<and> le_in_flight led + pa_migrations st \<ge> 1) \<or>
              resident_conflict e aid (bu_res (pa_budgets st)) man then None
           else
             (case fit_and_size e aid a obs man (pa_budgets st) of (fit, sz, credit) \<Rightarrow>
                if \<not> fit then None
                else
                  (let displaced = displaced_by e aid (bu_res (pa_budgets st)) man;
                       auto = may_auto e des;
                       reason = load_reason e aid is_failover (Suc (length placed)) displaced des obs now;
                       wakes = (if wake_first e a
                                then [mk_action Wake e aid
                                        (entry_id e @ '': waking '' @ aid @ '' for placement'') auto]
                                else [])
                   in Some (st\<lparr>pa_budgets := commit_budget e aid sz obs (pa_budgets st),
                               pa_actions := pa_actions st @ wakes @ [mk_action Load e aid reason auto],
                               pa_touched := aid # pa_touched st,
                               pa_migrations := pa_migrations st + (if is_failover then 1 else 0)\<rparr>)))))"

fun place_loop ::
  "desired \<Rightarrow> observed \<Rightarrow> ledger \<Rightarrow> secs \<Rightarrow> managed \<Rightarrow> entry \<Rightarrow> bool \<Rightarrow> string list \<Rightarrow> string list \<Rightarrow>
   pass_state \<Rightarrow> string list \<times> pass_state" where
  "place_loop des obs led now man e fo [] placed st = (placed, st)"
| "place_loop des obs led now man e fo (aid # cands) placed st =
     (if int (length placed) \<ge> en_min e then (placed, st)
      else (case place_one des obs led now man e fo placed aid st of
              None \<Rightarrow> place_loop des obs led now man e fo cands placed st
            | Some st' \<Rightarrow> place_loop des obs led now man e fo cands (placed @ [aid]) st'))"

definition place_entry ::
  "desired \<Rightarrow> observed \<Rightarrow> ledger \<Rightarrow> secs \<Rightarrow> managed \<Rightarrow> entry \<Rightarrow> pass_state \<Rightarrow> pass_state" where
  "place_entry des obs led now man e st =
     (let k = entry_id e;
          placed = with_fresh (placements e obs) k obs (Some led) (Some now)
      in if int (length placed) \<ge> en_min e then st
         else (let cands = candidates e obs des (Some now)
               in if dwell_blocks k led obs now then st
                  else snd (place_loop des obs led now man e (has_dead_candidate e cands obs) cands placed st)))"

text \<open>The first pass over the entries also collects their observed placements.\<close>

fun place_entries ::
  "desired \<Rightarrow> observed \<Rightarrow> ledger \<Rightarrow> secs \<Rightarrow> managed \<Rightarrow> entry list \<Rightarrow>
   (string, string list) dict \<Rightarrow> pass_state \<Rightarrow> (string, string list) dict \<times> pass_state" where
  "place_entries des obs led now man [] by_k st = (by_k, st)"
| "place_entries des obs led now man (e # es) by_k st =
     (if backing_off (entry_id e) led now then place_entries des obs led now man es by_k st
      else place_entries des obs led now man es (dict_set (entry_id e) (placements e obs) by_k)
             (place_entry des obs led now man e st))"

definition scale_up_one ::
  "desired \<Rightarrow> observed \<Rightarrow> ledger \<Rightarrow> secs \<Rightarrow> managed \<Rightarrow> entry \<Rightarrow> string list \<Rightarrow> string \<Rightarrow>
   pass_state \<Rightarrow> pass_state option" where
  "scale_up_one des obs led now man e placed aid st =
     (case dict_get (ob_agents obs) aid of
        None \<Rightarrow> None
      | Some a \<Rightarrow>
          (if aid \<in> set placed \<or> aid \<in> set (pa_touched st) \<or> cooling aid led now \<or>
              resident_conflict e aid (bu_res (pa_budgets st)) man then None
           else
             (case fit_and_size e aid a obs man (pa_budgets st) of (fit, sz, credit) \<Rightarrow>
                if \<not> fit then None
                else
                  (let auto = may_auto e des;
                       wakes = (if wake_first e a
                                then [mk_action Wake e aid
                                        (entry_id e @ '': waking '' @ aid @ '' for scale-up'') auto]
                                else [])
                   in Some (st\<lparr>pa_budgets := commit_budget e aid sz obs (pa_budgets st),
                               pa_actions := pa_actions st @ wakes @
                                 [mk_action ScaleUp e aid (entry_id e @ '': autoscale up -> '' @ aid) auto],
                               pa_touched := aid # pa_touched st\<rparr>)))))"

fun scale_up ::
  "desired \<Rightarrow> observed \<Rightarrow> ledger \<Rightarrow> secs \<Rightarrow> managed \<Rightarrow> entry \<Rightarrow> string list \<Rightarrow> string list \<Rightarrow>
   pass_state \<Rightarrow> pass_state" where
  "scale_up des obs led now man e placed [] st = st"
| "scale_up des obs led now man e placed (aid # cands) st =
     (case scale_up_one des obs led now man e placed aid st of
        None \<Rightarrow> scale_up des obs led now man e placed cands st
      | Some st' \<Rightarrow> st')"

definition scale_down ::
  "desired \<Rightarrow> observed \<Rightarrow> ledger \<Rightarrow> secs \<Rightarrow> entry \<Rightarrow> string list \<Rightarrow> string list \<Rightarrow> bool \<Rightarrow>
   pass_state \<Rightarrow> pass_state" where
  "scale_down des obs led now e observed_placed placed surplus st =
     (if en_provider e \<notin> set UNLOADABLE_PROVIDERS then st
      else (case scale_down_target e observed_placed obs
                   (dict_get_or (le_placed_at led) (entry_id e) [])
                   (dict_get_or (le_unload_backoff led) (entry_id e) []) (pa_touched st) led now of
              None \<Rightarrow> st
            | Some aid \<Rightarrow>
                (let reason = (if surplus then
                                 entry_id e @ '': surplus replica ('' @ show_nat (length placed) @ ''/'' @
                                 show_int (en_max e) @ '') reclaimed from '' @ aid
                               else entry_id e @ '': autoscale down -> '' @ aid)
                 in st\<lparr>pa_actions := pa_actions st @ [mk_action ScaleDown e aid reason (may_auto e des)],
                       pa_touched := aid # pa_touched st\<rparr>)))"

definition agent_live :: "observed \<Rightarrow> string \<Rightarrow> bool" where
  "agent_live obs aid = (case dict_get (ob_agents obs) aid of None \<Rightarrow> False | Some a \<Rightarrow> ao_live a)"

text \<open>\<open>None\<close> is the \<^verbatim>\<open>KeyError\<close> of \<^verbatim>\<open>observed_by_k[k]\<close>.\<close>

definition scale_decision ::
  "observed \<Rightarrow> secs \<Rightarrow> entry \<Rightarrow> string list \<Rightarrow> decision" where
  "scale_decision obs now e placed =
     (if int (length placed) > en_max e then Down_Replica
      else if en_max e \<le> en_min e \<or> int (length placed) < en_min e then Hold_Replicas
      else evaluate_autoscale e placed (dict_get_or (ob_sat obs) (entry_id e) []) now)"

definition scale_entry ::
  "desired \<Rightarrow> observed \<Rightarrow> ledger \<Rightarrow> secs \<Rightarrow> managed \<Rightarrow> (string, string list) dict \<Rightarrow> entry \<Rightarrow>
   pass_state \<Rightarrow> pass_state option" where
  "scale_entry des obs led now man by_k e st =
     (if backing_off (entry_id e) led now then Some st
      else (case dict_get by_k (entry_id e) of
              None \<Rightarrow> None
            | Some observed_placed \<Rightarrow>
                (let placed = with_fresh observed_placed (entry_id e) obs (Some led) (Some now)
                 in case scale_decision obs now e placed of
                      Hold_Replicas \<Rightarrow> Some st
                    | Up_Replica \<Rightarrow>
                        Some (scale_up des obs led now man e placed (candidates e obs des (Some now)) st)
                    | Down_Replica \<Rightarrow>
                        (if length observed_placed \<noteq> length placed \<or> \<not> list_all (agent_live obs) placed
                         then Some st
                         else Some (scale_down des obs led now e observed_placed placed
                                      (int (length placed) > en_max e) st)))))"

fun scale_entries ::
  "desired \<Rightarrow> observed \<Rightarrow> ledger \<Rightarrow> secs \<Rightarrow> managed \<Rightarrow> (string, string list) dict \<Rightarrow> entry list \<Rightarrow>
   pass_state \<Rightarrow> pass_state option" where
  "scale_entries des obs led now man by_k [] st = Some st"
| "scale_entries des obs led now man by_k (e # es) st =
     (case scale_entry des obs led now man by_k e st of
        None \<Rightarrow> None
      | Some st' \<Rightarrow> scale_entries des obs led now man by_k es st')"

definition init_pass :: "desired \<Rightarrow> observed \<Rightarrow> ledger \<Rightarrow> secs \<Rightarrow> pass_state" where
  "init_pass des obs led now =
     \<lparr>pa_budgets = init_budgets des obs (Some led) (Some now), pa_actions = [], pa_touched = [],
      pa_migrations = 0\<rparr>"

definition plan :: "desired \<Rightarrow> observed \<Rightarrow> ledger \<Rightarrow> secs \<Rightarrow> action list option" where
  "plan des obs led now =
     (let man = pass_managed des obs (Some led) (Some now)
      in case place_entries des obs led now man (pass_entries des) [] (init_pass des obs led now) of
           (by_k, st) \<Rightarrow>
             map_option pa_actions (scale_entries des obs led now man by_k (pass_entries des) st))"

section \<open>Status of the entries\<close>

definition speed_pick ::
  "entry \<Rightarrow> string list \<Rightarrow> string list \<Rightarrow> budgets \<Rightarrow> observed \<Rightarrow> managed \<Rightarrow> desired \<Rightarrow> secs option \<Rightarrow>
   string option" where
  "speed_pick e placed cands b obs man des now =
     (if placed \<noteq> [] then Some (hd (sort_key (speed_key e obs des now) placed))
      else find (\<lambda>aid. \<not> resident_conflict e aid (bu_res b) man \<and>
                       (case dict_get (ob_agents obs) aid of
                          None \<Rightarrow> False | Some a \<Rightarrow> fst (fit_and_size e aid a obs man b)))
             (live_capable e cands obs))"

record speed_line =
  sl_agent :: string
  sl_hostname :: string
  sl_gen_tps :: "rat option"
  sl_latency :: "rat option"
  sl_wh :: "rat option"
  sl_run_id :: "string option"
  sl_build :: string
  sl_age :: "secs option"
  sl_tier :: tier

definition speed_line_of ::
  "entry \<Rightarrow> observed \<Rightarrow> desired \<Rightarrow> secs option \<Rightarrow> string \<Rightarrow> speed_row \<Rightarrow> speed_line" where
  "speed_line_of e obs des now aid row =
     \<lparr>sl_agent = aid, sl_hostname = or_list (sr_hostname row) (take 8 aid), sl_gen_tps = sr_gen_tps row,
      sl_latency = sr_latency row, sl_wh = sr_wh row, sl_run_id = sr_run_id row,
      sl_build = or_list (sr_build row) [],
      sl_age = (case (now, sr_ts row) of (Some t, Some ts) \<Rightarrow> Some (t - ts) | _ \<Rightarrow> None),
      sl_tier = speed_tier row (dict_get (ob_agents obs) aid) (max_age des) now\<rparr>"

record speed_stat =
  ss_basis :: "string option"
  ss_pick :: "string option"
  ss_speed :: "speed_line list"

definition speed_status ::
  "entry \<Rightarrow> string option \<Rightarrow> observed \<Rightarrow> desired \<Rightarrow> secs option \<Rightarrow> speed_stat" where
  "speed_status e pick obs des now =
     (let rows = speed_rows e obs;
          table = map (\<lambda>(aid, row). speed_line_of e obs des now aid row)
                    (sort_key (\<lambda>(aid, row). speed_key e obs des now aid) rows);
          basis = (case pick of
                     None \<Rightarrow> None
                   | Some aid \<Rightarrow>
                       if en_placement e \<noteq> ''auto'' then None
                       else if en_rank_by e = Some ''capacity'' then Some ''capacity''
                       else (case dict_get rows aid of
                               None \<Rightarrow> Some ''capacity''
                             | Some row \<Rightarrow>
                                 Some (tier_name (speed_tier row (dict_get (ob_agents obs) aid)
                                                    (max_age des) now))))
      in \<lparr>ss_basis = basis, ss_pick = pick, ss_speed = table\<rparr>)"

text \<open>The counters of the inner loop of \<^verbatim>\<open>entry_status\<close>.\<close>

record status_loop =
  sp_placeable :: nat
  sp_resident_blocked :: nat
  sp_unanswered :: nat
  sp_avail :: "(string, int) dict"
  sp_budgets :: budgets

definition status_one ::
  "entry \<Rightarrow> observed \<Rightarrow> managed \<Rightarrow> string \<Rightarrow> agent_obs \<Rightarrow> status_loop \<Rightarrow> status_loop" where
  "status_one e obs man aid a s =
     (if unanswered a (en_provider e) then s\<lparr>sp_unanswered := Suc (sp_unanswered s)\<rparr>
      else if resident_conflict e aid (bu_res (sp_budgets s)) man
      then s\<lparr>sp_resident_blocked := Suc (sp_resident_blocked s)\<rparr>
      else (case fit_and_size e aid a obs man (sp_budgets s) of (fit, sz, credit) \<Rightarrow>
              (let s1 = s\<lparr>sp_avail := dict_set aid (budget_of e aid obs (sp_budgets s) + credit)
                                       (sp_avail s)\<rparr>
               in if fit then s1\<lparr>sp_budgets := commit_budget e aid sz obs (sp_budgets s),
                                sp_placeable := Suc (sp_placeable s)\<rparr>
                  else s1)))"

fun status_loop_run ::
  "entry \<Rightarrow> observed \<Rightarrow> managed \<Rightarrow> int \<Rightarrow> string list \<Rightarrow> status_loop \<Rightarrow> status_loop" where
  "status_loop_run e obs man need [] s = s"
| "status_loop_run e obs man need (aid # aids) s =
     (if int (sp_placeable s) \<ge> need then s
      else status_loop_run e obs man need aids
             (case dict_get (ob_agents obs) aid of None \<Rightarrow> s | Some a \<Rightarrow> status_one e obs man aid a s))"

definition size_unknown_msg :: string where
  "size_unknown_msg = ''model size unknown (set entry size MB)''"

definition blocked_reason ::
  "entry \<Rightarrow> desired \<Rightarrow> int option \<Rightarrow> status_loop \<Rightarrow> string" where
  "blocked_reason e des sz s =
     (case sz of
        None \<Rightarrow> size_unknown_msg
      | Some m \<Rightarrow>
          (if sp_placeable s = 0 \<and> sp_unanswered s \<noteq> 0 \<and> sp_resident_blocked s = 0 \<and> sp_avail s = []
           then ''waiting for a fresh '' @ en_provider e @ '' sample from '' @
                show_nat (sp_unanswered s) @ '' capable host(s)''
           else if sp_placeable s = 0 \<and> sp_resident_blocked s \<noteq> 0
           then (if de_protect des
                 then ''capable hosts serve a '' @ en_provider e @
                      '' model Autopilot does not manage (protect other models is on)''
                 else ''capable hosts already serve another managed '' @ en_provider e @ '' model'')
           else ''insufficient free VRAM/RAM (need '' @ show_int (m + VRAM_HEADROOM_MB) @
                '' MB incl. '' @ show_int VRAM_HEADROOM_MB @ '' MB headroom; best candidate has '' @
                show_int (case dict_values (sp_avail s) of [] \<Rightarrow> 0 | v # vs \<Rightarrow> foldl max v vs) @
                '' MB free)''))"

record entry_stat =
  es_placed :: nat
  es_want :: int
  es_blocked :: "string option"
  es_speed :: speed_stat

definition init_status_loop :: "budgets \<Rightarrow> status_loop" where
  "init_status_loop b = \<lparr>sp_placeable = 0, sp_resident_blocked = 0, sp_unanswered = 0, sp_avail = [],
                         sp_budgets = b\<rparr>"

text \<open>The \<^verbatim>\<open>blocked\<close> text of an entry with \<open>need > 0\<close>, and the budgets left.\<close>

definition status_need ::
  "desired \<Rightarrow> observed \<Rightarrow> managed \<Rightarrow> entry \<Rightarrow> string list \<Rightarrow> string list \<Rightarrow> int \<Rightarrow> budgets \<Rightarrow>
   string option \<times> budgets" where
  "status_need des obs man e placed cands need b =
     (let lc = live_capable e cands obs;
          sz = model_size_mb obs (en_provider e) (en_model e)
      in if lc = [] then (Some ''no live agent supports this provider'', b)
         else if sz = None \<and> placed = [] then (Some size_unknown_msg, b)
         else (let s = status_loop_run e obs man need lc (init_status_loop b)
               in (if int (sp_placeable s) < need then Some (blocked_reason e des sz s) else None,
                   sp_budgets s)))"

definition status_entry ::
  "desired \<Rightarrow> observed \<Rightarrow> ledger option \<Rightarrow> secs option \<Rightarrow> managed \<Rightarrow> entry \<Rightarrow> budgets \<Rightarrow>
   entry_stat \<times> budgets" where
  "status_entry des obs led now man e b =
     (let placed = effective_placements e (entry_id e) obs led now;
          need = en_min e - int (length placed);
          cands = filter (\<lambda>aid. aid \<notin> set placed) (candidates e obs des now);
          sp = speed_status e (speed_pick e placed cands b obs man des now) obs des now;
          (blocked, b') = (if need > 0 then status_need des obs man e placed cands need b else (None, b))
      in (\<lparr>es_placed = length placed, es_want = en_min e, es_blocked = blocked, es_speed = sp\<rparr>, b'))"

fun status_entries ::
  "desired \<Rightarrow> observed \<Rightarrow> ledger option \<Rightarrow> secs option \<Rightarrow> managed \<Rightarrow> entry list \<Rightarrow> budgets \<Rightarrow>
   (string, entry_stat) dict \<Rightarrow> (string, entry_stat) dict \<times> budgets" where
  "status_entries des obs led now man [] b out = (out, b)"
| "status_entries des obs led now man (e # es) b out =
     (case status_entry des obs led now man e b of
        (st, b') \<Rightarrow> status_entries des obs led now man es b' (dict_set (entry_id e) st out))"

definition entry_status ::
  "desired \<Rightarrow> observed \<Rightarrow> ledger option \<Rightarrow> secs option \<Rightarrow> (string, entry_stat) dict" where
  "entry_status des obs led now =
     fst (status_entries des obs led now (pass_managed des obs led now) (pass_entries des)
            (init_budgets des obs led now) [])"

end
