(* ===== verification/PlannerSafety.thy ===== *)
theory PlannerSafety
  imports AutopilotPlanner
begin

text \<open>
  What a planning pass may do. The loops of \<^verbatim>\<open>plan\<close> are abstracted to a step relation \<open>pass_step\<close>
  (one placement, one scale-up or one scale-down with the guards the code has checked), the pass is
  shown to be a chain of such steps, and the safety properties are invariants of the relation by
  rule induction.
\<close>

section \<open>Steps of a pass\<close>

definition admissible :: "observed \<Rightarrow> ledger \<Rightarrow> secs \<Rightarrow> managed \<Rightarrow> entry \<Rightarrow> string \<Rightarrow> pass_state \<Rightarrow> bool" where
  "admissible obs led now man e aid st =
     (case dict_get (ob_agents obs) aid of
        None \<Rightarrow> False
      | Some a \<Rightarrow> \<not> cooling aid led now \<and> \<not> resident_conflict e aid (bu_res (pa_budgets st)) man \<and>
                  fst (fit_and_size e aid a obs man (pa_budgets st)))"

definition charged :: "entry \<Rightarrow> string \<Rightarrow> observed \<Rightarrow> pass_state \<Rightarrow> budgets" where
  "charged e aid obs st =
     commit_budget e aid (model_size_mb obs (en_provider e) (en_model e)) obs (pa_budgets st)"

definition is_failover :: "desired \<Rightarrow> observed \<Rightarrow> secs \<Rightarrow> entry \<Rightarrow> bool" where
  "is_failover des obs now e = has_dead_candidate e (candidates e obs des (Some now)) obs"

definition wakes_for :: "desired \<Rightarrow> entry \<Rightarrow> string \<Rightarrow> action list \<Rightarrow> bool" where
  "wakes_for des e aid ws \<longleftrightarrow> (\<forall>w \<in> set ws. \<exists>r. w = mk_action Wake e aid r (may_auto e des))"

definition placing :: "pass_state \<Rightarrow> bool" where
  "placing st \<longleftrightarrow> (\<forall>ac \<in> set (pa_actions st). ac_kind ac = Wake \<or> ac_kind ac = Load)"

inductive pass_step ::
  "desired \<Rightarrow> observed \<Rightarrow> ledger \<Rightarrow> secs \<Rightarrow> managed \<Rightarrow> pass_state \<Rightarrow> pass_state \<Rightarrow> bool"
  for des obs led now man where
  Place:
    "e \<in> set (de_entries des) \<Longrightarrow> \<not> backing_off (entry_id e) led now \<Longrightarrow>
     \<not> dwell_blocks (entry_id e) led obs now \<Longrightarrow> aid \<in> set (candidates e obs des (Some now)) \<Longrightarrow>
     aid \<notin> set (placements e obs) \<Longrightarrow> admissible obs led now man e aid st \<Longrightarrow>
     \<not> (is_failover des obs now e \<and> le_in_flight led + pa_migrations st \<ge> 1) \<Longrightarrow>
     placing st \<Longrightarrow> wakes_for des e aid ws \<Longrightarrow>
     pass_step des obs led now man st
       (st\<lparr>pa_budgets := charged e aid obs st,
           pa_actions := pa_actions st @ ws @ [mk_action Load e aid r (may_auto e des)],
           pa_touched := aid # pa_touched st,
           pa_migrations := pa_migrations st + (if is_failover des obs now e then 1 else 0)\<rparr>)"
| Up:
    "e \<in> set (de_entries des) \<Longrightarrow> \<not> backing_off (entry_id e) led now \<Longrightarrow>
     aid \<in> set (candidates e obs des (Some now)) \<Longrightarrow>
     aid \<notin> set (placements e obs) \<Longrightarrow> aid \<notin> set (pa_touched st) \<Longrightarrow>
     int (length (effective_placements e (entry_id e) obs (Some led) (Some now))) < en_max e \<Longrightarrow>
     admissible obs led now man e aid st \<Longrightarrow> wakes_for des e aid ws \<Longrightarrow>
     pass_step des obs led now man st
       (st\<lparr>pa_budgets := charged e aid obs st,
           pa_actions := pa_actions st @ ws @ [mk_action ScaleUp e aid r (may_auto e des)],
           pa_touched := aid # pa_touched st\<rparr>)"
| Down:
    "e \<in> set (de_entries des) \<Longrightarrow> \<not> backing_off (entry_id e) led now \<Longrightarrow>
     en_provider e \<in> set UNLOADABLE_PROVIDERS \<Longrightarrow> list_all (agent_live obs) (placements e obs) \<Longrightarrow>
     effective_placements e (entry_id e) obs (Some led) (Some now) = placements e obs \<Longrightarrow>
     en_max e < int (length (placements e obs)) \<or> en_min e < int (length (placements e obs)) \<Longrightarrow>
     scale_down_target e (placements e obs) obs (dict_get_or (le_placed_at led) (entry_id e) [])
       (dict_get_or (le_unload_backoff led) (entry_id e) []) (pa_touched st) led now = Some aid \<Longrightarrow>
     pass_step des obs led now man st
       (st\<lparr>pa_actions := pa_actions st @ [mk_action ScaleDown e aid r (may_auto e des)],
           pa_touched := aid # pa_touched st\<rparr>)"

section \<open>The pass is a chain of steps\<close>

lemma with_fresh_extends: "\<exists>ys. with_fresh xs k obs led now = xs @ ys \<and> set ys \<inter> set xs = {}"
proof -
  have "\<exists>ys. foldl (\<lambda>out aid. if aid \<notin> set out \<and> agent_reporting obs aid then out @ [aid] else out) out fs =
          out @ ys \<and> set ys \<inter> set out = {}" for out fs
  proof (induction fs arbitrary: out)
    case Nil
    show ?case by simp
  next
    case (Cons f fs)
    show ?case
    proof (cases "f \<notin> set out \<and> agent_reporting obs f")
      case True
      with Cons.IH [of "out @ [f]"] show ?thesis by auto
    next
      case False
      with Cons.IH [of out] show ?thesis by auto
    qed
  qed
  then show ?thesis by (simp add: with_fresh_def)
qed

lemma with_fresh_subset: "set xs \<subseteq> set (with_fresh xs k obs led now)"
  using with_fresh_extends [of xs k obs led now] by auto

lemma fit_and_size_unfold:
  "fit_and_size e aid a obs man b =
     (fst (fit_and_size e aid a obs man b), model_size_mb obs (en_provider e) (en_model e),
      displace_credit e aid a (bu_res b) man obs)"
  by (simp add: fit_and_size_def Let_def)

lemma wakes_for_simps [simp]:
  "wakes_for des e aid []"
  "wakes_for des e aid [mk_action Wake e aid r (may_auto e des)]"
  by (auto simp: wakes_for_def)

lemma place_one_SomeD:
  assumes "place_one des obs led now man e fo placed aid st = Some st'"
  obtains ws r where "aid \<notin> set placed"
    "\<not> (fo \<and> le_in_flight led + pa_migrations st \<ge> 1)" "admissible obs led now man e aid st"
    "wakes_for des e aid ws"
    "st' = st\<lparr>pa_budgets := charged e aid obs st,
           pa_actions := pa_actions st @ ws @ [mk_action Load e aid r (may_auto e des)],
           pa_touched := aid # pa_touched st,
           pa_migrations := pa_migrations st + (if fo then 1 else 0)\<rparr>"
proof -
  obtain a where a: "dict_get (ob_agents obs) aid = Some a"
    using assms by (auto simp: place_one_def split: option.splits)
  define ws where "ws = (if wake_first e a
    then [mk_action Wake e aid (entry_id e @ '': waking '' @ aid @ '' for placement'') (may_auto e des)] else [])"
  have ws: "wakes_for des e aid ws" by (simp add: ws_def)
  obtain f where F: "fit_and_size e aid a obs man (pa_budgets st) =
      (f, model_size_mb obs (en_provider e) (en_model e), displace_credit e aid a (bu_res (pa_budgets st)) man obs)"
    using fit_and_size_unfold by blast
  have "aid \<notin> set placed \<and> \<not> (fo \<and> le_in_flight led + pa_migrations st \<ge> 1) \<and>
    admissible obs led now man e aid st \<and>
    st' = st\<lparr>pa_budgets := charged e aid obs st,
       pa_actions := pa_actions st @ ws @
         [mk_action Load e aid (load_reason e aid fo (Suc (length placed))
            (displaced_by e aid (bu_res (pa_budgets st)) man) des obs now) (may_auto e des)],
       pa_touched := aid # pa_touched st,
       pa_migrations := pa_migrations st + (if fo then 1 else 0)\<rparr>"
    using assms a F unfolding place_one_def Let_def ws_def
    by (cases "wake_first e a")
       (simp_all add: admissible_def charged_def del: append.simps append_Cons split: if_splits)
  then show thesis using ws by (auto intro: that)
qed

lemma mk_action_simps [simp]:
  "ac_kind (mk_action k e aid r au) = k" "ac_provider (mk_action k e aid r au) = en_provider e"
  "ac_model (mk_action k e aid r au) = en_model e" "ac_agent (mk_action k e aid r au) = aid"
  "ac_auto (mk_action k e aid r au) = au" "ac_entry (mk_action k e aid r au) = entry_id e"
  by (simp_all add: mk_action_def)

lemma wakes_forD:
  "wakes_for des e aid ws \<Longrightarrow> w \<in> set ws \<Longrightarrow>
     ac_kind w = Wake \<and> ac_provider w = en_provider e \<and> ac_model w = en_model e \<and> ac_agent w = aid \<and>
     ac_auto w = may_auto e des \<and> ac_entry w = entry_id e"
  by (auto simp: wakes_for_def dest: bspec)

lemma place_one_step:
  assumes "place_one des obs led now man e (is_failover des obs now e) placed aid st = Some st'"
    and "e \<in> set (de_entries des)" "\<not> backing_off (entry_id e) led now"
    and "\<not> dwell_blocks (entry_id e) led obs now" "aid \<in> set (candidates e obs des (Some now))"
    and "set (placements e obs) \<subseteq> set placed" "placing st"
  shows "pass_step des obs led now man st st' \<and> placing st'"
proof -
  obtain ws r where *: "aid \<notin> set placed"
    "\<not> (is_failover des obs now e \<and> le_in_flight led + pa_migrations st \<ge> 1)"
    "admissible obs led now man e aid st" "wakes_for des e aid ws"
    and st': "st' = st\<lparr>pa_budgets := charged e aid obs st,
           pa_actions := pa_actions st @ ws @ [mk_action Load e aid r (may_auto e des)],
           pa_touched := aid # pa_touched st,
           pa_migrations := pa_migrations st + (if is_failover des obs now e then 1 else 0)\<rparr>"
    using assms(1) by (rule place_one_SomeD)
  have "aid \<notin> set (placements e obs)" using *(1) assms(6) by blast
  then have "pass_step des obs led now man st st'"
    unfolding st' using assms * by (intro pass_step.Place)
  moreover have "placing st'"
    using assms(7) *(4) by (auto simp: placing_def st' dest: wakes_forD)
  ultimately show ?thesis ..
qed

lemma scale_up_one_SomeD:
  assumes "scale_up_one des obs led now man e placed aid st = Some st'"
  obtains ws r where "aid \<notin> set placed" "aid \<notin> set (pa_touched st)" "admissible obs led now man e aid st"
    "wakes_for des e aid ws"
    "st' = st\<lparr>pa_budgets := charged e aid obs st,
       pa_actions := pa_actions st @ ws @ [mk_action ScaleUp e aid r (may_auto e des)],
       pa_touched := aid # pa_touched st\<rparr>"
proof -
  obtain a where a: "dict_get (ob_agents obs) aid = Some a"
    using assms(1) by (auto simp: scale_up_one_def split: option.splits)
  define ws where "ws = (if wake_first e a
    then [mk_action Wake e aid (entry_id e @ '': waking '' @ aid @ '' for scale-up'') (may_auto e des)] else [])"
  have ws: "wakes_for des e aid ws" by (simp add: ws_def)
  obtain f where F: "fit_and_size e aid a obs man (pa_budgets st) =
      (f, model_size_mb obs (en_provider e) (en_model e), displace_credit e aid a (bu_res (pa_budgets st)) man obs)"
    using fit_and_size_unfold by blast
  have "aid \<notin> set placed \<and> aid \<notin> set (pa_touched st) \<and> admissible obs led now man e aid st \<and>
    st' = st\<lparr>pa_budgets := charged e aid obs st,
       pa_actions := pa_actions st @ ws @
         [mk_action ScaleUp e aid (entry_id e @ '': autoscale up -> '' @ aid) (may_auto e des)],
       pa_touched := aid # pa_touched st\<rparr>"
    using assms(1) a F unfolding scale_up_one_def Let_def ws_def
    by (cases "wake_first e a")
       (simp_all add: admissible_def charged_def del: append.simps append_Cons split: if_splits)
  then show thesis using ws by (auto intro: that)
qed

lemma scale_up_one_step:
  assumes "scale_up_one des obs led now man e placed aid st = Some st'"
    and "e \<in> set (de_entries des)" "\<not> backing_off (entry_id e) led now"
    and "aid \<in> set (candidates e obs des (Some now))" "set (placements e obs) \<subseteq> set placed"
    and "int (length (effective_placements e (entry_id e) obs (Some led) (Some now))) < en_max e"
  shows "pass_step des obs led now man st st'"
proof -
  obtain ws r where *: "aid \<notin> set placed" "aid \<notin> set (pa_touched st)" "admissible obs led now man e aid st"
    "wakes_for des e aid ws"
    and st': "st' = st\<lparr>pa_budgets := charged e aid obs st,
       pa_actions := pa_actions st @ ws @ [mk_action ScaleUp e aid r (may_auto e des)],
       pa_touched := aid # pa_touched st\<rparr>"
    using assms(1) by (rule scale_up_one_SomeD)
  have "aid \<notin> set (placements e obs)" using *(1) assms(5) by blast
  then show ?thesis unfolding st' using assms * by (intro pass_step.Up)
qed

lemma place_loop_steps:
  assumes "e \<in> set (de_entries des)" "\<not> backing_off (entry_id e) led now"
    "\<not> dwell_blocks (entry_id e) led obs now" "set cands \<subseteq> set (candidates e obs des (Some now))"
    "set (placements e obs) \<subseteq> set placed" "placing st"
    "snd (place_loop des obs led now man e (is_failover des obs now e) cands placed st) = st'"
  shows "(pass_step des obs led now man)\<^sup>*\<^sup>* st st' \<and> placing st'"
  using assms(4-7)
proof (induction cands arbitrary: placed st)
  case Nil
  then show ?case by simp
next
  case (Cons aid cands)
  show ?case
  proof (cases "int (length placed) \<ge> en_min e \<or>
      place_one des obs led now man e (is_failover des obs now e) placed aid st = None")
    case True
    with Cons show ?thesis by auto
  next
    case False
    then obtain st1 where Some: "place_one des obs led now man e (is_failover des obs now e) placed aid st = Some st1"
      by blast
    have 1: "pass_step des obs led now man st st1 \<and> placing st1"
      using assms(1-3) Cons.prems by (intro place_one_step [OF Some]) auto
    have "(pass_step des obs led now man)\<^sup>*\<^sup>* st1 st' \<and> placing st'"
      using Cons.prems 1 Some False by (intro Cons.IH [of "placed @ [aid]"]) auto
    with 1 show ?thesis by (auto intro: converse_rtranclp_into_rtranclp)
  qed
qed

lemma place_entry_steps:
  assumes "e \<in> set (de_entries des)" "\<not> backing_off (entry_id e) led now" "placing st"
  shows "(pass_step des obs led now man)\<^sup>*\<^sup>* st (place_entry des obs led now man e st) \<and>
         placing (place_entry des obs led now man e st)"
proof -
  let ?pl = "with_fresh (placements e obs) (entry_id e) obs (Some led) (Some now)"
  show ?thesis
  proof (cases "int (length ?pl) \<ge> en_min e \<or> dwell_blocks (entry_id e) led obs now")
    case True
    with assms(3) show ?thesis by (auto simp: place_entry_def Let_def)
  next
    case False
    then have eq: "place_entry des obs led now man e st = snd (place_loop des obs led now man e
        (is_failover des obs now e) (candidates e obs des (Some now)) ?pl st)"
      by (simp add: place_entry_def Let_def is_failover_def)
    show ?thesis unfolding eq
      using assms False by (intro place_loop_steps) (auto simp: with_fresh_subset)
  qed
qed

lemma place_entries_steps:
  assumes "set es \<subseteq> set (de_entries des)" "placing st"
  shows "(pass_step des obs led now man)\<^sup>*\<^sup>* st (snd (place_entries des obs led now man es by_k st))"
  using assms
proof (induction es arbitrary: by_k st)
  case Nil
  show ?case by simp
next
  case (Cons e es)
  then show ?case
    using place_entry_steps [of e des led now st obs man] by (auto intro: rtranclp_trans)
qed

text \<open>The observed placements collected by the first pass are there for every entry of the second.\<close>

lemma find_append: "find P (xs @ ys) = (case find P xs of None \<Rightarrow> find P ys | Some x \<Rightarrow> Some x)"
  by (induction xs) auto

lemma place_entries_keys:
  "dict_get (fst (place_entries des obs led now man es by_k st)) k =
     (case find (\<lambda>e. entry_id e = k \<and> \<not> backing_off k led now) (rev es) of
        None \<Rightarrow> dict_get by_k k | Some e \<Rightarrow> Some (placements e obs))"
proof (induction es arbitrary: by_k st)
  case Nil
  show ?case by simp
next
  case (Cons e es)
  show ?case
    using Cons by (auto simp: dict_simps find_append split: option.splits)
qed

lemma entry_id_eqD:
  assumes "entry_id e = entry_id f" "CHR ''/'' \<notin> set (en_provider e)" "CHR ''/'' \<notin> set (en_provider f)"
  shows "en_model e = en_model f \<and> en_provider e = en_provider f"
proof -
  have tw: "takeWhile (\<lambda>c. c \<noteq> CHR ''/'') (rev (entry_id g)) = rev (en_provider g)"
    if "CHR ''/'' \<notin> set (en_provider g)" for g
    using that by (auto simp: entry_id_def takeWhile_append)
  have "en_provider e = en_provider f" using tw [OF assms(2)] tw [OF assms(3)] assms(1) by simp
  with assms(1) show ?thesis by (simp add: entry_id_def)
qed

text \<open>Provider names come from a fixed table and contain no slash.\<close>

definition providers_ok :: "desired \<Rightarrow> bool" where
  "providers_ok des \<longleftrightarrow> (\<forall>e \<in> set (de_entries des). CHR ''/'' \<notin> set (en_provider e))"

lemma placements_of_key:
  assumes "providers_ok des" "e \<in> set (de_entries des)" "f \<in> set (de_entries des)"
    and "entry_id e = entry_id f"
  shows "placements e obs = placements f obs"
  using entry_id_eqD [OF assms(4)] assms by (simp add: placements_def providers_ok_def)

lemma place_entries_observed:
  assumes "providers_ok des" "set es \<subseteq> set (de_entries des)" "e \<in> set es"
    and "\<not> backing_off (entry_id e) led now"
  shows "dict_get (fst (place_entries des obs led now man es by_k st)) (entry_id e) = Some (placements e obs)"
proof -
  let ?P = "\<lambda>f. entry_id f = entry_id e \<and> \<not> backing_off (entry_id e) led now"
  have "find ?P (rev es) \<noteq> None" using assms(3,4) by (auto simp: find_None_iff)
  then obtain f where f: "find ?P (rev es) = Some f" by blast
  then have "f \<in> set es" "entry_id f = entry_id e"
    by (auto simp: find_Some_iff) (metis length_rev nth_mem set_rev)
  then have "placements f obs = placements e obs"
    using assms by (intro placements_of_key [OF assms(1)]) auto
  with f show ?thesis by (simp add: place_entries_keys)
qed

lemma scale_up_steps:
  assumes "e \<in> set (de_entries des)" "\<not> backing_off (entry_id e) led now"
    and "set cands \<subseteq> set (candidates e obs des (Some now))" "set (placements e obs) \<subseteq> set placed"
    and "int (length (effective_placements e (entry_id e) obs (Some led) (Some now))) < en_max e"
  shows "(pass_step des obs led now man)\<^sup>*\<^sup>* st (scale_up des obs led now man e placed cands st)"
  using assms(3)
proof (induction cands)
  case Nil
  show ?case by simp
next
  case (Cons aid cands)
  show ?case
  proof (cases "scale_up_one des obs led now man e placed aid st")
    case None
    with Cons show ?thesis by simp
  next
    case (Some st')
    have "pass_step des obs led now man st st'"
      using assms Cons.prems by (intro scale_up_one_step [OF Some]) auto
    with Some show ?thesis by auto
  qed
qed

lemma evaluate_autoscale_bounds:
  "evaluate_autoscale e placed hist now = Up_Replica \<Longrightarrow> int (length placed) < en_max e"
  "evaluate_autoscale e placed hist now = Down_Replica \<Longrightarrow> en_min e < int (length placed)"
  by (auto simp: evaluate_autoscale_def Let_def split: option.splits list.splits if_splits)

lemma scale_decision_bounds:
  "scale_decision obs now e placed = Up_Replica \<Longrightarrow> int (length placed) < en_max e"
  "scale_decision obs now e placed = Down_Replica \<Longrightarrow>
     en_max e < int (length placed) \<or> en_min e < int (length placed)"
  by (auto simp: scale_decision_def split: if_splits dest: evaluate_autoscale_bounds)

lemma with_fresh_same_length:
  "length (with_fresh xs k obs led now) = length xs \<Longrightarrow> with_fresh xs k obs led now = xs"
  using with_fresh_extends [of xs k obs led now] by auto

lemma scale_down_steps:
  assumes "e \<in> set (de_entries des)" "\<not> backing_off (entry_id e) led now"
    and "list_all (agent_live obs) (placements e obs)"
    and "effective_placements e (entry_id e) obs (Some led) (Some now) = placements e obs"
    and "en_max e < int (length (placements e obs)) \<or> en_min e < int (length (placements e obs))"
  shows "(pass_step des obs led now man)\<^sup>*\<^sup>* st
           (scale_down des obs led now e (placements e obs) placed surplus st)"
proof (cases "en_provider e \<in> set UNLOADABLE_PROVIDERS")
  case False
  then show ?thesis by (simp add: scale_down_def)
next
  case True
  show ?thesis
  proof (cases "scale_down_target e (placements e obs) obs (dict_get_or (le_placed_at led) (entry_id e) [])
      (dict_get_or (le_unload_backoff led) (entry_id e) []) (pa_touched st) led now")
    case None
    with True show ?thesis by (simp add: scale_down_def)
  next
    case (Some aid)
    note step = pass_step.Down [OF assms(1,2) True assms(3,4,5) Some]
    show ?thesis
      unfolding scale_down_def Some Let_def by (simp only: True not_True_eq_False if_False option.case)
        (rule r_into_rtranclp, rule step)
  qed
qed

lemma scale_entry_steps:
  assumes "e \<in> set (de_entries des)"
    and "\<not> backing_off (entry_id e) led now \<Longrightarrow> dict_get by_k (entry_id e) = Some (placements e obs)"
  shows "\<exists>st'. scale_entry des obs led now man by_k e st = Some st' \<and>
           (pass_step des obs led now man)\<^sup>*\<^sup>* st st'"
proof (cases "backing_off (entry_id e) led now")
  case True
  then show ?thesis by (simp add: scale_entry_def)
next
  case False
  let ?pl = "with_fresh (placements e obs) (entry_id e) obs (Some led) (Some now)"
  show ?thesis
  proof (cases "scale_decision obs now e ?pl")
    case Hold_Replicas
    with False assms show ?thesis by (simp add: scale_entry_def Let_def)
  next
    case Up_Replica
    then have "int (length ?pl) < en_max e" by (rule scale_decision_bounds)
    then have "(pass_step des obs led now man)\<^sup>*\<^sup>* st
        (scale_up des obs led now man e ?pl (candidates e obs des (Some now)) st)"
      using assms(1) False
      by (intro scale_up_steps) (auto simp: effective_placements_def intro: subsetD [OF with_fresh_subset])
    with False Up_Replica assms show ?thesis by (simp add: scale_entry_def Let_def)
  next
    case Down_Replica
    note bd = scale_decision_bounds(2) [OF this]
    show ?thesis
    proof (cases "length (placements e obs) \<noteq> length ?pl \<or> \<not> list_all (agent_live obs) ?pl")
      case True
      with False Down_Replica assms show ?thesis by (simp add: scale_entry_def Let_def)
    next
      case ok: False
      then have "length ?pl = length (placements e obs)" by linarith
      then have same: "?pl = placements e obs" by (rule with_fresh_same_length)
      have "(pass_step des obs led now man)\<^sup>*\<^sup>* st
              (scale_down des obs led now e (placements e obs) (placements e obs) surplus st)" for surplus
      proof (rule scale_down_steps [OF assms(1) False])
        show "list_all (agent_live obs) (placements e obs)" using ok unfolding same by blast
        show "effective_placements e (entry_id e) obs (Some led) (Some now) = placements e obs"
          using same by (simp only: effective_placements_def)
        show "en_max e < int (length (placements e obs)) \<or> en_min e < int (length (placements e obs))"
          using bd unfolding same .
      qed
      with False Down_Replica ok assms show ?thesis by (simp add: scale_entry_def Let_def same)
    qed
  qed
qed

lemma scale_entries_steps:
  assumes "set es \<subseteq> set (de_entries des)"
    and "\<And>e. e \<in> set es \<Longrightarrow> \<not> backing_off (entry_id e) led now \<Longrightarrow>
           dict_get by_k (entry_id e) = Some (placements e obs)"
  shows "\<exists>st'. scale_entries des obs led now man by_k es st = Some st' \<and>
           (pass_step des obs led now man)\<^sup>*\<^sup>* st st'"
  using assms
proof (induction es arbitrary: st)
  case Nil
  show ?case by simp
next
  case (Cons e es)
  obtain st1 where 1: "scale_entry des obs led now man by_k e st = Some st1"
      "(pass_step des obs led now man)\<^sup>*\<^sup>* st st1"
    using scale_entry_steps [of e des led now by_k obs man st] Cons.prems by auto
  obtain st2 where "scale_entries des obs led now man by_k es st1 = Some st2"
      "(pass_step des obs led now man)\<^sup>*\<^sup>* st1 st2"
    using Cons.IH [of st1] Cons.prems by auto
  with 1 show ?case by (auto intro: rtranclp_trans)
qed

lemma pass_entries_set [simp]: "set (pass_entries des) = set (de_entries des)"
  by (simp add: pass_entries_def)

lemma plan_steps:
  assumes "providers_ok des"
  shows "\<exists>st. plan des obs led now = Some (pa_actions st) \<and>
           (pass_step des obs led now (pass_managed des obs (Some led) (Some now)))\<^sup>*\<^sup>*
             (init_pass des obs led now) st"
proof -
  let ?man = "pass_managed des obs (Some led) (Some now)"
  let ?p = "place_entries des obs led now ?man (pass_entries des) [] (init_pass des obs led now)"
  have "(pass_step des obs led now ?man)\<^sup>*\<^sup>* (init_pass des obs led now) (snd ?p)"
    by (rule place_entries_steps) (simp_all add: placing_def init_pass_def)
  moreover obtain st where "scale_entries des obs led now ?man (fst ?p) (pass_entries des) (snd ?p) = Some st"
      "(pass_step des obs led now ?man)\<^sup>*\<^sup>* (snd ?p) st"
    using scale_entries_steps [of "pass_entries des" des led now "fst ?p" obs ?man "snd ?p"]
      place_entries_observed [OF assms, of "pass_entries des"] by auto
  ultimately show ?thesis
    by (auto simp: plan_def Let_def split_beta intro: rtranclp_trans)
qed

section \<open>Consequences for the actions\<close>

definition is_placement :: "action \<Rightarrow> bool" where
  "is_placement ac \<longleftrightarrow> ac_kind ac = Load \<or> ac_kind ac = ScaleUp"

text \<open>The host is known, heartbeating, capable, has answered a fresh sample and the size is known.\<close>

definition host_ready :: "observed \<Rightarrow> string \<Rightarrow> string \<Rightarrow> string \<Rightarrow> bool" where
  "host_ready obs prov model aid =
     (case dict_get (ob_agents obs) aid of
        None \<Rightarrow> False
      | Some a \<Rightarrow> prov \<in> set (ao_caps a) \<and> ao_live a \<and> \<not> unanswered a prov \<and>
                  model_size_mb obs prov model \<noteq> None)"

definition action_entry :: "desired \<Rightarrow> action \<Rightarrow> entry \<Rightarrow> bool" where
  "action_entry des ac e \<longleftrightarrow>
     e \<in> set (de_entries des) \<and> ac_entry ac = entry_id e \<and> ac_provider ac = en_provider e \<and>
     ac_model ac = en_model e \<and> ac_auto ac = may_auto e des"

definition place_sound :: "desired \<Rightarrow> observed \<Rightarrow> ledger \<Rightarrow> secs \<Rightarrow> entry \<Rightarrow> action \<Rightarrow> bool" where
  "place_sound des obs led now e ac \<longleftrightarrow>
     host_ready obs (en_provider e) (en_model e) (ac_agent ac) \<and>
     ac_agent ac \<in> set (candidates e obs des (Some now)) \<and> ac_agent ac \<notin> set (placements e obs)"

definition down_sound :: "observed \<Rightarrow> ledger \<Rightarrow> secs \<Rightarrow> entry \<Rightarrow> action \<Rightarrow> bool" where
  "down_sound obs led now e ac \<longleftrightarrow>
     ac_agent ac \<in> set (placements e obs) \<and> ac_agent ac \<noteq> en_placement e \<and>
     en_provider e \<in> set UNLOADABLE_PROVIDERS \<and> list_all (agent_live obs) (placements e obs) \<and>
     now \<ge> dict_get_or (dict_get_or (le_unload_backoff led) (entry_id e) []) (ac_agent ac) 0 \<and>
     (en_max e < int (length (placements e obs)) \<or> en_min e < int (length (placements e obs)))"

definition action_sound :: "desired \<Rightarrow> observed \<Rightarrow> ledger \<Rightarrow> secs \<Rightarrow> action \<Rightarrow> bool" where
  "action_sound des obs led now ac \<longleftrightarrow>
     (\<exists>e. action_entry des ac e \<and> \<not> backing_off (entry_id e) led now \<and>
          \<not> cooling (ac_agent ac) led now \<and>
          (if ac_kind ac = ScaleDown then down_sound obs led now e ac
           else place_sound des obs led now e ac))"

lemma admissible_ready:
  "admissible obs led now man e aid st \<Longrightarrow>
     host_ready obs (en_provider e) (en_model e) aid \<and> \<not> cooling aid led now"
  by (auto simp: admissible_def host_ready_def fit_and_size_def fits_def Let_def split: option.splits)

lemma scale_down_targetD:
  assumes "scale_down_target e placed obs pak ub touched led now = Some aid"
  shows "aid \<in> set placed \<and> aid \<noteq> en_placement e \<and> agent_live obs aid \<and> aid \<notin> set touched \<and>
         now \<ge> dict_get_or ub aid 0 \<and> \<not> cooling aid led now"
proof -
  let ?o = "filter (\<lambda>x. x \<noteq> en_placement e) placed"
  define o' where "o' = (case dict_get (dict_get_or (ob_route_pins obs) (en_provider e) []) (en_model e) of
      Some r \<Rightarrow> if r \<in> set ?o \<and> length ?o > 1 then remove1 r ?o else ?o | None \<Rightarrow> ?o)"
  have sub: "set o' \<subseteq> set ?o" 
    using set_remove1_subset [of _ ?o] by (auto simp: o'_def simp del: set_filter split: option.splits)
  have "find (\<lambda>x. agent_live obs x \<and> x \<notin> set touched \<and> now \<ge> dict_get_or ub x 0 \<and> \<not> cooling x led now)
          (sort_key (\<lambda>x. dict_get_or pak x 0) o') = Some aid"
    using assms by (simp add: scale_down_target_def Let_def o'_def agent_live_def)
  then have "aid \<in> set (sort_key (\<lambda>x. dict_get_or pak x 0) o')" "agent_live obs aid \<and> aid \<notin> set touched \<and>
      now \<ge> dict_get_or ub aid 0 \<and> \<not> cooling aid led now"
    by (auto simp: find_Some_iff simp del: set_sort)
  with sub show ?thesis by auto
qed

lemma pass_invariant:
  assumes "(pass_step des obs led now man)\<^sup>*\<^sup>* st st'" and "I st"
    and "\<And>s s'. pass_step des obs led now man s s' \<Longrightarrow> I s \<Longrightarrow> I s'"
  shows "I st'"
  using assms by (induction rule: rtranclp_induct) auto

lemma action_sound_step:
  assumes "pass_step des obs led now man st st'"
    and "\<forall>ac \<in> set (pa_actions st). action_sound des obs led now ac"
  shows "\<forall>ac \<in> set (pa_actions st'). action_sound des obs led now ac"
  using assms
proof (cases rule: pass_step.cases)
  case (Place e aid ws r)
  have new: "action_sound des obs led now ac" if "ac \<in> set ws \<or> ac = mk_action Load e aid r (may_auto e des)" for ac
    using that Place admissible_ready [OF Place(7)]
    by (auto simp: action_sound_def action_entry_def place_sound_def dest!: wakes_forD intro!: exI [of _ e])
  then show ?thesis using assms(2) Place(1) by auto
next
  case (Up e aid ws r)
  have new: "action_sound des obs led now ac" if "ac \<in> set ws \<or> ac = mk_action ScaleUp e aid r (may_auto e des)" for ac
    using that Up admissible_ready [OF Up(8)]
    by (auto simp: action_sound_def action_entry_def place_sound_def dest!: wakes_forD intro!: exI [of _ e])
  then show ?thesis using assms(2) Up(1) by auto
next
  case (Down e aid r)
  have "action_sound des obs led now (mk_action ScaleDown e aid r (may_auto e des))"
    using Down scale_down_targetD [OF Down(8)]
    by (auto simp: action_sound_def action_entry_def down_sound_def intro!: exI [of _ e])
  then show ?thesis using assms(2) Down(1) by auto
qed

lemma plan_action_sound:
  assumes "providers_ok des" "plan des obs led now = Some acts" "ac \<in> set acts"
  shows "action_sound des obs led now ac"
proof -
  obtain st where st: "plan des obs led now = Some (pa_actions st)"
    "(pass_step des obs led now (pass_managed des obs (Some led) (Some now)))\<^sup>*\<^sup>* (init_pass des obs led now) st"
    using plan_steps [OF assms(1)] by blast
  have "\<forall>ac \<in> set (pa_actions st). action_sound des obs led now ac"
    using st(2) by (rule pass_invariant) (simp_all add: init_pass_def action_sound_step)
  with st(1) assms show ?thesis by simp
qed

section \<open>Memory budgets\<close>

text \<open>Megabytes that the placements of a plan put on one budget of a host.\<close>

definition charge_mb :: "observed \<Rightarrow> bool \<Rightarrow> string \<Rightarrow> action \<Rightarrow> int" where
  "charge_mb obs ram aid ac =
     (if is_placement ac \<and> ac_agent ac = aid \<and>
         uses_ram_budget (ac_provider ac) (ac_model ac) obs aid = ram
      then or_num (model_size_mb obs (ac_provider ac) (ac_model ac)) 0 else 0)"

definition placed_mb :: "observed \<Rightarrow> bool \<Rightarrow> string \<Rightarrow> action list \<Rightarrow> int" where
  "placed_mb obs ram aid acts = sum_list (map (charge_mb obs ram aid) acts)"

definition budget_side :: "bool \<Rightarrow> budgets \<Rightarrow> string \<Rightarrow> int" where
  "budget_side ram b aid = dict_get_or (if ram then bu_ram b else bu_free b) aid 0"

definition placed_on :: "observed \<Rightarrow> bool \<Rightarrow> string \<Rightarrow> action list \<Rightarrow> bool" where
  "placed_on obs ram aid acts \<longleftrightarrow>
     (\<exists>ac \<in> set acts. is_placement ac \<and> ac_agent ac = aid \<and>
        uses_ram_budget (ac_provider ac) (ac_model ac) obs aid = ram)"

lemma placed_mb_simps [simp]:
  "placed_mb obs ram aid [] = 0"
  "placed_mb obs ram aid (xs @ ys) = placed_mb obs ram aid xs + placed_mb obs ram aid ys"
  "placed_mb obs ram aid [ac] = charge_mb obs ram aid ac"
  by (simp_all add: placed_mb_def)

lemma placed_on_simps [simp]:
  "\<not> placed_on obs ram aid []"
  "placed_on obs ram aid (xs @ ys) \<longleftrightarrow> placed_on obs ram aid xs \<or> placed_on obs ram aid ys"
  by (auto simp: placed_on_def)

lemma wakes_charge_nothing:
  assumes "wakes_for des e aid' ws"
  shows "placed_mb obs ram aid ws = 0" "\<not> placed_on obs ram aid ws"
proof -
  have "\<not> is_placement w" if "w \<in> set ws" for w
    using wakes_forD [OF assms that] by (simp add: is_placement_def)
  then show "placed_mb obs ram aid ws = 0" "\<not> placed_on obs ram aid ws"
    by (auto simp: placed_mb_def charge_mb_def placed_on_def sum_list_0 cong: map_cong)
qed

lemma budget_side_commit:
  "budget_side ram (commit_budget e aid sz obs b) aid' =
     budget_side ram b aid' -
       (if aid' = aid \<and> uses_ram_budget (en_provider e) (en_model e) obs aid = ram then or_num sz 0 else 0)"
  by (auto simp: commit_budget_def budget_side_def budget_of_def Let_def dict_simps)

lemma admissible_fits:
  assumes "admissible obs led now man e aid st"
  obtains a where "dict_get (ob_agents obs) aid = Some a"
    "budget_side (uses_ram_budget (en_provider e) (en_model e) obs aid) (pa_budgets st) aid +
       displace_credit e aid a (bu_res (pa_budgets st)) man obs
     \<ge> or_num (model_size_mb obs (en_provider e) (en_model e)) 0 + VRAM_HEADROOM_MB"
  using assms that
  by (auto simp: admissible_def fit_and_size_def budget_of_def budget_side_def Let_def split: option.splits)

text \<open>
  \<open>in_budget extra st\<close>: each budget is what it started with less what was placed, and where something was
  placed the placements and the headroom stay within the start plus the extra \<open>extra\<close> allows.
\<close>

definition in_budget ::
  "observed \<Rightarrow> (bool \<Rightarrow> string \<Rightarrow> int) \<Rightarrow> (bool \<Rightarrow> string \<Rightarrow> int) \<Rightarrow> pass_state \<Rightarrow> bool" where
  "in_budget obs b0 extra st \<longleftrightarrow>
     (\<forall>ram aid. budget_side ram (pa_budgets st) aid = b0 ram aid - placed_mb obs ram aid (pa_actions st) \<and>
        (placed_on obs ram aid (pa_actions st) \<longrightarrow>
           placed_mb obs ram aid (pa_actions st) + VRAM_HEADROOM_MB \<le> b0 ram aid + extra ram aid))"

lemma in_budget_place:
  assumes "in_budget obs b0 extra st" "admissible obs led now man e aid st" "wakes_for des e aid ws"
    and "\<And>a. dict_get (ob_agents obs) aid = Some a \<Longrightarrow>
           displace_credit e aid a (bu_res (pa_budgets st)) man obs
             \<le> extra (uses_ram_budget (en_provider e) (en_model e) obs aid) aid"
    and "is_placement ac" "ac_provider ac = en_provider e" "ac_model ac = en_model e" "ac_agent ac = aid"
    and "pa_budgets st' = charged e aid obs st" "pa_actions st' = pa_actions st @ ws @ [ac]"
  shows "in_budget obs b0 extra st'"
proof -
  define sz where "sz = or_num (model_size_mb obs (en_provider e) (en_model e)) 0"
  define rm where "rm = uses_ram_budget (en_provider e) (en_model e) obs aid"
  obtain a where a: "dict_get (ob_agents obs) aid = Some a"
    and fit: "budget_side rm (pa_budgets st) aid + displace_credit e aid a (bu_res (pa_budgets st)) man obs
              \<ge> sz + VRAM_HEADROOM_MB"
    using admissible_fits [OF assms(2)] unfolding sz_def rm_def by blast
  have charge: "placed_mb obs ram aid' [ac] = (if aid' = aid \<and> rm = ram then sz else 0)" for ram aid'
    using assms(5-8) by (auto simp: charge_mb_def sz_def rm_def)
  have on: "placed_on obs ram aid' [ac] \<longleftrightarrow> aid' = aid \<and> rm = ram" for ram aid'
    using assms(5-8) by (auto simp: placed_on_def rm_def)
  have b: "budget_side ram (pa_budgets st') aid' =
      budget_side ram (pa_budgets st) aid' - (if aid' = aid \<and> rm = ram then sz else 0)" for ram aid'
    by (simp add: assms(9) charged_def budget_side_commit sz_def rm_def)
  show ?thesis
    using assms(1) fit assms(4) [OF a] unfolding in_budget_def assms(10) b
    by (auto simp: wakes_charge_nothing [OF assms(3)] charge [simplified] on simp flip: rm_def)
qed

lemma in_budget_down:
  assumes "in_budget obs b0 extra st" "\<not> is_placement ac"
    and "pa_budgets st' = pa_budgets st" "pa_actions st' = pa_actions st @ [ac]"
  shows "in_budget obs b0 extra st'"
proof -
  have "charge_mb obs ram aid ac = 0" "\<not> placed_on obs ram aid [ac]" for ram aid
    using assms(2) by (auto simp: charge_mb_def placed_on_def)
  then show ?thesis using assms by (simp add: in_budget_def)
qed

lemma in_budget_step:
  assumes "pass_step des obs led now man st st'" "in_budget obs b0 extra st"
    and "\<And>e aid a. dict_get (ob_agents obs) aid = Some a \<Longrightarrow>
           displace_credit e aid a (bu_res (pa_budgets st)) man obs
             \<le> extra (uses_ram_budget (en_provider e) (en_model e) obs aid) aid"
  shows "in_budget obs b0 extra st'"
  using assms(1)
proof (cases rule: pass_step.cases)
  case (Place e aid ws r)
  show ?thesis
    by (rule in_budget_place [OF assms(2) Place(7) Place(10) assms(3),
          of "mk_action Load e aid r (may_auto e des)"]) (simp_all add: Place(1) is_placement_def)
next
  case (Up e aid ws r)
  show ?thesis
    by (rule in_budget_place [OF assms(2) Up(8) Up(9) assms(3),
          of "mk_action ScaleUp e aid r (may_auto e des)"]) (simp_all add: Up(1) is_placement_def)
next
  case (Down e aid r)
  show ?thesis
    by (rule in_budget_down [OF assms(2), of "mk_action ScaleDown e aid r (may_auto e des)"])
      (simp_all add: Down(1) is_placement_def)
qed

lemma displace_credit_vram:
  "\<not> uses_ram_budget (en_provider e) (en_model e) obs aid \<Longrightarrow>
     displace_credit e aid a res man obs \<le> max (ao_vram_total a - ao_vram_free a) 0"
  by (auto simp: displace_credit_def Let_def split: option.splits)

lemma displace_credit_ram:
  "uses_ram_budget (en_provider e) (en_model e) obs aid \<Longrightarrow>
     displace_credit e aid a res man obs \<le> Max (insert 0 (snd ` set (ob_sizes obs)))"
proof -
  have "or_num (model_size_mb obs p m) 0 \<in> insert 0 (snd ` set (ob_sizes obs))" for p m
    by (cases "model_size_mb obs p m") (auto simp: model_size_mb_def dest!: map_of_SomeD intro: rev_image_eqI)
  then show "uses_ram_budget (en_provider e) (en_model e) obs aid \<Longrightarrow>
     displace_credit e aid a res man obs \<le> Max (insert 0 (snd ` set (ob_sizes obs)))"
    by (auto simp: displace_credit_def Let_def split: option.splits intro!: Max_ge)
qed

text \<open>What a displaced model can give back at most.\<close>

definition credit_limit :: "observed \<Rightarrow> bool \<Rightarrow> string \<Rightarrow> int" where
  "credit_limit obs ram aid =
     (case dict_get (ob_agents obs) aid of
        None \<Rightarrow> 0
      | Some a \<Rightarrow> if ram then Max (insert 0 (snd ` set (ob_sizes obs)))
                  else max (ao_vram_total a - ao_vram_free a) 0)"

lemma displace_credit_limit:
  "dict_get (ob_agents obs) aid = Some a \<Longrightarrow>
     displace_credit e aid a res man obs
       \<le> credit_limit obs (uses_ram_budget (en_provider e) (en_model e) obs aid) aid"
  by (simp add: credit_limit_def displace_credit_ram displace_credit_vram)

definition start_mb :: "observed \<Rightarrow> bool \<Rightarrow> string \<Rightarrow> int" where
  "start_mb obs ram aid =
     (case dict_get (ob_agents obs) aid of None \<Rightarrow> 0 | Some a \<Rightarrow> if ram then ao_ram_free a else ao_vram_free a)"

lemma in_budget_init: "in_budget obs (start_mb obs) extra (init_pass des obs led now)"
  by (auto simp: in_budget_def init_pass_def init_budgets_def budget_side_def start_mb_def dict_get_or_def
      map_of_map split: option.splits)

lemma in_budgetD:
  "in_budget obs b0 extra st \<Longrightarrow> placed_on obs ram aid (pa_actions st) \<Longrightarrow>
     placed_mb obs ram aid (pa_actions st) + VRAM_HEADROOM_MB \<le> b0 ram aid + extra ram aid"
  by (simp add: in_budget_def)

lemma plan_chain:
  assumes "providers_ok des" "plan des obs led now = Some acts"
  obtains st where "acts = pa_actions st"
    "(pass_step des obs led now (pass_managed des obs (Some led) (Some now)))\<^sup>*\<^sup>* (init_pass des obs led now) st"
  using plan_steps [OF assms(1), of obs led now] assms(2) by auto

section \<open>Resident slots\<close>

definition slot_of :: "action \<Rightarrow> string \<times> string" where
  "slot_of ac = (ac_provider ac, ac_agent ac)"

definition single_placements :: "action list \<Rightarrow> action set" where
  "single_placements acts = {ac \<in> set acts. is_placement ac \<and> ac_provider ac \<in> set SINGLE_RESIDENT_PROVIDERS}"

definition slots_ok :: "residents \<Rightarrow> managed \<Rightarrow> pass_state \<Rightarrow> bool" where
  "slots_ok res0 man st \<longleftrightarrow>
     (\<forall>ac \<in> single_placements (pa_actions st).
        dict_get (bu_res (pa_budgets st)) (slot_of ac) = Some (ac_model ac) \<and>
        (ac_provider ac, ac_model ac) \<in> set man \<and>
        (\<forall>cur. dict_get res0 (slot_of ac) = Some cur \<longrightarrow>
           cur = ac_model ac \<or> (ac_provider ac, cur) \<notin> set man)) \<and>
     (\<forall>slot. slot \<notin> slot_of ` single_placements (pa_actions st) \<longrightarrow>
        dict_get (bu_res (pa_budgets st)) slot = dict_get res0 slot)"

lemma single_placements_simps [simp]:
  "single_placements [] = {}"
  "single_placements (xs @ ys) = single_placements xs \<union> single_placements ys"
  "single_placements [ac] =
     (if is_placement ac \<and> ac_provider ac \<in> set SINGLE_RESIDENT_PROVIDERS then {ac} else {})"
  by (auto simp: single_placements_def)

lemma single_placements_wakes: "wakes_for des e aid ws \<Longrightarrow> single_placements ws = {}"
  by (auto simp: single_placements_def is_placement_def dest: wakes_forD)

lemma charged_residents:
  "dict_get (bu_res (charged e aid obs st)) slot =
     (if en_provider e \<in> set SINGLE_RESIDENT_PROVIDERS \<and> slot = (en_provider e, aid) then Some (en_model e)
      else dict_get (bu_res (pa_budgets st)) slot)"
  by (simp add: charged_def commit_budget_def Let_def dict_simps)

lemma slots_ok_model:
  "slots_ok res0 man st \<Longrightarrow> ac \<in> single_placements (pa_actions st) \<Longrightarrow>
     dict_get (bu_res (pa_budgets st)) (ac_provider ac, ac_agent ac) = Some (ac_model ac)"
  by (simp add: slots_ok_def slot_of_def)

lemma slots_ok_init: "slots_ok (residents des obs (Some led) (Some now)) man (init_pass des obs led now)"
  by (simp add: slots_ok_def init_pass_def init_budgets_def)

lemma slots_ok_place:
  assumes ok: "slots_ok res0 man st" and adm: "admissible obs led now man e aid st"
    and ws: "wakes_for des e aid ws" and man: "(en_provider e, en_model e) \<in> set man"
    and ac: "is_placement ac" "ac_provider ac = en_provider e" "ac_model ac = en_model e" "ac_agent ac = aid"
    and st': "pa_budgets st' = charged e aid obs st" "pa_actions st' = pa_actions st @ ws @ [ac]"
  shows "slots_ok res0 man st'"
proof (cases "en_provider e \<in> set SINGLE_RESIDENT_PROVIDERS")
  case False
  then have "single_placements (pa_actions st') = single_placements (pa_actions st)"
    using ac(2) by (simp add: st' single_placements_wakes [OF ws])
  with False ok show ?thesis by (simp add: slots_ok_def st'(1) charged_residents)
next
  case True
  let ?slot = "(en_provider e, aid)"
  have free: "\<forall>cur. dict_get (bu_res (pa_budgets st)) ?slot = Some cur \<longrightarrow>
      cur = en_model e \<or> (en_provider e, cur) \<notin> set man"
    using adm True by (auto simp: admissible_def resident_conflict_def split: option.splits)
  have same: "ac_model x = en_model e" if "x \<in> single_placements (pa_actions st)" "slot_of x = ?slot" for x
    using ok that free by (auto simp: slots_ok_def slot_of_def)
  have res0: "cur = en_model e \<or> (en_provider e, cur) \<notin> set man" if "dict_get res0 ?slot = Some cur" for cur
  proof (cases "?slot \<in> slot_of ` single_placements (pa_actions st)")
    case True
    then show ?thesis using ok that same by (fastforce simp: slots_ok_def slot_of_def)
  next
    case False
    then show ?thesis using ok that free by (simp add: slots_ok_def)
  qed
  have eq: "single_placements (pa_actions st') = insert ac (single_placements (pa_actions st))"
    using ac True by (simp add: st' single_placements_wakes [OF ws])
  show ?thesis
    using ok same res0 man ac True unfolding slots_ok_def eq st'(1)
    by (auto simp: charged_residents slot_of_def)
qed

lemma slots_ok_step:
  assumes "pass_step des obs led now man st st'" "slots_ok res0 man st"
    and "\<And>e. e \<in> set (de_entries des) \<Longrightarrow> (en_provider e, en_model e) \<in> set man"
  shows "slots_ok res0 man st'"
  using assms(1)
proof (cases rule: pass_step.cases)
  case (Place e aid ws r)
  show ?thesis
    by (rule slots_ok_place [OF assms(2) Place(7) Place(10) assms(3) [OF Place(2)],
          of "mk_action Load e aid r (may_auto e des)"]) (simp_all add: Place(1) is_placement_def)
next
  case (Up e aid ws r)
  show ?thesis
    by (rule slots_ok_place [OF assms(2) Up(8) Up(9) assms(3) [OF Up(2)],
          of "mk_action ScaleUp e aid r (may_auto e des)"]) (simp_all add: Up(1) is_placement_def)
next
  case (Down e aid r)
  then show ?thesis using assms(2) by (simp add: slots_ok_def is_placement_def)
qed

lemma managed_entries: "e \<in> set (de_entries des) \<Longrightarrow> (en_provider e, en_model e) \<in> set (pass_managed des obs led now)"
  by (auto simp: pass_managed_def)

lemma plan_slots_ok:
  assumes "(pass_step des obs led now (pass_managed des obs (Some led) (Some now)))\<^sup>*\<^sup>* (init_pass des obs led now) st"
  shows "slots_ok (residents des obs (Some led) (Some now)) (pass_managed des obs (Some led) (Some now)) st"
  using assms
  by (rule pass_invariant) (auto intro: slots_ok_init slots_ok_step managed_entries)

text \<open>With \<^verbatim>\<open>protect_unmanaged\<close> every resident is managed, so nothing is displaced and no credit is given.\<close>

lemma protected_no_credit:
  assumes "de_protect des" "slots_ok (residents des obs led now) (pass_managed des obs led now) st"
  shows "displace_credit e aid a (bu_res (pa_budgets st)) (pass_managed des obs led now) obs = 0"
proof -
  have "(prov, cur) \<in> set (pass_managed des obs led now)"
    if cur: "dict_get (bu_res (pa_budgets st)) (prov, aid) = Some cur" for prov cur
  proof (cases "(prov, aid) \<in> slot_of ` single_placements (pa_actions st)")
    case True
    with cur assms(2) show ?thesis by (auto simp: slots_ok_def slot_of_def)
  next
    case False
    then have "dict_get (residents des obs led now) (prov, aid) = Some cur"
      using cur assms(2) by (simp add: slots_ok_def)
    then show ?thesis using assms(1)
      by (auto simp: pass_managed_def dest!: map_of_SomeD intro!: rev_image_eqI)
  qed
  then have "displaced_by e aid (bu_res (pa_budgets st)) (pass_managed des obs led now) = None"
    by (auto simp: displaced_by_def split: option.splits)
  then show ?thesis by (simp add: displace_credit_def)
qed

section \<open>A small fleet for the witnesses\<close>

definition ex_agent :: agent_obs where
  "ex_agent = \<lparr>ao_live = True, ao_liveness = None, ao_caps = [''llama''], ao_vram_total = 24000,
     ao_vram_free = 4000, ao_ram_free = 32000, ao_loaded = [(''llama'', [''old''])], ao_answered = None,
     ao_server_state = Some ''sleeping'', ao_llama_build = []\<rparr>"

definition ex_entry :: entry where
  "ex_entry = \<lparr>en_model = ''m'', en_provider = ''llama'', en_placement = ''auto'', en_failover = ''auto'',
     en_priority = 1, en_min = 1, en_max = 2, en_rank_by = None, en_autoscale = None\<rparr>"

definition ex_desired :: desired where
  "ex_desired = \<lparr>de_enabled = True, de_protect = False, de_entries = [ex_entry], de_max_age_days = None\<rparr>"

definition ex_observed :: observed where
  "ex_observed = \<lparr>ob_agents = [(''a'', ex_agent), (''b'', ex_agent\<lparr>ao_live := False, ao_liveness := None\<rparr>)],
     ob_sizes = [(''llama:m'', 8000), (''llama:old'', 9000)], ob_gpu_layers = [], ob_route_pins = [],
     ob_speed = [], ob_sat = []\<rparr>"

definition ex_ledger :: ledger where
  "ex_ledger = \<lparr>le_last_action = [], le_placed_at = [], le_in_flight = 0, le_backoff = [],
     le_unload_backoff = [], le_confirmed = []\<rparr>"

definition ex_acts :: "action list" where
  "ex_acts =
     [mk_action Wake ex_entry ''a'' ''m/llama: waking a for placement'' True,
      mk_action Load ex_entry ''a'' ''failover: m/llama recovering onto a (displacing old)'' True]"

lemma ex_plan: "plan ex_desired ex_observed ex_ledger 1000 = Some ex_acts"
  by code_simp

lemma ex_providers_ok: "providers_ok ex_desired"
  by code_simp

section \<open>Properties of a pass\<close>

text \<open>
  a pass never fails: the second loop of \<^verbatim>\<open>plan\<close> finds the observed placements of every entry it
  looks up, so no \<^verbatim>\<open>KeyError\<close> can leave \<^verbatim>\<open>plan\<close>, whatever the entries, the observation and the ledger.\<close>

theorem plan_never_raises: "\<exists>acts. plan des obs led now = Some acts"
proof -
  let ?man = "pass_managed des obs (Some led) (Some now)"
  let ?p = "place_entries des obs led now ?man (pass_entries des) [] (init_pass des obs led now)"
  have key: "dict_get (fst ?p) (entry_id e) \<noteq> None"
    if "e \<in> set (pass_entries des)" "\<not> backing_off (entry_id e) led now" for e
  proof -
    have "find (\<lambda>f. entry_id f = entry_id e \<and> \<not> backing_off (entry_id e) led now) (rev (pass_entries des)) \<noteq> None"
      using that by (simp only: find_None_iff set_rev) blast
    then show ?thesis by (auto simp: place_entries_keys simp del: pass_entries_set)
  qed
  have "\<exists>st'. scale_entries des obs led now ?man (fst ?p) es st = Some st'"
    if "set es \<subseteq> set (pass_entries des)" for es st
    using that
  proof (induction es arbitrary: st)
    case (Cons e es)
    then have "\<exists>st1. scale_entry des obs led now ?man (fst ?p) e st = Some st1"
      using key [of e] by (auto simp: scale_entry_def Let_def split: decision.splits)
    with Cons show ?case by auto
  qed simp
  then show ?thesis by (simp add: plan_def Let_def split_beta)
qed

text \<open>
  a load, scale-up or wake is only ever planned for a configured entry that is not backing off, on a
  host that is heartbeating, offers the provider, has answered a fresh sample, does not serve the model
  yet, is a candidate of the entry and is out of its cooldown, and only when the model's size is known.\<close>

theorem placements_on_ready_hosts:
  assumes "providers_ok des" "plan des obs led now = Some acts" "ac \<in> set acts" "ac_kind ac \<noteq> ScaleDown"
  shows "\<exists>e \<in> set (de_entries des).
           ac_entry ac = entry_id e \<and> \<not> backing_off (entry_id e) led now \<and>
           host_ready obs (en_provider e) (en_model e) (ac_agent ac) \<and>
           ac_agent ac \<in> set (candidates e obs des (Some now)) \<and>
           ac_agent ac \<notin> set (placements e obs) \<and>
           now - dict_get_or (le_last_action led) (ac_agent ac) 0 \<ge> COOLDOWN_S"
  using plan_action_sound [OF assms(1-3)] assms(4)
  by (auto simp: action_sound_def action_entry_def place_sound_def cooling_def not_less)

theorem placements_on_ready_hosts_witness:
  "\<exists>e \<in> set (de_entries ex_desired).
     ac_entry (ex_acts ! 1) = entry_id e \<and> \<not> backing_off (entry_id e) ex_ledger 1000 \<and>
     host_ready ex_observed (en_provider e) (en_model e) (ac_agent (ex_acts ! 1)) \<and>
     ac_agent (ex_acts ! 1) \<in> set (candidates e ex_observed ex_desired (Some 1000)) \<and>
     ac_agent (ex_acts ! 1) \<notin> set (placements e ex_observed) \<and>
     1000 - dict_get_or (le_last_action ex_ledger) (ac_agent (ex_acts ! 1)) 0 \<ge> COOLDOWN_S"
  by (rule placements_on_ready_hosts [OF ex_providers_ok ex_plan]) (simp_all add: ex_acts_def)

text \<open>
  C1: the GPU of a host is never oversubscribed by a pass: if a pass places anything on a host's VRAM
  budget, the sizes of all models it places there plus the 1024 MB headroom fit into the host's total
  VRAM (or into what it reports free, should that be larger). This covers several entries on one host,
  and the credit for a displaced model, which is spent at most once.\<close>

theorem vram_never_oversubscribed:
  assumes "providers_ok des" "plan des obs led now = Some acts"
    and "dict_get (ob_agents obs) aid = Some a" "placed_on obs False aid acts"
  shows "placed_mb obs False aid acts + VRAM_HEADROOM_MB \<le> max (ao_vram_total a) (ao_vram_free a)"
proof -
  obtain st where st: "acts = pa_actions st"
    "(pass_step des obs led now (pass_managed des obs (Some led) (Some now)))\<^sup>*\<^sup>* (init_pass des obs led now) st"
    using plan_chain [OF assms(1,2)] .
  have "in_budget obs (start_mb obs) (credit_limit obs) st"
    using st(2) by (rule pass_invariant) (auto intro: in_budget_init in_budget_step displace_credit_limit)
  then show ?thesis
    using assms(3,4) st(1) by (auto simp: start_mb_def credit_limit_def dest!: in_budgetD [where aid = aid])
qed

theorem vram_never_oversubscribed_witness:
  "placed_mb ex_observed False ''a'' ex_acts = 8000 \<and>
   placed_mb ex_observed False ''a'' ex_acts + VRAM_HEADROOM_MB \<le> max (ao_vram_total ex_agent) (ao_vram_free ex_agent)"
proof
  show "placed_mb ex_observed False ''a'' ex_acts = 8000" by code_simp
  have "dict_get (ob_agents ex_observed) ''a'' = Some ex_agent" by (simp add: ex_observed_def)
  moreover have "placed_on ex_observed False ''a'' ex_acts" by code_simp
  ultimately show "placed_mb ex_observed False ''a'' ex_acts + VRAM_HEADROOM_MB
      \<le> max (ao_vram_total ex_agent) (ao_vram_free ex_agent)"
    by (rule vram_never_oversubscribed [OF ex_providers_ok ex_plan])
qed

text \<open>
  C27: on providers that keep one resident model per host, a pass never evicts a managed model: the model
  observed (or in flight) on the slot is the placed one or is no entry of the configuration, with
  \<^verbatim>\<open>protect_unmanaged\<close> it can only be the placed one, and two placements of one pass on the same slot
  are of the same model.\<close>

theorem managed_models_never_displaced:
  assumes "providers_ok des" "plan des obs led now = Some acts"
    and "ac \<in> set acts" "is_placement ac" "ac_provider ac \<in> set SINGLE_RESIDENT_PROVIDERS"
  shows "(\<forall>cur. dict_get (residents des obs (Some led) (Some now)) (ac_provider ac, ac_agent ac) = Some cur \<longrightarrow>
            cur = ac_model ac \<or>
            (\<not> de_protect des \<and> (\<forall>e \<in> set (de_entries des). (en_provider e, en_model e) \<noteq> (ac_provider ac, cur)))) \<and>
         (\<forall>ac' \<in> set acts. is_placement ac' \<longrightarrow> ac_provider ac' = ac_provider ac \<longrightarrow>
            ac_agent ac' = ac_agent ac \<longrightarrow> ac_model ac' = ac_model ac)"
proof -
  let ?man = "pass_managed des obs (Some led) (Some now)"
  let ?res = "residents des obs (Some led) (Some now)"
  obtain st where st: "acts = pa_actions st"
    "(pass_step des obs led now ?man)\<^sup>*\<^sup>* (init_pass des obs led now) st"
    using plan_chain [OF assms(1,2)] .
  note ok = plan_slots_ok [OF st(2)]
  have mem: "ac \<in> single_placements (pa_actions st)"
    using assms(3-5) st(1) by (simp add: single_placements_def)
  have prot: "(ac_provider ac, cur) \<in> set ?man"
    if "dict_get ?res (ac_provider ac, ac_agent ac) = Some cur" "de_protect des" for cur
    using that by (auto simp: pass_managed_def dest!: map_of_SomeD intro!: rev_image_eqI)
  have "cur = ac_model ac \<or> (\<not> de_protect des \<and>
          (\<forall>e \<in> set (de_entries des). (en_provider e, en_model e) \<noteq> (ac_provider ac, cur)))"
    if cur: "dict_get ?res (ac_provider ac, ac_agent ac) = Some cur" for cur
  proof -
    have "cur = ac_model ac \<or> (ac_provider ac, cur) \<notin> set ?man"
      using ok mem cur by (simp add: slots_ok_def slot_of_def)
    then show ?thesis using prot [OF cur] managed_entries [of _ des obs "Some led" "Some now"] by metis
  qed
  moreover have "ac_model ac' = ac_model ac" if "ac' \<in> set acts" "is_placement ac'"
      "ac_provider ac' = ac_provider ac" "ac_agent ac' = ac_agent ac" for ac'
  proof -
    have "ac' \<in> single_placements (pa_actions st)"
      using that assms(5) st(1) by (simp add: single_placements_def)
    then show ?thesis using slots_ok_model [OF ok] mem that by (metis option.inject)
  qed
  ultimately show ?thesis by blast
qed

theorem managed_models_never_displaced_witness:
  "dict_get (residents ex_desired ex_observed (Some ex_ledger) (Some 1000)) (''llama'', ''a'') = Some ''old'' \<and>
   (''llama'', ''old'') \<notin> (\<lambda>e. (en_provider e, en_model e)) ` set (de_entries ex_desired)"
proof
  show old: "dict_get (residents ex_desired ex_observed (Some ex_ledger) (Some 1000)) (''llama'', ''a'') = Some ''old''"
    by code_simp
  have ac: "ex_acts ! 1 \<in> set ex_acts" "is_placement (ex_acts ! 1)"
    "ac_provider (ex_acts ! 1) \<in> set SINGLE_RESIDENT_PROVIDERS"
    by (simp_all add: ex_acts_def is_placement_def ex_entry_def SINGLE_RESIDENT_PROVIDERS_def)
  show "(''llama'', ''old'') \<notin> (\<lambda>e. (en_provider e, en_model e)) ` set (de_entries ex_desired)"
    using managed_models_never_displaced [OF ex_providers_ok ex_plan ac] old
    by (auto simp: ex_acts_def ex_entry_def)
qed

text \<open>
  with \<^verbatim>\<open>protect_unmanaged\<close> a pass stays within what each host reports as free: what it places on
  either budget of a host, plus the headroom, fits into the free VRAM or RAM.\<close>

theorem protected_fits_free_memory:
  assumes "providers_ok des" "plan des obs led now = Some acts" "de_protect des"
    and "dict_get (ob_agents obs) aid = Some a" "placed_on obs ram aid acts"
  shows "placed_mb obs ram aid acts + VRAM_HEADROOM_MB \<le> (if ram then ao_ram_free a else ao_vram_free a)"
proof -
  let ?man = "pass_managed des obs (Some led) (Some now)"
  let ?I = "\<lambda>st. in_budget obs (start_mb obs) (\<lambda>_ _. 0) st \<and>
      slots_ok (residents des obs (Some led) (Some now)) ?man st"
  obtain st where st: "acts = pa_actions st"
    "(pass_step des obs led now ?man)\<^sup>*\<^sup>* (init_pass des obs led now) st"
    using plan_chain [OF assms(1,2)] .
  have "?I st"
    using st(2)
  proof (rule pass_invariant)
    show "?I (init_pass des obs led now)"
      by (simp add: in_budget_init slots_ok_init)
  next
    fix s s' assume s: "pass_step des obs led now ?man s s'" "?I s"
    have "displace_credit e aid' a' (bu_res (pa_budgets s)) ?man obs \<le> 0" for e aid' a'
      using protected_no_credit [OF assms(3)] s(2) by simp
    then have "in_budget obs (start_mb obs) (\<lambda>_ _. 0) s'" using s by (auto intro: in_budget_step)
    moreover have "slots_ok (residents des obs (Some led) (Some now)) ?man s'"
      using s by (auto intro: slots_ok_step managed_entries)
    ultimately show "?I s'" ..
  qed
  then show ?thesis
    using assms(4,5) st(1) by (auto simp: start_mb_def dest!: in_budgetD [where aid = aid and ram = ram])
qed

definition ex_protected :: desired where
  "ex_protected = ex_desired\<lparr>de_protect := True\<rparr>"

definition ex_free_agent :: agent_obs where
  "ex_free_agent = ex_agent\<lparr>ao_loaded := [], ao_vram_free := 24000, ao_server_state := None\<rparr>"

definition ex_free_fleet :: observed where
  "ex_free_fleet = ex_observed\<lparr>ob_agents := [(''a'', ex_free_agent)]\<rparr>"

definition ex_free_acts :: "action list" where
  "ex_free_acts = [mk_action Load ex_entry ''a'' ''m/llama: 1/1 replicas placed'' True]"

theorem protected_fits_free_memory_witness:
  "placed_mb ex_free_fleet False ''a'' ex_free_acts + VRAM_HEADROOM_MB \<le> ao_vram_free ex_free_agent"
proof -
  have "providers_ok ex_protected" by code_simp
  moreover have "plan ex_protected ex_free_fleet ex_ledger 1000 = Some ex_free_acts" by code_simp
  moreover have "de_protect ex_protected" by (simp add: ex_protected_def)
  moreover have "dict_get (ob_agents ex_free_fleet) ''a'' = Some ex_free_agent" by (simp add: ex_free_fleet_def)
  moreover have "placed_on ex_free_fleet False ''a'' ex_free_acts" by code_simp
  ultimately have "placed_mb ex_free_fleet False ''a'' ex_free_acts + VRAM_HEADROOM_MB
      \<le> (if False then ao_ram_free ex_free_agent else ao_vram_free ex_free_agent)"
    by (rule protected_fits_free_memory)
  then show ?thesis by simp
qed

text \<open>A load of an entry that has a dead capable candidate is a failover.\<close>

definition failover_load :: "desired \<Rightarrow> observed \<Rightarrow> secs \<Rightarrow> action \<Rightarrow> bool" where
  "failover_load des obs now ac \<longleftrightarrow>
     ac_kind ac = Load \<and>
     (\<forall>e \<in> set (de_entries des). entry_id e = ac_entry ac \<longrightarrow> is_failover des obs now e)"

lemma failover_step:
  assumes "pass_step des obs led now man st st'"
    and "int (length (filter (failover_load des obs now) (pa_actions st))) \<le> pa_migrations st"
    and "pa_migrations st \<le> max 0 (1 - le_in_flight led)"
  shows "int (length (filter (failover_load des obs now) (pa_actions st'))) \<le> pa_migrations st' \<and>
         pa_migrations st' \<le> max 0 (1 - le_in_flight led)"
proof -
  have quiet: "filter (failover_load des obs now) ws = []" if "wakes_for des e aid ws" for e aid ws
    using that by (auto simp: filter_empty_conv failover_load_def dest: wakes_forD)
  show ?thesis
    using assms(1)
  proof (cases rule: pass_step.cases)
    case (Place e aid ws r)
    then show ?thesis using assms(2,3) quiet [OF Place(10)] by (auto simp: failover_load_def)
  next
    case (Up e aid ws r)
    then show ?thesis using assms(2,3) quiet [OF Up(9)] by (auto simp: failover_load_def)
  next
    case (Down e aid r)
    then show ?thesis using assms(2,3) by (auto simp: failover_load_def)
  qed
qed

text \<open>
  at most one failover is queued per pass, and none while a migration is in flight: the loads of
  entries that have a dead capable candidate number at most one less the migrations in flight.\<close>

theorem one_failover_per_pass:
  assumes "providers_ok des" "plan des obs led now = Some acts"
  shows "int (length (filter (failover_load des obs now) acts)) \<le> max 0 (1 - le_in_flight led)"
proof -
  obtain st where st: "acts = pa_actions st"
    "(pass_step des obs led now (pass_managed des obs (Some led) (Some now)))\<^sup>*\<^sup>* (init_pass des obs led now) st"
    using plan_chain [OF assms] .
  have "int (length (filter (failover_load des obs now) (pa_actions st))) \<le> pa_migrations st \<and>
      pa_migrations st \<le> max 0 (1 - le_in_flight led)"
    using st(2) by (rule pass_invariant) (simp_all add: init_pass_def failover_step)
  then show ?thesis using st(1) by (auto intro: order_trans)
qed

theorem one_failover_per_pass_witness:
  "length (filter (failover_load ex_desired ex_observed 1000) ex_acts) = 1 \<and>
   int (length (filter (failover_load ex_desired ex_observed 1000) ex_acts)) \<le> max 0 (1 - le_in_flight ex_ledger)"
proof
  show "length (filter (failover_load ex_desired ex_observed 1000) ex_acts) = 1" by code_simp
  show "int (length (filter (failover_load ex_desired ex_observed 1000) ex_acts)) \<le> max 0 (1 - le_in_flight ex_ledger)"
    by (rule one_failover_per_pass [OF ex_providers_ok ex_plan])
qed

text \<open>Agents named by the actions are touched, and a scaled agent has that action only.\<close>

definition scale_alone :: "pass_state \<Rightarrow> bool" where
  "scale_alone st \<longleftrightarrow>
     ac_agent ` set (pa_actions st) \<subseteq> set (pa_touched st) \<and>
     (\<forall>ac \<in> set (pa_actions st). ac_kind ac = ScaleDown \<longrightarrow>
        filter (\<lambda>x. ac_agent x = ac_agent ac) (pa_actions st) = [ac])"

lemma scale_alone_init: "scale_alone (init_pass des obs led now)"
  by (simp add: scale_alone_def init_pass_def)

lemma scale_alone_append:
  assumes "scale_alone st" "\<forall>x \<in> set new. ac_agent x = aid \<and> ac_kind x \<noteq> ScaleDown"
    and "\<forall>x \<in> set (pa_actions st). ac_kind x = ScaleDown \<longrightarrow> ac_agent x \<noteq> aid"
    and "pa_actions st' = pa_actions st @ new" "pa_touched st' = aid # pa_touched st"
  shows "scale_alone st'"
proof -
  have "filter (\<lambda>x. ac_agent x = ac_agent ac) new = []"
    if "ac \<in> set (pa_actions st)" "ac_kind ac = ScaleDown" for ac
    using assms(2,3) that by (auto simp: filter_empty_conv)
  then show ?thesis using assms by (auto simp: scale_alone_def)
qed

lemma scale_alone_step:
  assumes "pass_step des obs led now man st st'" "scale_alone st"
  shows "scale_alone st'"
  using assms(1)
proof (cases rule: pass_step.cases)
  case (Place e aid ws r)
  show ?thesis
    by (rule scale_alone_append [OF assms(2), of "ws @ [mk_action Load e aid r (may_auto e des)]" aid])
       (use Place in \<open>auto simp: placing_def dest: wakes_forD\<close>)
next
  case (Up e aid ws r)
  show ?thesis
    by (rule scale_alone_append [OF assms(2), of "ws @ [mk_action ScaleUp e aid r (may_auto e des)]" aid])
       (use Up assms(2) in \<open>auto simp: scale_alone_def dest: wakes_forD\<close>)
next
  case (Down e aid r)
  have "aid \<notin> set (pa_touched st)" using scale_down_targetD [OF Down(8)] by simp
  then have "aid \<notin> ac_agent ` set (pa_actions st)" using assms(2) by (auto simp: scale_alone_def)
  then show ?thesis using assms(2) Down(1) by (auto simp: scale_alone_def filter_empty_conv)
qed

text \<open>
  C30: a replica is only taken down when that is safe: the host serves the model, is not the pinned one,
  every copy of the entry is observed on a live host, more copies than the minimum (or the maximum) are
  there, the unload backoff and the host's cooldown have passed, and the host gets no other action in
  the same pass.\<close>

theorem scale_down_is_safe:
  assumes "providers_ok des" "plan des obs led now = Some acts" "ac \<in> set acts" "ac_kind ac = ScaleDown"
  shows "filter (\<lambda>x. ac_agent x = ac_agent ac) acts = [ac] \<and>
         (\<exists>e \<in> set (de_entries des). ac_entry ac = entry_id e \<and> down_sound obs led now e ac \<and>
            now - dict_get_or (le_last_action led) (ac_agent ac) 0 \<ge> COOLDOWN_S)"
proof -
  obtain st where st: "acts = pa_actions st"
    "(pass_step des obs led now (pass_managed des obs (Some led) (Some now)))\<^sup>*\<^sup>* (init_pass des obs led now) st"
    using plan_chain [OF assms(1,2)] .
  have "scale_alone st"
    using st(2) by (rule pass_invariant) (auto intro: scale_alone_step simp: scale_alone_init)
  then have "filter (\<lambda>x. ac_agent x = ac_agent ac) acts = [ac]"
    using assms(3,4) st(1) by (simp add: scale_alone_def)
  moreover have "\<exists>e \<in> set (de_entries des). ac_entry ac = entry_id e \<and> down_sound obs led now e ac \<and>
            now - dict_get_or (le_last_action led) (ac_agent ac) 0 \<ge> COOLDOWN_S"
    using plan_action_sound [OF assms(1-3)] assms(4)
    by (auto simp: action_sound_def action_entry_def cooling_def not_less)
  ultimately show ?thesis ..
qed

definition ex_loaded_agent :: agent_obs where
  "ex_loaded_agent = ex_agent\<lparr>ao_loaded := [(''llama'', [''m''])]\<rparr>"

definition ex_surplus_fleet :: observed where
  "ex_surplus_fleet = ex_observed\<lparr>ob_agents :=
     [(''a'', ex_loaded_agent), (''b'', ex_loaded_agent), (''c'', ex_loaded_agent)],
     ob_route_pins := [(''llama'', [(''m'', ''a'')])]\<rparr>"

definition ex_down :: action where
  "ex_down = mk_action ScaleDown ex_entry ''b'' ''m/llama: surplus replica (3/2) reclaimed from b'' True"

theorem scale_down_is_safe_witness:
  "filter (\<lambda>x. ac_agent x = ac_agent ex_down) [ex_down] = [ex_down] \<and>
   (\<exists>e \<in> set (de_entries ex_desired). ac_entry ex_down = entry_id e \<and>
      down_sound ex_surplus_fleet ex_ledger 1000 e ex_down \<and>
      1000 - dict_get_or (le_last_action ex_ledger) (ac_agent ex_down) 0 \<ge> COOLDOWN_S)"
proof (rule scale_down_is_safe [OF ex_providers_ok])
  show "plan ex_desired ex_surplus_fleet ex_ledger 1000 = Some [ex_down]" by code_simp
qed (simp_all add: ex_down_def)

end
