(* ===== verification/PlannerReplicas.thy ===== *)
theory PlannerReplicas
  imports PlannerSafety
begin

text \<open>
  Per-entry accounting of a planning pass: how many replicas of one entry a pass adds and removes, and
  that the status the dashboard shows agrees with what a pass does when nothing but memory is in the
  way.
\<close>

section \<open>Counting the actions of an entry\<close>

definition count_kind :: "string \<Rightarrow> action_kind \<Rightarrow> action list \<Rightarrow> nat" where
  "count_kind k kd acts = length (filter (\<lambda>ac. ac_entry ac = k \<and> ac_kind ac = kd) acts)"

lemma count_kind_simps [simp]:
  "count_kind k kd [] = 0"
  "count_kind k kd (ac # acts) = (if ac_entry ac = k \<and> ac_kind ac = kd then 1 else 0) + count_kind k kd acts"
  "count_kind k kd (xs @ ys) = count_kind k kd xs + count_kind k kd ys"
  by (simp_all add: count_kind_def)

lemma count_kind_other: "\<forall>ac \<in> set acts. ac_entry ac \<noteq> k \<Longrightarrow> count_kind k kd acts = 0"
  by (auto simp: count_kind_def filter_empty_conv)

lemma count_kind_wakes: "wakes_for des e aid ws \<Longrightarrow> kd \<noteq> Wake \<Longrightarrow> count_kind k kd ws = 0"
  by (auto simp: count_kind_def filter_empty_conv dest: wakes_forD)

text \<open>\<open>grows e st st' new\<close>: the actions of \<open>st'\<close> are those of \<open>st\<close> and then \<open>new\<close>, all for \<open>e\<close>.\<close>

definition grows :: "entry \<Rightarrow> pass_state \<Rightarrow> pass_state \<Rightarrow> action list \<Rightarrow> bool" where
  "grows e st st' new \<longleftrightarrow>
     pa_actions st' = pa_actions st @ new \<and> (\<forall>ac \<in> set new. ac_entry ac = entry_id e)"

lemma grows_refl [simp]: "grows e st st []"
  by (simp add: grows_def)

lemma grows_trans: "grows e st st1 xs \<Longrightarrow> grows e st1 st2 ys \<Longrightarrow> grows e st st2 (xs @ ys)"
  by (auto simp: grows_def)

lemma grows_other: "grows e st st' new \<Longrightarrow> k \<noteq> entry_id e \<Longrightarrow> count_kind k kd (pa_actions st') = count_kind k kd (pa_actions st)"
  by (auto simp: grows_def intro: count_kind_other)

lemma grows_own: "grows e st st' new \<Longrightarrow> count_kind k kd (pa_actions st') = count_kind k kd (pa_actions st) + count_kind k kd new"
  by (simp add: grows_def)

lemma place_loop_grows:
  "\<exists>new placed'. grows e st st' new \<and> fst (place_loop des obs led now man e fo cands placed st) = placed' \<and>
     int (length placed') \<le> max (en_min e) (int (length placed)) \<and>
     length placed' = length placed + count_kind (entry_id e) Load new \<and>
     count_kind (entry_id e) ScaleUp new = 0 \<and> count_kind (entry_id e) ScaleDown new = 0"
  if "st' = snd (place_loop des obs led now man e fo cands placed st)"
  using that
proof (induction cands arbitrary: placed st)
  case Nil
  then show ?case by (intro exI [of _ "[]"] exI [of _ placed]) simp
next
  case (Cons aid cands)
  consider "int (length placed) \<ge> en_min e"
    | "int (length placed) < en_min e" "place_one des obs led now man e fo placed aid st = None"
    | st1 where "int (length placed) < en_min e" "place_one des obs led now man e fo placed aid st = Some st1"
    by fastforce
  then show ?case
  proof cases
    case 1
    with Cons.prems show ?thesis by (intro exI [of _ "[]"] exI [of _ placed]) simp
  next
    case 2
    then have "place_loop des obs led now man e fo (aid # cands) placed st =
        place_loop des obs led now man e fo cands placed st" by simp
    with Cons show ?thesis by metis
  next
    case 3
    obtain ws r where ws: "wakes_for des e aid ws"
      and st1: "pa_actions st1 = pa_actions st @ ws @ [mk_action Load e aid r (may_auto e des)]"
      using 3(2) by (elim place_one_SomeD) simp
    have g1: "grows e st st1 (ws @ [mk_action Load e aid r (may_auto e des)])"
      using ws by (auto simp: grows_def st1 dest: wakes_forD)
    have "st' = snd (place_loop des obs led now man e fo cands (placed @ [aid]) st1)"
      using 3 Cons.prems by simp
    from Cons.IH [OF this] obtain new placed' where new: "grows e st1 st' new"
      "fst (place_loop des obs led now man e fo cands (placed @ [aid]) st1) = placed'"
      "int (length placed') \<le> max (en_min e) (int (length (placed @ [aid])))"
      "length placed' = length (placed @ [aid]) + count_kind (entry_id e) Load new"
      "count_kind (entry_id e) ScaleUp new = 0" "count_kind (entry_id e) ScaleDown new = 0" by blast
    show ?thesis
      using 3 new by (intro exI [of _ "(ws @ [mk_action Load e aid r (may_auto e des)]) @ new"] exI [of _ placed'])
        (auto simp: count_kind_wakes [OF ws] grows_trans [OF g1, simplified])
  qed
qed

abbreviation eff_count :: "entry \<Rightarrow> observed \<Rightarrow> ledger \<Rightarrow> secs \<Rightarrow> int" where
  "eff_count e obs led now \<equiv> int (length (effective_placements e (entry_id e) obs (Some led) (Some now)))"

lemma place_entry_grows:
  "\<exists>new. grows e st (place_entry des obs led now man e st) new \<and>
     int (count_kind (entry_id e) Load new) \<le> max 0 (en_min e - eff_count e obs led now) \<and>
     count_kind (entry_id e) ScaleUp new = 0 \<and> count_kind (entry_id e) ScaleDown new = 0"
proof -
  let ?pl = "with_fresh (placements e obs) (entry_id e) obs (Some led) (Some now)"
  show ?thesis
  proof (cases "int (length ?pl) \<ge> en_min e \<or> dwell_blocks (entry_id e) led obs now")
    case True
    then show ?thesis by (intro exI [of _ "[]"]) (auto simp: place_entry_def Let_def)
  next
    case False
    then have eq: "place_entry des obs led now man e st = snd (place_loop des obs led now man e
        (has_dead_candidate e (candidates e obs des (Some now)) obs) (candidates e obs des (Some now)) ?pl st)"
      by (simp add: place_entry_def Let_def)
    from place_loop_grows [OF eq] False show ?thesis by (force simp: effective_placements_def)
  qed
qed

text \<open>Replicas the first pass over \<open>es\<close> may load for the entry with key \<open>k\<close>.\<close>

definition wanted :: "observed \<Rightarrow> ledger \<Rightarrow> secs \<Rightarrow> string \<Rightarrow> entry list \<Rightarrow> int" where
  "wanted obs led now k es =
     (case find (\<lambda>e. entry_id e = k) es of None \<Rightarrow> 0 | Some e \<Rightarrow> max 0 (en_min e - eff_count e obs led now))"

lemma wanted_nonneg: "0 \<le> wanted obs led now k es"
  by (simp add: wanted_def split: option.splits)

lemma wanted_absent: "k \<notin> entry_id ` set es \<Longrightarrow> wanted obs led now k es = 0"
  by (auto simp: wanted_def find_Some_iff split: option.splits)

lemma wanted_present:
  assumes "distinct (map entry_id es)" "e \<in> set es"
  shows "wanted obs led now (entry_id e) es = max 0 (en_min e - eff_count e obs led now)"
  using assms by (induction es) (auto simp: wanted_def)

definition first_state ::
  "desired \<Rightarrow> observed \<Rightarrow> ledger \<Rightarrow> secs \<Rightarrow> managed \<Rightarrow> entry \<Rightarrow> pass_state \<Rightarrow> pass_state" where
  "first_state des obs led now man f st =
     (if backing_off (entry_id f) led now then st else place_entry des obs led now man f st)"

lemma first_state_grows:
  "\<exists>new. grows e st (first_state des obs led now man e st) new \<and>
     int (count_kind (entry_id e) Load new) \<le> max 0 (en_min e - eff_count e obs led now) \<and>
     count_kind (entry_id e) ScaleUp new = 0 \<and> count_kind (entry_id e) ScaleDown new = 0"
  using place_entry_grows [of e st des obs led now man] by (force simp: first_state_def intro: exI [of _ "[]"])

lemma place_entries_first:
  "snd (place_entries des obs led now man (f # es) by_k st) =
     snd (place_entries des obs led now man es
            (if backing_off (entry_id f) led now then by_k else dict_set (entry_id f) (placements f obs) by_k)
            (first_state des obs led now man f st))"
  by (simp add: first_state_def)

lemma place_entries_no_scale:
  assumes "kd = ScaleUp \<or> kd = ScaleDown"
  shows "count_kind k kd (pa_actions (snd (place_entries des obs led now man es by_k st))) =
           count_kind k kd (pa_actions st)"
proof (induction es arbitrary: by_k st)
  case Nil
  show ?case by simp
next
  case (Cons f es)
  obtain new where "grows f st (first_state des obs led now man f st) new"
      "count_kind (entry_id f) ScaleUp new = 0" "count_kind (entry_id f) ScaleDown new = 0"
    using first_state_grows by blast
  then have "count_kind k kd (pa_actions (first_state des obs led now man f st)) = count_kind k kd (pa_actions st)"
    using assms grows_other grows_own by (metis add.right_neutral)
  then show ?case unfolding place_entries_first Cons.IH .
qed

lemma place_entries_loads:
  assumes "distinct (map entry_id es)"
  shows "int (count_kind k Load (pa_actions (snd (place_entries des obs led now man es by_k st)))) \<le>
           int (count_kind k Load (pa_actions st)) + wanted obs led now k es"
  using assms
proof (induction es arbitrary: by_k st)
  case Nil
  show ?case by (simp add: wanted_def)
next
  case (Cons f es)
  let ?st = "first_state des obs led now man f st"
  obtain new where g: "grows f st ?st new"
      "int (count_kind (entry_id f) Load new) \<le> max 0 (en_min f - eff_count f obs led now)"
    using first_state_grows by blast
  have IH: "int (count_kind k Load (pa_actions (snd (place_entries des obs led now man (f # es) by_k st)))) \<le>
           int (count_kind k Load (pa_actions ?st)) + wanted obs led now k es"
    unfolding place_entries_first using Cons by simp
  show ?case
  proof (cases "k = entry_id f")
    case True
    then have "wanted obs led now k es = 0" using Cons.prems by (intro wanted_absent) auto
    then show ?thesis using IH grows_own [OF g(1), of k Load] g(2) True by (simp add: wanted_def)
  next
    case False
    then show ?thesis using IH grows_other [OF g(1) False, of Load] by (simp add: wanted_def)
  qed
qed

lemma scale_up_grows:
  "scale_up des obs led now man e placed cands st = st \<or>
   (\<exists>new. grows e st (scale_up des obs led now man e placed cands st) new \<and>
      count_kind (entry_id e) ScaleUp new = 1 \<and> count_kind (entry_id e) Load new = 0 \<and>
      count_kind (entry_id e) ScaleDown new = 0)"
proof (induction cands)
  case Nil
  show ?case by simp
next
  case (Cons aid cands)
  show ?case
  proof (cases "scale_up_one des obs led now man e placed aid st")
    case None
    with Cons show ?thesis by simp
  next
    case (Some st')
    obtain ws r where ws: "wakes_for des e aid ws"
      and st': "pa_actions st' = pa_actions st @ ws @ [mk_action ScaleUp e aid r (may_auto e des)]"
      using Some by (elim scale_up_one_SomeD) simp
    have "grows e st st' (ws @ [mk_action ScaleUp e aid r (may_auto e des)])"
      using ws by (auto simp: grows_def st' dest: wakes_forD)
    then show ?thesis
      using Some by (auto simp: count_kind_wakes [OF ws] intro!: exI)
  qed
qed

lemma scale_down_grows:
  "scale_down des obs led now e op placed surplus st = st \<or>
   (\<exists>new. grows e st (scale_down des obs led now e op placed surplus st) new \<and>
      count_kind (entry_id e) ScaleDown new = 1 \<and> count_kind (entry_id e) Load new = 0 \<and>
      count_kind (entry_id e) ScaleUp new = 0)"
proof -
  have "scale_down des obs led now e op placed surplus st = st \<or>
    (\<exists>aid r. pa_actions (scale_down des obs led now e op placed surplus st) =
       pa_actions st @ [mk_action ScaleDown e aid r (may_auto e des)])"
    unfolding scale_down_def Let_def by (auto split: option.splits simp del: append.simps append_Cons)
  then show ?thesis by (force simp: grows_def)
qed

text \<open>Effect of the second pass on the counts of one entry.\<close>

definition scale_effect :: "entry \<Rightarrow> int \<Rightarrow> action list \<Rightarrow> bool" where
  "scale_effect e n new \<longleftrightarrow>
     count_kind (entry_id e) Load new = 0 \<and>
     count_kind (entry_id e) ScaleUp new + count_kind (entry_id e) ScaleDown new \<le> 1 \<and>
     (count_kind (entry_id e) ScaleUp new = 1 \<longrightarrow> en_min e \<le> n \<and> n < en_max e) \<and>
     (count_kind (entry_id e) ScaleDown new = 1 \<longrightarrow> en_max e < n \<or> en_min e < n)"

lemma scale_decision_up: "scale_decision obs now e placed = Up_Replica \<Longrightarrow> en_min e \<le> int (length placed)"
  by (auto simp: scale_decision_def split: if_splits)

lemma scale_entry_grows:
  assumes "scale_entry des obs led now man by_k e st = Some st'"
    and "\<not> backing_off (entry_id e) led now \<Longrightarrow> dict_get by_k (entry_id e) = Some (placements e obs)"
  shows "\<exists>new. grows e st st' new \<and> scale_effect e (eff_count e obs led now) new"
proof (cases "backing_off (entry_id e) led now")
  case True
  with assms show ?thesis by (intro exI [of _ "[]"]) (simp add: scale_entry_def scale_effect_def)
next
  case False
  define pl where "pl = with_fresh (placements e obs) (entry_id e) obs (Some led) (Some now)"
  have n: "eff_count e obs led now = int (length pl)" by (simp add: effective_placements_def pl_def)
  have eq: "Some st' = (case scale_decision obs now e pl of
        Hold_Replicas \<Rightarrow> Some st
      | Up_Replica \<Rightarrow> Some (scale_up des obs led now man e pl (candidates e obs des (Some now)) st)
      | Down_Replica \<Rightarrow> (if length (placements e obs) \<noteq> length pl \<or> \<not> list_all (agent_live obs) pl
                         then Some st
                         else Some (scale_down des obs led now e (placements e obs) pl (int (length pl) > en_max e) st)))"
    unfolding assms(1) [symmetric] scale_entry_def Let_def pl_def
    using False assms(2) [OF False] by (simp split del: if_split)
  have same: ?thesis if "st' = st"
    using that by (intro exI [of _ "[]"]) (simp add: scale_effect_def)
  show ?thesis
  proof (cases "scale_decision obs now e pl")
    case Hold_Replicas
    with eq same show ?thesis by simp
  next
    case Up_Replica
    note b = scale_decision_up [OF this] scale_decision_bounds(1) [OF this]
    from Up_Replica eq have "st' = scale_up des obs led now man e pl (candidates e obs des (Some now)) st" by simp
    with scale_up_grows [of des obs led now man e pl "candidates e obs des (Some now)" st] same b show ?thesis
      by (auto simp: scale_effect_def n)
  next
    case Down_Replica
    note b = scale_decision_bounds(2) [OF this]
    from Down_Replica eq have "st' = st \<or>
        st' = scale_down des obs led now e (placements e obs) pl (int (length pl) > en_max e) st"
      by (simp split: if_splits)
    with scale_down_grows [of des obs led now e "placements e obs" pl "int (length pl) > en_max e" st] same b
    show ?thesis by (auto simp: scale_effect_def n)
  qed
qed

lemma scale_entries_grows:
  assumes "scale_entries des obs led now man by_k es st = Some st'" "distinct (map entry_id es)"
    and "\<And>e. e \<in> set es \<Longrightarrow> \<not> backing_off (entry_id e) led now \<Longrightarrow>
           dict_get by_k (entry_id e) = Some (placements e obs)"
    and "e \<in> set es"
  shows "\<exists>new. scale_effect e (eff_count e obs led now) new \<and>
     (\<forall>kd. count_kind (entry_id e) kd (pa_actions st') =
             count_kind (entry_id e) kd (pa_actions st) + count_kind (entry_id e) kd new)"
proof -
  have untouched: "count_kind k kd (pa_actions st') = count_kind k kd (pa_actions st)"
    if "scale_entries des obs led now man by_k es st = Some st'" "k \<notin> entry_id ` set es"
      "\<And>e. e \<in> set es \<Longrightarrow> \<not> backing_off (entry_id e) led now \<Longrightarrow>
           dict_get by_k (entry_id e) = Some (placements e obs)" for k kd es st
    using that
  proof (induction es arbitrary: st)
    case (Cons f es)
    then obtain st1 where st1: "scale_entry des obs led now man by_k f st = Some st1"
        "scale_entries des obs led now man by_k es st1 = Some st'" by (auto split: option.splits)
    obtain new where "grows f st st1 new" using scale_entry_grows [OF st1(1)] Cons.prems by auto
    then have "count_kind k kd (pa_actions st1) = count_kind k kd (pa_actions st)"
      using Cons.prems by (intro grows_other) auto
    then show ?case using Cons.IH [OF st1(2)] Cons.prems by auto
  qed simp
  show ?thesis
    using assms
  proof (induction es arbitrary: st)
    case (Cons f es)
    then obtain st1 where st1: "scale_entry des obs led now man by_k f st = Some st1"
        "scale_entries des obs led now man by_k es st1 = Some st'" by (auto split: option.splits)
    obtain new where g: "grows f st st1 new" "scale_effect f (eff_count f obs led now) new"
      using scale_entry_grows [OF st1(1)] Cons.prems by auto
    show ?case
    proof (cases "e = f")
      case True
      then have "entry_id e \<notin> entry_id ` set es" using Cons.prems by auto
      then have "count_kind (entry_id e) kd (pa_actions st') = count_kind (entry_id e) kd (pa_actions st1)" for kd
        using Cons.prems by (intro untouched [OF st1(2)]) auto
      then show ?thesis using g True grows_own [OF g(1)] by auto
    next
      case False
      then have mem: "e \<in> set es" using Cons.prems by simp
      moreover have "entry_id e \<noteq> entry_id f" using Cons.prems(2) imageI [OF mem, of entry_id] by auto
      ultimately show ?thesis using Cons.IH [OF st1(2)] Cons.prems grows_other [OF g(1)] by auto
    qed
  qed simp
qed

lemma distinct_pass_entries:
  "distinct (map entry_id (de_entries des)) \<Longrightarrow> distinct (map entry_id (pass_entries des))"
proof -
  have "mset (map entry_id (pass_entries des)) = mset (map entry_id (de_entries des))"
    by (simp add: pass_entries_def)
  then show "distinct (map entry_id (de_entries des)) \<Longrightarrow> distinct (map entry_id (pass_entries des))"
    using mset_eq_imp_distinct_iff by blast
qed

text \<open>
  C29: one pass moves the replica count of an entry towards its window and never past it: when the keys
  are distinct and the minimum is at most the maximum, the count after all planned actions of the entry
  is at most the maximum (or what it was, if larger), at least the minimum (or what it was, if smaller),
  at most one copy is taken down, and a pass never both adds and removes copies of the same entry.\<close>

theorem replica_window:
  assumes "providers_ok des" "distinct (map entry_id (de_entries des))" "plan des obs led now = Some acts"
    and "e \<in> set (de_entries des)" "en_min e \<le> en_max e"
  shows "let n = eff_count e obs led now;
             up = int (count_kind (entry_id e) Load acts + count_kind (entry_id e) ScaleUp acts);
             down = int (count_kind (entry_id e) ScaleDown acts)
         in n + up - down \<le> max n (en_max e) \<and> min n (en_min e) \<le> n + up - down \<and>
            down \<le> 1 \<and> (up = 0 \<or> down = 0)"
proof -
  let ?man = "pass_managed des obs (Some led) (Some now)"
  let ?p = "place_entries des obs led now ?man (pass_entries des) [] (init_pass des obs led now)"
  have dist: "distinct (map entry_id (pass_entries des))"
    using distinct_pass_entries assms(2) by blast
  obtain st' where st': "scale_entries des obs led now ?man (fst ?p) (pass_entries des) (snd ?p) = Some st'"
      "acts = pa_actions st'"
    using assms(3) by (auto simp: plan_def Let_def split_beta)
  have "int (count_kind (entry_id e) Load (pa_actions (snd ?p))) \<le>
      int (count_kind (entry_id e) Load (pa_actions (init_pass des obs led now))) +
      wanted obs led now (entry_id e) (pass_entries des)"
    by (rule place_entries_loads [OF dist])
  then have loads: "int (count_kind (entry_id e) Load (pa_actions (snd ?p))) \<le> max 0 (en_min e - eff_count e obs led now)"
    using wanted_present [OF dist] assms(4) by (simp add: init_pass_def)
  have zero: "count_kind (entry_id e) ScaleUp (pa_actions (snd ?p)) = 0"
      "count_kind (entry_id e) ScaleDown (pa_actions (snd ?p)) = 0"
    by (simp_all add: place_entries_no_scale init_pass_def)
  obtain new where new: "scale_effect e (eff_count e obs led now) new"
      "\<And>kd. count_kind (entry_id e) kd acts =
             count_kind (entry_id e) kd (pa_actions (snd ?p)) + count_kind (entry_id e) kd new"
  proof -
    have "dict_get (fst ?p) (entry_id f) = Some (placements f obs)"
      if "f \<in> set (pass_entries des)" "\<not> backing_off (entry_id f) led now" for f
      using that by (intro place_entries_observed [OF assms(1)]) auto
    from scale_entries_grows [OF st'(1) dist this] assms(4) st'(2) that show thesis by auto
  qed
  then show ?thesis
    using loads zero assms(5) unfolding Let_def scale_effect_def by (simp add: new(2)) linarith
qed

theorem replica_window_witness:
  "let n = eff_count ex_entry ex_surplus_fleet ex_ledger 1000;
       up = int (count_kind ''m/llama'' Load [ex_down] + count_kind ''m/llama'' ScaleUp [ex_down]);
       down = int (count_kind ''m/llama'' ScaleDown [ex_down])
   in n = 3 \<and> down = 1 \<and> n + up - down \<le> max n (en_max ex_entry) \<and> min n (en_min ex_entry) \<le> n + up - down"
proof -
  have k: "entry_id ex_entry = ''m/llama''" by code_simp
  have n: "eff_count ex_entry ex_surplus_fleet ex_ledger 1000 = 3" by code_simp
  have d: "count_kind ''m/llama'' ScaleDown [ex_down] = 1" by code_simp
  have "plan ex_desired ex_surplus_fleet ex_ledger 1000 = Some [ex_down]" by code_simp
  moreover have "distinct (map entry_id (de_entries ex_desired))" "ex_entry \<in> set (de_entries ex_desired)"
      "en_min ex_entry \<le> en_max ex_entry"
    by (simp_all add: ex_desired_def ex_entry_def)
  ultimately show ?thesis
    using replica_window [OF ex_providers_ok, of ex_surplus_fleet ex_ledger 1000 "[ex_down]" ex_entry] n d
    unfolding k Let_def by simp
qed

section \<open>The status agrees with the pass\<close>

text \<open>Nothing but memory and residents stands in the way of a placement.\<close>

definition gates_open :: "desired \<Rightarrow> observed \<Rightarrow> ledger \<Rightarrow> secs \<Rightarrow> bool" where
  "gates_open des obs led now \<longleftrightarrow>
     (\<forall>e \<in> set (de_entries des). \<not> backing_off (entry_id e) led now \<and>
        \<not> dwell_blocks (entry_id e) led obs now \<and> \<not> is_failover des obs now e) \<and>
     (\<forall>aid \<in> set (dict_keys (ob_agents obs)). \<not> cooling aid led now)"

lemma status_loop_done: "int (sp_placeable s) \<ge> need \<Longrightarrow> status_loop_run e obs man need aids s = s"
  by (cases aids) simp_all

lemma candidates_distinct:
  assumes "dict_ok (ob_agents obs)"
  shows "distinct (candidates e obs des now)"
  using assms by (simp add: candidates_def ranked_candidates_def)

lemma live_capable_Cons:
  "live_capable e (aid # aids) obs =
     (case dict_get (ob_agents obs) aid of
        None \<Rightarrow> live_capable e aids obs
      | Some a \<Rightarrow> (if en_provider e \<in> set (ao_caps a) \<and> ao_live a then [aid] else []) @ live_capable e aids obs)"
  by (simp add: live_capable_def split: option.splits)

lemma place_one_when_open:
  assumes "dict_get (ob_agents obs) aid = Some a" "aid \<notin> set placed" "\<not> cooling aid led now"
  shows "(case place_one des obs led now man e False placed aid st of
            None \<Rightarrow> resident_conflict e aid (bu_res (pa_budgets st)) man \<or>
                    \<not> fst (fit_and_size e aid a obs man (pa_budgets st))
          | Some st' \<Rightarrow> \<not> resident_conflict e aid (bu_res (pa_budgets st)) man \<and>
                    fst (fit_and_size e aid a obs man (pa_budgets st)) \<and> pa_budgets st' = charged e aid obs st)"
  using assms by (auto simp: place_one_def charged_def Let_def fit_and_size_def split: option.splits)

lemma fit_needs: "fst (fit_and_size e aid a obs man b) \<Longrightarrow>
    en_provider e \<in> set (ao_caps a) \<and> ao_live a \<and> \<not> unanswered a (en_provider e) \<and>
    model_size_mb obs (en_provider e) (en_model e) \<noteq> None"
  by (simp add: fit_and_size_def fits_def Let_def)

lemma loops_agree:
  assumes "\<forall>x \<in> set (dict_keys (ob_agents obs)). \<not> cooling x led now" "distinct cands"
    and "\<forall>x \<in> set cands. x \<in> set placed \<longleftrightarrow> x \<in> set placed0"
    and "sp_budgets s = pa_budgets st" "length placed = length placed0 + sp_placeable s"
    and "need = en_min e - int (length placed0)"
    and "place_loop des obs led now man e False cands placed st = (placed', st')"
    and "s' = status_loop_run e obs man need (live_capable e (filter (\<lambda>x. x \<notin> set placed0) cands) obs) s"
  shows "sp_budgets s' = pa_budgets st' \<and> length placed' = length placed0 + sp_placeable s'"
  using assms
proof (induction cands arbitrary: placed st s)
  case Nil
  then show ?case by (simp add: live_capable_def)
next
  case (Cons aid cands)
  show ?case
  proof (cases "int (length placed) \<ge> en_min e")
    case True
    then have "int (sp_placeable s) \<ge> need" using Cons.prems(5,6) by simp
    with True Cons.prems show ?thesis by (simp add: status_loop_done)
  next
    case open_: False
    then have run: "\<not> need \<le> int (sp_placeable s)" using Cons.prems(5,6) by simp
    let ?rest = "live_capable e (filter (\<lambda>x. x \<notin> set placed0) cands) obs"
    have skip: ?thesis
      if "place_one des obs led now man e False placed aid st = None"
        and "s' = status_loop_run e obs man need ?rest s1"
        and "sp_budgets s1 = sp_budgets s" "sp_placeable s1 = sp_placeable s" for s1
      using Cons.IH [of placed s1 st] Cons.prems open_ that by auto
    show ?thesis
    proof (cases "dict_get (ob_agents obs) aid")
      case None
      then show ?thesis
        using skip [of s] Cons.prems(8) by (auto simp: place_one_def live_capable_Cons)
    next
      case (Some a)
      show ?thesis
      proof (cases "aid \<in> set placed0")
        case True
        then have "aid \<in> set placed" using Cons.prems(3) by simp
        then show ?thesis using True Some skip [of s] Cons.prems(8) by (simp add: place_one_def)
      next
        case False
        then have np: "aid \<notin> set placed" using Cons.prems(3) by simp
        have nc: "\<not> cooling aid led now"
          using Cons.prems(1) Some by (force dest: map_of_SomeD)
        note P = place_one_when_open [OF Some np nc, where des = des and man = man and e = e and st = st]
        let ?fit = "fst (fit_and_size e aid a obs man (pa_budgets st))"
        let ?con = "resident_conflict e aid (bu_res (pa_budgets st)) man"
        show ?thesis
        proof (cases "en_provider e \<in> set (ao_caps a) \<and> ao_live a")
          case notcap: False
          then have "\<not> ?fit" using fit_needs by blast
          then have "place_one des obs led now man e False placed aid st = None"
            using P by (auto split: option.splits)
          then show ?thesis using skip [of s] Cons.prems(8) False Some notcap by (auto simp: live_capable_Cons)
        next
          case cap: True
          have s': "s' = status_loop_run e obs man need ?rest (status_one e obs man aid a s)"
            using Cons.prems(8) False Some cap run by (simp add: live_capable_Cons)
          show ?thesis
          proof (cases "?con \<or> \<not> ?fit")
            case True
            then have "place_one des obs led now man e False placed aid st = None"
              using P by (auto split: option.splits)
            moreover have "sp_budgets (status_one e obs man aid a s) = sp_budgets s \<and>
                sp_placeable (status_one e obs man aid a s) = sp_placeable s"
              using True Cons.prems(4) by (auto simp: status_one_def Let_def split: prod.splits)
            ultimately show ?thesis using skip [OF _ s'] by blast
          next
            case ok: False
            then obtain st1 where st1: "place_one des obs led now man e False placed aid st = Some st1"
                "pa_budgets st1 = charged e aid obs st"
              using P by (auto split: option.splits)
            have "\<not> unanswered a (en_provider e)" using ok fit_needs by blast
            then have s1: "sp_budgets (status_one e obs man aid a s) = charged e aid obs st"
                "sp_placeable (status_one e obs man aid a s) = Suc (sp_placeable s)"
              using ok Cons.prems(4)
              by (auto simp: status_one_def Let_def charged_def fit_and_size_def split: prod.splits)
            show ?thesis
            proof (rule Cons.IH [OF Cons.prems(1) _ _ _ _ Cons.prems(6) _ s'])
              show "distinct cands" using Cons.prems(2) by simp
              have "aid \<notin> set cands" using Cons.prems(2) by simp
              then show "\<forall>x \<in> set cands. (x \<in> set (placed @ [aid])) = (x \<in> set placed0)"
                using Cons.prems(3) by auto
              show "sp_budgets (status_one e obs man aid a s) = pa_budgets st1" using s1(1) st1(2) by simp
              show "length (placed @ [aid]) = length placed0 + sp_placeable (status_one e obs man aid a s)"
                using s1(2) Cons.prems(5) by simp
              show "place_loop des obs led now man e False cands (placed @ [aid]) st1 = (placed', st')"
                using Cons.prems(7) open_ st1(1) by simp
            qed
          qed
        qed
      qed
    qed
  qed
qed

lemma status_loop_no_size:
  assumes "model_size_mb obs (en_provider e) (en_model e) = None"
  shows "sp_budgets (status_loop_run e obs man need aids s) = sp_budgets s \<and>
         sp_placeable (status_loop_run e obs man need aids s) = sp_placeable s"
proof (induction aids arbitrary: s)
  case Nil
  show ?case by simp
next
  case (Cons aid aids)
  have "\<not> fst (fit_and_size e aid a obs man b)" for a b using assms fit_needs by blast
  then have "sp_budgets (status_one e obs man aid a s) = sp_budgets s \<and>
      sp_placeable (status_one e obs man aid a s) = sp_placeable s" for a
    by (auto simp: status_one_def Let_def split: prod.splits) (metis fst_conv)+
  with Cons show ?case by (auto split: option.splits)
qed

text \<open>The status of one entry with a positive need, against the placement loop from the same budgets.\<close>

lemma status_need_agrees:
  assumes "gates_open des obs led now" "dict_ok (ob_agents obs)" "e \<in> set (de_entries des)"
    and "placed = effective_placements e (entry_id e) obs (Some led) (Some now)"
    and "need = en_min e - int (length placed)" "need > 0"
    and "cands = filter (\<lambda>aid. aid \<notin> set placed) (candidates e obs des (Some now))"
    and "place_loop des obs led now man e False (candidates e obs des (Some now)) placed st = (placed', st')"
    and "status_need des obs man e placed cands need (pa_budgets st) = (blocked, b')"
  shows "b' = pa_budgets st' \<and> (blocked = None \<longleftrightarrow> int (length placed') \<ge> en_min e)"
proof -
  define s where "s = status_loop_run e obs man need (live_capable e cands obs) (init_status_loop (pa_budgets st))"
  have agree: "sp_budgets s = pa_budgets st' \<and> length placed' = length placed + sp_placeable s"
    by (rule loops_agree [where led = led and now = now and cands = "candidates e obs des (Some now)"
          and placed = placed and s = "init_status_loop (pa_budgets st)" and st = st and need = need and des = des])
       (use assms in \<open>auto simp: gates_open_def candidates_distinct init_status_loop_def s_def\<close>)
  show ?thesis
  proof (cases "live_capable e cands obs = [] \<or>
      (model_size_mb obs (en_provider e) (en_model e) = None \<and> placed = [])")
    case True
    then have "sp_budgets s = pa_budgets st \<and> sp_placeable s = 0"
      using status_loop_no_size [of obs e man need "live_capable e cands obs" "init_status_loop (pa_budgets st)"]
      by (auto simp: s_def init_status_loop_def)
    moreover have "b' = pa_budgets st \<and> blocked \<noteq> None"
      using True assms(9) by (auto simp: status_need_def Let_def split: if_splits)
    ultimately show ?thesis using assms(5,6) agree by auto
  next
    case False
    then have "b' = sp_budgets s" "blocked = None \<longleftrightarrow> \<not> int (sp_placeable s) < need"
      using assms(9) by (auto simp: status_need_def Let_def s_def)
    with agree assms(5) show ?thesis by auto
  qed
qed

lemma status_entry_agrees:
  assumes "gates_open des obs led now" "dict_ok (ob_agents obs)" "e \<in> set (de_entries des)"
    and "status_entry des obs (Some led) (Some now) man e (pa_budgets st) = (es, b')"
    and "st' = first_state des obs led now man e st"
  shows "b' = pa_budgets st' \<and>
    (es_blocked es = None \<longleftrightarrow>
       int (count_kind (entry_id e) Load (pa_actions st')) =
       int (count_kind (entry_id e) Load (pa_actions st)) + max 0 (en_min e - eff_count e obs led now))"
proof -
  define placed where "placed = effective_placements e (entry_id e) obs (Some led) (Some now)"
  define need where "need = en_min e - int (length placed)"
  define cands where "cands = filter (\<lambda>aid. aid \<notin> set placed) (candidates e obs des (Some now))"
  have open_: "\<not> backing_off (entry_id e) led now" "\<not> dwell_blocks (entry_id e) led obs now"
      "\<not> has_dead_candidate e (candidates e obs des (Some now)) obs"
    using assms(1,3) by (auto simp: gates_open_def is_failover_def)
  show ?thesis
  proof (cases "need > 0")
    case False
    then have "es_blocked es = None" "b' = pa_budgets st"
      using assms(4) by (auto simp: status_entry_def Let_def placed_def need_def)
    moreover have "st' = st"
      using False assms(5) open_
      by (simp add: first_state_def place_entry_def Let_def need_def placed_def effective_placements_def)
    ultimately show ?thesis using False by (simp add: need_def placed_def)
  next
    case True
    obtain placed' where loop: "place_loop des obs led now man e False (candidates e obs des (Some now)) placed st =
        (placed', st')"
    proof -
      have "st' = snd (place_loop des obs led now man e False (candidates e obs des (Some now)) placed st)"
        using True assms(5) open_
        by (simp add: first_state_def place_entry_def Let_def need_def placed_def effective_placements_def)
      then show thesis by (metis that prod.collapse)
    qed
    obtain blocked where need: "status_need des obs man e placed cands need (pa_budgets st) = (blocked, b')"
        "es_blocked es = blocked"
    proof -
      have "status_entry des obs (Some led) (Some now) man e (pa_budgets st) =
          (case (if need > 0 then status_need des obs man e placed cands need (pa_budgets st)
                 else (None, pa_budgets st)) of
             (bl, b) \<Rightarrow> (\<lparr>es_placed = length placed, es_want = en_min e, es_blocked = bl,
                es_speed = speed_status e (speed_pick e placed cands (pa_budgets st) obs man des (Some now))
                  obs des (Some now)\<rparr>, b))"
        unfolding status_entry_def Let_def placed_def need_def cands_def ..
      then show thesis using assms(4) True that by (auto split: prod.splits)
    qed
    have agree: "b' = pa_budgets st' \<and> (blocked = None \<longleftrightarrow> int (length placed') \<ge> en_min e)"
      by (rule status_need_agrees [OF assms(1-3) placed_def need_def True cands_def loop need(1)])
    obtain new where new: "grows e st st' new" "int (length placed') \<le> max (en_min e) (int (length placed))"
        "length placed' = length placed + count_kind (entry_id e) Load new"
      using place_loop_grows [of st' des obs led now man e False "candidates e obs des (Some now)" placed st] loop
      by auto
    show ?thesis
      using agree need(2) new(2,3) grows_own [OF new(1), of "entry_id e" Load] True
      by (auto simp: need_def placed_def [symmetric])
  qed
qed

lemma status_entries_get:
  "k \<notin> entry_id ` set es \<Longrightarrow>
     dict_get (fst (status_entries des obs led now man es b out)) k = dict_get out k"
  by (induction es arbitrary: b out) (auto simp: dict_simps split: prod.splits)

lemma place_entries_keep:
  assumes "k \<notin> entry_id ` set es"
  shows "count_kind k Load (pa_actions (snd (place_entries des obs led now man es by_k st))) =
         count_kind k Load (pa_actions st)"
  using assms
proof (induction es arbitrary: by_k st)
  case (Cons f es)
  obtain new where "grows f st (first_state des obs led now man f st) new"
    using first_state_grows by blast
  then show ?case using Cons grows_other [of f st _ new k Load] unfolding place_entries_first by auto
qed simp

lemma status_entries_agree:
  assumes "gates_open des obs led now" "dict_ok (ob_agents obs)" "set es \<subseteq> set (de_entries des)"
    and "distinct (map entry_id es)" "e \<in> set es"
  shows "\<exists>s. dict_get (fst (status_entries des obs (Some led) (Some now) man es (pa_budgets st) out)) (entry_id e) = Some s \<and>
     (es_blocked s = None \<longleftrightarrow>
        int (count_kind (entry_id e) Load (pa_actions (snd (place_entries des obs led now man es by_k st)))) =
        int (count_kind (entry_id e) Load (pa_actions st)) + max 0 (en_min e - eff_count e obs led now))"
  using assms(3-5)
proof (induction es arbitrary: st out by_k)
  case (Cons f es)
  obtain s b' where sb: "status_entry des obs (Some led) (Some now) man f (pa_budgets st) = (s, b')" by fastforce
  define st1 where "st1 = first_state des obs led now man f st"
  note agree = status_entry_agrees [OF assms(1,2) _ sb st1_def]
  have eq: "status_entries des obs (Some led) (Some now) man (f # es) (pa_budgets st) out =
      status_entries des obs (Some led) (Some now) man es (pa_budgets st1) (dict_set (entry_id f) s out)"
    using sb agree Cons.prems(1) by simp
  show ?case
  proof (cases "e = f")
    case True
    then have "entry_id e \<notin> entry_id ` set es" using Cons.prems by auto
    then show ?thesis
      using agree Cons.prems(1) True unfolding eq place_entries_first st1_def [symmetric]
      by (simp add: status_entries_get place_entries_keep dict_simps)
  next
    case False
    then have mem: "e \<in> set es" using Cons.prems by simp
    have "entry_id e \<noteq> entry_id f" using Cons.prems(2) imageI [OF mem, of entry_id] by auto
    then have "count_kind (entry_id e) Load (pa_actions st1) = count_kind (entry_id e) Load (pa_actions st)"
      using first_state_grows [of f st des obs led now man] grows_other unfolding st1_def by blast
    then show ?thesis
      using Cons.IH [of st1 "dict_set (entry_id f) s out"] Cons.prems mem
      unfolding eq place_entries_first st1_def [symmetric] by simp
  qed
qed simp

text \<open>
  C12: the status shown to the operator and the pass cannot disagree: when no cooldown, backoff, dwell or
  failover limit is in the way, \<^verbatim>\<open>entry_status\<close> reports an entry as not blocked exactly when the pass
  computed from the same inputs loads all the replicas the entry is missing, for every entry, with
  several entries competing for the same hosts.\<close>

theorem status_agrees_with_plan:
  assumes "providers_ok des" "gates_open des obs led now" "dict_ok (ob_agents obs)"
    and "distinct (map entry_id (de_entries des))" "e \<in> set (de_entries des)"
    and "plan des obs led now = Some acts"
  shows "\<exists>s. dict_get (entry_status des obs (Some led) (Some now)) (entry_id e) = Some s \<and>
           (es_blocked s = None \<longleftrightarrow>
              int (count_kind (entry_id e) Load acts) = max 0 (en_min e - eff_count e obs led now))"
proof -
  let ?man = "pass_managed des obs (Some led) (Some now)"
  let ?p = "place_entries des obs led now ?man (pass_entries des) [] (init_pass des obs led now)"
  have dist: "distinct (map entry_id (pass_entries des))"
    using distinct_pass_entries assms(4) by blast
  obtain st' where st': "scale_entries des obs led now ?man (fst ?p) (pass_entries des) (snd ?p) = Some st'"
      "acts = pa_actions st'"
    using assms(6) by (auto simp: plan_def Let_def split_beta)
  have "dict_get (fst ?p) (entry_id f) = Some (placements f obs)"
    if "f \<in> set (pass_entries des)" "\<not> backing_off (entry_id f) led now" for f
    using that by (intro place_entries_observed [OF assms(1)]) auto
  from scale_entries_grows [OF st'(1) dist this] assms(5)
  have "count_kind (entry_id e) Load acts = count_kind (entry_id e) Load (pa_actions (snd ?p))"
    unfolding st'(2) scale_effect_def by force
  moreover have b: "pa_budgets (init_pass des obs led now) = init_budgets des obs (Some led) (Some now)"
      "pa_actions (init_pass des obs led now) = []"
    by (simp_all add: init_pass_def)
  ultimately show ?thesis
    using status_entries_agree [OF assms(2,3) _ dist, of e ?man "init_pass des obs led now" "[]" "[]"] assms(5)
    by (simp add: entry_status_def b)
qed

theorem status_agrees_with_plan_witness:
  "\<exists>s. dict_get (entry_status ex_desired ex_free_fleet (Some ex_ledger) (Some 1000)) (entry_id ex_entry) = Some s \<and>
     (es_blocked s = None \<longleftrightarrow> int (count_kind (entry_id ex_entry) Load ex_free_acts) =
        max 0 (en_min ex_entry - eff_count ex_entry ex_free_fleet ex_ledger 1000))"
proof (rule status_agrees_with_plan [OF ex_providers_ok])
  show "gates_open ex_desired ex_free_fleet ex_ledger 1000" by code_simp
  show "dict_ok (ob_agents ex_free_fleet)" by code_simp
  show "distinct (map entry_id (de_entries ex_desired))" by code_simp
  show "ex_entry \<in> set (de_entries ex_desired)" by (simp add: ex_desired_def)
  show "plan ex_desired ex_free_fleet ex_ledger 1000 = Some ex_free_acts" by code_simp
qed

end
