(* ===== verification/JobService.thy ===== *)
theory JobService
  imports Interfaces
begin

text \<open>
  The job service of the manager (\<^verbatim>\<open>src/llm-systems-manager/backend/jobs.py\<close>): the ledger of
  scheduled and queued work, the dispatcher that starts, reaps, times out and sweeps jobs, and the HTTP
  routes over it.

  The SQLite table is the list of its rows in insertion order; a query is a filter followed by a stable
  sort. JSON blobs (\<^verbatim>\<open>spec\<close>, \<^verbatim>\<open>state\<close>, \<^verbatim>\<open>result\<close>) are kept decoded, their leaves as text. The handlers,
  validators and hooks of the job kinds live in other modules: a kind carries them as functions (or, for
  hooks, the fact that one is set), and every hook call, alert and audit entry is appended to a log of
  effects. A worker thread is an entry of \<open>sv_workers\<close> that the environment marks finished.
\<close>

section \<open>Rows, outcomes and kinds\<close>

datatype job_status = Queued | Running | Done | Failed | Cancelled

definition STATUSES :: "string list" where
  "STATUSES = [''queued'', ''running'', ''done'', ''failed'', ''cancelled'']"

definition job_status_name :: "job_status \<Rightarrow> string" where
  "job_status_name s =
     (case s of Queued \<Rightarrow> ''queued'' | Running \<Rightarrow> ''running'' | Done \<Rightarrow> ''done'' | Failed \<Rightarrow> ''failed''
      | Cancelled \<Rightarrow> ''cancelled'')"

definition LIVE :: "job_status list" where
  "LIVE = [Queued, Running]"

definition SOURCES :: "string list" where
  "SOURCES = [''tower'', ''ui'', ''api'', ''system'']"

definition LEASE_S :: secs where "LEASE_S = 30"
definition SWEEP_EVERY_S :: secs where "SWEEP_EVERY_S = 86400"
definition FAILED_WINDOW_S :: secs where "FAILED_WINDOW_S = 86400"
definition LIST_MAX :: int where "LIST_MAX = 100"
definition CANCELLED_MSG :: string where "CANCELLED_MSG = ''cancelled by the operator''"
definition RESTARTED_MSG :: string where "RESTARTED_MSG = ''manager restarted''"
definition TIMED_OUT_MSG :: string where "TIMED_OUT_MSG = ''timed out''"

type_synonym json_obj = "(string, string) dict"

record job =
  jb_id :: string
  jb_kind :: string
  jb_label :: string
  jb_user :: string
  jb_role :: string
  jb_source :: string
  jb_spec :: json_obj
  jb_state :: json_obj
  jb_status :: job_status
  jb_not_before :: "secs option"
  jb_period :: "secs option"
  jb_runs_left :: "int option"
  jb_next_run :: "secs option"
  jb_last_run :: "secs option"
  jb_started :: "secs option"
  jb_run_count :: nat
  jb_attempts :: nat
  jb_lease :: "secs option"
  jb_exclusive :: "string list"
  jb_result :: "string option"
  jb_message :: string
  jb_thread :: "string option"
  jb_created :: secs
  jb_resolved :: "secs option"
  jb_acked :: "secs option"

datatype verb = V_ok | V_again | V_finish | V_fail

record job_outcome =
  oc_verb :: verb
  oc_state :: "json_obj option"
  oc_result :: "string option"
  oc_message :: "string option"
  oc_next_in :: "secs option"
  oc_retry_in :: "secs option"
  oc_alert :: bool

definition job_ok :: "json_obj option \<Rightarrow> string option \<Rightarrow> string \<Rightarrow> job_outcome" where
  "job_ok st res msg = \<lparr>oc_verb = V_ok, oc_state = st, oc_result = res, oc_message = Some msg,
     oc_next_in = None, oc_retry_in = None, oc_alert = True\<rparr>"

definition job_again :: "secs \<Rightarrow> json_obj option \<Rightarrow> string option \<Rightarrow> job_outcome" where
  "job_again next_in st msg = \<lparr>oc_verb = V_again, oc_state = st, oc_result = None, oc_message = msg,
     oc_next_in = Some next_in, oc_retry_in = None, oc_alert = True\<rparr>"

definition job_finish :: "string option \<Rightarrow> string \<Rightarrow> json_obj option \<Rightarrow> job_outcome" where
  "job_finish res msg st = \<lparr>oc_verb = V_finish, oc_state = st, oc_result = res, oc_message = Some msg,
     oc_next_in = None, oc_retry_in = None, oc_alert = True\<rparr>"

definition job_fail :: "string \<Rightarrow> secs option \<Rightarrow> bool \<Rightarrow> job_outcome" where
  "job_fail msg retry_in alert = \<lparr>oc_verb = V_fail, oc_state = None, oc_result = None, oc_message = Some msg,
     oc_next_in = None, oc_retry_in = retry_in, oc_alert = alert\<rparr>"

text \<open>
  A kind. \<open>ki_run\<close> is what \<^verbatim>\<open>work()\<close> leaves in the result box (used when handlers run inline);
  \<open>ki_validate\<close> returns the checked spec and an error text.
\<close>

record job_kind =
  ki_name :: string
  ki_title :: string
  ki_run :: "job \<Rightarrow> job_outcome option"
  ki_validate :: "(json_obj \<Rightarrow> string \<Rightarrow> string \<Rightarrow> json_obj \<times> string option) option"
  ki_label :: "(json_obj \<Rightarrow> string) option"
  ki_exclusive :: "(json_obj \<Rightarrow> string list) option"
  ki_on_finish :: bool
  ki_on_cancel :: bool
  ki_resume :: string
  ki_max_run :: "json_obj \<Rightarrow> secs"
  ki_api :: bool

definition limit_s :: "job_kind \<Rightarrow> json_obj \<Rightarrow> secs" where
  "limit_s k spec = (if ki_max_run k spec = 0 then 3600 else ki_max_run k spec)"

section \<open>The store\<close>

type_synonym store = "job list"

definition store_insert :: "job \<Rightarrow> store \<Rightarrow> store" where
  "store_insert row rows = filter (\<lambda>r. jb_id r \<noteq> jb_id row) rows @ [row]"

definition store_get :: "string \<Rightarrow> store \<Rightarrow> job option" where
  "store_get jid rows = find (\<lambda>r. jb_id r = jid) rows"

definition update_hit :: "string \<Rightarrow> job_status list \<Rightarrow> job \<Rightarrow> bool" where
  "update_hit jid only r \<longleftrightarrow> jb_id r = jid \<and> (only = [] \<or> jb_status r \<in> set only)"

text \<open>\<^verbatim>\<open>update(job_id, only=..., **fields)\<close>; the empty \<open>only\<close> is \<^verbatim>\<open>None\<close>, \<open>f\<close> sets the columns.\<close>

definition store_update :: "string \<Rightarrow> job_status list \<Rightarrow> (job \<Rightarrow> job) \<Rightarrow> store \<Rightarrow> bool \<times> store" where
  "store_update jid only f rows =
     (list_ex (update_hit jid only) rows, map (\<lambda>r. if update_hit jid only r then f r else r) rows)"

definition store_due :: "secs \<Rightarrow> store \<Rightarrow> job list" where
  "store_due now rows =
     sort_key (\<lambda>r. (case jb_next_run r of Some t \<Rightarrow> t | None \<Rightarrow> 0, jb_created r))
       (filter (\<lambda>r. jb_status r = Queued \<and> (case jb_next_run r of Some t \<Rightarrow> t \<le> now | None \<Rightarrow> False)) rows)"

text \<open>SQL sorts \<^verbatim>\<open>NULL\<close> before every number.\<close>

definition null_first :: "secs option \<Rightarrow> nat \<times> secs" where
  "null_first t = (case t of None \<Rightarrow> (0, 0) | Some x \<Rightarrow> (1, x))"

definition store_running :: "store \<Rightarrow> job list" where
  "store_running rows = sort_key (\<lambda>r. null_first (jb_started r)) (filter (\<lambda>r. jb_status r = Running) rows)"

definition failed_unacked :: "secs \<Rightarrow> job \<Rightarrow> bool" where
  "failed_unacked now r \<longleftrightarrow> jb_status r = Failed \<and> jb_acked r = None \<and>
     (case jb_resolved r of Some t \<Rightarrow> t \<ge> now - FAILED_WINDOW_S | None \<Rightarrow> False)"

record job_summary =
  su_queued :: nat
  su_running :: nat
  su_failed_24h :: nat
  su_next_due :: "secs option"

definition store_summary :: "secs \<Rightarrow> store \<Rightarrow> job_summary" where
  "store_summary now rows =
     (let q = filter (\<lambda>r. jb_status r = Queued) rows
      in \<lparr>su_queued = length q, su_running = length (filter (\<lambda>r. jb_status r = Running) rows),
          su_failed_24h = length (filter (failed_unacked now) rows),
          su_next_due = (case [t. r \<leftarrow> q, Some t \<leftarrow> [jb_next_run r]] of
                           [] \<Rightarrow> None | t # ts \<Rightarrow> Some (foldl min t ts))\<rparr>)"

definition swept :: "secs \<Rightarrow> job \<Rightarrow> bool" where
  "swept cutoff r \<longleftrightarrow> jb_status r \<in> {Done, Failed, Cancelled} \<and>
     (case jb_resolved r of Some t \<Rightarrow> t < cutoff | None \<Rightarrow> False)"

definition store_sweep :: "secs \<Rightarrow> store \<Rightarrow> nat \<times> store" where
  "store_sweep cutoff rows = (length (filter (swept cutoff) rows), filter (\<lambda>r. \<not> swept cutoff r) rows)"

definition store_users :: "store \<Rightarrow> string list" where
  "store_users rows = sort (remdups (filter (\<lambda>u. u \<noteq> []) (map jb_user rows)))"

section \<open>The service\<close>

datatype effect =
    Finish_Hook job
  | Cancel_Hook job
  | Alert_Sent job string
  | Audit string job bool string

text \<open>\<open>None\<close>: the thread is alive; \<open>Some box\<close>: it ended and left \<open>box\<close> as its outcome.\<close>

type_synonym worker = "job_outcome option option"

record service =
  sv_rows :: store
  sv_kinds :: "(string, job_kind) dict"
  sv_workers :: "(string, worker) dict"
  sv_cancel :: "(string, bool) dict"
  sv_last_sweep :: secs
  sv_inline :: bool
  sv_alerting :: bool
  sv_auditing :: bool
  sv_effects :: "effect list"

record job_config =
  cf_workers :: "int option"
  cf_history_days :: "int option"

definition max_workers :: "job_config \<Rightarrow> int" where
  "max_workers cfg = max 1 (or_num (cf_workers cfg) 4)"

definition emit :: "effect \<Rightarrow> service \<Rightarrow> service" where
  "emit x sv = sv\<lparr>sv_effects := sv_effects sv @ [x]\<rparr>"

definition set_rows :: "store \<Rightarrow> service \<Rightarrow> service" where
  "set_rows rows sv = sv\<lparr>sv_rows := rows\<rparr>"

definition hook_finish :: "job_kind option \<Rightarrow> job \<Rightarrow> service \<Rightarrow> service" where
  "hook_finish k row sv =
     (case k of None \<Rightarrow> sv | Some k' \<Rightarrow> if ki_on_finish k' then emit (Finish_Hook row) sv else sv)"

definition hook_cancel :: "job_kind option \<Rightarrow> job \<Rightarrow> service \<Rightarrow> service" where
  "hook_cancel k row sv =
     (case k of None \<Rightarrow> sv | Some k' \<Rightarrow> if ki_on_cancel k' then emit (Cancel_Hook row) sv else sv)"

definition audit_log :: "string \<Rightarrow> job \<Rightarrow> bool \<Rightarrow> string \<Rightarrow> service \<Rightarrow> service" where
  "audit_log act row ok actor sv = (if sv_auditing sv then emit (Audit act row ok actor) sv else sv)"

definition signal :: "string \<Rightarrow> service \<Rightarrow> service" where
  "signal jid sv =
     (case dict_get (sv_cancel sv) jid of
        None \<Rightarrow> sv | Some _ \<Rightarrow> sv\<lparr>sv_cancel := dict_set jid True (sv_cancel sv)\<rparr>)"

definition forget :: "string \<Rightarrow> service \<Rightarrow> service" where
  "forget jid sv = sv\<lparr>sv_cancel := dict_pop jid (sv_cancel sv)\<rparr>"

definition register :: "job_kind \<Rightarrow> service \<Rightarrow> service" where
  "register k sv = sv\<lparr>sv_kinds := dict_set (ki_name k) k (sv_kinds sv)\<rparr>"

definition kind_of :: "service \<Rightarrow> string \<Rightarrow> job_kind option" where
  "kind_of sv name = dict_get (sv_kinds sv) name"

section \<open>Submitting and editing\<close>

record submission =
  sm_kind :: string
  sm_spec :: json_obj
  sm_user :: string
  sm_role :: string
  sm_source :: string
  sm_label :: "string option"
  sm_not_before :: "secs option"
  sm_period :: "secs option"
  sm_runs_left :: "int option"
  sm_thread :: "string option"

datatype job_error = Unknown_Kind | Invalid_Spec string

definition job_error_status :: "job_error \<Rightarrow> int" where
  "job_error_status e = (case e of Unknown_Kind \<Rightarrow> 404 | Invalid_Spec _ \<Rightarrow> 400)"

definition new_row :: "string \<Rightarrow> secs \<Rightarrow> job_kind \<Rightarrow> json_obj \<Rightarrow> submission \<Rightarrow> job" where
  "new_row jid now k spec sm =
     (let nb = (case sm_not_before sm of Some t \<Rightarrow> t | None \<Rightarrow> now)
      in \<lparr>jb_id = jid, jb_kind = sm_kind sm,
          jb_label = take 80 (or_list (sm_label sm) (case ki_label k of Some f \<Rightarrow> f spec | None \<Rightarrow> ki_title k)),
          jb_user = sm_user sm, jb_role = sm_role sm,
          jb_source = (if sm_source sm \<in> set SOURCES then sm_source sm else ''system''),
          jb_spec = spec, jb_state = [], jb_status = Queued, jb_not_before = Some nb,
          jb_period = (case sm_period sm of Some p \<Rightarrow> if p = 0 then None else Some p | None \<Rightarrow> None),
          jb_runs_left = sm_runs_left sm, jb_next_run = Some nb, jb_last_run = None, jb_started = None,
          jb_run_count = 0, jb_attempts = 0, jb_lease = None,
          jb_exclusive = (case ki_exclusive k of Some f \<Rightarrow> f spec | None \<Rightarrow> []),
          jb_result = None, jb_message = ''queued'', jb_thread = sm_thread sm, jb_created = now,
          jb_resolved = None, jb_acked = None\<rparr>)"

definition submit :: "string \<Rightarrow> secs \<Rightarrow> submission \<Rightarrow> service \<Rightarrow> job_error + job \<times> service" where
  "submit jid now sm sv =
     (case kind_of sv (sm_kind sm) of
        None \<Rightarrow> Inl Unknown_Kind
      | Some k \<Rightarrow>
          (case (case ki_validate k of
                   None \<Rightarrow> (sm_spec sm, None)
                 | Some f \<Rightarrow> f (sm_spec sm) (sm_user sm) (sm_role sm)) of
             (spec, err) \<Rightarrow>
               (if or_list err [] \<noteq> [] then Inl (Invalid_Spec (or_list err []))
                else (let row = new_row jid now k spec sm
                      in Inr (row, audit_log ''jobs.submit'' row True
                                     (if sm_user sm \<noteq> [] then sm_user sm else sm_source sm)
                                     (set_rows (store_insert row (sv_rows sv)) sv))))))"

definition annotate :: "string \<Rightarrow> string \<Rightarrow> service \<Rightarrow> bool \<times> service" where
  "annotate jid msg sv =
     (case store_update jid [Cancelled, Failed, Done] (\<lambda>r. r\<lparr>jb_message := msg\<rparr>) (sv_rows sv) of
        (hit, rows) \<Rightarrow> (hit, set_rows rows sv))"

definition set_state :: "string \<Rightarrow> json_obj \<Rightarrow> service \<Rightarrow> bool \<times> service" where
  "set_state jid st sv =
     (case store_update jid LIVE (\<lambda>r. r\<lparr>jb_state := st\<rparr>) (sv_rows sv) of
        (hit, rows) \<Rightarrow> (hit, set_rows rows sv))"

section \<open>Queries\<close>

definition where_pred ::
  "string \<Rightarrow> string option \<Rightarrow> string option \<Rightarrow> string option \<Rightarrow> secs option \<Rightarrow> job \<Rightarrow> bool" where
  "where_pred status kind user thread since r \<longleftrightarrow>
     (if status = ''live''
      then jb_status r \<in> set LIVE \<or>
           (case (since, jb_resolved r) of (Some t, Some d) \<Rightarrow> d \<ge> t | _ \<Rightarrow> False)
      else status = ''all'' \<or> job_status_name (jb_status r) = status) \<and>
     (case kind of Some x \<Rightarrow> jb_kind r = x | None \<Rightarrow> True) \<and>
     (case user of Some x \<Rightarrow> jb_user r = x | None \<Rightarrow> True) \<and>
     (case thread of Some x \<Rightarrow> jb_thread r = Some x | None \<Rightarrow> True)"

definition list_jobs ::
  "string \<Rightarrow> string option \<Rightarrow> string option \<Rightarrow> string option \<Rightarrow> secs option \<Rightarrow> int \<Rightarrow> int \<Rightarrow> service \<Rightarrow>
   job list" where
  "list_jobs status kind user thread since limit ofs sv =
     take (nat (max 1 (min LIST_MAX limit)))
       (drop (nat (max 0 ofs))
          (sort_key (\<lambda>r. (- jb_created r, jb_id r))
             (filter (where_pred status kind user thread since) (sv_rows sv))))"

definition count_jobs :: "string \<Rightarrow> string option \<Rightarrow> string option \<Rightarrow> service \<Rightarrow> nat" where
  "count_jobs status kind user sv =
     length (filter (where_pred status kind user None None) (sv_rows sv))"

definition live_jobs :: "nat \<Rightarrow> service \<Rightarrow> job list" where
  "live_jobs limit sv =
     take limit (sort_key (\<lambda>r. (if jb_status r = Running then 0 else 1 :: nat, null_first (jb_next_run r), jb_created r))
       (filter (\<lambda>r. jb_status r \<in> set LIVE) (sv_rows sv)))"

definition failed_recent :: "secs \<Rightarrow> nat \<Rightarrow> service \<Rightarrow> job list" where
  "failed_recent now limit sv =
     take limit (sort_key (\<lambda>r. case jb_resolved r of Some t \<Rightarrow> - t | None \<Rightarrow> 0)
       (filter (failed_unacked now) (sv_rows sv)))"

definition acked :: "job \<Rightarrow> bool" where
  "acked r = (case jb_acked r of Some t \<Rightarrow> t \<noteq> 0 | None \<Rightarrow> False)"

definition own_job :: "string option \<Rightarrow> string option \<Rightarrow> job \<Rightarrow> bool" where
  "own_job role user r \<longleftrightarrow>
     role = Some ''admin'' \<or> (role = Some ''operator'' \<and> or_list user [] \<noteq> [] \<and> user = Some (jb_user r))"

text \<open>
  \<^verbatim>\<open>local(ts)\<close>; \<open>fmt\<close> stands for the local-time formatting of the platform. A view is the row with the
  derived columns, the detailed blobs only when asked for.
\<close>

definition local_time :: "(secs \<Rightarrow> string) \<Rightarrow> secs option \<Rightarrow> string option" where
  "local_time fmt ts = (case ts of Some t \<Rightarrow> if t = 0 then None else Some (fmt t) | None \<Rightarrow> None)"

record job_view =
  vw_row :: job
  vw_kind_title :: string
  vw_local :: "string option list"
  vw_can_cancel :: bool
  vw_acked :: bool
  vw_can_ack :: bool
  vw_detail :: "(json_obj \<times> json_obj \<times> string option) option"

definition view ::
  "(secs \<Rightarrow> string) \<Rightarrow> service \<Rightarrow> job \<Rightarrow> string option \<Rightarrow> string option \<Rightarrow> bool \<Rightarrow> job_view" where
  "view fmt sv r role user detail =
     \<lparr>vw_row = r\<lparr>jb_spec := [], jb_state := [], jb_result := None, jb_role := [], jb_period := None,
                jb_runs_left := None, jb_lease := None, jb_acked := None\<rparr>,
      vw_kind_title = (case kind_of sv (jb_kind r) of Some k \<Rightarrow> ki_title k | None \<Rightarrow> jb_kind r),
      vw_local = map (local_time fmt) [Some (jb_created r), jb_not_before r, jb_next_run r, jb_last_run r,
                                       jb_started r, jb_resolved r],
      vw_can_cancel = (jb_status r \<in> set LIVE \<and> own_job role user r),
      vw_acked = acked r,
      vw_can_ack = (jb_status r = Failed \<and> \<not> acked r \<and> own_job role user r),
      vw_detail = (if detail then Some (jb_spec r, jb_state r, jb_result r) else None)\<rparr>"

section \<open>Cancelling and acknowledging\<close>

definition get_or :: "string \<Rightarrow> job \<Rightarrow> service \<Rightarrow> job" where
  "get_or jid row sv = (case store_get jid (sv_rows sv) of Some r \<Rightarrow> r | None \<Rightarrow> row)"

definition audit_actor :: "string \<Rightarrow> job \<Rightarrow> string" where
  "audit_actor actor row = (if actor \<noteq> [] then actor else if jb_user row \<noteq> [] then jb_user row else ''system'')"

definition set_cancelled :: "secs \<Rightarrow> string \<Rightarrow> job \<Rightarrow> job" where
  "set_cancelled now msg r =
     r\<lparr>jb_status := Cancelled, jb_resolved := Some now, jb_message := msg, jb_next_run := None, jb_lease := None\<rparr>"

definition cancel :: "secs \<Rightarrow> string \<Rightarrow> string \<Rightarrow> string \<Rightarrow> service \<Rightarrow> job option \<times> service" where
  "cancel now jid actor msg sv =
     (case store_get jid (sv_rows sv) of
        None \<Rightarrow> (None, sv)
      | Some row \<Rightarrow>
          (if jb_status row \<notin> set LIVE then (None, sv)
           else (case store_update jid LIVE (set_cancelled now msg) (sv_rows sv) of
                   (hit, rows) \<Rightarrow>
                     (if \<not> hit then (None, sv)
                      else (let sv1 = set_rows rows sv;
                                sv2 = (if jb_status row = Running
                                       then hook_cancel (kind_of sv1 (jb_kind row))
                                              (row\<lparr>jb_status := Cancelled, jb_message := msg\<rparr>) (signal jid sv1)
                                       else sv1);
                                row' = get_or jid row sv2;
                                sv3 = audit_log ''jobs.cancel'' row' True (audit_actor actor row') sv2
                            in (Some row', hook_finish (kind_of sv3 (jb_kind row')) row' sv3))))))"

definition ack :: "secs \<Rightarrow> string \<Rightarrow> string \<Rightarrow> service \<Rightarrow> job option \<times> service" where
  "ack now jid actor sv =
     (case store_get jid (sv_rows sv) of
        None \<Rightarrow> (None, sv)
      | Some row \<Rightarrow>
          (if jb_status row \<noteq> Failed \<or> acked row then (None, sv)
           else (case store_update jid [Failed] (\<lambda>r. r\<lparr>jb_acked := Some now\<rparr>) (sv_rows sv) of
                   (hit, rows) \<Rightarrow>
                     (if \<not> hit then (None, sv)
                      else (let sv1 = set_rows rows sv;
                                row' = get_or jid (row\<lparr>jb_acked := Some now\<rparr>) sv1
                            in (Some row', audit_log ''jobs.ack'' row' True (audit_actor actor row') sv1))))))"

definition spec_differs :: "json_obj \<Rightarrow> job \<Rightarrow> bool" where
  "spec_differs m r = list_ex (\<lambda>(k, v). dict_get (jb_spec r) k \<noteq> Some v) m"

definition cancel_where ::
  "secs \<Rightarrow> string \<Rightarrow> string option \<Rightarrow> json_obj \<Rightarrow> string \<Rightarrow> string \<Rightarrow> service \<Rightarrow> nat \<times> service" where
  "cancel_where now kind thread spec_match msg actor sv =
     foldl (\<lambda>(n, s) row.
              if spec_match \<noteq> [] \<and> spec_differs spec_match row then (n, s)
              else (case cancel now (jb_id row) actor msg s of
                      (None, s') \<Rightarrow> (n, s') | (Some _, s') \<Rightarrow> (Suc n, s')))
       (0, sv) (list_jobs ''live'' (Some kind) None thread None LIST_MAX 0 sv)"

section \<open>Outcomes\<close>

definition set_failed :: "secs \<Rightarrow> string \<Rightarrow> nat option \<Rightarrow> json_obj \<Rightarrow> job \<Rightarrow> job" where
  "set_failed now msg attempts st r =
     r\<lparr>jb_status := Failed, jb_resolved := Some now, jb_message := msg, jb_next_run := None, jb_lease := None,
       jb_started := None, jb_attempts := (case attempts of Some n \<Rightarrow> n | None \<Rightarrow> jb_attempts r), jb_state := st\<rparr>"

definition resolve_failed ::
  "job \<Rightarrow> string \<Rightarrow> secs \<Rightarrow> nat option \<Rightarrow> bool \<Rightarrow> service \<Rightarrow> service" where
  "resolve_failed row msg now attempts alert sv =
     (case store_update (jb_id row) [Running] (set_failed now msg attempts (jb_state row)) (sv_rows sv) of
        (hit, rows) \<Rightarrow>
          (if \<not> hit then sv
           else (let sv1 = set_rows rows sv;
                     row' = get_or (jb_id row) (set_failed now msg attempts (jb_state row) row) sv1;
                     k = kind_of sv1 (jb_kind row');
                     sv2 = (if sv_alerting sv1 \<and> alert then emit (Alert_Sent row' msg) sv1 else sv1);
                     sv3 = audit_log ''jobs.failed'' row' False (audit_actor [] row') sv2
                 in hook_finish k row' sv3)))"

text \<open>The columns that \<^verbatim>\<open>_apply\<close> writes for the verbs that do not end in \<^verbatim>\<open>_resolve_failed\<close>.\<close>

definition common_fields :: "job_outcome \<Rightarrow> job \<Rightarrow> job" where
  "common_fields oc r =
     r\<lparr>jb_lease := None, jb_started := None,
       jb_state := (case oc_state oc of Some s \<Rightarrow> s | None \<Rightarrow> jb_state r),
       jb_message := (if or_list (oc_message oc) [] \<noteq> [] then or_list (oc_message oc) [] else jb_message r)\<rparr>"

definition repeats :: "job \<Rightarrow> bool" where
  "repeats row \<longleftrightarrow>
     (case jb_period row of Some p \<Rightarrow> p \<noteq> 0 | None \<Rightarrow> False) \<and>
     (case jb_runs_left row of None \<Rightarrow> True | Some n \<Rightarrow> n > 1)"

definition outcome_fields :: "secs \<Rightarrow> job \<Rightarrow> job_outcome \<Rightarrow> job \<Rightarrow> job" where
  "outcome_fields now row oc r =
     (let c = common_fields oc r
      in case oc_verb oc of
           V_ok \<Rightarrow>
             (if repeats row
              then c\<lparr>jb_run_count := jb_run_count row + 1, jb_status := Queued,
                     jb_next_run := Some (max (or_num (jb_last_run row) now + or_num (jb_period row) 0) now),
                     jb_runs_left := map_option (\<lambda>n. n - 1) (jb_runs_left row)\<rparr>
              else c\<lparr>jb_run_count := jb_run_count row + 1, jb_status := Done, jb_resolved := Some now,
                     jb_result := oc_result oc, jb_next_run := None\<rparr>)
         | V_again \<Rightarrow>
             c\<lparr>jb_status := Queued, jb_next_run := Some (now + or_num (oc_next_in oc) 0),
               jb_run_count := jb_run_count row + 1\<rparr>
         | V_finish \<Rightarrow>
             c\<lparr>jb_status := Done, jb_resolved := Some now, jb_result := oc_result oc, jb_next_run := None,
               jb_run_count := jb_run_count row + 1\<rparr>
         | V_fail \<Rightarrow>
             c\<lparr>jb_attempts := jb_attempts row + 1, jb_status := Queued,
               jb_next_run := Some (now + or_num (oc_retry_in oc) 0)\<rparr>)"

definition ends_done :: "job \<Rightarrow> job_outcome \<Rightarrow> bool" where
  "ends_done row oc \<longleftrightarrow> (oc_verb oc = V_ok \<and> \<not> repeats row) \<or> oc_verb oc = V_finish"

text \<open>
  \<^verbatim>\<open>_apply\<close> after it has read \<open>row\<close>. It does not hold the store's lock, so another thread may change the
  row between that read and this write.
\<close>

definition apply_row :: "secs \<Rightarrow> job \<Rightarrow> job_outcome \<Rightarrow> service \<Rightarrow> service" where
  "apply_row now row oc sv =
     (if oc_verb oc = V_fail \<and> oc_retry_in oc = None
      then resolve_failed (row\<lparr>jb_state := (case oc_state oc of Some s \<Rightarrow> s | None \<Rightarrow> jb_state row)\<rparr>)
             (or_list (oc_message oc) ''failed'') now (Some (jb_attempts row + 1)) (oc_alert oc)
             (forget (jb_id row) sv)
      else (case store_update (jb_id row) [Running] (outcome_fields now row oc) (sv_rows sv) of
              (hit, rows) \<Rightarrow>
                (let sv1 = forget (jb_id row) (set_rows rows sv)
                 in if ends_done row oc
                    then hook_finish (kind_of sv1 (jb_kind row)) (get_or (jb_id row) row sv1) sv1
                    else sv1)))"

definition apply_outcome :: "secs \<Rightarrow> string \<Rightarrow> job_outcome \<Rightarrow> service \<Rightarrow> service" where
  "apply_outcome now jid oc sv =
     (case store_get jid (sv_rows sv) of
        None \<Rightarrow> forget jid sv
      | Some row \<Rightarrow> if jb_status row \<noteq> Running then forget jid sv else apply_row now row oc sv)"

section \<open>The dispatcher\<close>

definition boxed :: "job_outcome option \<Rightarrow> job_outcome" where
  "boxed box = (case box of Some oc \<Rightarrow> oc | None \<Rightarrow> job_fail ''no outcome'' None True)"

text \<open>\<open>clk jid\<close> is the clock reading of \<^verbatim>\<open>_apply\<close> for that job.\<close>

definition launch :: "(string \<Rightarrow> secs) \<Rightarrow> job \<Rightarrow> service \<Rightarrow> service" where
  "launch clk row sv =
     (case kind_of sv (jb_kind row) of
        None \<Rightarrow> apply_outcome (clk (jb_id row)) (jb_id row) (job_fail ''kind not registered'' None True) sv
      | Some k \<Rightarrow>
          (let sv1 = sv\<lparr>sv_cancel := dict_set (jb_id row) False (sv_cancel sv)\<rparr>
           in if sv_inline sv
              then apply_outcome (clk (jb_id row)) (jb_id row) (boxed (ki_run k row)) sv1
              else sv1\<lparr>sv_workers := dict_set (jb_id row) None (sv_workers sv1)\<rparr>))"

definition set_running :: "secs \<Rightarrow> job \<Rightarrow> job" where
  "set_running now r =
     r\<lparr>jb_status := Running, jb_started := Some now, jb_last_run := Some now, jb_lease := Some (now + LEASE_S),
       jb_message := ''running''\<rparr>"

definition waiting_msg :: "string \<Rightarrow> string" where
  "waiting_msg clash =
     (if take 5 clash = ''perf:'' then ''waiting for another job on this host'' else ''waiting for '' @ clash)"

text \<open>
  \<^verbatim>\<open>_start_due\<close> takes \<^verbatim>\<open>if clash:\<close> as its test, which an empty key would not pass; keys are not empty (every
  kind of the manager builds them from a fixed prefix).
\<close>

record start_state =
  ss_held :: "string list"
  ss_count :: int
  ss_started :: nat
  ss_service :: service

fun start_loop ::
  "secs \<Rightarrow> (string \<Rightarrow> secs) \<Rightarrow> int \<Rightarrow> job list \<Rightarrow> start_state \<Rightarrow> start_state" where
  "start_loop now clk workers [] s = s"
| "start_loop now clk workers (row # due) s =
     (case find (\<lambda>key. key \<in> set (ss_held s)) (jb_exclusive row) of
        Some clash \<Rightarrow>
          start_loop now clk workers due
            (if jb_message row \<noteq> waiting_msg clash
             then s\<lparr>ss_service := set_rows (snd (store_update (jb_id row) [Queued]
                      (\<lambda>r. r\<lparr>jb_message := waiting_msg clash\<rparr>) (sv_rows (ss_service s)))) (ss_service s)\<rparr>
             else s)
      | None \<Rightarrow>
          (if ss_count s \<ge> workers then s
           else (case store_update (jb_id row) [Queued] (set_running now) (sv_rows (ss_service s)) of
                   (hit, rows) \<Rightarrow>
                     (if \<not> hit then start_loop now clk workers due s
                      else (let sv1 = set_rows rows (ss_service s);
                                sv2 = launch clk (get_or (jb_id row) row sv1) sv1;
                                running = (case store_get (jb_id row) (sv_rows sv2) of
                                             None \<Rightarrow> False | Some r \<Rightarrow> jb_status r = Running)
                            in start_loop now clk workers due
                                 (s\<lparr>ss_held := (if running then ss_held s @ jb_exclusive row
                                               else filter (\<lambda>x. x \<notin> set (jb_exclusive row)) (ss_held s)),
                                    ss_count := (if running then ss_count s + 1 else ss_count s),
                                    ss_started := Suc (ss_started s),
                                    ss_service := sv2\<rparr>))))))"

definition busy_rows :: "service \<Rightarrow> job list" where
  "busy_rows sv =
     (let running = store_running (sv_rows sv)
      in running @ [r. jid \<leftarrow> dict_keys (sv_workers sv), jid \<notin> jb_id ` set running,
                       Some r \<leftarrow> [store_get jid (sv_rows sv)]])"

definition start_due :: "secs \<Rightarrow> (string \<Rightarrow> secs) \<Rightarrow> job_config \<Rightarrow> service \<Rightarrow> nat \<times> service" where
  "start_due now clk cfg sv =
     (let s = start_loop now clk (max_workers cfg) (store_due now (sv_rows sv))
                \<lparr>ss_held = concat (map jb_exclusive (busy_rows sv)), ss_count = int (length (busy_rows sv)),
                 ss_started = 0, ss_service = sv\<rparr>
      in (ss_started s, ss_service s))"

definition reap :: "(string \<Rightarrow> secs) \<Rightarrow> service \<Rightarrow> service" where
  "reap clk sv =
     (let finished = [(jid, box). (jid, Some box) \<leftarrow> sv_workers sv];
          sv1 = sv\<lparr>sv_workers := filter (\<lambda>(jid, w). w = None) (sv_workers sv)\<rparr>
      in foldl (\<lambda>s (jid, box). apply_outcome (clk jid) jid (boxed box) s) sv1 finished)"

definition overrun :: "secs \<Rightarrow> service \<Rightarrow> job \<Rightarrow> bool" where
  "overrun now sv row =
     (case jb_started row of
        None \<Rightarrow> False
      | Some t \<Rightarrow> now - t > (case kind_of sv (jb_kind row) of Some k \<Rightarrow> limit_s k (jb_spec row) | None \<Rightarrow> 3600))"

definition time_out :: "secs \<Rightarrow> service \<Rightarrow> job \<Rightarrow> service" where
  "time_out now sv row =
     (if \<not> overrun now sv row then sv
      else resolve_failed row TIMED_OUT_MSG now None True
             (hook_cancel (kind_of sv (jb_kind row)) (row\<lparr>jb_message := TIMED_OUT_MSG\<rparr>)
                (signal (jb_id row) sv)))"

definition timeouts :: "secs \<Rightarrow> service \<Rightarrow> service" where
  "timeouts now sv = foldl (time_out now) sv (store_running (sv_rows sv))"

definition lease_fresh :: "secs \<Rightarrow> job \<Rightarrow> bool" where
  "lease_fresh now row = (case jb_lease row of None \<Rightarrow> False | Some l \<Rightarrow> l - now > 2 * LEASE_S / 3)"

definition leases :: "secs \<Rightarrow> service \<Rightarrow> service" where
  "leases now sv =
     foldl (\<lambda>s row. if lease_fresh now row then s
                    else set_rows (snd (store_update (jb_id row) [Running]
                           (\<lambda>r. r\<lparr>jb_lease := Some (now + LEASE_S)\<rparr>) (sv_rows s))) s)
       sv (store_running (sv_rows sv))"

definition history_days :: "job_config \<Rightarrow> int" where
  "history_days cfg = max 1 (or_num (cf_history_days cfg) 30)"

definition sweep_daily :: "secs \<Rightarrow> job_config \<Rightarrow> service \<Rightarrow> service" where
  "sweep_daily now cfg sv =
     (if now - sv_last_sweep sv \<ge> SWEEP_EVERY_S
      then set_rows (snd (store_sweep (now - of_int (history_days cfg) * 86400) (sv_rows sv)))
             (sv\<lparr>sv_last_sweep := now\<rparr>)
      else sv)"

definition tick :: "secs \<Rightarrow> (string \<Rightarrow> secs) \<Rightarrow> job_config \<Rightarrow> service \<Rightarrow> nat \<times> service" where
  "tick now clk cfg sv =
     (case start_due now clk cfg (leases now (timeouts now (reap clk sv))) of
        (started, sv') \<Rightarrow> (started, sweep_daily now cfg sv'))"

definition set_requeued :: "secs \<Rightarrow> job \<Rightarrow> job" where
  "set_requeued now r =
     r\<lparr>jb_status := Queued, jb_next_run := Some now, jb_started := None, jb_lease := None,
       jb_message := RESTARTED_MSG\<rparr>"

definition recover_one :: "secs \<Rightarrow> service \<Rightarrow> job \<Rightarrow> service" where
  "recover_one now sv row =
     (case kind_of sv (jb_kind row) of
        Some k \<Rightarrow>
          (if ki_resume k = ''requeue''
           then set_rows (snd (store_update (jb_id row) [] (set_requeued now) (sv_rows sv))) sv
           else resolve_failed row RESTARTED_MSG now None True sv)
      | None \<Rightarrow> resolve_failed row ''kind not registered'' now None True sv)"

definition job_recover :: "secs \<Rightarrow> service \<Rightarrow> nat \<times> service" where
  "job_recover now sv =
     (length (store_running (sv_rows sv)), foldl (recover_one now) sv (store_running (sv_rows sv)))"

section \<open>HTTP routes\<close>

datatype job_response =
    R_Error int string
  | R_Job job_view
  | R_List "job_view list" job_summary nat "((string \<times> string) list \<times> string list) option"

definition who :: "string option \<Rightarrow> string \<Rightarrow> string option \<times> string" where
  "who role user = (role, if role = None \<or> role = Some [] then [] else user)"

record list_request =
  lr_status :: "string option"
  lr_limit :: "int option"   \<comment> \<open>\<open>None\<close>: absent or not a number\<close>
  lr_offset :: "int option"
  lr_kind :: "string option"
  lr_user :: "string option"
  lr_facets :: bool

definition none_if_empty :: "string option \<Rightarrow> string option" where
  "none_if_empty x = (if or_list x [] = [] then None else x)"

definition jobs_list ::
  "(secs \<Rightarrow> string) \<Rightarrow> secs \<Rightarrow> string option \<Rightarrow> string \<Rightarrow> list_request \<Rightarrow> service \<Rightarrow> job_response" where
  "jobs_list fmt now role user rq sv =
     (if role = None then R_Error 401 ''unauthorized''
      else (let status = py_strip (or_list (lr_status rq) ''live'');
                kind = none_if_empty (lr_kind rq);
                w = none_if_empty (lr_user rq)
            in if status \<notin> set ([''live'', ''all''] @ STATUSES) then R_Error 400 ''bad status''
               else R_List
                      (map (\<lambda>r. view fmt sv r role (Some (snd (who role user))) False)
                         (list_jobs status kind w None None (or_num (lr_limit rq) 50) (or_num (lr_offset rq) 0) sv))
                      (store_summary now (sv_rows sv))
                      (count_jobs status kind w sv)
                      (if lr_facets rq
                       then Some (map (\<lambda>k. (ki_name k, ki_title k)) (dict_values (sv_kinds sv)),
                                  store_users (sv_rows sv))
                       else None)))"

definition jobs_get ::
  "(secs \<Rightarrow> string) \<Rightarrow> string option \<Rightarrow> string \<Rightarrow> string \<Rightarrow> service \<Rightarrow> job_response" where
  "jobs_get fmt role user jid sv =
     (if role = None then R_Error 401 ''unauthorized''
      else (case store_get (take 32 jid) (sv_rows sv) of
              None \<Rightarrow> R_Error 404 ''not found''
            | Some r \<Rightarrow> R_Job (view fmt sv r role (Some (snd (who role user))) True)))"

record submit_request =
  sq_kind :: string
  sq_spec :: json_obj
  sq_label :: "string option"
  sq_numbers :: "(secs option \<times> secs option \<times> int option) option"
    \<comment> \<open>\<^verbatim>\<open>not_before\<close>, \<^verbatim>\<open>period_s\<close>, \<^verbatim>\<open>runs_left\<close>; \<open>None\<close> when one of them is no number\<close>

definition jobs_submit ::
  "(secs \<Rightarrow> string) \<Rightarrow> string \<Rightarrow> secs \<Rightarrow> string option \<Rightarrow> string \<Rightarrow> submit_request \<Rightarrow> service \<Rightarrow>
   job_response \<times> service" where
  "jobs_submit fmt new_id now role user rq sv =
     (case role of
        None \<Rightarrow> (R_Error 401 ''unauthorized'', sv)
      | Some ro \<Rightarrow>
          (if ro \<notin> {''operator'', ''admin''} then (R_Error 403 ''operator role required'', sv)
           else (case kind_of sv (sq_kind rq) of
                   None \<Rightarrow> (R_Error 404 ''unknown kind'', sv)
                 | Some k \<Rightarrow>
                     (if \<not> ki_api k then (R_Error 409 ''kind not submittable'', sv)
                      else (case sq_numbers rq of
                              None \<Rightarrow> (R_Error 400 ''not_before, period_s and runs_left must be numbers'', sv)
                            | Some (nb, period, left) \<Rightarrow>
                                (case submit new_id now
                                        \<lparr>sm_kind = ki_name k, sm_spec = sq_spec rq, sm_user = user, sm_role = ro,
                                         sm_source = ''api'', sm_label = none_if_empty (sq_label rq),
                                         sm_not_before = nb, sm_period = period, sm_runs_left = left,
                                         sm_thread = None\<rparr> sv of
                                   Inl Unknown_Kind \<Rightarrow> (R_Error 404 ''unknown kind'', sv)
                                 | Inl (Invalid_Spec m) \<Rightarrow> (R_Error 400 m, sv)
                                 | Inr (row, sv') \<Rightarrow> (R_Job (view fmt sv' row role (Some user) False), sv')))))))"

definition jobs_cancel ::
  "(secs \<Rightarrow> string) \<Rightarrow> secs \<Rightarrow> string option \<Rightarrow> string \<Rightarrow> string \<Rightarrow> service \<Rightarrow> job_response \<times> service" where
  "jobs_cancel fmt now role user jid sv =
     (if role = None then (R_Error 401 ''unauthorized'', sv)
      else (let u = snd (who role user)
            in case store_get (take 32 jid) (sv_rows sv) of
                 None \<Rightarrow> (R_Error 404 ''not found'', sv)
               | Some row \<Rightarrow>
                   (if \<not> vw_can_cancel (view fmt sv row role (Some u) False)
                    then (if jb_status row \<notin> set LIVE
                          then (R_Error 409 (''job is '' @ job_status_name (jb_status row)), sv)
                          else (R_Error 403 ''not your job'', sv))
                    else (case cancel now (jb_id row) u CANCELLED_MSG sv of
                            (None, sv') \<Rightarrow> (R_Error 409 (''job is '' @ job_status_name (jb_status row)), sv')
                          | (Some out, sv') \<Rightarrow> (R_Job (view fmt sv' out role (Some u) False), sv')))))"

definition jobs_ack ::
  "(secs \<Rightarrow> string) \<Rightarrow> secs \<Rightarrow> string option \<Rightarrow> string \<Rightarrow> string \<Rightarrow> service \<Rightarrow> job_response \<times> service" where
  "jobs_ack fmt now role user jid sv =
     (if role = None then (R_Error 401 ''unauthorized'', sv)
      else (let u = snd (who role user)
            in case store_get (take 32 jid) (sv_rows sv) of
                 None \<Rightarrow> (R_Error 404 ''not found'', sv)
               | Some row \<Rightarrow>
                   (let v = view fmt sv row role (Some u) False
                    in if \<not> vw_can_ack v
                       then (if jb_status row \<noteq> Failed
                             then (R_Error 409 (''job is '' @ job_status_name (jb_status row)), sv)
                             else if vw_acked v then (R_Error 409 ''already acknowledged'', sv)
                             else (R_Error 403 ''not your job'', sv))
                       else (case ack now (jb_id row) u sv of
                               (None, sv') \<Rightarrow> (R_Error 409 ''already acknowledged'', sv')
                             | (Some out, sv') \<Rightarrow> (R_Job (view fmt sv' out role (Some u) False), sv')))))"

end
