(* ===== verification/JobProps.thy ===== *)
theory JobProps
  imports JobService
begin

text \<open>
  Properties of the job service: the life cycle of a row, mutual exclusion and the worker limit of the
  dispatcher, exactly one \<^verbatim>\<open>on_finish\<close> per job, periodic runs, time-outs, leases and the permissions of
  the routes. The service is driven by events (\<open>job_event\<close>) in any order; one event is one critical
  section or one phase of a dispatcher tick.
\<close>

section \<open>Events\<close>

datatype job_event =
    Ev_Submit string secs submission
  | Ev_Annotate string string
  | Ev_Set_State string json_obj
  | Ev_Cancel secs string string string
  | Ev_Cancel_Where secs string "string option" json_obj string string
  | Ev_Ack secs string string
  | Ev_Worker_Done string "job_outcome option"
  | Ev_Reap "string \<Rightarrow> secs"
  | Ev_Timeouts secs
  | Ev_Leases secs
  | Ev_Start_Due secs "string \<Rightarrow> secs"
  | Ev_Sweep secs
  | Ev_Restart secs

text \<open>The ids drawn so far, with the service; a drawn id is never drawn again (\<^verbatim>\<open>uuid4\<close>).\<close>

type_synonym ledger_state = "string list \<times> service"

definition restart :: "secs \<Rightarrow> service \<Rightarrow> service" where
  "restart now sv = snd (job_recover now (sv\<lparr>sv_workers := [], sv_cancel := [], sv_last_sweep := 0\<rparr>))"

definition worker_done :: "string \<Rightarrow> job_outcome option \<Rightarrow> service \<Rightarrow> service" where
  "worker_done jid box sv =
     (if dict_get (sv_workers sv) jid = None then sv
      else sv\<lparr>sv_workers := dict_set jid (Some box) (sv_workers sv)\<rparr>)"

fun job_step :: "job_config \<Rightarrow> job_event \<Rightarrow> ledger_state \<Rightarrow> ledger_state" where
  "job_step cfg (Ev_Submit jid now sm) (used, sv) =
     (if jid \<in> set used then (used, sv)
      else (case submit jid now sm sv of Inl _ \<Rightarrow> (used, sv) | Inr (row, sv') \<Rightarrow> (jid # used, sv')))"
| "job_step cfg (Ev_Annotate jid msg) (used, sv) = (used, snd (annotate jid msg sv))"
| "job_step cfg (Ev_Set_State jid st) (used, sv) = (used, snd (set_state jid st sv))"
| "job_step cfg (Ev_Cancel now jid actor msg) (used, sv) = (used, snd (cancel now jid actor msg sv))"
| "job_step cfg (Ev_Cancel_Where now kind thread m msg actor) (used, sv) =
     (used, snd (cancel_where now kind thread m msg actor sv))"
| "job_step cfg (Ev_Ack now jid actor) (used, sv) = (used, snd (ack now jid actor sv))"
| "job_step cfg (Ev_Worker_Done jid box) (used, sv) = (used, worker_done jid box sv)"
| "job_step cfg (Ev_Reap clk) (used, sv) = (used, reap clk sv)"
| "job_step cfg (Ev_Timeouts now) (used, sv) = (used, timeouts now sv)"
| "job_step cfg (Ev_Leases now) (used, sv) = (used, leases now sv)"
| "job_step cfg (Ev_Start_Due now clk) (used, sv) = (used, snd (start_due now clk cfg sv))"
| "job_step cfg (Ev_Sweep now) (used, sv) = (used, sweep_daily now cfg sv)"
| "job_step cfg (Ev_Restart now) (used, sv) = (used, restart now sv)"

section \<open>Rows keep their identity\<close>

definition terminal :: "job \<Rightarrow> bool" where
  "terminal r \<longleftrightarrow> jb_status r \<in> {Done, Failed, Cancelled}"

lemma terminal_iff: "terminal r \<longleftrightarrow> jb_status r \<notin> set LIVE"
  by (cases "jb_status r") (auto simp: terminal_def LIVE_def)

definition same_job :: "job \<Rightarrow> job \<Rightarrow> bool" where
  "same_job r r' \<longleftrightarrow> jb_id r' = jb_id r \<and> jb_kind r' = jb_kind r \<and> jb_exclusive r' = jb_exclusive r \<and>
     jb_created r' = jb_created r \<and> jb_spec r' = jb_spec r"

text \<open>
  \<open>calm W r r'\<close>: what an operation other than the start of a job may do to a row, \<open>W\<close> being the jobs
  with a live worker: ended rows keep their status, nothing starts, and a row goes back to the queue
  only from running and without a worker.
\<close>

definition calm :: "string set \<Rightarrow> job \<Rightarrow> job \<Rightarrow> bool" where
  "calm W r r' \<longleftrightarrow> same_job r r' \<and> (terminal r \<longrightarrow> jb_status r' = jb_status r) \<and>
     (jb_status r' = Running \<longrightarrow> jb_status r = Running) \<and>
     (jb_status r' = Queued \<longrightarrow> jb_status r = Queued \<or> (jb_status r = Running \<and> jb_id r \<notin> W))"

lemma calm_refl [simp]: "calm W r r"
  by (simp add: calm_def same_job_def)

lemma same_job_trans: "same_job a b \<Longrightarrow> same_job b c \<Longrightarrow> same_job a c"
  by (simp add: same_job_def)

lemma calm_trans: "calm W a b \<Longrightarrow> calm W b c \<Longrightarrow> calm W a c"
proof -
  assume ab: "calm W a b" and bc: "calm W b c"
  have id: "jb_id b = jb_id a" using ab by (simp add: calm_def same_job_def)
  have "same_job a c" using ab bc unfolding calm_def by (blast intro: same_job_trans)
  moreover have "jb_status c = jb_status a" if "terminal a"
  proof -
    have "jb_status b = jb_status a" using that ab by (simp only: calm_def)
    moreover from this have "terminal b" using that by (simp only: terminal_def)
    ultimately show ?thesis using bc by (simp only: calm_def)
  qed
  moreover have "jb_status a = Running" if "jb_status c = Running"
    using that ab bc by (simp only: calm_def)
  moreover have "jb_status a = Queued \<or> (jb_status a = Running \<and> jb_id a \<notin> W)" if "jb_status c = Queued"
  proof -
    have "jb_status b = Queued \<or> (jb_status b = Running \<and> jb_id a \<notin> W)"
      using that bc id by (simp only: calm_def)
    then show ?thesis using ab by (simp only: calm_def) blast
  qed
  ultimately show "calm W a c" unfolding calm_def by blast
qed

lemma calm_mono: "calm W r r' \<Longrightarrow> V \<subseteq> W \<Longrightarrow> calm V r r'"
  unfolding calm_def by blast

text \<open>\<open>keeps\<close> is what every operation, the start of a job included, does to a row.\<close>

definition keeps :: "job \<Rightarrow> job \<Rightarrow> bool" where
  "keeps r r' \<longleftrightarrow> same_job r r' \<and> (terminal r \<longrightarrow> jb_status r' = jb_status r)"

lemma keeps_refl [simp]: "keeps r r"
  by (simp add: keeps_def same_job_def)

lemma keeps_trans: "keeps a b \<Longrightarrow> keeps b c \<Longrightarrow> keeps a c"
proof -
  assume ab: "keeps a b" and bc: "keeps b c"
  have "same_job a c" using ab bc unfolding keeps_def by (blast intro: same_job_trans)
  moreover have "jb_status c = jb_status a" if "terminal a"
  proof -
    have "jb_status b = jb_status a" using that ab by (simp only: keeps_def)
    moreover from this have "terminal b" using that by (simp only: terminal_def)
    ultimately show ?thesis using bc by (simp only: keeps_def)
  qed
  ultimately show "keeps a c" unfolding keeps_def by blast
qed

lemma calm_keeps: "calm W r r' \<Longrightarrow> keeps r r'"
  unfolding calm_def keeps_def by (elim conjE) (intro conjI)

lemma keeps_rows_trans: "list_all2 keeps a b \<Longrightarrow> list_all2 keeps b c \<Longrightarrow> list_all2 keeps a c"
  by (rule list_all2_trans [OF keeps_trans])

abbreviation calm_rows :: "string set \<Rightarrow> store \<Rightarrow> store \<Rightarrow> bool" where
  "calm_rows W \<equiv> list_all2 (calm W)"

lemma calm_rows_refl [simp]: "calm_rows W rows rows"
  by (simp add: list_all2_refl)

lemma calm_rows_trans: "calm_rows W a b \<Longrightarrow> calm_rows W b c \<Longrightarrow> calm_rows W a c"
  by (rule list_all2_trans [OF calm_trans])

lemma calm_rows_ids: "calm_rows W a b \<Longrightarrow> map jb_id b = map jb_id a"
  by (induction rule: list_all2_induct) (auto simp: calm_def same_job_def)

lemma calm_update:
  assumes "\<And>r. update_hit jid only r \<Longrightarrow> calm W r (f r)"
  shows "calm_rows W rows (snd (store_update jid only f rows))"
  using assms by (simp add: store_update_def list_all2_map2 list_all2_same)

lemma service_frames [simp]:
  "sv_rows (emit x sv) = sv_rows sv" "sv_workers (emit x sv) = sv_workers sv" "sv_kinds (emit x sv) = sv_kinds sv"
  "sv_rows (set_rows rows sv) = rows" "sv_workers (set_rows rows sv) = sv_workers sv"
  "sv_kinds (set_rows rows sv) = sv_kinds sv" "sv_effects (set_rows rows sv) = sv_effects sv"
  "sv_rows (hook_finish k r sv) = sv_rows sv" "sv_workers (hook_finish k r sv) = sv_workers sv"
  "sv_kinds (hook_finish k r sv) = sv_kinds sv"
  "sv_rows (hook_cancel k r sv) = sv_rows sv" "sv_workers (hook_cancel k r sv) = sv_workers sv"
  "sv_kinds (hook_cancel k r sv) = sv_kinds sv"
  "sv_rows (audit_log act r b actor sv) = sv_rows sv" "sv_workers (audit_log act r b actor sv) = sv_workers sv"
  "sv_kinds (audit_log act r b actor sv) = sv_kinds sv"
  "sv_rows (signal jid sv) = sv_rows sv" "sv_workers (signal jid sv) = sv_workers sv"
  "sv_kinds (signal jid sv) = sv_kinds sv" "sv_effects (signal jid sv) = sv_effects sv"
  "sv_rows (forget jid sv) = sv_rows sv" "sv_workers (forget jid sv) = sv_workers sv"
  "sv_kinds (forget jid sv) = sv_kinds sv" "sv_effects (forget jid sv) = sv_effects sv"
  by (simp_all add: emit_def set_rows_def hook_finish_def hook_cancel_def audit_log_def signal_def forget_def
      split: option.splits)

text \<open>An operation is quiet when it leaves kinds and workers alone and its rows are calm.\<close>

definition quiet :: "string set \<Rightarrow> service \<Rightarrow> service \<Rightarrow> bool" where
  "quiet W sv sv' \<longleftrightarrow> sv_kinds sv' = sv_kinds sv \<and> sv_workers sv' = sv_workers sv \<and>
     calm_rows W (sv_rows sv) (sv_rows sv')"

lemma quiet_refl [simp]: "quiet W sv sv"
  by (simp add: quiet_def)

lemma quiet_trans: "quiet W a b \<Longrightarrow> quiet W b c \<Longrightarrow> quiet W a c"
  by (auto simp: quiet_def intro: calm_rows_trans)

lemma quiet_foldl:
  assumes "\<And>s x. x \<in> set xs \<Longrightarrow> quiet W s (f s x)"
  shows "quiet W sv (foldl f sv xs)"
  using assms
proof (induction xs arbitrary: sv)
  case (Cons x xs)
  have "quiet W sv (f sv x)" using Cons.prems by simp
  moreover have "quiet W (f sv x) (foldl f (f sv x) xs)" using Cons by simp
  ultimately show ?case by (auto intro: quiet_trans)
qed simp

lemma quiet_foldl_snd:
  assumes "\<And>p x. quiet W (snd p) (snd (f p x))"
  shows "quiet W (snd p) (snd (foldl f p xs))"
proof (induction xs arbitrary: p)
  case (Cons x xs)
  show ?case using quiet_trans [OF assms [of p x] Cons.IH [of "f p x"]] by simp
qed simp

lemma quiet_annotate: "quiet W sv (snd (annotate jid msg sv))"
  using calm_update [of jid "[Cancelled, Failed, Done]" W "\<lambda>r. r\<lparr>jb_message := msg\<rparr>" "sv_rows sv"]
  by (simp add: annotate_def quiet_def split_beta calm_def same_job_def)

lemma quiet_set_state: "quiet W sv (snd (set_state jid st sv))"
  using calm_update [of jid LIVE W "\<lambda>r. r\<lparr>jb_state := st\<rparr>" "sv_rows sv"]
  by (simp add: set_state_def quiet_def split_beta calm_def same_job_def)

lemma quiet_ack: "quiet W sv (snd (ack now jid actor sv))"
  using calm_update [of jid "[Failed]" W "\<lambda>r. r\<lparr>jb_acked := Some now\<rparr>" "sv_rows sv"]
  by (auto simp: ack_def quiet_def split_beta calm_def same_job_def Let_def split: option.splits)

lemma calm_cancelled: "update_hit jid LIVE r \<Longrightarrow> calm W r (set_cancelled now msg r)"
  by (auto simp: update_hit_def calm_def same_job_def set_cancelled_def terminal_def LIVE_def)

lemma quiet_cancel: "quiet W sv (snd (cancel now jid actor msg sv))"
  using calm_update [of jid LIVE W "set_cancelled now msg" "sv_rows sv", OF calm_cancelled]
  by (auto simp: cancel_def quiet_def split_beta Let_def split: option.splits)

lemma quiet_cancel_where: "quiet W sv (snd (cancel_where now kind thread m msg actor sv))"
proof -
  let ?f = "\<lambda>(n, s) row. if m \<noteq> [] \<and> spec_differs m row then (n, s)
              else (case cancel now (jb_id row) actor msg s of
                      (None, s') \<Rightarrow> (n, s') | (Some _, s') \<Rightarrow> (Suc n, s'))"
  have step: "quiet W (snd p) (snd (?f p row))" for p row
    using quiet_cancel [of W "snd p" now "jb_id row" actor msg]
    by (auto split: prod.splits option.splits)
  from quiet_foldl_snd [of W ?f "(0, sv)", OF step] show ?thesis
    by (simp only: cancel_where_def snd_conv)
qed

lemma calm_failed: "update_hit jid [Running] r \<Longrightarrow> calm W r (set_failed now msg a st r)"
  by (auto simp: update_hit_def calm_def same_job_def set_failed_def terminal_def)

lemma quiet_resolve_failed: "quiet W sv (resolve_failed row msg now a al sv)"
  using calm_update [of "jb_id row" "[Running]" W "set_failed now msg a (jb_state row)" "sv_rows sv", OF calm_failed]
  by (auto simp: resolve_failed_def quiet_def split_beta Let_def)

lemma calm_outcome:
  "update_hit jid [Running] r \<Longrightarrow> jid \<notin> W \<Longrightarrow> calm W r (outcome_fields now row oc r)"
  by (auto simp: update_hit_def calm_def same_job_def outcome_fields_def common_fields_def terminal_def Let_def
      split: verb.splits)

lemma quiet_forget [simp]: "quiet W sv (forget jid sv)"
  by (simp add: quiet_def)

lemma quiet_apply_row: "jb_id row \<notin> W \<Longrightarrow> quiet W sv (apply_row now row oc sv)"
  using calm_update [of "jb_id row" "[Running]" W "outcome_fields now row oc" "sv_rows sv", OF calm_outcome]
    quiet_trans [OF quiet_forget quiet_resolve_failed]
  by (auto simp: apply_row_def quiet_def split_beta Let_def)

lemma store_get_SomeD: "store_get jid rows = Some r \<Longrightarrow> r \<in> set rows \<and> jb_id r = jid"
  by (auto simp: store_get_def find_Some_iff)

lemma quiet_apply: "jid \<notin> W \<Longrightarrow> quiet W sv (apply_outcome now jid oc sv)"
  by (auto simp: apply_outcome_def split: option.splits dest: store_get_SomeD intro: quiet_apply_row)

lemma quiet_time_out: "quiet W sv (time_out now sv row)"
proof -
  have "quiet W sv (hook_cancel k r (signal jid sv))" for k r jid by (simp add: quiet_def)
  from quiet_trans [OF this quiet_resolve_failed] show ?thesis by (simp add: time_out_def)
qed

lemma quiet_timeouts: "quiet W sv (timeouts now sv)"
  unfolding timeouts_def by (rule quiet_foldl) (rule quiet_time_out)

lemma quiet_leases: "quiet W sv (leases now sv)"
  unfolding leases_def
proof (rule quiet_foldl)
  fix s row
  show "quiet W s (if lease_fresh now row then s
     else set_rows (snd (store_update (jb_id row) [Running] (\<lambda>r. r\<lparr>jb_lease := Some (now + LEASE_S)\<rparr>) (sv_rows s))) s)"
    using calm_update [of "jb_id row" "[Running]" W "\<lambda>r. r\<lparr>jb_lease := Some (now + LEASE_S)\<rparr>" "sv_rows s"]
    by (simp add: quiet_def calm_def same_job_def)
qed

section \<open>The invariant of the dispatcher\<close>

abbreviation worker_ids :: "service \<Rightarrow> string set" where
  "worker_ids sv \<equiv> set (dict_keys (sv_workers sv))"

text \<open>A row is active while it is running or its worker thread is still there.\<close>

definition active :: "service \<Rightarrow> job \<Rightarrow> bool" where
  "active sv r \<longleftrightarrow> jb_status r = Running \<or> jb_id r \<in> worker_ids sv"

definition exclusion :: "service \<Rightarrow> bool" where
  "exclusion sv \<longleftrightarrow>
     (\<forall>r \<in> set (sv_rows sv). \<forall>r' \<in> set (sv_rows sv). active sv r \<and> active sv r' \<and> jb_id r \<noteq> jb_id r' \<longrightarrow>
        set (jb_exclusive r) \<inter> set (jb_exclusive r') = {})"

definition active_count :: "service \<Rightarrow> nat" where
  "active_count sv = length (filter (active sv) (sv_rows sv))"

definition store_wf :: "ledger_state \<Rightarrow> bool" where
  "store_wf us = (case us of (used, sv) \<Rightarrow>
     distinct (map jb_id (sv_rows sv)) \<and> jb_id ` set (sv_rows sv) \<subseteq> set used \<and> dict_ok (sv_workers sv) \<and>
     worker_ids sv \<subseteq> set used \<and> (\<forall>r \<in> set (sv_rows sv). jb_id r \<in> worker_ids sv \<longrightarrow> jb_status r \<noteq> Queued))"

definition job_inv :: "job_config \<Rightarrow> ledger_state \<Rightarrow> bool" where
  "job_inv cfg us \<longleftrightarrow>
     store_wf us \<and> exclusion (snd us) \<and> int (active_count (snd us)) \<le> max_workers cfg"

text \<open>A manager process after boot: recovered rows, no worker yet.\<close>

definition booted :: "ledger_state \<Rightarrow> bool" where
  "booted us = (case us of (used, sv) \<Rightarrow>
     distinct (map jb_id (sv_rows sv)) \<and> jb_id ` set (sv_rows sv) \<subseteq> set used \<and> sv_workers sv = [] \<and>
     (\<forall>r \<in> set (sv_rows sv). jb_status r \<noteq> Running))"

lemma job_inv_boot: "booted us \<Longrightarrow> job_inv cfg us"
  by (auto simp: booted_def job_inv_def store_wf_def exclusion_def active_count_def active_def max_workers_def
      split: prod.splits)

lemma calm_rows_preimage: "calm_rows W a b \<Longrightarrow> r' \<in> set b \<Longrightarrow> \<exists>r \<in> set a. calm W r r'"
  by (induction rule: list_all2_induct) auto

lemma list_all2_filter_length:
  "list_all2 P xs ys \<Longrightarrow> (\<And>x y. x \<in> set xs \<Longrightarrow> P x y \<Longrightarrow> Q y \<Longrightarrow> R x) \<Longrightarrow>
     length (filter Q ys) \<le> length (filter R xs)"
proof (induction rule: list_all2_induct)
  case (Cons x xs y ys)
  have "length (filter Q ys) \<le> length (filter R xs)" using Cons by auto
  moreover have "Q y \<Longrightarrow> R x" using Cons by auto
  ultimately show ?case by auto
qed simp

lemma list_all2_filter_length2:
  "list_all2 P xs ys \<Longrightarrow> (\<And>x y. y \<in> set ys \<Longrightarrow> P x y \<Longrightarrow> Q y \<Longrightarrow> R x) \<Longrightarrow>
     length (filter Q ys) \<le> length (filter R xs)"
proof (induction rule: list_all2_induct)
  case (Cons x xs y ys)
  have "length (filter Q ys) \<le> length (filter R xs)" using Cons by auto
  moreover have "Q y \<Longrightarrow> R x" using Cons by auto
  ultimately show ?case by auto
qed simp

lemma filter_length_mono: "(\<And>x. P x \<Longrightarrow> Q x) \<Longrightarrow> length (filter P xs) \<le> length (filter Q xs)"
  by (induction xs) (auto simp: le_SucI)

lemma filter_filter_length: "length (filter P (filter Q xs)) \<le> length (filter P xs)"
  by (induction xs) auto

lemma filter_or_length:
  "length (filter (\<lambda>x. P x \<or> Q x) xs) \<le> length (filter P xs) + length (filter Q xs)"
  by (induction xs) auto

lemma distinct_key_filter: "distinct (map f xs) \<Longrightarrow> length (filter (\<lambda>x. f x = k) xs) \<le> 1"
proof (induction xs)
  case (Cons x xs)
  have "filter (\<lambda>y. f y = k) xs = []" if "f x = k"
    using Cons.prems that by (auto simp: filter_empty_conv) (metis imageI)
  with Cons show ?case by auto
qed simp

text \<open>Calm rows and no new workers: everything that was excluded stays excluded.\<close>

lemma calm_active:
  assumes "calm W r r'" "active sv' r'" "worker_ids sv' \<subseteq> worker_ids sv"
  shows "active sv r"
  using assms unfolding active_def calm_def same_job_def by auto

lemma inv_shrink:
  assumes "job_inv cfg (used, sv)" "calm_rows (worker_ids sv') (sv_rows sv) (sv_rows sv')"
    and "dict_ok (sv_workers sv')" "worker_ids sv' \<subseteq> worker_ids sv"
  shows "job_inv cfg (used, sv')"
proof -
  let ?W = "worker_ids sv'"
  note pre = calm_rows_preimage [OF assms(2)]
  have ids: "map jb_id (sv_rows sv') = map jb_id (sv_rows sv)" by (rule calm_rows_ids [OF assms(2)])
  then have ids': "jb_id ` set (sv_rows sv') = jb_id ` set (sv_rows sv)" by (metis set_map)
  have wq: "jb_status r' \<noteq> Queued" if mem: "r' \<in> set (sv_rows sv')" and wk: "jb_id r' \<in> ?W" for r'
  proof -
    obtain r where r: "r \<in> set (sv_rows sv)" "calm ?W r r'" using pre [OF mem] by blast
    have id: "jb_id r = jb_id r'" using r(2) by (simp add: calm_def same_job_def)
    with wk assms(4) have "jb_id r \<in> worker_ids sv" by (metis subsetD)
    then have "jb_status r \<noteq> Queued" using assms(1) r(1) by (simp add: job_inv_def store_wf_def)
    then show ?thesis using r(2) wk unfolding calm_def id by blast
  qed
  have "exclusion sv'"
    unfolding exclusion_def
  proof (intro ballI impI)
    fix r' q' assume rq: "r' \<in> set (sv_rows sv')" "q' \<in> set (sv_rows sv')"
      "active sv' r' \<and> active sv' q' \<and> jb_id r' \<noteq> jb_id q'"
    obtain r where r: "r \<in> set (sv_rows sv)" "calm ?W r r'" using pre [OF rq(1)] by blast
    obtain q where q: "q \<in> set (sv_rows sv)" "calm ?W q q'" using pre [OF rq(2)] by blast
    have "active sv r" "active sv q" using calm_active [OF _ _ assms(4)] r q rq(3) by blast+
    moreover have "jb_id r \<noteq> jb_id q" using rq(3) r(2) q(2) by (simp add: calm_def same_job_def)
    ultimately have "set (jb_exclusive r) \<inter> set (jb_exclusive q) = {}"
      using assms(1) r(1) q(1) by (auto simp: job_inv_def exclusion_def)
    then show "set (jb_exclusive r') \<inter> set (jb_exclusive q') = {}"
      using r(2) q(2) by (simp add: calm_def same_job_def)
  qed
  moreover have "active_count sv' \<le> active_count sv"
    unfolding active_count_def using assms(2) by (rule list_all2_filter_length) (rule calm_active [OF _ _ assms(4)])
  moreover have "worker_ids sv' \<subseteq> set used"
  proof -
    have "worker_ids sv \<subseteq> set used" using assms(1) by (simp add: job_inv_def store_wf_def)
    with assms(4) show ?thesis by (rule order_trans)
  qed
  ultimately show ?thesis
    using assms(1,3) ids ids' wq by (simp add: job_inv_def store_wf_def)
qed

lemma inv_quiet:
  assumes "job_inv cfg (used, sv)" "quiet (worker_ids sv) sv sv'"
  shows "job_inv cfg (used, sv')"
  using assms by (intro inv_shrink [OF assms(1)]) (auto simp: quiet_def job_inv_def store_wf_def)

lemma inv_reap:
  assumes "job_inv cfg (used, sv)"
  shows "job_inv cfg (used, reap clk sv)"
proof -
  define alive where "alive = filter (\<lambda>(jid, w). w = None) (sv_workers sv)"
  define sv1 where "sv1 = sv\<lparr>sv_workers := alive\<rparr>"
  define fin where "fin = [(jid, box). (jid, Some box) \<leftarrow> sv_workers sv]"
  have ok: "dict_ok (sv_workers sv)" using assms by (simp add: job_inv_def store_wf_def)
  have "dict_ok alive" using ok by (simp add: alive_def distinct_map_filter)
  then have "job_inv cfg (used, sv1)"
    by (intro inv_shrink [OF assms]) (auto simp: sv1_def alive_def)
  moreover have "jid \<notin> worker_ids sv1" if "(jid, box) \<in> set fin" for jid box
  proof
    assume "jid \<in> worker_ids sv1"
    then have "(jid, None) \<in> set (sv_workers sv)" by (auto simp: sv1_def alive_def)
    moreover have "(jid, Some box) \<in> set (sv_workers sv)" using that by (auto simp: fin_def split: option.splits)
    ultimately show False using ok by (metis eq_key_imp_eq_value option.distinct(1))
  qed
  then have "quiet (worker_ids sv1) sv1 (foldl (\<lambda>s (jid, box). apply_outcome (clk jid) jid (boxed box) s) sv1 fin)"
    by (intro quiet_foldl) (auto intro: quiet_apply)
  ultimately show ?thesis
    unfolding reap_def Let_def fin_def [symmetric] alive_def [symmetric] sv1_def [symmetric] by (rule inv_quiet)
qed

lemma inv_worker_done:
  assumes "job_inv cfg (used, sv)"
  shows "job_inv cfg (used, worker_done jid box sv)"
proof (cases "dict_get (sv_workers sv) jid")
  case None
  with assms show ?thesis by (simp add: worker_done_def)
next
  case (Some w)
  then have "jid \<in> worker_ids sv" by (force dest: map_of_SomeD)
  then have "worker_ids (worker_done jid box sv) = worker_ids sv"
    using Some by (simp add: worker_done_def dict_keys_set)
  then show ?thesis
    using assms Some by (intro inv_shrink [OF assms]) (auto simp: worker_done_def job_inv_def store_wf_def intro: dict_ok_set)
qed

text \<open>A guarded update leaves the rows of other jobs alone.\<close>

definition touches :: "string \<Rightarrow> store \<Rightarrow> store \<Rightarrow> bool" where
  "touches jid rows rows' \<longleftrightarrow> list_all2 (\<lambda>r r'. jb_id r' = jb_id r \<and> (jb_id r \<noteq> jid \<longrightarrow> r' = r)) rows rows'"

lemma touches_refl [simp]: "touches jid rows rows"
  by (simp add: touches_def list_all2_refl)

lemma touches_update:
  assumes "\<And>r. jb_id (f r) = jb_id r"
  shows "touches jid rows (snd (store_update jid only f rows))"
  using assms by (auto simp: touches_def store_update_def update_hit_def list_all2_map2 list_all2_same)

lemma touches_other:
  "touches jid rows rows' \<Longrightarrow> r' \<in> set rows' \<Longrightarrow> jb_id r' \<noteq> jid \<Longrightarrow> r' \<in> set rows"
  unfolding touches_def by (induction rule: list_all2_induct) auto

lemma touches_resolve_failed: "touches (jb_id row) (sv_rows sv) (sv_rows (resolve_failed row msg now a al sv))"
  using touches_update [of "set_failed now msg a (jb_state row)" "jb_id row" "sv_rows sv" "[Running]"]
  by (simp add: resolve_failed_def Let_def split_beta set_failed_def)

lemma touches_recover_one: "touches (jb_id row) (sv_rows sv) (sv_rows (recover_one now sv row))"
  using touches_update [of "set_requeued now" "jb_id row" "sv_rows sv" "[]"]
  by (simp add: recover_one_def touches_resolve_failed set_requeued_def split: option.splits)

lemma quiet_recover_one:
  assumes "\<And>r. r \<in> set (sv_rows sv) \<Longrightarrow> jb_id r = jb_id row \<Longrightarrow> jb_status r = Running"
  shows "quiet {} sv (recover_one now sv row)"
proof -
  have "calm_rows {} (sv_rows sv) (snd (store_update (jb_id row) [] (set_requeued now) (sv_rows sv)))"
    unfolding store_update_def snd_conv list_all2_map2 list_all2_same
  proof (intro ballI)
    fix r assume r: "r \<in> set (sv_rows sv)"
    show "calm {} r (if update_hit (jb_id row) [] r then set_requeued now r else r)"
    proof (cases "jb_id r = jb_id row")
      case True
      have "jb_status r = Running" using r True by (rule assms)
      then have "calm {} r (set_requeued now r)"
        by (simp add: calm_def same_job_def set_requeued_def terminal_def)
      then show ?thesis by simp
    next
      case False
      then show ?thesis by (simp add: update_hit_def)
    qed
  qed
  then have "quiet {} sv (set_rows (snd (store_update (jb_id row) [] (set_requeued now) (sv_rows sv))) sv)"
    by (simp add: quiet_def)
  then show ?thesis
    by (cases "kind_of sv (jb_kind row)") (simp_all add: recover_one_def quiet_resolve_failed)
qed

lemma quiet_recover_fold:
  assumes "distinct (map jb_id xs)"
    and "\<And>row r. row \<in> set xs \<Longrightarrow> r \<in> set (sv_rows sv) \<Longrightarrow> jb_id r = jb_id row \<Longrightarrow> jb_status r = Running"
  shows "quiet {} sv (foldl (recover_one now) sv xs)"
  using assms
proof (induction xs arbitrary: sv)
  case (Cons x xs)
  have 1: "quiet {} sv (recover_one now sv x)" 
    by (rule quiet_recover_one) (rule Cons.prems(2) [of x], simp_all)
  have "quiet {} (recover_one now sv x) (foldl (recover_one now) (recover_one now sv x) xs)"
  proof (rule Cons.IH)
    fix row r assume *: "row \<in> set xs" "r \<in> set (sv_rows (recover_one now sv x))" "jb_id r = jb_id row"
    then have "jb_id r \<noteq> jb_id x" using Cons.prems(1) by force
    then have "r \<in> set (sv_rows sv)" using touches_other [OF touches_recover_one] * by blast
    then show "jb_status r = Running" using *(1,3) by (intro Cons.prems(2) [of row r]) simp_all
  qed (use Cons.prems in simp)
  with 1 show ?case by (auto intro: quiet_trans)
qed simp

lemma store_running_set [simp]: "set (store_running rows) = {r \<in> set rows. jb_status r = Running}"
  by (auto simp: store_running_def)

lemma distinct_ids_running: "distinct (map jb_id rows) \<Longrightarrow> distinct (map jb_id (store_running rows))"
proof -
  assume "distinct (map jb_id rows)"
  then have "distinct (map jb_id (filter (\<lambda>r. jb_status r = Running) rows))" by (simp add: distinct_map_filter)
  moreover have "mset (map jb_id (store_running rows)) = mset (map jb_id (filter (\<lambda>r. jb_status r = Running) rows))"
    by (simp add: store_running_def)
  ultimately show ?thesis using mset_eq_imp_distinct_iff by blast
qed

lemma unique_row: "distinct (map jb_id rows) \<Longrightarrow> r \<in> set rows \<Longrightarrow> q \<in> set rows \<Longrightarrow> jb_id r = jb_id q \<Longrightarrow> r = q"
  by (simp add: distinct_map inj_on_def)

lemma inv_restart:
  assumes "job_inv cfg (used, sv)"
  shows "job_inv cfg (used, restart now sv)"
proof -
  define sv1 where "sv1 = sv\<lparr>sv_workers := [], sv_cancel := [], sv_last_sweep := 0\<rparr>"
  have inv1: "job_inv cfg (used, sv1)"
    by (rule inv_shrink [OF assms]) (simp_all add: sv1_def)
  have dist: "distinct (map jb_id (sv_rows sv1))" using assms by (simp add: job_inv_def store_wf_def sv1_def)
  have "quiet {} sv1 (foldl (recover_one now) sv1 (store_running (sv_rows sv1)))"
    using distinct_ids_running [OF dist] by (rule quiet_recover_fold) (auto dest: unique_row [OF dist])
  then have "quiet (worker_ids sv1) sv1 (restart now sv)"
    by (simp add: restart_def job_recover_def sv1_def)
  with inv1 show ?thesis by (rule inv_quiet)
qed

lemma inv_sweep:
  assumes "job_inv cfg (used, sv)"
  shows "job_inv cfg (used, sweep_daily now cfg' sv)"
proof -
  have "job_inv cfg (used, sv')"
    if sv': "sv_rows sv' = filter P (sv_rows sv)" "sv_workers sv' = sv_workers sv" for sv' P
  proof -
    have act: "active sv' = active sv" by (simp add: active_def fun_eq_iff sv')
    have "active_count sv' \<le> active_count sv"
      unfolding active_count_def act sv' by (rule filter_filter_length)
    then show ?thesis
      using assms by (auto simp: job_inv_def store_wf_def exclusion_def act sv' distinct_map_filter)
  qed
  from this [of "sweep_daily now cfg' sv"] assms show ?thesis
    by (cases "now - sv_last_sweep sv \<ge> SWEEP_EVERY_S") (auto simp: sweep_daily_def store_sweep_def set_rows_def)
qed

section \<open>Starting jobs keeps the invariant\<close>

lemma store_get_unique:
  assumes "distinct (map jb_id rows)" "r \<in> set rows"
  shows "store_get (jb_id r) rows = Some r"
proof -
  have "find (\<lambda>q. jb_id q = jb_id r) rows \<noteq> None" using assms(2) by (auto simp: find_None_iff)
  then obtain q where q: "store_get (jb_id r) rows = Some q" by (auto simp: store_get_def)
  with assms show ?thesis using store_get_SomeD [OF q] unique_row by blast
qed

text \<open>
  The state of the start loop: the keys of the active rows are held, at least as many are counted as are
  active, and the rows still to be looked at are rows of the store.
\<close>

definition loop_ok :: "job_config \<Rightarrow> string list \<Rightarrow> store \<Rightarrow> job list \<Rightarrow> start_state \<Rightarrow> bool" where
  "loop_ok cfg used base due s \<longleftrightarrow>
     job_inv cfg (used, ss_service s) \<and> list_all2 keeps base (sv_rows (ss_service s)) \<and>
     (\<forall>r \<in> set (sv_rows (ss_service s)). active (ss_service s) r \<longrightarrow> set (jb_exclusive r) \<subseteq> set (ss_held s)) \<and>
     int (active_count (ss_service s)) \<le> ss_count s \<and>
     (\<forall>row \<in> set due. \<exists>r \<in> set (sv_rows (ss_service s)). same_job r row)"

lemma calm_same_job: "calm W r r' \<Longrightarrow> same_job r r'"
  by (simp only: calm_def)

lemma same_job_sym: "same_job r q \<Longrightarrow> same_job q r"
  by (simp add: same_job_def)

lemma due_kept:
  assumes "\<forall>row \<in> set due. \<exists>r \<in> set rows. same_job r row" "list_all2 same_job rows rows'"
  shows "\<forall>row \<in> set due. \<exists>r \<in> set rows'. same_job r row"
proof
  fix row assume "row \<in> set due"
  then obtain r where r: "r \<in> set rows" "same_job r row" using assms(1) by blast
  have "\<exists>r' \<in> set rows'. same_job r r'" using assms(2) r(1) by (induction rule: list_all2_induct) auto
  then show "\<exists>r \<in> set rows'. same_job r row" using r(2) same_job_trans same_job_sym by blast
qed

lemma calm_rows_same: "calm_rows W a b \<Longrightarrow> list_all2 same_job a b"
  by (erule list_all2_mono) (rule calm_same_job)

lemma calm_rows_keeps: "calm_rows W a b \<Longrightarrow> list_all2 keeps a b"
  by (erule list_all2_mono) (rule calm_keeps)

lemma loop_ok_quiet:
  assumes "loop_ok cfg used base due s" "quiet (worker_ids (ss_service s)) (ss_service s) sv'"
    and "set held' \<supseteq> set (ss_held s)" "n \<ge> ss_count s"
  shows "loop_ok cfg used base due (s\<lparr>ss_service := sv', ss_held := held', ss_count := n, ss_started := k\<rparr>)"
proof -
  let ?sv = "ss_service s"
  have rows: "calm_rows (worker_ids sv') (sv_rows ?sv) (sv_rows sv')" "worker_ids sv' = worker_ids ?sv"
    using assms(2) by (simp_all add: quiet_def)
  have "set (jb_exclusive r') \<subseteq> set held'" if mem: "r' \<in> set (sv_rows sv')" and act: "active sv' r'" for r'
  proof -
    obtain r where r: "r \<in> set (sv_rows ?sv)" "calm (worker_ids sv') r r'"
      using calm_rows_preimage [OF rows(1) mem] by blast
    have "active ?sv r" using calm_active [OF r(2) act] rows(2) by simp
    then have "set (jb_exclusive r) \<subseteq> set (ss_held s)" using assms(1) r(1) by (simp add: loop_ok_def)
    then show ?thesis using r(2) assms(3) by (auto simp: calm_def same_job_def)
  qed
  moreover have "active_count sv' \<le> active_count ?sv"
    unfolding active_count_def using rows(1)
    by (rule list_all2_filter_length) (erule calm_active, assumption, simp only: rows(2))
  moreover have "job_inv cfg (used, sv')" using assms(1,2) by (auto simp: loop_ok_def intro: inv_quiet)
  moreover have "\<forall>row \<in> set due. \<exists>r \<in> set (sv_rows sv'). same_job r row"
  proof (rule due_kept)
    show "\<forall>row \<in> set due. \<exists>r \<in> set (sv_rows ?sv). same_job r row"
      using assms(1) unfolding loop_ok_def by (elim conjE)
    show "list_all2 same_job (sv_rows ?sv) (sv_rows sv')" using rows(1) by (rule calm_rows_same)
  qed
  moreover have "int (active_count ?sv) \<le> ss_count s" using assms(1) by (simp only: loop_ok_def)
  moreover have "list_all2 keeps base (sv_rows sv')"
  proof (rule keeps_rows_trans)
    show "list_all2 keeps base (sv_rows ?sv)" using assms(1) by (simp only: loop_ok_def)
    show "list_all2 keeps (sv_rows ?sv) (sv_rows sv')" using rows(1) by (rule calm_rows_keeps)
  qed
  ultimately show ?thesis using assms(4) by (simp add: loop_ok_def)
qed

text \<open>What a launch does to the service whose row has just been set running.\<close>

lemma launch_effect:
  assumes "jb_id row \<notin> worker_ids sv"
  shows "quiet (worker_ids sv) sv (launch clk row sv) \<or>
     (sv_rows (launch clk row sv) = sv_rows sv \<and> sv_kinds (launch clk row sv) = sv_kinds sv \<and>
      sv_workers (launch clk row sv) = dict_set (jb_id row) None (sv_workers sv))"
proof (cases "kind_of sv (jb_kind row)")
  case None
  then show ?thesis using quiet_apply [OF assms] by (simp add: launch_def)
next
  case (Some k)
  let ?sv = "sv\<lparr>sv_cancel := dict_set (jb_id row) False (sv_cancel sv)\<rparr>"
  have "quiet (worker_ids sv) sv ?sv" by (simp add: quiet_def)
  moreover have "quiet (worker_ids sv) ?sv (apply_outcome t (jb_id row) oc ?sv)" for t oc
    using assms by (intro quiet_apply) simp
  ultimately have "quiet (worker_ids sv) sv (apply_outcome t (jb_id row) oc ?sv)" for t oc
    by (blast intro: quiet_trans)
  with Some show ?thesis by (simp add: launch_def Let_def)
qed

text \<open>
  Starting one row: \<open>sv'\<close> is \<open>sv\<close> with some rows calmed down, except that the queued row \<open>r0\<close> may have
  become active.
\<close>

definition starts :: "job \<Rightarrow> service \<Rightarrow> service \<Rightarrow> bool" where
  "starts r0 sv sv' \<longleftrightarrow>
     list_all2 (\<lambda>r r'. calm (worker_ids sv) r r' \<or> (r = r0 \<and> same_job r r')) (sv_rows sv) (sv_rows sv') \<and>
     worker_ids sv' \<subseteq> insert (jb_id r0) (worker_ids sv) \<and> dict_ok (sv_workers sv') \<and>
     (\<forall>r' \<in> set (sv_rows sv'). jb_id r' \<in> worker_ids sv' \<longrightarrow> jb_status r' \<noteq> Queued) \<and>
     (\<forall>r' \<in> set (sv_rows sv'). jb_id r' = jb_id r0 \<longrightarrow> jb_id r0 \<in> worker_ids sv' \<longrightarrow> jb_status r' = Running)"

lemma starts_preimage:
  assumes "starts r0 sv sv'" "r' \<in> set (sv_rows sv')"
  shows "\<exists>r \<in> set (sv_rows sv). calm (worker_ids sv) r r' \<or> (r = r0 \<and> same_job r r')"
proof -
  have "list_all2 (\<lambda>r r'. calm (worker_ids sv) r r' \<or> (r = r0 \<and> same_job r r')) (sv_rows sv) (sv_rows sv')"
    using assms(1) by (simp add: starts_def)
  then show ?thesis using assms(2) by (induction rule: list_all2_induct) auto
qed

lemma starts_active:
  assumes "worker_ids sv' \<subseteq> insert (jb_id r0) (worker_ids sv)"
    and "calm (worker_ids sv) r r' \<or> (r = r0 \<and> same_job r r')" "active sv' r'"
  shows "active sv r \<or> jb_id r = jb_id r0"
proof -
  have id: "jb_id r' = jb_id r" using assms(2) calm_same_job unfolding same_job_def by blast
  from assms(3) consider "jb_status r' = Running" | "jb_id r' \<in> worker_ids sv'" unfolding active_def by blast
  then show ?thesis
  proof cases
    case 1
    then show ?thesis using assms(2) unfolding active_def calm_def by blast
  next
    case 2
    then have "jb_id r \<in> worker_ids sv'" unfolding id .
    then show ?thesis using assms(1) unfolding active_def by blast
  qed
qed

lemma starts_count:
  assumes "starts r0 sv sv'" "distinct (map jb_id (sv_rows sv))"
  shows "active_count sv' \<le> Suc (active_count sv)"
proof -
  have "active_count sv' \<le> length (filter (\<lambda>r. active sv r \<or> jb_id r = jb_id r0) (sv_rows sv))"
    unfolding active_count_def
  proof (rule list_all2_filter_length)
    show "list_all2 (\<lambda>r r'. calm (worker_ids sv) r r' \<or> (r = r0 \<and> same_job r r')) (sv_rows sv) (sv_rows sv')"
      using assms(1) by (simp add: starts_def)
    show "active sv x \<or> jb_id x = jb_id r0"
      if "calm (worker_ids sv) x y \<or> (x = r0 \<and> same_job x y)" "active sv' y" for x y
      using assms(1) that by (intro starts_active) (auto simp: starts_def)
  qed
  also have "\<dots> \<le> active_count sv + length (filter (\<lambda>r. jb_id r = jb_id r0) (sv_rows sv))"
    unfolding active_count_def by (rule filter_or_length)
  also have "length (filter (\<lambda>r. jb_id r = jb_id r0) (sv_rows sv)) \<le> 1"
    using assms(2) by (rule distinct_key_filter)
  finally show ?thesis by simp
qed

lemma starts_inv:
  assumes "job_inv cfg (used, sv)" "starts r0 sv sv'" "r0 \<in> set (sv_rows sv)"
    and "\<And>r. r \<in> set (sv_rows sv) \<Longrightarrow> active sv r \<Longrightarrow> set (jb_exclusive r) \<inter> set (jb_exclusive r0) = {}"
    and "int (active_count sv) < max_workers cfg"
  shows "job_inv cfg (used, sv')"
proof -
  have wf: "distinct (map jb_id (sv_rows sv))" "jb_id ` set (sv_rows sv) \<subseteq> set used" "worker_ids sv \<subseteq> set used"
    and ex: "exclusion sv"
    using assms(1) by (simp_all add: job_inv_def store_wf_def)
  have rows: "list_all2 same_job (sv_rows sv) (sv_rows sv')"
    using assms(2) unfolding starts_def by (elim conjE list_all2_mono) (auto dest: calm_same_job)
  have ids: "map jb_id (sv_rows sv') = map jb_id (sv_rows sv)"
    using rows by (induction rule: list_all2_induct) (auto simp: same_job_def)
  then have ids': "jb_id ` set (sv_rows sv') = jb_id ` set (sv_rows sv)" by (metis set_map)
  have W: "worker_ids sv' \<subseteq> insert (jb_id r0) (worker_ids sv)" using assms(2) by (simp add: starts_def)
  then have used: "worker_ids sv' \<subseteq> set used" using wf assms(3) by blast
  have pre: "\<exists>r \<in> set (sv_rows sv). same_job r r' \<and> (active sv r \<or> r = r0)"
    if mem: "r' \<in> set (sv_rows sv')" and act: "active sv' r'" for r'
  proof -
    obtain r where r: "r \<in> set (sv_rows sv)" "calm (worker_ids sv) r r' \<or> (r = r0 \<and> same_job r r')"
      using starts_preimage [OF assms(2) mem] by blast
    have "active sv r \<or> jb_id r = jb_id r0" by (rule starts_active [OF W r(2) act])
    then have "active sv r \<or> r = r0" using unique_row [OF wf(1) r(1) assms(3)] by blast
    then show ?thesis using r calm_same_job by blast
  qed
  have "exclusion sv'"
    unfolding exclusion_def
  proof (intro ballI impI)
    fix r' q' assume rq: "r' \<in> set (sv_rows sv')" "q' \<in> set (sv_rows sv')"
      "active sv' r' \<and> active sv' q' \<and> jb_id r' \<noteq> jb_id q'"
    obtain r where r: "r \<in> set (sv_rows sv)" "same_job r r'" "active sv r \<or> r = r0" using pre rq by blast
    obtain q where q: "q \<in> set (sv_rows sv)" "same_job q q'" "active sv q \<or> q = r0" using pre rq by blast
    have ne: "jb_id r \<noteq> jb_id q" using rq(3) r(2) q(2) by (simp add: same_job_def)
    have "set (jb_exclusive r) \<inter> set (jb_exclusive q) = {}"
    proof (cases "active sv r \<and> active sv q")
      case True
      then show ?thesis using ex r(1) q(1) ne unfolding exclusion_def by blast
    next
      case False
      then show ?thesis using r q ne assms(4) by blast
    qed
    then show "set (jb_exclusive r') \<inter> set (jb_exclusive q') = {}"
      using r(2) q(2) by (simp add: same_job_def)
  qed
  moreover have "int (active_count sv') \<le> max_workers cfg"
    using starts_count [OF assms(2) wf(1)] assms(5) by linarith
  ultimately show ?thesis
    using assms(2) wf ids ids' used by (simp add: job_inv_def store_wf_def starts_def)
qed

lemma starts_compose:
  assumes wf: "store_wf (used, sv)" and r0: "r0 \<in> set (sv_rows sv)" "jb_status r0 = Queued"
    and sv1: "sv1 = set_rows (snd (store_update (jb_id r0) [Queued] (set_running now) (sv_rows sv))) sv"
    and row: "jb_id row = jb_id r0"
  shows "starts r0 sv (launch clk row sv1)"
proof -
  have dist: "distinct (map jb_id (sv_rows sv))" and ok: "dict_ok (sv_workers sv)"
    and wq: "\<And>r. r \<in> set (sv_rows sv) \<Longrightarrow> jb_id r \<in> worker_ids sv \<Longrightarrow> jb_status r \<noteq> Queued"
    using wf by (simp_all add: store_wf_def)
  have nw: "jb_id r0 \<notin> worker_ids sv" using wq r0 by blast
  have rows1: "sv_rows sv1 = map (\<lambda>r. if update_hit (jb_id r0) [Queued] r then set_running now r else r) (sv_rows sv)"
    and w1: "worker_ids sv1 = worker_ids sv" "sv_workers sv1 = sv_workers sv"
    by (simp_all add: sv1 store_update_def)
  let ?P = "\<lambda>r r'. calm (worker_ids sv) r r' \<or> (r = r0 \<and> same_job r r')"
  have 1: "list_all2 ?P (sv_rows sv) (sv_rows sv1)"
    unfolding rows1 list_all2_map2 list_all2_same
  proof (intro ballI)
    fix r assume r: "r \<in> set (sv_rows sv)"
    show "?P r (if update_hit (jb_id r0) [Queued] r then set_running now r else r)"
    proof (cases "jb_id r = jb_id r0")
      case True
      then have "r = r0" using unique_row [OF dist r r0(1)] by blast
      then show ?thesis by (simp add: same_job_def set_running_def)
    next
      case False
      then show ?thesis by (simp add: update_hit_def)
    qed
  qed
  have wq1: "jb_status r' \<noteq> Queued"
    if mem: "r' \<in> set (sv_rows sv1)" and wk: "jb_id r' \<in> worker_ids sv \<or> jb_id r' = jb_id r0" for r'
  proof -
    obtain r where r: "r \<in> set (sv_rows sv)" "r' = (if update_hit (jb_id r0) [Queued] r then set_running now r else r)"
    proof -
      from mem have "r' \<in> (\<lambda>r. if update_hit (jb_id r0) [Queued] r then set_running now r else r) ` set (sv_rows sv)"
        unfolding rows1 set_map .
      then show thesis by (elim imageE) (rule that)
    qed
    show ?thesis
    proof (cases "jb_id r = jb_id r0")
      case True
      then have "r = r0" using unique_row [OF dist r(1) r0(1)] by blast
      then show ?thesis using r(2) r0(2) by (simp add: update_hit_def set_running_def)
    next
      case False
      then have "r' = r" using r(2) by (simp add: update_hit_def)
      then show ?thesis using wk False wq r(1) by blast
    qed
  qed
  from launch_effect [of row sv1 clk] nw row w1
  consider (q) "quiet (worker_ids sv) sv1 (launch clk row sv1)"
    | (w) "sv_rows (launch clk row sv1) = sv_rows sv1" "sv_workers (launch clk row sv1) = dict_set (jb_id r0) None (sv_workers sv)"
    by auto
  then show ?thesis
  proof cases
    case q
    let ?sv2 = "launch clk row sv1"
    have calm2: "calm_rows (worker_ids sv) (sv_rows sv1) (sv_rows ?sv2)" using q by (simp add: quiet_def)
    have "list_all2 ?P (sv_rows sv) (sv_rows ?sv2)"
      using 1 calm2 by (rule list_all2_trans [rotated]) (auto intro: calm_trans same_job_trans dest: calm_same_job)
    moreover have "sv_workers ?sv2 = sv_workers sv" using q w1(2) by (simp add: quiet_def)
    moreover have "jb_status r' \<noteq> Queued" if mem: "r' \<in> set (sv_rows ?sv2)" and wk: "jb_id r' \<in> worker_ids sv" for r'
    proof -
      obtain r where r: "r \<in> set (sv_rows sv1)" "calm (worker_ids sv) r r'"
        using calm_rows_preimage [OF calm2 mem] by blast
      have id: "jb_id r = jb_id r'" using r(2) by (simp add: calm_def same_job_def)
      have "jb_status r \<noteq> Queued" using wq1 [OF r(1)] wk id by simp
      then show ?thesis using r(2) wk unfolding calm_def id by blast
    qed
    ultimately show ?thesis using ok nw unfolding starts_def by (simp add: subset_insertI)
  next
    case w
    have "worker_ids (launch clk row sv1) = insert (jb_id r0) (worker_ids sv)"
      by (auto simp: w(2) dict_keys_set)
    moreover have "dict_ok (sv_workers (launch clk row sv1))" using ok by (simp add: w(2) distinct_update)
    moreover have "jb_status r' = Running" if mem: "r' \<in> set (sv_rows sv1)" and id: "jb_id r' = jb_id r0" for r'
    proof -
      have "r' \<in> (\<lambda>r. if update_hit (jb_id r0) [Queued] r then set_running now r else r) ` set (sv_rows sv)"
        using mem unfolding rows1 set_map .
      then obtain r where r: "r \<in> set (sv_rows sv)" "r' = (if update_hit (jb_id r0) [Queued] r then set_running now r else r)"
        by (elim imageE)
      have "jb_id r = jb_id r0" using r(2) id by (simp add: set_running_def split: if_splits)
      then have "r = r0" by (rule unique_row [OF dist r(1) r0(1)])
      then show ?thesis using r(2) r0(2) by (simp add: update_hit_def set_running_def)
    qed
    ultimately show ?thesis using 1 wq1 unfolding starts_def w(1) by blast
  qed
qed

lemma loop_ok_start:
  assumes ok: "loop_ok cfg used base (row # due) s"
    and clash: "find (\<lambda>key. key \<in> set (ss_held s)) (jb_exclusive row) = None"
    and free: "ss_count s < max_workers cfg"
    and upd: "store_update (jb_id row) [Queued] (set_running now) (sv_rows (ss_service s)) = (True, rows)"
    and sv2: "sv2 = launch clk (get_or (jb_id row) row (set_rows rows (ss_service s))) (set_rows rows (ss_service s))"
    and running: "running = (case store_get (jb_id row) (sv_rows sv2) of None \<Rightarrow> False | Some r \<Rightarrow> jb_status r = Running)"
  shows "loop_ok cfg used base due
    (s\<lparr>ss_held := (if running then ss_held s @ jb_exclusive row
                   else filter (\<lambda>x. x \<notin> set (jb_exclusive row)) (ss_held s)),
       ss_count := (if running then ss_count s + 1 else ss_count s), ss_started := Suc (ss_started s),
       ss_service := sv2\<rparr>)"
proof -
  define sv where "sv = ss_service s"
  define sv1 where "sv1 = set_rows rows sv"
  have inv: "job_inv cfg (used, sv)"
    and held: "\<And>r. r \<in> set (sv_rows sv) \<Longrightarrow> active sv r \<Longrightarrow> set (jb_exclusive r) \<subseteq> set (ss_held s)"
    and cnt: "int (active_count sv) \<le> ss_count s"
    and due: "\<forall>row \<in> set due. \<exists>r \<in> set (sv_rows sv). same_job r row"
    and own: "\<exists>r \<in> set (sv_rows sv). same_job r row"
    and base: "list_all2 keeps base (sv_rows sv)"
    using ok by (simp_all add: loop_ok_def sv_def)
  have wf: "store_wf (used, sv)" and dist: "distinct (map jb_id (sv_rows sv))"
    using inv by (simp_all add: job_inv_def store_wf_def)
  obtain r0 where r0: "r0 \<in> set (sv_rows sv)" "jb_id r0 = jb_id row" "jb_status r0 = Queued"
    using upd by (auto simp: store_update_def update_hit_def list_ex_iff sv_def)
  have ex: "jb_exclusive r0 = jb_exclusive row"
    using own unique_row [OF dist _ r0(1)] r0(2) by (auto simp: same_job_def)
  have rows: "rows = snd (store_update (jb_id r0) [Queued] (set_running now) (sv_rows sv))"
    using upd by (simp add: r0(2) sv_def)
  have st: "starts r0 sv sv2"
    unfolding sv2
    by (rule starts_compose [OF wf r0(1,3)])
       (auto simp: rows sv_def r0(2) get_or_def split: option.splits dest: store_get_SomeD)
  have apart: "set (jb_exclusive row) \<inter> set (ss_held s) = {}" using clash by (auto simp: find_None_iff)
  have inv2: "job_inv cfg (used, sv2)"
  proof (rule starts_inv [OF inv st r0(1)])
    show "set (jb_exclusive r) \<inter> set (jb_exclusive r0) = {}" if "r \<in> set (sv_rows sv)" "active sv r" for r
      using held [OF that] apart unfolding ex by blast
    show "int (active_count sv) < max_workers cfg" using cnt free by linarith
  qed
  have dist2: "distinct (map jb_id (sv_rows sv2))" using inv2 by (simp add: job_inv_def store_wf_def)
  have W: "worker_ids sv2 \<subseteq> insert (jb_id r0) (worker_ids sv)" using st by (simp add: starts_def)
  have pre: "\<exists>r \<in> set (sv_rows sv). same_job r r' \<and> (active sv r \<or> jb_id r = jb_id r0)"
    if mem: "r' \<in> set (sv_rows sv2)" and act: "active sv2 r'" for r'
  proof -
    obtain r where r: "r \<in> set (sv_rows sv)" "calm (worker_ids sv) r r' \<or> (r = r0 \<and> same_job r r')"
      using starts_preimage [OF st mem] by blast
    have "active sv r \<or> jb_id r = jb_id r0" by (rule starts_active [OF W r(2) act])
    then show ?thesis using r calm_same_job by blast
  qed
  have gone: "jb_id r' \<noteq> jb_id r0" if "\<not> running" and mem: "r' \<in> set (sv_rows sv2)" and act: "active sv2 r'" for r'
  proof
    assume id: "jb_id r' = jb_id r0"
    have "store_get (jb_id row) (sv_rows sv2) = Some r'"
      using store_get_unique [OF dist2 mem] unfolding id r0(2) .
    then have nr: "jb_status r' \<noteq> Running" using that(1) by (simp add: running)
    then have "jb_id r0 \<in> worker_ids sv2" using act unfolding active_def id by blast
    then show False using st mem id nr unfolding starts_def by blast
  qed
  have keys: "set (jb_exclusive r') \<subseteq> set (if running then ss_held s @ jb_exclusive row
       else filter (\<lambda>x. x \<notin> set (jb_exclusive row)) (ss_held s))"
    if mem: "r' \<in> set (sv_rows sv2)" and act: "active sv2 r'" for r'
  proof -
    obtain r where r: "r \<in> set (sv_rows sv)" "same_job r r'" "active sv r \<or> jb_id r = jb_id r0"
      using pre [OF mem act] by blast
    have ex': "jb_exclusive r' = jb_exclusive r" and id': "jb_id r' = jb_id r" using r(2) by (simp_all add: same_job_def)
    show ?thesis
    proof (cases "active sv r")
      case True
      then show ?thesis using held [OF r(1)] apart unfolding ex' by auto
    next
      case False
      then have "jb_id r = jb_id r0" using r(3) by blast
      then have "r = r0" by (rule unique_row [OF dist r(1) r0(1)])
      moreover have running using gone [OF _ mem act] \<open>jb_id r = jb_id r0\<close> unfolding id' by blast
      ultimately show ?thesis unfolding ex' by (simp add: ex)
    qed
  qed
  have count: "int (active_count sv2) \<le> (if running then ss_count s + 1 else ss_count s)"
  proof (cases running)
    case True
    then show ?thesis using starts_count [OF st dist] cnt by simp
  next
    case False
    have "active_count sv2 \<le> active_count sv"
      unfolding active_count_def
    proof (rule list_all2_filter_length2)
      show "list_all2 (\<lambda>r r'. calm (worker_ids sv) r r' \<or> (r = r0 \<and> same_job r r')) (sv_rows sv) (sv_rows sv2)"
        using st by (simp add: starts_def)
      fix r r' assume *: "r' \<in> set (sv_rows sv2)" "calm (worker_ids sv) r r' \<or> (r = r0 \<and> same_job r r')" "active sv2 r'"
      have "active sv r \<or> jb_id r = jb_id r0" by (rule starts_active [OF W *(2,3)])
      moreover have "jb_id r' = jb_id r" using *(2) calm_same_job unfolding same_job_def by blast
      ultimately show "active sv r" using gone [OF False *(1,3)] by simp
    qed
    then show ?thesis using False cnt by simp
  qed
  have due2: "\<forall>row \<in> set due. \<exists>r \<in> set (sv_rows sv2). same_job r row"
  proof (rule due_kept [OF due])
    show "list_all2 same_job (sv_rows sv) (sv_rows sv2)"
      using st unfolding starts_def by (elim conjE list_all2_mono) (auto dest: calm_same_job)
  qed
  have "list_all2 keeps (sv_rows sv) (sv_rows sv2)"
    using st r0(3) unfolding starts_def by (elim conjE list_all2_mono) (auto simp: keeps_def terminal_def dest: calm_keeps)
  with base have "list_all2 keeps base (sv_rows sv2)" by (rule keeps_rows_trans)
  then show ?thesis
    unfolding loop_ok_def using inv2 keys count due2 by simp
qed

lemma loop_ok_tail: "loop_ok cfg used base (row # due) s \<Longrightarrow> loop_ok cfg used base due s"
  by (simp add: loop_ok_def)

lemma start_loop_ok:
  assumes "loop_ok cfg used base due s"
  shows "loop_ok cfg used base [] (start_loop now clk (max_workers cfg) due s)"
  using assms
proof (induction due arbitrary: s)
  case Nil
  then show ?case by simp
next
  case (Cons row due)
  show ?case
  proof (cases "find (\<lambda>key. key \<in> set (ss_held s)) (jb_exclusive row)")
    case (Some clash)
    let ?f = "\<lambda>r. r\<lparr>jb_message := waiting_msg clash\<rparr>"
    let ?sv = "set_rows (snd (store_update (jb_id row) [Queued] ?f (sv_rows (ss_service s)))) (ss_service s)"
    have "calm_rows (worker_ids (ss_service s)) (sv_rows (ss_service s))
        (snd (store_update (jb_id row) [Queued] ?f (sv_rows (ss_service s))))"
      by (rule calm_update) (simp add: calm_def same_job_def terminal_def)
    then have "quiet (worker_ids (ss_service s)) (ss_service s) ?sv" by (simp add: quiet_def)
    from loop_ok_quiet [OF loop_ok_tail [OF Cons.prems] this subset_refl order_refl, of "ss_started s"]
    have "loop_ok cfg used base due (s\<lparr>ss_service := ?sv\<rparr>)" by simp
    then show ?thesis using Some Cons.IH loop_ok_tail [OF Cons.prems] by simp
  next
    case None
    obtain hit rows where upd: "store_update (jb_id row) [Queued] (set_running now) (sv_rows (ss_service s)) = (hit, rows)"
      by fastforce
    show ?thesis
    proof (cases "ss_count s \<ge> max_workers cfg \<or> \<not> hit")
      case True
      then show ?thesis
        using None upd Cons.IH loop_ok_tail [OF Cons.prems] Cons.prems by (auto simp: loop_ok_def)
    next
      case False
      then have free: "ss_count s < max_workers cfg" and "hit" by auto
      with upd have upd': "store_update (jb_id row) [Queued] (set_running now) (sv_rows (ss_service s)) = (True, rows)"
        by simp
      show ?thesis
        using Cons.IH [OF loop_ok_start [OF Cons.prems None free upd' refl refl]] None free upd'
        by (simp add: Let_def)
    qed
  qed
qed

lemma lookup_list_set:
  "set [r. jid \<leftarrow> xs, jid \<notin> A, Some r \<leftarrow> [g jid]] = {r. \<exists>jid \<in> set xs. jid \<notin> A \<and> g jid = Some r}"
  by (auto split: option.splits if_splits)

lemma busy_rows_set:
  assumes "distinct (map jb_id (sv_rows sv))"
  shows "set (busy_rows sv) = {r \<in> set (sv_rows sv). active sv r}"
proof -
  let ?run = "{r \<in> set (sv_rows sv). jb_status r = Running}"
  have eq: "set (busy_rows sv) = ?run \<union>
      {r. \<exists>jid \<in> worker_ids sv. jid \<notin> jb_id ` ?run \<and> store_get jid (sv_rows sv) = Some r}"
    unfolding busy_rows_def Let_def set_append lookup_list_set store_running_set ..
  have A: "r \<in> set (sv_rows sv) \<and> active sv r"
    if "jid \<in> worker_ids sv" "store_get jid (sv_rows sv) = Some r" for jid r
    using that store_get_SomeD unfolding active_def by blast
  have B: "r \<in> ?run \<or> (jb_id r \<in> worker_ids sv \<and> jb_id r \<notin> jb_id ` ?run \<and>
      store_get (jb_id r) (sv_rows sv) = Some r)"
    if r: "r \<in> set (sv_rows sv)" and act: "active sv r" for r
  proof (cases "jb_status r = Running")
    case True
    then show ?thesis using r by simp
  next
    case False
    have "jb_id r \<notin> jb_id ` ?run"
    proof
      assume "jb_id r \<in> jb_id ` ?run"
      then obtain q where q: "q \<in> set (sv_rows sv)" "jb_status q = Running" "jb_id r = jb_id q" by blast
      show False using unique_row [OF assms r q(1,3)] q(2) False by simp
    qed
    then show ?thesis using act False store_get_unique [OF assms r] unfolding active_def by blast
  qed
  have C: "active sv r" if "r \<in> ?run" for r using that by (simp add: active_def)
  show ?thesis
  proof (intro subset_antisym subsetI)
    fix r assume "r \<in> set (busy_rows sv)"
    then show "r \<in> {r \<in> set (sv_rows sv). active sv r}" using A C unfolding eq by blast
  next
    fix r assume "r \<in> {r \<in> set (sv_rows sv). active sv r}"
    then show "r \<in> set (busy_rows sv)" using B [of r] unfolding eq by blast
  qed
qed

lemma busy_rows_count:
  assumes "distinct (map jb_id (sv_rows sv))"
  shows "active_count sv \<le> length (busy_rows sv)"
proof -
  have "distinct (sv_rows sv)" using assms by (simp add: distinct_map)
  then have "active_count sv = card (set (busy_rows sv))"
    unfolding busy_rows_set [OF assms] active_count_def
    by (metis distinct_card distinct_filter set_filter)
  also have "\<dots> \<le> length (busy_rows sv)" by (rule card_length)
  finally show ?thesis .
qed

lemma store_due_mem: "row \<in> set (store_due now rows) \<Longrightarrow> row \<in> set rows"
  by (simp add: store_due_def)

lemma start_due_ok:
  assumes "job_inv cfg (used, sv)"
  shows "job_inv cfg (used, snd (start_due now clk cfg sv)) \<and>
         list_all2 keeps (sv_rows sv) (sv_rows (snd (start_due now clk cfg sv)))"
proof -
  have dist: "distinct (map jb_id (sv_rows sv))" using assms by (simp add: job_inv_def store_wf_def)
  have "loop_ok cfg used (sv_rows sv) (store_due now (sv_rows sv))
      \<lparr>ss_held = concat (map jb_exclusive (busy_rows sv)), ss_count = int (length (busy_rows sv)),
       ss_started = 0, ss_service = sv\<rparr>"
    using assms busy_rows_set [OF dist] busy_rows_count [OF dist] store_due_mem [of _ now "sv_rows sv"]
    by (auto simp: loop_ok_def same_job_def list_all2_refl intro!: bexI)
  from start_loop_ok [OF this] show ?thesis by (simp add: start_due_def Let_def loop_ok_def)
qed

lemmas inv_start_due = start_due_ok [THEN conjunct1]

lemma new_row_simps [simp]:
  "jb_id (new_row jid now k spec sm) = jid" "jb_status (new_row jid now k spec sm) = Queued"
  "jb_kind (new_row jid now k spec sm) = sm_kind sm"
  by (simp_all add: new_row_def Let_def)

lemma submit_Inr:
  assumes "submit jid now sm sv = Inr (row, sv')"
  obtains k spec actor where "row = new_row jid now k spec sm"
    "sv' = audit_log ''jobs.submit'' row True actor (set_rows (store_insert row (sv_rows sv)) sv)"
  using assms unfolding submit_def Let_def
  by (auto split: option.splits prod.splits if_splits)

lemma store_insert_new: "jb_id row \<notin> jb_id ` set rows \<Longrightarrow> store_insert row rows = rows @ [row]"
  by (auto simp: store_insert_def filter_id_conv) (metis imageI)

lemma submit_cases:
  assumes "submit jid now sm sv = Inr (row, sv')" "jid \<notin> jb_id ` set (sv_rows sv)"
  shows "sv_rows sv' = sv_rows sv @ [row]" "jb_id row = jid" "jb_status row = Queued"
    "sv_workers sv' = sv_workers sv" "sv_kinds sv' = sv_kinds sv"
proof -
  obtain k spec actor where row: "row = new_row jid now k spec sm"
    and sv': "sv' = audit_log ''jobs.submit'' row True actor (set_rows (store_insert row (sv_rows sv)) sv)"
    using assms(1) by (rule submit_Inr)
  show "jb_id row = jid" "jb_status row = Queued" by (simp_all add: row)
  then show "sv_rows sv' = sv_rows sv @ [row]" using assms(2) by (simp add: sv' store_insert_new)
  show "sv_workers sv' = sv_workers sv" "sv_kinds sv' = sv_kinds sv" by (simp_all add: sv')
qed

lemma inv_submit:
  assumes "job_inv cfg (used, sv)" "jid \<notin> set used" "submit jid now sm sv = Inr (row, sv')"
  shows "job_inv cfg (jid # used, sv')"
proof -
  have new: "jid \<notin> jb_id ` set (sv_rows sv)" "jid \<notin> worker_ids sv"
    using assms(1,2) by (auto simp: job_inv_def store_wf_def)
  note sv' = submit_cases [OF assms(3) new(1)]
  have act: "active sv' = active sv" by (simp add: active_def fun_eq_iff sv')
  have idle: "\<not> active sv row" using new(2) sv' by (auto simp: active_def)
  have "store_wf (jid # used, sv')"
  proof -
    have "distinct (map jb_id (sv_rows sv'))"
      using assms(1) new(1) by (simp add: job_inv_def store_wf_def sv')
    moreover have "jb_id ` set (sv_rows sv') \<subseteq> set (jid # used)"
      using assms(1) by (auto simp: job_inv_def store_wf_def sv')
    moreover have "\<forall>r \<in> set (sv_rows sv'). jb_id r \<in> worker_ids sv' \<longrightarrow> jb_status r \<noteq> Queued"
      using assms(1) new(2) sv'(2) unfolding job_inv_def store_wf_def sv'(1,4) by simp
    moreover have "dict_ok (sv_workers sv')" "worker_ids sv' \<subseteq> set (jid # used)"
      using assms(1) unfolding job_inv_def store_wf_def sv' by auto
    ultimately show ?thesis by (simp add: store_wf_def)
  qed
  moreover have "exclusion sv'"
  proof -
    have "exclusion sv" using assms(1) by (simp add: job_inv_def)
    then show ?thesis using idle unfolding exclusion_def act sv'(1) by auto
  qed
  moreover have "active_count sv' = active_count sv" using idle by (simp add: active_count_def act sv'(1))
  ultimately show ?thesis using assms(1) by (simp add: job_inv_def)
qed

lemma job_inv_step: "job_inv cfg us \<Longrightarrow> job_inv cfg (job_step cfg ev us)"
proof -
  assume inv: "job_inv cfg us"
  obtain used sv where us: "us = (used, sv)" by fastforce
  note q = inv_quiet [OF inv [unfolded us]]
  show ?thesis
    unfolding us
    by (cases ev)
       (use inv us in \<open>auto intro: q quiet_annotate quiet_set_state quiet_cancel quiet_cancel_where quiet_ack
          quiet_timeouts quiet_leases inv_worker_done inv_reap inv_start_due inv_sweep inv_restart
          inv_submit split: sum.splits prod.splits\<close>)
qed

section \<open>The life cycle of a job\<close>

text \<open>
  \<open>job_legal a b\<close>: what a later state \<open>b\<close> may look like after \<open>a\<close>. A drawn id that has no row any more
  never gets one again; a row keeps its identity, and once it has ended it keeps its status.
\<close>

definition job_legal :: "ledger_state \<Rightarrow> ledger_state \<Rightarrow> bool" where
  "job_legal a b \<longleftrightarrow>
     set (fst a) \<subseteq> set (fst b) \<and>
     (\<forall>jid \<in> set (fst a). \<forall>r'. store_get jid (sv_rows (snd b)) = Some r' \<longrightarrow>
        (\<exists>r. store_get jid (sv_rows (snd a)) = Some r \<and> keeps r r'))"

lemma job_legal_refl: "job_legal a a"
  by (simp add: job_legal_def)

lemma job_legal_trans: "job_legal a b \<Longrightarrow> job_legal b c \<Longrightarrow> job_legal a c"
  unfolding job_legal_def by (meson keeps_trans subset_iff)

lemma keeps_id: "keeps r r' \<Longrightarrow> jb_id r' = jb_id r"
  by (simp add: keeps_def same_job_def)

lemma keeps_store_get:
  assumes "list_all2 keeps rows rows'" "store_get jid rows' = Some r'"
  shows "\<exists>r. store_get jid rows = Some r \<and> keeps r r'"
  using assms
proof (induction rule: list_all2_induct)
  case Nil
  then show ?case by (simp add: store_get_def)
next
  case (Cons x xs y ys)
  have "jb_id y = jb_id x" using Cons.hyps(1) by (rule keeps_id)
  then show ?case using Cons by (cases "jb_id x = jid") (simp_all add: store_get_def)
qed

lemma legal_keeps:
  "list_all2 keeps (sv_rows sv) (sv_rows sv') \<Longrightarrow> job_legal (used, sv) (used, sv')"
  by (simp add: job_legal_def keeps_store_get)

lemma legal_quiet: "quiet W sv sv' \<Longrightarrow> job_legal (used, sv) (used, sv')"
  unfolding quiet_def by (elim conjE) (intro legal_keeps calm_rows_keeps)

lemma reap_keeps: "list_all2 keeps (sv_rows sv) (sv_rows (reap clk sv))"
proof -
  let ?sv = "sv\<lparr>sv_workers := filter (\<lambda>(jid, w). w = None) (sv_workers sv)\<rparr>"
  have "quiet {} ?sv (reap clk sv)"
    unfolding reap_def Let_def by (rule quiet_foldl) (auto intro: quiet_apply)
  then show ?thesis by (auto simp: quiet_def dest: calm_rows_keeps)
qed

lemma restart_keeps:
  assumes "distinct (map jb_id (sv_rows sv))"
  shows "list_all2 keeps (sv_rows sv) (sv_rows (restart now sv))"
proof -
  let ?sv = "sv\<lparr>sv_workers := [], sv_cancel := [], sv_last_sweep := 0\<rparr>"
  have "quiet {} ?sv (foldl (recover_one now) ?sv (store_running (sv_rows sv)))"
    using distinct_ids_running [OF assms] by (rule quiet_recover_fold) (auto dest: unique_row [OF assms])
  then show ?thesis by (auto simp: quiet_def restart_def job_recover_def dest: calm_rows_keeps)
qed

lemma store_get_append: "store_get jid (rows @ [row]) =
    (case store_get jid rows of Some r \<Rightarrow> Some r | None \<Rightarrow> if jb_id row = jid then Some row else None)"
  by (induction rows) (simp_all add: store_get_def)

lemma store_get_filter:
  "distinct (map jb_id rows) \<Longrightarrow> store_get jid (filter P rows) = Some r \<Longrightarrow> store_get jid rows = Some r"
  using store_get_SomeD [of jid "filter P rows" r] store_get_unique [of rows r] by auto

lemma sweep_rows: "sv_rows (sweep_daily now cfg sv) = sv_rows sv \<or>
    (\<exists>c. sv_rows (sweep_daily now cfg sv) = filter (\<lambda>r. \<not> swept c r) (sv_rows sv))"
  by (auto simp: sweep_daily_def store_sweep_def)

lemma job_legal_step:
  assumes "job_inv cfg us"
  shows "job_legal us (job_step cfg ev us)"
proof -
  obtain used sv where us: "us = (used, sv)" by fastforce
  have dist: "distinct (map jb_id (sv_rows sv))" using assms by (simp add: job_inv_def store_wf_def us)
  show ?thesis
  proof (cases ev)
    case (Ev_Submit jid now sm)
    show ?thesis
    proof (cases "jid \<in> set used \<or> (\<exists>e. submit jid now sm sv = Inl e)")
      case True
      then show ?thesis by (auto simp: us Ev_Submit job_legal_refl)
    next
      case False
      then obtain row sv' where sub: "submit jid now sm sv = Inr (row, sv')" "jid \<notin> set used"
        by (cases "submit jid now sm sv") auto
      have "jid \<notin> jb_id ` set (sv_rows sv)" using assms sub(2) by (auto simp: us job_inv_def store_wf_def)
      note sv' = submit_cases [OF sub(1) this]
      have "store_get i (sv_rows sv') = store_get i (sv_rows sv)" if "i \<in> set used" for i
        using that sub(2) sv'(2) by (auto simp: sv'(1) store_get_append split: option.splits)
      then show ?thesis using sub by (auto simp: us Ev_Submit job_legal_def)
    qed
  next
    case (Ev_Sweep now)
    have "store_get i (sv_rows (sweep_daily now cfg sv)) = Some r' \<Longrightarrow> store_get i (sv_rows sv) = Some r'" for i r'
      using sweep_rows [of now cfg sv] store_get_filter [OF dist] by auto
    then show ?thesis by (auto simp: us Ev_Sweep job_legal_def)
  next
    case (Ev_Worker_Done jid box)
    have "sv_rows (worker_done jid box sv) = sv_rows sv" by (simp add: worker_done_def)
    then show ?thesis by (simp add: us Ev_Worker_Done job_legal_def)
  next
    case (Ev_Reap clk)
    then show ?thesis by (simp add: us legal_keeps reap_keeps)
  next
    case (Ev_Restart now)
    then show ?thesis by (simp add: us legal_keeps restart_keeps dist)
  next
    case (Ev_Start_Due now clk)
    then show ?thesis using start_due_ok [of cfg used sv now clk] assms by (simp add: us legal_keeps)
  qed (auto simp: us intro: legal_quiet quiet_annotate quiet_set_state quiet_cancel quiet_cancel_where quiet_ack
        quiet_timeouts quiet_leases)
qed

interpretation jobs: guarded_machine booted "job_step cfg" "job_inv cfg" job_legal for cfg
  by unfold_locales
    (auto intro: job_inv_boot job_inv_step job_legal_step job_legal_refl job_legal_trans)

lemma keeps_ids: "list_all2 keeps a b \<Longrightarrow> map jb_id b = map jb_id a"
  by (induction rule: list_all2_induct) (auto dest: keeps_id)

lemma keeps_ids_set: "list_all2 keeps a b \<Longrightarrow> jb_id ` set b = jb_id ` set a"
  using keeps_ids by (metis set_map)

lemma quiet_keeps: "quiet W sv sv' \<Longrightarrow> list_all2 keeps (sv_rows sv) (sv_rows sv')"
  unfolding quiet_def by (elim conjE) (rule calm_rows_keeps)

text \<open>What an event does to the table: it edits rows in place, sweeps ended ones, or appends a new one.\<close>

lemma job_step_cases:
  assumes "job_inv cfg (used, sv)" "job_step cfg ev (used, sv) = (used', sv')"
  obtains (edit) "used' = used" "list_all2 keeps (sv_rows sv) (sv_rows sv')"
    | (sweep) c where "used' = used" "sv_rows sv' = filter (\<lambda>r. \<not> swept c r) (sv_rows sv)"
    | (insert) jid now sm row where "ev = Ev_Submit jid now sm" "jid \<notin> set used" "used' = jid # used"
        "submit jid now sm sv = Inr (row, sv')" "sv_rows sv' = sv_rows sv @ [row]"
proof -
  have dist: "distinct (map jb_id (sv_rows sv))" using assms(1) by (simp add: job_inv_def store_wf_def)
  have refl: "list_all2 keeps (sv_rows sv) (sv_rows sv)" by (simp add: list_all2_refl)
  show thesis
  proof (cases ev)
    case (Ev_Submit jid now sm)
    show thesis
    proof (cases "jid \<in> set used \<or> (\<exists>e. submit jid now sm sv = Inl e)")
      case True
      then have "job_step cfg ev (used, sv) = (used, sv)" by (auto simp: Ev_Submit)
      then show thesis using assms(2) refl by (intro edit) simp_all
    next
      case False
      then obtain row s where sub: "submit jid now sm sv = Inr (row, s)" "jid \<notin> set used"
        by (cases "submit jid now sm sv") auto
      have "jid \<notin> jb_id ` set (sv_rows sv)" using assms(1) sub(2) by (auto simp: job_inv_def store_wf_def)
      from submit_cases(1) [OF sub(1) this] show thesis
        using assms(2) sub insert [OF Ev_Submit] by (auto simp: Ev_Submit)
    qed
  next
    case (Ev_Sweep now)
    then show thesis using assms(2) sweep_rows [of now cfg sv] refl edit sweep by auto
  next
    case (Ev_Worker_Done jid box)
    then show thesis using assms(2) refl by (intro edit) (auto simp: worker_done_def)
  next
    case (Ev_Start_Due now clk)
    then show thesis using start_due_ok [OF assms(1), of now clk] assms(2) by (intro edit) auto
  qed (use assms(2) dist in \<open>auto intro!: edit intro: quiet_keeps quiet_annotate quiet_set_state quiet_cancel
        quiet_cancel_where quiet_ack quiet_timeouts quiet_leases reap_keeps restart_keeps\<close>)
qed

lemma live_row_kept:
  assumes "job_inv cfg (used, sv)" "r \<in> set (sv_rows sv)" "\<not> terminal r"
  shows "\<exists>r' \<in> set (sv_rows (snd (job_step cfg ev (used, sv)))). jb_id r' = jb_id r"
proof -
  obtain used' sv' where step: "job_step cfg ev (used, sv) = (used', sv')" by fastforce
  from assms(1) step have "\<exists>r' \<in> set (sv_rows sv'). jb_id r' = jb_id r"
  proof (cases rule: job_step_cases)
    case edit
    then show ?thesis using keeps_ids_set assms(2) by (metis image_iff)
  next
    case (sweep c)
    have "\<not> swept c r" using assms(3) by (auto simp: swept_def terminal_def)
    then show ?thesis using assms(2) sweep(2) by auto
  next
    case (insert jid now sm row)
    then show ?thesis using assms(2) by auto
  qed
  then show ?thesis by (simp add: step)
qed

end
