(* ===== verification/JobTheorems.thy ===== *)
theory JobTheorems
  imports JobProps
begin

text \<open>
  The main theorems about the job service, from the invariants of \<open>JobProps\<close>, with a small ledger for
  the witnesses.
\<close>

section \<open>A small ledger\<close>

definition ex_kind :: job_kind where
  "ex_kind = \<lparr>ki_name = ''bench'', ki_title = ''Bench'', ki_run = (\<lambda>_. None), ki_validate = None,
     ki_label = None, ki_exclusive = Some (\<lambda>_. [''perf:h1'']), ki_on_finish = True, ki_on_cancel = True,
     ki_resume = ''requeue'', ki_max_run = (\<lambda>_. 60), ki_api = True\<rparr>"

definition ex_service :: service where
  "ex_service = \<lparr>sv_rows = [], sv_kinds = [(''bench'', ex_kind)], sv_workers = [], sv_cancel = [],
     sv_last_sweep = 0, sv_inline = False, sv_alerting = True, sv_auditing = True, sv_effects = []\<rparr>"

definition ex_submission :: submission where
  "ex_submission = \<lparr>sm_kind = ''bench'', sm_spec = [], sm_user = ''ann'', sm_role = ''operator'',
     sm_source = ''ui'', sm_label = None, sm_not_before = None, sm_period = None, sm_runs_left = None,
     sm_thread = None\<rparr>"

definition ex_config :: job_config where
  "ex_config = \<lparr>cf_workers = Some 2, cf_history_days = None\<rparr>"

definition ex_events :: "job_event list" where
  "ex_events = [Ev_Submit ''j1'' 10 ex_submission, Ev_Submit ''j2'' 11 ex_submission, Ev_Start_Due 12 (\<lambda>_. 12)]"

definition ex_final :: ledger_state where
  "ex_final = fold (job_step ex_config) ex_events ([], ex_service)"

lemma ex_booted: "booted ([], ex_service)"
  by (simp add: booted_def ex_service_def)

section \<open>Mutual exclusion and the worker limit\<close>

text \<open>
  C2: two running jobs never hold a common exclusive key, and never more jobs run than the configured
  number of workers, after any sequence of submissions, cancellations, worker completions, dispatcher
  phases, sweeps and restarts of a booted service.\<close>

theorem running_jobs_exclusive:
  assumes "booted us" "fold (job_step cfg) es us = (used, sv)"
    and "r \<in> set (sv_rows sv)" "jb_status r = Running"
  shows "(\<forall>r' \<in> set (sv_rows sv). jb_status r' = Running \<and> jb_id r' \<noteq> jb_id r \<longrightarrow>
            set (jb_exclusive r) \<inter> set (jb_exclusive r') = {}) \<and>
         int (length (filter (\<lambda>r. jb_status r = Running) (sv_rows sv))) \<le> max_workers cfg"
proof -
  have inv: "job_inv cfg (used, sv)" using jobs.inv_run [OF assms(1), of cfg es] unfolding assms(2) .
  have "exclusion sv" using inv by (simp add: job_inv_def)
  then have "\<forall>r' \<in> set (sv_rows sv). jb_status r' = Running \<and> jb_id r' \<noteq> jb_id r \<longrightarrow>
            set (jb_exclusive r) \<inter> set (jb_exclusive r') = {}"
    using assms(3,4) unfolding exclusion_def active_def by metis
  moreover have "length (filter (\<lambda>r. jb_status r = Running) (sv_rows sv)) \<le> active_count sv"
    unfolding active_count_def by (rule filter_length_mono) (simp add: active_def)
  ultimately show ?thesis using inv unfolding job_inv_def by auto
qed

theorem running_jobs_exclusive_witness:
  "jb_status (sv_rows (snd ex_final) ! 0) = Running \<and> jb_status (sv_rows (snd ex_final) ! 1) \<noteq> Running \<and>
   int (length (filter (\<lambda>r. jb_status r = Running) (sv_rows (snd ex_final)))) \<le> 2"
proof -
  let ?rows = "sv_rows (snd ex_final)"
  have run: "jb_status (?rows ! 0) = Running" by code_simp
  have len: "length ?rows = 2" by code_simp
  have mem: "?rows ! 0 \<in> set ?rows" "?rows ! 1 \<in> set ?rows" using len by simp_all
  have eq: "fold (job_step ex_config) ex_events ([], ex_service) = (fst ex_final, snd ex_final)"
    by (simp add: ex_final_def)
  have two: "max_workers ex_config = 2" by code_simp
  have keys: "''perf:h1'' \<in> set (jb_exclusive (?rows ! 0))"
    "''perf:h1'' \<in> set (jb_exclusive (?rows ! 1))" "jb_id (?rows ! 1) \<noteq> jb_id (?rows ! 0)" by code_simp+
  note ok = running_jobs_exclusive [OF ex_booted eq mem(1) run]
  have "jb_status (?rows ! 1) \<noteq> Running"
    using ok [THEN conjunct1, rule_format, OF mem(2)] keys by blast
  with run ok two show ?thesis by simp
qed

section \<open>The life cycle\<close>

text \<open>
  C9: a job that has ended stays as it ended: whatever happens afterwards (a late outcome of its worker,
  a cancellation, a time-out, a restart), its row keeps the status done, failed or cancelled until it is
  swept, and its id is never used again.\<close>

theorem ended_jobs_stay_ended:
  assumes "booted us" "store_get jid (sv_rows (snd (fold (job_step cfg) es us))) = Some r" "terminal r"
    and "store_get jid (sv_rows (snd (fold (job_step cfg) (es @ es') us))) = Some r'"
  shows "jb_status r' = jb_status r \<and> jb_kind r' = jb_kind r \<and> jb_created r' = jb_created r"
proof -
  let ?a = "fold (job_step cfg) es us"
  have inv: "job_inv cfg ?a" by (rule jobs.inv_run [OF assms(1)])
  have "jid \<in> set (fst ?a)"
    using inv store_get_SomeD [OF assms(2)] by (auto simp: job_inv_def store_wf_def split: prod.splits)
  moreover have "job_legal ?a (fold (job_step cfg) (es @ es') us)"
    by (rule jobs.legal_run [OF assms(1)])
  ultimately obtain q where "store_get jid (sv_rows (snd ?a)) = Some q" "keeps q r'"
    using assms(4) unfolding job_legal_def by blast
  then have "keeps r r'" using assms(2) by simp
  then show ?thesis using assms(3) by (simp add: keeps_def same_job_def)
qed

definition ex_cancelled_events :: "job_event list" where
  "ex_cancelled_events = ex_events @ [Ev_Cancel 13 ''j1'' ''ann'' CANCELLED_MSG]"

definition ex_late_events :: "job_event list" where
  "ex_late_events = [Ev_Worker_Done ''j1'' (Some (job_ok None None ''done'')), Ev_Reap (\<lambda>_. 14)]"

theorem ended_jobs_stay_ended_witness:
  "\<exists>r'. store_get ''j1'' (sv_rows (snd (fold (job_step ex_config) (ex_cancelled_events @ ex_late_events)
      ([], ex_service)))) = Some r' \<and> jb_status r' = Cancelled"
proof -
  let ?r = "the (store_get ''j1'' (sv_rows (snd (fold (job_step ex_config) ex_cancelled_events ([], ex_service)))))"
  let ?r' = "the (store_get ''j1'' (sv_rows (snd (fold (job_step ex_config)
      (ex_cancelled_events @ ex_late_events) ([], ex_service)))))"
  have st: "jb_status ?r = Cancelled" by code_simp
  have "store_get ''j1'' (sv_rows (snd (fold (job_step ex_config) ex_cancelled_events ([], ex_service)))) \<noteq> None"
    by code_simp
  then have r: "store_get ''j1'' (sv_rows (snd (fold (job_step ex_config) ex_cancelled_events ([], ex_service)))) = Some ?r"
    by simp
  have "store_get ''j1'' (sv_rows (snd (fold (job_step ex_config) (ex_cancelled_events @ ex_late_events)
      ([], ex_service)))) \<noteq> None" by code_simp
  then have r': "store_get ''j1'' (sv_rows (snd (fold (job_step ex_config) (ex_cancelled_events @ ex_late_events)
      ([], ex_service)))) = Some ?r'" by simp
  have "terminal ?r" using st by (simp add: terminal_def)
  from ended_jobs_stay_ended [OF ex_booted r this r'] st r' show ?thesis by auto
qed

text \<open>
  no event loses a job that is still queued or running: its row is there after the event, for
  sweeps, restarts and submissions of other jobs alike.\<close>

theorem live_jobs_never_lost:
  assumes "booted us" "fold (job_step cfg) es us = (used, sv)" "r \<in> set (sv_rows sv)" "jb_status r \<in> set LIVE"
  shows "\<exists>r' \<in> set (sv_rows (snd (job_step cfg ev (used, sv)))). jb_id r' = jb_id r"
proof -
  have inv: "job_inv cfg (used, sv)" using jobs.inv_run [OF assms(1), of cfg es] unfolding assms(2) .
  show ?thesis using live_row_kept [OF inv assms(3)] assms(4) by (simp add: terminal_iff)
qed

theorem live_jobs_never_lost_witness:
  "\<exists>r' \<in> set (sv_rows (snd (job_step ex_config (Ev_Restart 20) (fst ex_final, snd ex_final)))).
     jb_id r' = jb_id (hd (sv_rows (snd ex_final)))"
proof (rule live_jobs_never_lost [OF ex_booted])
  show "fold (job_step ex_config) ex_events ([], ex_service) = (fst ex_final, snd ex_final)"
    by (simp add: ex_final_def)
  show "hd (sv_rows (snd ex_final)) \<in> set (sv_rows (snd ex_final))" by (rule list.set_sel(1)) code_simp
  show "jb_status (hd (sv_rows (snd ex_final))) \<in> set LIVE" by code_simp
qed

section \<open>Exactly one finish hook\<close>

definition is_finish :: "string \<Rightarrow> effect \<Rightarrow> bool" where
  "is_finish jid x = (case x of Finish_Hook r \<Rightarrow> jb_id r = jid | _ \<Rightarrow> False)"

definition fin_count :: "string \<Rightarrow> service \<Rightarrow> nat" where
  "fin_count jid sv = length (filter (is_finish jid) (sv_effects sv))"

definition hooked :: "service \<Rightarrow> job \<Rightarrow> bool" where
  "hooked sv r = (case kind_of sv (jb_kind r) of Some k \<Rightarrow> ki_on_finish k | None \<Rightarrow> False)"

text \<open>
  \<open>fin_step\<close>: every row that an operation ends gets one call of its kind's \<^verbatim>\<open>on_finish\<close> hook, and no
  other row gets one.
\<close>

definition fin_row :: "service \<Rightarrow> service \<Rightarrow> job \<Rightarrow> job \<Rightarrow> bool" where
  "fin_row sv sv' r r' \<longleftrightarrow> keeps r r' \<and>
     fin_count (jb_id r) sv' =
       fin_count (jb_id r) sv + (if terminal r' \<and> \<not> terminal r \<and> hooked sv r then 1 else 0)"

definition fin_step :: "service \<Rightarrow> service \<Rightarrow> bool" where
  "fin_step sv sv' \<longleftrightarrow> sv_kinds sv' = sv_kinds sv \<and>
     list_all2 (fin_row sv sv') (sv_rows sv) (sv_rows sv') \<and>
     (\<forall>jid. jid \<notin> jb_id ` set (sv_rows sv) \<longrightarrow> fin_count jid sv' = fin_count jid sv)"

lemma fin_row_refl [simp]: "fin_row sv sv r r"
  by (simp add: fin_row_def)

lemma fin_step_refl [simp]: "fin_step sv sv"
  by (simp add: fin_step_def list_all2_refl)

lemma hooked_cong: "sv_kinds sv' = sv_kinds sv \<Longrightarrow> hooked sv' = hooked sv"
  by (simp add: hooked_def kind_of_def fun_eq_iff)

lemma hooked_same: "same_job r r' \<Longrightarrow> hooked sv r' = hooked sv r"
  by (simp add: hooked_def same_job_def)

lemma keeps_terminal: "keeps r r' \<Longrightarrow> terminal r \<Longrightarrow> terminal r'"
  by (auto simp: keeps_def terminal_def)

lemma fin_row_trans:
  assumes "sv_kinds b = sv_kinds a" "fin_row a b r r1" "fin_row b c r1 r2"
  shows "fin_row a c r r2"
proof -
  have k: "keeps r r1" "keeps r1 r2" using assms(2,3) by (simp_all add: fin_row_def)
  have id: "jb_id r1 = jb_id r" using k(1) by (rule keeps_id)
  have h: "hooked b r1 = hooked a r"
    using hooked_cong [OF assms(1)] hooked_same [of r r1] k(1) by (simp add: keeps_def)
  show ?thesis
    using assms(2,3) k keeps_trans [OF k] keeps_terminal [OF k(1)] keeps_terminal [OF k(2)] id h
    unfolding fin_row_def by auto
qed

lemma fin_step_keeps: "fin_step sv sv' \<Longrightarrow> list_all2 keeps (sv_rows sv) (sv_rows sv')"
  unfolding fin_step_def by (elim conjE list_all2_mono) (simp add: fin_row_def)

lemma fin_step_ids: "fin_step sv sv' \<Longrightarrow> map jb_id (sv_rows sv') = map jb_id (sv_rows sv)"
  by (intro keeps_ids fin_step_keeps)

lemma fin_step_trans:
  assumes "fin_step a b" "fin_step b c"
  shows "fin_step a c"
proof -
  have k: "sv_kinds b = sv_kinds a" "sv_kinds c = sv_kinds a" using assms by (simp_all add: fin_step_def)
  have ab: "list_all2 (fin_row a b) (sv_rows a) (sv_rows b)" and bc: "list_all2 (fin_row b c) (sv_rows b) (sv_rows c)"
    using assms by (simp_all add: fin_step_def)
  have "list_all2 (fin_row a c) (sv_rows a) (sv_rows c)"
    by (rule list_all2_trans [OF fin_row_trans [OF k(1)] ab bc])
  moreover have "jb_id ` set (sv_rows b) = jb_id ` set (sv_rows a)"
    by (rule keeps_ids_set [OF fin_step_keeps [OF assms(1)]])
  ultimately show ?thesis using assms k unfolding fin_step_def by simp
qed

abbreviation ids_ok :: "service \<Rightarrow> bool" where
  "ids_ok sv \<equiv> distinct (map jb_id (sv_rows sv))"

lemma fin_foldl:
  assumes "\<And>s x. x \<in> set xs \<Longrightarrow> ids_ok s \<Longrightarrow> fin_step s (f s x)" "ids_ok sv"
  shows "fin_step sv (foldl f sv xs)"
  using assms
proof (induction xs arbitrary: sv)
  case (Cons x xs)
  have 1: "fin_step sv (f sv x)" using Cons.prems by simp
  have "ids_ok (f sv x)" using Cons.prems(2) fin_step_ids [OF 1] by simp
  then have "fin_step (f sv x) (foldl f (f sv x) xs)" using Cons by simp
  with 1 show ?case by (auto intro: fin_step_trans)
qed simp

text \<open>Log entries other than finish hooks, and updates that end nothing.\<close>

lemma fin_count_simps [simp]:
  "fin_count jid (set_rows rows sv) = fin_count jid sv" "fin_count jid (forget j sv) = fin_count jid sv"
  "fin_count jid (signal j sv) = fin_count jid sv" "fin_count jid (hook_cancel k r sv) = fin_count jid sv"
  "fin_count jid (audit_log act r b actor sv) = fin_count jid sv"
  "fin_count jid (emit (Alert_Sent r m) sv) = fin_count jid sv"
  "fin_count jid (emit (Finish_Hook r) sv) = fin_count jid sv + (if jb_id r = jid then 1 else 0)"
  by (auto simp: fin_count_def is_finish_def hook_cancel_def audit_log_def emit_def set_rows_def signal_def forget_def
      split: option.splits)

lemma fin_count_hook:
  "fin_count jid (hook_finish (kind_of sv (jb_kind r)) r' sv) =
     fin_count jid sv + (if hooked sv r \<and> jb_id r' = jid then 1 else 0)"
  by (simp add: hook_finish_def hooked_def split: option.splits)

lemma fin_same_log:
  assumes "sv_kinds sv' = sv_kinds sv" "\<And>jid. fin_count jid sv' = fin_count jid sv"
    and "list_all2 (\<lambda>r r'. keeps r r' \<and> (terminal r' \<longrightarrow> terminal r)) (sv_rows sv) (sv_rows sv')"
  shows "fin_step sv sv'"
  using assms unfolding fin_step_def by (auto elim!: list_all2_mono simp: fin_row_def)

lemma fin_update:
  assumes "sv_kinds sv' = sv_kinds sv" "\<And>jid. fin_count jid sv' = fin_count jid sv"
    and "sv_rows sv' = snd (store_update jid only f (sv_rows sv))"
    and "\<And>r. update_hit jid only r \<Longrightarrow> keeps r (f r) \<and> (terminal (f r) \<longrightarrow> terminal r)"
  shows "fin_step sv sv'"
  using assms by (intro fin_same_log) (simp_all add: store_update_def list_all2_map2 list_all2_same)

text \<open>An update that ends the row \<open>r0\<close>, followed by the hook.\<close>

lemma fin_end:
  assumes "ids_ok sv" "r0 \<in> set (sv_rows sv)" "update_hit (jb_id r0) only r0" "\<not> terminal r0"
    and "keeps r0 (f r0)" "terminal (f r0)" "sv_kinds sv' = sv_kinds sv"
    and "sv_rows sv' = snd (store_update (jb_id r0) only f (sv_rows sv))"
    and "\<And>jid. fin_count jid sv' = fin_count jid sv + (if hooked sv r0 \<and> jb_id r0 = jid then 1 else 0)"
  shows "fin_step sv sv'"
proof -
  have "fin_row sv sv' r (if update_hit (jb_id r0) only r then f r else r)" if r: "r \<in> set (sv_rows sv)" for r
  proof (cases "jb_id r = jb_id r0")
    case True
    then have "r = r0" by (rule unique_row [OF assms(1) r assms(2)])
    then show ?thesis using assms by (simp add: fin_row_def)
  next
    case False
    then have "\<not> update_hit (jb_id r0) only r" by (simp add: update_hit_def)
    then show ?thesis using False assms(9) by (simp add: fin_row_def)
  qed
  then have "list_all2 (fin_row sv sv') (sv_rows sv) (sv_rows sv')"
    by (simp add: assms(8) store_update_def list_all2_map2 list_all2_same)
  moreover have "fin_count jid sv' = fin_count jid sv" if "jid \<notin> jb_id ` set (sv_rows sv)" for jid
  proof -
    have "jb_id r0 \<noteq> jid" using that assms(2) by blast
    then show ?thesis by (simp add: assms(9))
  qed
  ultimately show ?thesis using assms(7) by (simp add: fin_step_def)
qed

lemma get_or_updated:
  assumes "ids_ok sv" "r0 \<in> set (sv_rows sv)" "update_hit (jb_id r0) only r0" "jb_id (f r0) = jb_id r0"
    and "sv_rows sv' = snd (store_update (jb_id r0) only f (sv_rows sv))"
    and "\<And>r. jb_id (f r) = jb_id r"
  shows "get_or (jb_id r0) d sv' = f r0"
proof -
  have "f r0 \<in> set (sv_rows sv')" using assms(2,3) by (auto simp: assms(5) store_update_def)
  moreover have "distinct (map jb_id (sv_rows sv'))"
  proof -
    have "map jb_id (sv_rows sv') = map jb_id (sv_rows sv)"
      using assms(6) by (simp add: assms(5) store_update_def)
    with assms(1) show ?thesis by simp
  qed
  ultimately have "store_get (jb_id (f r0)) (sv_rows sv') = Some (f r0)" by (intro store_get_unique)
  then show ?thesis using assms(4) by (simp add: get_or_def)
qed

lemma hit_row:
  assumes "fst (store_update jid only f rows)"
  obtains r0 where "r0 \<in> set rows" "update_hit jid only r0" "jb_id r0 = jid"
  using assms by (auto simp: store_update_def list_ex_iff update_hit_def)

lemma fin_resolve_failed:
  assumes "ids_ok sv"
  shows "fin_step sv (resolve_failed row msg now a al sv)"
proof -
  let ?f = "set_failed now msg a (jb_state row)"
  show ?thesis
  proof (cases "fst (store_update (jb_id row) [Running] ?f (sv_rows sv))")
    case False
    then show ?thesis by (simp add: resolve_failed_def split_beta)
  next
    case True
    obtain r0 where r0: "r0 \<in> set (sv_rows sv)" "update_hit (jb_id row) [Running] r0" "jb_id r0 = jb_id row"
      using True by (rule hit_row)
    have st: "jb_status r0 = Running" using r0(2) by (simp add: update_hit_def)
    define sv1 where "sv1 = set_rows (snd (store_update (jb_id row) [Running] ?f (sv_rows sv))) sv"
    have row': "get_or (jb_id row) d sv1 = ?f r0" for d
      using get_or_updated [OF assms r0(1), of "[Running]" ?f sv1 d] r0
      by (simp add: sv1_def set_failed_def)
    have eq: "resolve_failed row msg now a al sv =
        hook_finish (kind_of sv1 (jb_kind (?f r0))) (?f r0)
          (audit_log ''jobs.failed'' (?f r0) False (audit_actor [] (?f r0))
             (if sv_alerting sv1 \<and> al then emit (Alert_Sent (?f r0) msg) sv1 else sv1))"
      using True unfolding resolve_failed_def Let_def split_beta sv1_def [symmetric] row' by simp
    show ?thesis
    proof (rule fin_end [OF assms r0(1), where only = "[Running]" and f = ?f])
      show "update_hit (jb_id r0) [Running] r0" using r0 by simp
      show "\<not> terminal r0" using st by (simp add: terminal_def)
      show "keeps r0 (?f r0)" using st by (simp add: keeps_def same_job_def set_failed_def terminal_def)
      show "terminal (?f r0)" by (simp add: terminal_def set_failed_def)
      show "sv_kinds (resolve_failed row msg now a al sv) = sv_kinds sv" unfolding eq by (simp add: sv1_def)
      show "sv_rows (resolve_failed row msg now a al sv) = snd (store_update (jb_id r0) [Running] ?f (sv_rows sv))"
        unfolding eq by (simp add: sv1_def r0(3))
      have h: "hooked sv1 (?f r0) = hooked sv r0"
        by (simp add: hooked_def kind_of_def sv1_def set_failed_def)
      show "fin_count jid (resolve_failed row msg now a al sv) =
          fin_count jid sv + (if hooked sv r0 \<and> jb_id r0 = jid then 1 else 0)" for jid
      proof -
        let ?log = "audit_log ''jobs.failed'' (?f r0) False (audit_actor [] (?f r0))
             (if sv_alerting sv1 \<and> al then emit (Alert_Sent (?f r0) msg) sv1 else sv1)"
        have "kind_of ?log = kind_of sv1" by (simp add: kind_of_def fun_eq_iff)
        then have "hook_finish (kind_of sv1 (jb_kind (?f r0))) (?f r0) ?log =
            hook_finish (kind_of ?log (jb_kind (?f r0))) (?f r0) ?log" by simp
        moreover have "hooked ?log (?f r0) = hooked sv r0"
          using h hooked_cong [of ?log sv1] by simp
        ultimately show ?thesis
          unfolding eq using fin_count_hook [of jid ?log "?f r0" "?f r0"]
          by (simp add: sv1_def set_failed_def)
      qed
    qed
  qed
qed

lemma fin_forget [simp]: "fin_step sv (forget jid sv)"
  by (rule fin_same_log) (simp_all add: list_all2_refl)

lemma outcome_keeps:
  assumes "jb_status r = Running"
  shows "keeps r (outcome_fields now row oc r)"
  using assms by (auto simp: keeps_def same_job_def outcome_fields_def common_fields_def terminal_def Let_def
      split: verb.splits)

lemma outcome_id [simp]: "jb_id (outcome_fields now row oc r) = jb_id r"
  by (auto simp: outcome_fields_def common_fields_def Let_def split: verb.splits)

lemma outcome_terminal: "terminal (outcome_fields now row oc r) \<longleftrightarrow> ends_done row oc"
  by (auto simp: outcome_fields_def common_fields_def terminal_def ends_done_def Let_def split: verb.splits)

lemma fin_apply_row:
  assumes "ids_ok sv" "row \<in> set (sv_rows sv)" "jb_status row = Running"
  shows "fin_step sv (apply_row now row oc sv)"
proof (cases "oc_verb oc = V_fail \<and> oc_retry_in oc = None")
  case True
  then show ?thesis
    using fin_step_trans [OF fin_forget fin_resolve_failed] assms(1) by (simp add: apply_row_def)
next
  case False
  let ?f = "outcome_fields now row oc"
  define sv1 where "sv1 = forget (jb_id row) (set_rows (snd (store_update (jb_id row) [Running] ?f (sv_rows sv))) sv)"
  have eq: "apply_row now row oc sv =
      (if ends_done row oc then hook_finish (kind_of sv1 (jb_kind row)) (get_or (jb_id row) row sv1) sv1 else sv1)"
    unfolding apply_row_def Let_def split_beta sv1_def [symmetric] using False by auto
  have rows1: "sv_rows sv1 = snd (store_update (jb_id row) [Running] ?f (sv_rows sv))" by (simp add: sv1_def)
  have hit: "update_hit (jb_id row) [Running] row" using assms(3) by (simp add: update_hit_def)
  show ?thesis
  proof (cases "ends_done row oc")
    case no: False
    have "fin_step sv sv1"
      by (rule fin_update [OF _ _ rows1])
         (auto simp: sv1_def update_hit_def outcome_keeps outcome_terminal no)
    with no show ?thesis by (simp add: eq)
  next
    case yes: True
    have g: "get_or (jb_id row) row sv1 = ?f row"
      by (rule get_or_updated [OF assms(1,2) hit _ rows1]) simp_all
    have h: "hooked sv1 row = hooked sv row" by (simp add: hooked_def kind_of_def sv1_def)
    show ?thesis
    proof (rule fin_end [OF assms(1,2) hit, where f = ?f])
      show "\<not> terminal row" using assms(3) by (simp add: terminal_def)
      show "keeps row (?f row)" using assms(3) by (rule outcome_keeps)
      show "terminal (?f row)" using yes by (simp add: outcome_terminal)
      show "sv_kinds (apply_row now row oc sv) = sv_kinds sv" using yes by (simp add: eq sv1_def)
      show "sv_rows (apply_row now row oc sv) = snd (store_update (jb_id row) [Running] ?f (sv_rows sv))"
        using yes rows1 by (simp add: eq)
      show "fin_count i (apply_row now row oc sv) =
          fin_count i sv + (if hooked sv row \<and> jb_id row = i then 1 else 0)" for i
        using yes by (simp add: eq g fin_count_hook h) (simp add: sv1_def)
    qed
  qed
qed

lemma fin_apply:
  assumes "ids_ok sv"
  shows "fin_step sv (apply_outcome now jid oc sv)"
  using assms fin_apply_row store_get_SomeD
  by (auto simp: apply_outcome_def split: option.splits)

lemma cancelled_simps [simp]:
  "jb_id (set_cancelled now msg r) = jb_id r" "jb_kind (set_cancelled now msg r) = jb_kind r"
  "terminal (set_cancelled now msg r)"
  by (simp_all add: set_cancelled_def terminal_def)

lemma fin_cancel:
  assumes "ids_ok sv"
  shows "fin_step sv (snd (cancel now jid actor msg sv))"
proof (cases "store_get jid (sv_rows sv)")
  case None
  then show ?thesis by (simp add: cancel_def)
next
  case (Some row)
  have row: "row \<in> set (sv_rows sv)" "jb_id row = jid" using store_get_SomeD [OF Some] by simp_all
  show ?thesis
  proof (cases "jb_status row \<in> set LIVE")
    case False
    then show ?thesis using Some by (simp add: cancel_def)
  next
    case live: True
    let ?f = "set_cancelled now msg"
    have hit: "update_hit (jb_id row) LIVE row" using live by (simp add: update_hit_def)
    then have did: "fst (store_update jid LIVE ?f (sv_rows sv))"
      using row by (auto simp: store_update_def list_ex_iff)
    define sv1 where "sv1 = set_rows (snd (store_update jid LIVE ?f (sv_rows sv))) sv"
    define sv2 where "sv2 = (if jb_status row = Running
        then hook_cancel (kind_of sv1 (jb_kind row)) (row\<lparr>jb_status := Cancelled, jb_message := msg\<rparr>) (signal jid sv1)
        else sv1)"
    have rows2: "sv_rows sv2 = snd (store_update (jb_id row) LIVE ?f (sv_rows sv))"
      by (simp add: sv2_def sv1_def row(2))
    have g: "get_or jid row sv2 = ?f row"
      using get_or_updated [OF assms row(1) hit _ rows2] row(2) by simp
    define sv3 where "sv3 = audit_log ''jobs.cancel'' (?f row) True (audit_actor actor (?f row)) sv2"
    have eq: "snd (cancel now jid actor msg sv) = hook_finish (kind_of sv3 (jb_kind (?f row))) (?f row) sv3"
    proof -
      have "cancel now jid actor msg sv =
          (let row' = get_or jid row sv2; s3 = audit_log ''jobs.cancel'' row' True (audit_actor actor row') sv2
           in (Some row', hook_finish (kind_of s3 (jb_kind row')) row' s3))"
        using Some live did unfolding sv2_def sv1_def by (simp add: cancel_def Let_def split_beta)
      then show ?thesis by (simp add: g sv3_def Let_def)
    qed
    have h: "hooked sv3 (?f row) = hooked sv row"
      by (simp add: hooked_def kind_of_def sv3_def sv2_def sv1_def)
    show ?thesis
    proof (rule fin_end [OF assms row(1) hit, where f = ?f])
      show "\<not> terminal row" using live by (simp add: terminal_iff)
      show "keeps row (?f row)" using live by (simp add: keeps_def same_job_def set_cancelled_def terminal_iff)
      show "terminal (?f row)" by simp
      show "sv_kinds (snd (cancel now jid actor msg sv)) = sv_kinds sv"
        unfolding eq by (simp add: sv3_def sv2_def sv1_def)
      show "sv_rows (snd (cancel now jid actor msg sv)) = snd (store_update (jb_id row) LIVE ?f (sv_rows sv))"
        unfolding eq using rows2 by (simp add: sv3_def)
      show "fin_count i (snd (cancel now jid actor msg sv)) =
          fin_count i sv + (if hooked sv row \<and> jb_id row = i then 1 else 0)" for i
        unfolding eq fin_count_hook h by (simp add: sv3_def sv2_def sv1_def)
    qed
  qed
qed

lemma fin_cancel_where:
  assumes "ids_ok sv"
  shows "fin_step sv (snd (cancel_where now kind thread m msg actor sv))"
proof -
  let ?f = "\<lambda>(n, s) row. if m \<noteq> [] \<and> spec_differs m row then (n, s)
              else (case cancel now (jb_id row) actor msg s of
                      (None, s') \<Rightarrow> (n, s') | (Some _, s') \<Rightarrow> (Suc n, s'))"
  have step: "fin_step (snd p) (snd (?f p row))" if "ids_ok (snd p)" for p row
    using fin_cancel [OF that, of now "jb_id row" actor msg] by (auto split: prod.splits option.splits)
  have "fin_step (snd p) (snd (foldl ?f p rows))" if "ids_ok (snd p)" for p rows
    using that
  proof (induction rows arbitrary: p)
    case (Cons row rows)
    have "ids_ok (snd (?f p row))" using Cons.prems fin_step_ids [OF step [OF Cons.prems]] by metis
    then show ?case using fin_step_trans [OF step [OF Cons.prems] Cons.IH] by simp
  qed simp
  from this [of "(0, sv)"] assms show ?thesis by (simp only: cancel_where_def snd_conv)
qed

lemma fin_time_out: "ids_ok sv \<Longrightarrow> fin_step sv (time_out now sv row)"
proof -
  assume ok: "ids_ok sv"
  let ?s = "hook_cancel (kind_of sv (jb_kind row)) (row\<lparr>jb_message := TIMED_OUT_MSG\<rparr>) (signal (jb_id row) sv)"
  have "fin_step sv ?s" by (rule fin_same_log) (simp_all add: list_all2_refl)
  moreover have "fin_step ?s (resolve_failed row TIMED_OUT_MSG now None True ?s)"
    using ok by (intro fin_resolve_failed) simp
  ultimately show ?thesis by (auto simp: time_out_def intro: fin_step_trans)
qed

lemma fin_plain_update:
  assumes "\<And>r. update_hit jid only r \<Longrightarrow> keeps r (f r) \<and> (terminal (f r) \<longrightarrow> terminal r)"
  shows "fin_step sv (set_rows (snd (store_update jid only f (sv_rows sv))) sv)"
  by (rule fin_update [where jid = jid and only = only and f = f]) (use assms in simp_all)

lemma fin_leases: "ids_ok sv \<Longrightarrow> fin_step sv (leases now sv)"
  unfolding leases_def
  by (rule fin_foldl) (auto intro!: fin_plain_update simp: keeps_def same_job_def terminal_def)

lemma fin_timeouts: "ids_ok sv \<Longrightarrow> fin_step sv (timeouts now sv)"
  unfolding timeouts_def by (rule fin_foldl) (auto intro: fin_time_out)

lemma fin_reap: "ids_ok sv \<Longrightarrow> fin_step sv (reap clk sv)"
proof -
  assume ok: "ids_ok sv"
  let ?s = "sv\<lparr>sv_workers := filter (\<lambda>(jid, w). w = None) (sv_workers sv)\<rparr>"
  have "fin_step sv ?s" by (rule fin_same_log) (simp_all add: list_all2_refl fin_count_def)
  moreover have "fin_step ?s (reap clk sv)"
    unfolding reap_def Let_def using ok by (intro fin_foldl) (auto intro: fin_apply)
  ultimately show ?thesis by (rule fin_step_trans)
qed

lemma fin_launch: "ids_ok sv \<Longrightarrow> fin_step sv (launch clk row sv)"
proof -
  assume ok: "ids_ok sv"
  let ?s = "sv\<lparr>sv_cancel := dict_set (jb_id row) False (sv_cancel sv)\<rparr>"
  have s: "fin_step sv ?s" by (rule fin_same_log) (simp_all add: list_all2_refl fin_count_def)
  have "fin_step sv (?s\<lparr>sv_workers := w\<rparr>)" for w
    by (rule fin_same_log) (simp_all add: list_all2_refl fin_count_def)
  moreover have "fin_step sv (apply_outcome t (jb_id row) oc ?s)" for t oc
    using ok by (intro fin_step_trans [OF s] fin_apply) simp
  ultimately show ?thesis
    using ok by (auto simp: launch_def Let_def fin_apply split: option.splits)
qed

lemma fin_start_loop:
  assumes "ids_ok (ss_service s)"
  shows "fin_step (ss_service s) (ss_service (start_loop now clk w due s))"
  using assms
proof (induction due arbitrary: s)
  case (Cons row due)
  show ?case
  proof (cases "find (\<lambda>key. key \<in> set (ss_held s)) (jb_exclusive row)")
    case (Some clash)
    let ?s = "if jb_message row \<noteq> waiting_msg clash
       then s\<lparr>ss_service := set_rows (snd (store_update (jb_id row) [Queued]
                (\<lambda>r. r\<lparr>jb_message := waiting_msg clash\<rparr>) (sv_rows (ss_service s)))) (ss_service s)\<rparr> else s"
    have 1: "fin_step (ss_service s) (ss_service ?s)"
      by (auto intro!: fin_plain_update simp: keeps_def same_job_def terminal_def)
    have "ids_ok (ss_service ?s)" using Cons.prems fin_step_ids [OF 1] by metis
    from fin_step_trans [OF 1 Cons.IH [OF this]] show ?thesis using Some by simp
  next
    case None
    obtain hit rows where upd: "store_update (jb_id row) [Queued] (set_running now) (sv_rows (ss_service s)) = (hit, rows)"
      by fastforce
    show ?thesis
    proof (cases "ss_count s \<ge> w \<or> \<not> hit")
      case True
      then show ?thesis using None upd Cons by auto
    next
      case False
      let ?s1 = "set_rows rows (ss_service s)"
      have rows: "rows = snd (store_update (jb_id row) [Queued] (set_running now) (sv_rows (ss_service s)))"
        by (simp add: upd)
      have 1: "fin_step (ss_service s) ?s1"
        unfolding rows by (rule fin_plain_update)
          (auto simp: update_hit_def keeps_def same_job_def set_running_def terminal_def)
      have ok1: "ids_ok ?s1" using Cons.prems fin_step_ids [OF 1] by metis
      have 2: "fin_step ?s1 (launch clk r ?s1)" for r using ok1 by (rule fin_launch)
      have ok2: "ids_ok (launch clk r ?s1)" for r using ok1 fin_step_ids [OF 2, of r] by metis
      have 3: "fin_step (ss_service s) (launch clk r ?s1)" for r by (rule fin_step_trans [OF 1 2])
      have "fin_step (ss_service s) (ss_service (start_loop now clk w due (s\<lparr>ss_held := h, ss_count := n,
          ss_started := k, ss_service := launch clk r ?s1\<rparr>)))" for h n k r
        using ok2 by (intro fin_step_trans [OF 3]) (rule Cons.IH [of "s\<lparr>ss_held := h, ss_count := n,
          ss_started := k, ss_service := launch clk r ?s1\<rparr>", simplified])
      then show ?thesis using None upd False by (simp add: Let_def)
    qed
  qed
qed simp

lemma fin_start_due: "ids_ok sv \<Longrightarrow> fin_step sv (snd (start_due now clk cfg sv))"
  using fin_start_loop [of "\<lparr>ss_held = concat (map jb_exclusive (busy_rows sv)), ss_count = int (length (busy_rows sv)),
       ss_started = 0, ss_service = sv\<rparr>"]
  by (simp add: start_due_def Let_def)

lemma fin_recover_one:
  assumes "ids_ok sv" "\<And>r. r \<in> set (sv_rows sv) \<Longrightarrow> jb_id r = jb_id row \<Longrightarrow> jb_status r = Running"
  shows "fin_step sv (recover_one now sv row)"
proof -
  let ?s = "set_rows (snd (store_update (jb_id row) [] (set_requeued now) (sv_rows sv))) sv"
  have "list_all2 (\<lambda>r r'. keeps r r' \<and> (terminal r' \<longrightarrow> terminal r)) (sv_rows sv) (sv_rows ?s)"
    unfolding store_update_def snd_conv service_frames list_all2_map2 list_all2_same
  proof (intro ballI)
    fix r assume r: "r \<in> set (sv_rows sv)"
    show "keeps r (if update_hit (jb_id row) [] r then set_requeued now r else r) \<and>
        (terminal (if update_hit (jb_id row) [] r then set_requeued now r else r) \<longrightarrow> terminal r)"
    proof (cases "jb_id r = jb_id row")
      case True
      have "jb_status r = Running" using r True by (rule assms(2))
      then show ?thesis by (simp add: keeps_def same_job_def set_requeued_def terminal_def)
    next
      case False
      then show ?thesis by (simp add: update_hit_def)
    qed
  qed
  then have "fin_step sv ?s" by (intro fin_same_log) simp_all
  then show ?thesis
    using assms(1) by (cases "kind_of sv (jb_kind row)") (simp_all add: recover_one_def fin_resolve_failed)
qed

lemma fin_recover_fold:
  assumes "distinct (map jb_id xs)" "ids_ok sv"
    and "\<And>row r. row \<in> set xs \<Longrightarrow> r \<in> set (sv_rows sv) \<Longrightarrow> jb_id r = jb_id row \<Longrightarrow> jb_status r = Running"
  shows "fin_step sv (foldl (recover_one now) sv xs)"
  using assms
proof (induction xs arbitrary: sv)
  case (Cons x xs)
  have 1: "fin_step sv (recover_one now sv x)"
    using Cons.prems(2) by (rule fin_recover_one) (rule Cons.prems(3) [of x], simp_all)
  have "fin_step (recover_one now sv x) (foldl (recover_one now) (recover_one now sv x) xs)"
  proof (rule Cons.IH)
    show "ids_ok (recover_one now sv x)" using Cons.prems(2) fin_step_ids [OF 1] by metis
    fix row r assume *: "row \<in> set xs" "r \<in> set (sv_rows (recover_one now sv x))" "jb_id r = jb_id row"
    then have "jb_id r \<noteq> jb_id x" using Cons.prems(1) by force
    then have "r \<in> set (sv_rows sv)" using touches_other [OF touches_recover_one] * by blast
    then show "jb_status r = Running" using *(1,3) by (intro Cons.prems(3) [of row r]) simp_all
  qed (use Cons.prems in simp)
  with 1 show ?case by (auto intro: fin_step_trans)
qed simp

lemma fin_restart: "ids_ok sv \<Longrightarrow> fin_step sv (restart now sv)"
proof -
  assume ok: "ids_ok sv"
  let ?s = "sv\<lparr>sv_workers := [], sv_cancel := [], sv_last_sweep := 0\<rparr>"
  have "fin_step sv ?s" by (rule fin_same_log) (simp_all add: list_all2_refl fin_count_def)
  moreover have "fin_step ?s (foldl (recover_one now) ?s (store_running (sv_rows ?s)))"
    using distinct_ids_running [of "sv_rows ?s"] ok
    by (intro fin_recover_fold) (auto dest: unique_row [OF ok])
  ultimately show ?thesis by (simp add: restart_def job_recover_def fin_step_trans)
qed

text \<open>The invariant: a hook call for every ended row, none for a live one, and none for unknown ids.\<close>

definition fin_inv :: "ledger_state \<Rightarrow> bool" where
  "fin_inv us \<longleftrightarrow>
     (\<forall>jid. fin_count jid (snd us) \<le> 1) \<and>
     (\<forall>jid. jid \<notin> set (fst us) \<longrightarrow> fin_count jid (snd us) = 0) \<and>
     (\<forall>r \<in> set (sv_rows (snd us)).
        fin_count (jb_id r) (snd us) = (if terminal r \<and> hooked (snd us) r then 1 else 0))"

lemma fin_inv_step:
  assumes "fin_inv (used, sv)" "fin_step sv sv'" "jb_id ` set (sv_rows sv) \<subseteq> set used"
  shows "fin_inv (used, sv')"
proof -
  have rows: "list_all2 (fin_row sv sv') (sv_rows sv) (sv_rows sv')" and kinds: "sv_kinds sv' = sv_kinds sv"
    and other: "\<And>jid. jid \<notin> jb_id ` set (sv_rows sv) \<Longrightarrow> fin_count jid sv' = fin_count jid sv"
    using assms(2) by (simp_all add: fin_step_def)
  have row: "fin_count (jb_id r') sv' = (if terminal r' \<and> hooked sv' r' then 1 else 0)"
    if mem: "r' \<in> set (sv_rows sv')" for r'
  proof -
    obtain r where r: "r \<in> set (sv_rows sv)" "fin_row sv sv' r r'"
      using rows mem by (induction rule: list_all2_induct) auto
    have k: "keeps r r'" using r(2) by (simp add: fin_row_def)
    have h: "hooked sv' r' = hooked sv r"
      using hooked_cong [OF kinds] hooked_same [of r r'] k by (simp add: keeps_def)
    have c: "fin_count (jb_id r) sv = (if terminal r \<and> hooked sv r then 1 else 0)"
      using assms(1) r(1) by (simp add: fin_inv_def)
    show ?thesis
      using r(2) c keeps_terminal [OF k] unfolding fin_row_def keeps_id [OF k] h by auto
  qed
  have "fin_count jid sv' \<le> 1" for jid
  proof (cases "jid \<in> jb_id ` set (sv_rows sv')")
    case True
    then obtain r' where r': "r' \<in> set (sv_rows sv')" "jid = jb_id r'" by blast
    show ?thesis unfolding r'(2) row [OF r'(1)] by simp
  next
    case False
    then have "jid \<notin> jb_id ` set (sv_rows sv)"
      using keeps_ids_set [OF fin_step_keeps [OF assms(2)]] by simp
    then show ?thesis using other [of jid] assms(1) by (simp add: fin_inv_def)
  qed
  moreover have "fin_count jid sv' = 0" if "jid \<notin> set used" for jid
  proof -
    have "jid \<notin> jb_id ` set (sv_rows sv)" using that assms(3) by blast
    then show ?thesis using other [of jid] assms(1) that by (simp add: fin_inv_def)
  qed
  ultimately show ?thesis using row by (simp add: fin_inv_def)
qed

lemma fin_inv_event:
  assumes inv: "job_inv cfg us" and fin: "fin_inv us"
  shows "fin_inv (job_step cfg ev us)"
proof -
  obtain used sv where us: "us = (used, sv)" by fastforce
  have ok: "ids_ok sv" and sub: "jb_id ` set (sv_rows sv) \<subseteq> set used"
    using inv by (simp_all add: us job_inv_def store_wf_def)
  note go = fin_inv_step [OF fin [unfolded us] _ sub]
  have upd: "fin_inv (used, set_rows (snd (store_update jid only f (sv_rows sv))) sv)"
    if "\<And>r. update_hit jid only r \<Longrightarrow> keeps r (f r) \<and> (terminal (f r) \<longrightarrow> terminal r)" for jid only f
    using that by (intro go fin_plain_update)
  show ?thesis
  proof (cases ev)
    case (Ev_Submit jid now sm)
    show ?thesis
    proof (cases "jid \<in> set used \<or> (\<exists>e. submit jid now sm sv = Inl e)")
      case True
      then show ?thesis using fin by (auto simp: us Ev_Submit)
    next
      case False
      then obtain row sv' where sm: "submit jid now sm sv = Inr (row, sv')" "jid \<notin> set used"
        by (cases "submit jid now sm sv") auto
      have new: "jid \<notin> jb_id ` set (sv_rows sv)" using sub sm(2) by blast
      note sv' = submit_cases [OF sm(1) new]
      have cnt: "fin_count i sv' = fin_count i sv" for i
        using sm(1) by (elim submit_Inr) simp
      have "fin_count jid sv = 0" using fin sm(2) by (simp add: us fin_inv_def)
      moreover have "\<not> terminal row" using sv'(3) by (simp add: terminal_def)
      ultimately have "fin_inv (jid # used, sv')"
        using fin hooked_cong [OF sv'(5)] unfolding us fin_inv_def by (auto simp: sv'(1,2) cnt)
      then show ?thesis using sm by (simp add: us Ev_Submit)
    qed
  next
    case (Ev_Sweep now)
    have "fin_count i (sweep_daily now cfg sv) = fin_count i sv" for i
      by (simp add: sweep_daily_def fin_count_def)
    moreover have "sv_kinds (sweep_daily now cfg sv) = sv_kinds sv" by (simp add: sweep_daily_def)
    moreover have "set (sv_rows (sweep_daily now cfg sv)) \<subseteq> set (sv_rows sv)" using sweep_rows [of now cfg sv] by auto
    ultimately show ?thesis
      using fin hooked_cong [of "sweep_daily now cfg sv" sv] unfolding us Ev_Sweep fin_inv_def by auto
  next
    case (Ev_Worker_Done jid box)
    have "fin_step sv (worker_done jid box sv)"
      by (rule fin_same_log) (simp_all add: worker_done_def list_all2_refl fin_count_def)
    then show ?thesis by (simp add: us Ev_Worker_Done go)
  next
    case (Ev_Annotate jid msg)
    then show ?thesis
      using upd [of jid "[Cancelled, Failed, Done]" "\<lambda>r. r\<lparr>jb_message := msg\<rparr>"]
      by (simp add: us annotate_def split_beta keeps_def same_job_def terminal_def)
  next
    case (Ev_Set_State jid st)
    then show ?thesis
      using upd [of jid LIVE "\<lambda>r. r\<lparr>jb_state := st\<rparr>"]
      by (simp add: us set_state_def split_beta keeps_def same_job_def terminal_def)
  next
    case (Ev_Ack now jid actor)
    have "fin_step sv (snd (ack now jid actor sv))"
      by (auto simp: ack_def split_beta Let_def keeps_def same_job_def terminal_def split: option.splits
          intro!: fin_update [where jid = jid and only = "[Failed]" and f = "\<lambda>r. r\<lparr>jb_acked := Some now\<rparr>"])
    then show ?thesis by (simp add: us Ev_Ack go)
  qed (auto simp: us intro!: go fin_cancel fin_cancel_where fin_reap fin_timeouts fin_leases fin_start_due fin_restart ok)
qed

definition fresh :: "ledger_state \<Rightarrow> bool" where
  "fresh us \<longleftrightarrow> fst us = [] \<and> sv_rows (snd us) = [] \<and> sv_workers (snd us) = [] \<and> sv_effects (snd us) = []"

interpretation hooks: machine fresh "job_step cfg" "\<lambda>us. job_inv cfg us \<and> fin_inv us" for cfg
proof unfold_locales
  fix us assume "fresh us"
  then have "booted us" "fin_inv us"
    by (auto simp: fresh_def booted_def fin_inv_def fin_count_def split: prod.splits)
  then show "job_inv cfg us \<and> fin_inv us" by (simp add: job_inv_boot)
next
  fix us ev assume "job_inv cfg us \<and> fin_inv us"
  then show "job_inv cfg (job_step cfg ev us) \<and> fin_inv (job_step cfg ev us)"
    by (simp add: job_inv_step fin_inv_event)
qed

text \<open>
  C26: from an empty ledger, after any sequence of events (restarts included), each of which runs to its end
  before the next one begins, the \<^verbatim>\<open>on_finish\<close> hook of a kind has been called exactly once for every job of that
  kind that has ended, not at all for one that is queued or running, and never twice for any job, swept ones
  included. An event is a request, a worker that ends, or a phase of the dispatcher (\<^verbatim>\<open>_reap\<close>, \<^verbatim>\<open>_timeouts\<close>,
  \<^verbatim>\<open>_leases\<close>, \<^verbatim>\<open>_start_due\<close>, the sweep); in the code a request may fall into the middle of a phase, which
  the next theorem is about.\<close>

theorem finish_hook_exactly_once:
  assumes "fresh us" "fold (job_step cfg) es us = (used, sv)"
  shows "(\<forall>r \<in> set (sv_rows sv). hooked sv r \<longrightarrow> fin_count (jb_id r) sv = (if terminal r then 1 else 0)) \<and>
         (\<forall>jid. fin_count jid sv \<le> 1)"
proof -
  have "fin_inv (used, sv)" using hooks.inv_run [OF assms(1), of cfg es] unfolding assms(2) by blast
  then show ?thesis by (simp add: fin_inv_def)
qed

theorem finish_hook_exactly_once_witness:
  "fin_count ''j1'' (snd (fold (job_step ex_config) ex_cancelled_events ([], ex_service))) = 1 \<and>
   (\<forall>jid. fin_count jid (snd (fold (job_step ex_config) ex_cancelled_events ([], ex_service))) \<le> 1)"
proof -
  let ?us = "fold (job_step ex_config) ex_cancelled_events ([], ex_service)"
  have "fresh ([], ex_service)" by (simp add: fresh_def ex_service_def)
  moreover have "?us = (fst ?us, snd ?us)" by simp
  ultimately have "\<forall>jid. fin_count jid (snd ?us) \<le> 1"
    using finish_hook_exactly_once [of "([], ex_service)" ex_config ex_cancelled_events "fst ?us" "snd ?us"] by blast
  moreover have "fin_count ''j1'' (snd ?us) = 1" by code_simp
  ultimately show ?thesis by blast
qed

text \<open>
  C32: exactly once depends on that: whenever \<^verbatim>\<open>_apply\<close> has read a running row and the job then ends in some other
  way (a cancellation, a time-out) before \<^verbatim>\<open>_apply\<close> writes an outcome that would finish it, the hook runs
  twice for that job. The guarded update changes nothing, the row stays as it ended, but \<^verbatim>\<open>_apply\<close> calls
  \<^verbatim>\<open>on_finish\<close> without looking at whether the update hit.\<close>

theorem apply_race_double_finish:
  assumes "fresh us" "fold (job_step cfg) es us = (used, sv)"
    and "store_get jid (sv_rows sv) = Some row" "ends_done row oc"
    and "fold (job_step cfg) es' (used, sv) = (used', sv')"
    and "store_get jid (sv_rows sv') = Some r'" "terminal r'" "hooked sv' r'" "jb_status row = Running"
  shows "fin_count jid (apply_row now row oc sv') = 2 \<and>
    store_get jid (sv_rows (apply_row now row oc sv')) = Some r'"
proof -
  have run: "fold (job_step cfg) (es @ es') us = (used', sv')" using assms(2,5) by simp
  have boot: "booted us" using assms(1) by (auto simp: fresh_def booted_def split: prod.splits)
  have inv: "job_inv cfg (used', sv')" "fin_inv (used', sv')"
    using hooks.inv_run [OF assms(1), of cfg "es @ es'"] unfolding run by blast+
  have ids: "distinct (map jb_id (sv_rows sv'))" using inv(1) by (simp add: job_inv_def store_wf_def)
  note r' = store_get_SomeD [OF assms(6)]
  have "jid \<in> set used"
    using jobs.inv_run [OF boot, of cfg es] store_get_SomeD [OF assms(3)]
    by (auto simp: assms(2) job_inv_def store_wf_def)
  moreover have "job_legal (used, sv) (used', sv')"
    using jobs.legal_run [OF boot, of cfg es es'] unfolding run assms(2) .
  ultimately have "keeps row r'" using assms(3,6) unfolding job_legal_def by fastforce
  then have same: "jb_id row = jid" "jb_kind row = jb_kind r'"
    using store_get_SomeD [OF assms(3)] by (simp_all add: keeps_def same_job_def)
  have "\<not> update_hit jid [Running] x" if "x \<in> set (sv_rows sv')" for x
    using unique_row [OF ids that] r' assms(7) by (auto simp: update_hit_def terminal_def)
  then have upd: "snd (store_update jid [Running] f (sv_rows sv')) = sv_rows sv'" for f
    by (simp add: store_update_def map_idI)
  let ?sv1 = "forget jid (set_rows (sv_rows sv') sv')"
  have rows: "sv_rows ?sv1 = sv_rows sv'" "sv_kinds ?sv1 = sv_kinds sv'" by (simp_all add: forget_def set_rows_def)
  have "apply_row now row oc sv' = hook_finish (kind_of ?sv1 (jb_kind row)) (get_or jid row ?sv1) ?sv1"
    using assms(4) upd by (auto simp: apply_row_def split_beta Let_def same(1) ends_done_def)
  moreover have "get_or jid row ?sv1 = r'" by (simp add: get_or_def rows assms(6))
  ultimately have ap: "apply_row now row oc sv' = hook_finish (kind_of ?sv1 (jb_kind r')) r' ?sv1" by (simp add: same(2))
  have "fin_count jid sv' = 1" using inv(2) r' assms(7,8) by (auto simp: fin_inv_def)
  moreover have "hooked ?sv1 r'" using hooked_cong [OF rows(2)] assms(8) by simp
  ultimately have "fin_count jid (apply_row now row oc sv') = 2" unfolding ap fin_count_hook using r' by simp
  moreover have "sv_rows (apply_row now row oc sv') = sv_rows sv'"
    unfolding ap by (simp add: hook_finish_def emit_def rows split: option.splits)
  ultimately show ?thesis using assms(6) by simp
qed

theorem apply_race_double_finish_witness:
  "fin_count ''j1'' (apply_row 14 (the (store_get ''j1'' (sv_rows (snd ex_final)))) (job_ok None None ''done'')
     (snd (job_step ex_config (Ev_Cancel 13 ''j1'' ''ann'' CANCELLED_MSG) ex_final))) = 2"
proof -
  let ?row = "the (store_get ''j1'' (sv_rows (snd ex_final)))"
  let ?us = "job_step ex_config (Ev_Cancel 13 ''j1'' ''ann'' CANCELLED_MSG) ex_final"
  let ?r = "the (store_get ''j1'' (sv_rows (snd ?us)))"
  have "fresh ([], ex_service)" by (simp add: fresh_def ex_service_def)
  moreover have "fold (job_step ex_config) ex_events ([], ex_service) = (fst ex_final, snd ex_final)"
    by (simp add: ex_final_def)
  moreover have "store_get ''j1'' (sv_rows (snd ex_final)) \<noteq> None" by code_simp
  then have "store_get ''j1'' (sv_rows (snd ex_final)) = Some ?row" by simp
  moreover have "ends_done ?row (job_ok None None ''done'')" by code_simp
  moreover have "fold (job_step ex_config) [Ev_Cancel 13 ''j1'' ''ann'' CANCELLED_MSG] (fst ex_final, snd ex_final) =
      (fst ?us, snd ?us)" by simp
  moreover have "store_get ''j1'' (sv_rows (snd ?us)) \<noteq> None" by code_simp
  then have "store_get ''j1'' (sv_rows (snd ?us)) = Some ?r" by simp
  moreover have "terminal ?r" "hooked (snd ?us) ?r" "jb_status ?row = Running" by code_simp+
  ultimately show ?thesis using apply_race_double_finish [of "([], ex_service)"] by blast
qed

section \<open>Periodic jobs\<close>

text \<open>A run of a queued row that is started at \<open>s\<close> and reports \<^verbatim>\<open>ok\<close> at \<open>t\<close>.\<close>

definition ok_run :: "job_outcome \<Rightarrow> secs \<times> secs \<Rightarrow> job \<Rightarrow> job" where
  "ok_run oc st r = (case st of (s, t) \<Rightarrow>
     if jb_status r = Queued then outcome_fields t (set_running s r) oc (set_running s r) else r)"

lemma ok_run_repeat:
  assumes "oc_verb oc = V_ok" "jb_status r = Queued" "jb_period r = Some p" "p \<noteq> 0" "jb_runs_left r = Some n" "n > 1"
  shows "jb_status (ok_run oc st r) = Queued" "jb_period (ok_run oc st r) = Some p"
    "jb_runs_left (ok_run oc st r) = Some (n - 1)" "jb_run_count (ok_run oc st r) = jb_run_count r + 1"
  using assms by (auto simp: ok_run_def outcome_fields_def common_fields_def set_running_def repeats_def Let_def
      split: prod.splits)

lemma ok_run_last:
  assumes "oc_verb oc = V_ok" "jb_status r = Queued" "jb_runs_left r = Some n" "n \<le> 1"
  shows "jb_status (ok_run oc st r) = Done" "jb_run_count (ok_run oc st r) = jb_run_count r + 1"
  using assms by (auto simp: ok_run_def outcome_fields_def common_fields_def set_running_def repeats_def Let_def
      split: prod.splits)

lemma ok_run_done: "jb_status r = Done \<Longrightarrow> fold (ok_run oc) sts r = r"
  by (induction sts) (auto simp: ok_run_def split: prod.splits)

text \<open>
  a periodic job with \<open>n\<close> runs left runs exactly \<open>n\<close> times: after \<open>k\<close> successful runs it is queued
  again with \<open>n - k\<close> runs left when \<open>k < n\<close>, and done with exactly \<open>n\<close> runs counted from then on, however
  many more dispatches are attempted.\<close>

theorem periodic_job_runs_exactly:
  assumes "oc_verb oc = V_ok" "jb_status r = Queued" "jb_period r = Some p" "p \<noteq> 0" "jb_runs_left r = Some (int n)" "n \<ge> 1"
  shows "let r' = fold (ok_run oc) sts r
         in if length sts < n
            then jb_status r' = Queued \<and> jb_runs_left r' = Some (int n - int (length sts)) \<and>
                 jb_run_count r' = jb_run_count r + length sts
            else jb_status r' = Done \<and> jb_run_count r' = jb_run_count r + n"
  using assms(2-6)
proof (induction sts arbitrary: r n)
  case Nil
  then show ?case by simp
next
  case (Cons st sts)
  show ?case
  proof (cases "n = 1")
    case True
    have "int n \<le> 1" using True by simp
    note l = ok_run_last [OF assms(1) Cons.prems(1,4) this, of st]
    show ?thesis using True l ok_run_done [OF l(1)] by simp
  next
    case False
    then have n: "int n > 1" "n - 1 \<ge> 1" using Cons.prems(5) by simp_all
    note l = ok_run_repeat [OF assms(1) Cons.prems(1-4) n(1), of st]
    have "int n - 1 = int (n - 1)" using n by simp
    then have left: "jb_runs_left (ok_run oc st r) = Some (int (n - 1))" using l(3) by (simp only:)
    show ?thesis
      using Cons.IH [OF l(1,2) Cons.prems(3) left n(2)] n(2) l(4) unfolding Let_def by auto
  qed
qed

definition ex_periodic :: job where
  "ex_periodic = (new_row ''j1'' 10 ex_kind [] ex_submission)\<lparr>jb_period := Some 60, jb_runs_left := Some (int 2)\<rparr>"

theorem periodic_job_runs_exactly_witness:
  "jb_status (fold (ok_run (job_ok None None ''done'')) [(10, 12), (70, 72), (130, 132)] ex_periodic) = Done \<and>
   jb_run_count (fold (ok_run (job_ok None None ''done'')) [(10, 12), (70, 72), (130, 132)] ex_periodic) = 2"
proof -
  have "oc_verb (job_ok None None ''done'') = V_ok" "jb_status ex_periodic = Queued" "jb_period ex_periodic = Some 60"
    "(60 :: secs) \<noteq> 0" "jb_runs_left ex_periodic = Some (int 2)" "(2 :: nat) \<ge> 1" "jb_run_count ex_periodic = 0"
    by (simp_all add: job_ok_def ex_periodic_def new_row_def Let_def)
  from periodic_job_runs_exactly [OF this(1-6), of "[(10, 12), (70, 72), (130, 132)]"] this(7)
  show ?thesis by (simp add: Let_def)
qed

section \<open>Time-outs and leases\<close>

lemma time_out_rows:
  assumes "ids_ok sv" "r' \<in> set (sv_rows (time_out now sv row))" "jb_status r' = Running"
  shows "r' \<in> set (sv_rows sv) \<and> (r' = row \<longrightarrow> \<not> overrun now sv row)"
proof (cases "overrun now sv row")
  case False
  then show ?thesis using assms by (simp add: time_out_def)
next
  case True
  let ?s = "hook_cancel (kind_of sv (jb_kind row)) (row\<lparr>jb_message := TIMED_OUT_MSG\<rparr>) (signal (jb_id row) sv)"
  let ?f = "set_failed now TIMED_OUT_MSG None (jb_state row)"
  have rows: "sv_rows (time_out now sv row) = snd (store_update (jb_id row) [Running] ?f (sv_rows sv)) \<or>
      (sv_rows (time_out now sv row) = sv_rows sv \<and> \<not> fst (store_update (jb_id row) [Running] ?f (sv_rows sv)))"
    using True by (simp add: time_out_def resolve_failed_def Let_def split_beta)
  then show ?thesis
  proof
    assume eq: "sv_rows (time_out now sv row) = snd (store_update (jb_id row) [Running] ?f (sv_rows sv))"
    obtain r where r: "r \<in> set (sv_rows sv)" "r' = (if update_hit (jb_id row) [Running] r then ?f r else r)"
      using assms(2) unfolding eq store_update_def snd_conv set_map by (elim imageE)
    have nh: "\<not> update_hit (jb_id row) [Running] r" and "r' = r"
      using r(2) assms(3) by (auto simp: set_failed_def split: if_splits)
    then show ?thesis using r(1) assms(3) by (auto simp: update_hit_def)
  next
    assume eq: "sv_rows (time_out now sv row) = sv_rows sv \<and> \<not> fst (store_update (jb_id row) [Running] ?f (sv_rows sv))"
    then have "r' \<noteq> row" using assms(2,3) by (auto simp: store_update_def list_ex_iff update_hit_def)
    then show ?thesis using eq assms(2) by simp
  qed
qed

lemma overrun_cong: "sv_kinds sv' = sv_kinds sv \<Longrightarrow> overrun now sv' = overrun now sv"
proof -
  assume "sv_kinds sv' = sv_kinds sv"
  then have "kind_of sv' = kind_of sv" by (simp add: kind_of_def fun_eq_iff)
  then show ?thesis by (intro ext) (simp only: overrun_def)
qed

lemma timeouts_fold_rows:
  assumes "ids_ok sv" "r' \<in> set (sv_rows (foldl (time_out now) sv xs))" "jb_status r' = Running"
  shows "r' \<in> set (sv_rows sv) \<and> (r' \<in> set xs \<longrightarrow> \<not> overrun now sv r')"
  using assms
proof (induction xs arbitrary: sv)
  case (Cons x xs)
  have f: "fin_step sv (time_out now sv x)" using Cons.prems(1) by (rule fin_time_out)
  have ok: "ids_ok (time_out now sv x)" using Cons.prems(1) fin_step_ids [OF f] by metis
  have k: "sv_kinds (time_out now sv x) = sv_kinds sv" using f by (simp add: fin_step_def)
  have IH: "r' \<in> set (sv_rows (time_out now sv x)) \<and> (r' \<in> set xs \<longrightarrow> \<not> overrun now (time_out now sv x) r')"
    using Cons.prems by (intro Cons.IH [OF ok]) simp_all
  have "r' \<in> set (sv_rows sv) \<and> (r' = x \<longrightarrow> \<not> overrun now sv x)"
    using time_out_rows [OF Cons.prems(1)] IH Cons.prems(3) by blast
  then show ?case using IH by (auto simp: overrun_cong [OF k])
qed simp

text \<open>
  C31: after the time-out phase of a tick no running job is over its limit: every running row whose
  handler has been running longer than its kind allows has been failed.\<close>

theorem no_overrun_after_timeouts:
  assumes "booted us" "fold (job_step cfg) es us = (used, sv)"
    and "r \<in> set (sv_rows (timeouts now sv))" "jb_status r = Running"
  shows "\<not> overrun now (timeouts now sv) r"
proof -
  have inv: "job_inv cfg (used, sv)" using jobs.inv_run [OF assms(1), of cfg es] unfolding assms(2) .
  then have ok: "ids_ok sv" by (simp add: job_inv_def store_wf_def)
  have "r \<in> set (sv_rows sv) \<and> (r \<in> set (store_running (sv_rows sv)) \<longrightarrow> \<not> overrun now sv r)"
    using timeouts_fold_rows [OF ok, of r now "store_running (sv_rows sv)"] assms(3,4) by (simp add: timeouts_def)
  then have "\<not> overrun now sv r" using assms(4) by simp
  moreover have "sv_kinds (timeouts now sv) = sv_kinds sv" using fin_timeouts [OF ok] by (simp add: fin_step_def)
  ultimately show ?thesis using overrun_cong by metis
qed

definition ex_two_running :: "job_event list" where
  "ex_two_running = [Ev_Submit ''j1'' 10 ex_submission, Ev_Start_Due 12 (\<lambda>_. 12)]"

theorem no_overrun_after_timeouts_witness:
  "let sv = snd (fold (job_step ex_config) ex_two_running ([], ex_service))
   in jb_status (hd (sv_rows (timeouts 50 sv))) = Running \<and>
      \<not> overrun 50 (timeouts 50 sv) (hd (sv_rows (timeouts 50 sv))) \<and>
      jb_status (hd (sv_rows (timeouts 73 sv))) = Failed"
proof -
  let ?us = "fold (job_step ex_config) ex_two_running ([], ex_service)"
  have eq: "?us = (fst ?us, snd ?us)" by simp
  have run: "jb_status (hd (sv_rows (timeouts 50 (snd ?us)))) = Running" by code_simp
  have mem: "hd (sv_rows (timeouts 50 (snd ?us))) \<in> set (sv_rows (timeouts 50 (snd ?us)))"
    by (rule list.set_sel(1)) code_simp
  have "jb_status (hd (sv_rows (timeouts 73 (snd ?us)))) = Failed" by code_simp
  with run no_overrun_after_timeouts [OF ex_booted eq mem run] show ?thesis by (simp add: Let_def)
qed

section \<open>Permissions of the routes\<close>

text \<open>
  the cancel route changes the ledger only for a job that is queued or running, and only on behalf
  of an admin or of the operator who owns the job; every other request is answered with an error and
  leaves the service untouched.\<close>

theorem cancel_route_authorized:
  assumes "snd (jobs_cancel fmt now role user jid sv) \<noteq> sv"
  shows "\<exists>row. store_get (take 32 jid) (sv_rows sv) = Some row \<and> jb_status row \<in> set LIVE \<and>
           (role = Some ''admin'' \<or> (role = Some ''operator'' \<and> user \<noteq> [] \<and> user = jb_user row))"
proof -
  obtain ro where ro: "role = Some ro" using assms by (cases role) (auto simp: jobs_cancel_def)
  obtain row where row: "store_get (take 32 jid) (sv_rows sv) = Some row"
    using assms ro by (cases "store_get (take 32 jid) (sv_rows sv)") (auto simp: jobs_cancel_def Let_def)
  have "vw_can_cancel (view fmt sv row role (Some (snd (who role user))) False)"
    using assms ro row by (auto simp: jobs_cancel_def Let_def split: if_splits)
  then have "jb_status row \<in> set LIVE \<and> own_job role (Some (snd (who role user))) row" by (simp add: view_def)
  then show ?thesis using row ro by (auto simp: own_job_def who_def split: if_splits)
qed

theorem cancel_route_authorized_witness:
  "\<exists>row. store_get ''j1'' (sv_rows (snd ex_final)) = Some row \<and> jb_status row \<in> set LIVE \<and>
     ''ann'' = jb_user row"
proof -
  have "map jb_status (sv_rows (snd (jobs_cancel (\<lambda>_. []) 13 (Some ''operator'') ''ann'' ''j1'' (snd ex_final)))) \<noteq>
      map jb_status (sv_rows (snd ex_final))" by code_simp
  then have "snd (jobs_cancel (\<lambda>_. []) 13 (Some ''operator'') ''ann'' ''j1'' (snd ex_final)) \<noteq> snd ex_final" by metis
  from cancel_route_authorized [OF this] show ?thesis by simp
qed

end
