(* ===== verification/RateWindows.thy ===== *)
theory RateWindows
  imports Interfaces
begin

text \<open>
  The sliding-window counters of the manager
  (\<^verbatim>\<open>src/llm-systems-manager/backend/rate_counter.py\<close>): an event counter, a bounded window of
  numeric samples with nearest-rank percentiles, and a bounded ring of time stamps. Each method
  holds the object's lock for its whole body, so a method is one function on the object's record;
  \<open>clock\<close> is what \<^verbatim>\<open>time.time()\<close> returns and \<open>now\<close> the optional argument of the method.
\<close>

section \<open>Clocks\<close>

definition at_time :: "secs \<Rightarrow> secs option \<Rightarrow> secs" where
  "at_time clock now = (case now of None \<Rightarrow> clock | Some t \<Rightarrow> t)"

section \<open>Event counter\<close>

record rate_counter =
  rc_window :: secs
  rc_events :: "(secs \<times> int) list"

definition RateCounter :: "secs \<Rightarrow> rate_counter" where
  "RateCounter window_s = \<lparr>rc_window = window_s, rc_events = []\<rparr>"

definition rc_expired :: "secs \<Rightarrow> secs \<Rightarrow> secs \<times> int \<Rightarrow> bool" where
  "rc_expired w now e \<longleftrightarrow> fst e < now - w"

definition rc_prune :: "secs \<Rightarrow> rate_counter \<Rightarrow> rate_counter" where
  "rc_prune now c = c\<lparr>rc_events := dropWhile (rc_expired (rc_window c) now) (rc_events c)\<rparr>"

definition rc_add :: "int \<Rightarrow> secs \<Rightarrow> secs option \<Rightarrow> rate_counter \<Rightarrow> rate_counter" where
  "rc_add n clock now c =
     (if n \<le> 0 then c
      else let t = at_time clock now in rc_prune t (c\<lparr>rc_events := rc_events c @ [(t, n)]\<rparr>))"

definition rc_total :: "secs \<Rightarrow> secs option \<Rightarrow> rate_counter \<Rightarrow> int \<times> rate_counter" where
  "rc_total clock now c =
     (let c' = rc_prune (at_time clock now) c in (sum_list (map snd (rc_events c')), c'))"

definition rc_per_s :: "secs \<Rightarrow> secs option \<Rightarrow> rate_counter \<Rightarrow> rat \<times> rate_counter" where
  "rc_per_s clock now c =
     (if rc_window c > 0 then let (n, c') = rc_total clock now c in (of_int n / rc_window c', c')
      else (0, c))"

definition rc_per_min :: "secs \<Rightarrow> secs option \<Rightarrow> rate_counter \<Rightarrow> rat \<times> rate_counter" where
  "rc_per_min clock now c = (let (r, c') = rc_per_s clock now c in (r * 60, c'))"

definition rc_reset :: "rate_counter \<Rightarrow> rate_counter" where
  "rc_reset c = c\<lparr>rc_events := []\<rparr>"

section \<open>Sample window\<close>

record sample_window =
  sw_window :: secs
  sw_max :: nat
  sw_samples :: "(secs \<times> rat) list"

definition SampleWindow :: "secs \<Rightarrow> nat \<Rightarrow> sample_window" where
  "SampleWindow window_s max_samples = \<lparr>sw_window = window_s, sw_max = max_samples, sw_samples = []\<rparr>"

definition sw_expired :: "secs \<Rightarrow> secs \<Rightarrow> secs \<times> rat \<Rightarrow> bool" where
  "sw_expired w now s \<longleftrightarrow> fst s < now - w"

definition sw_prune :: "secs \<Rightarrow> sample_window \<Rightarrow> sample_window" where
  "sw_prune now w = w\<lparr>sw_samples := dropWhile (sw_expired (sw_window w) now) (sw_samples w)\<rparr>"

text \<open>\<open>value\<close> is \<open>None\<close> where \<^verbatim>\<open>float(value)\<close> raises \<^verbatim>\<open>TypeError\<close> or \<^verbatim>\<open>ValueError\<close>.\<close>

definition sw_add :: "rat option \<Rightarrow> secs \<Rightarrow> secs option \<Rightarrow> sample_window \<Rightarrow> sample_window" where
  "sw_add value clock now w =
     (case value of
        None \<Rightarrow> w
      | Some v \<Rightarrow> (let t = at_time clock now
                  in sw_prune t (w\<lparr>sw_samples := push_max (sw_max w) (t, v) (sw_samples w)\<rparr>)))"

definition sw_count :: "secs \<Rightarrow> secs option \<Rightarrow> sample_window \<Rightarrow> nat \<times> sample_window" where
  "sw_count clock now w = (let w' = sw_prune (at_time clock now) w in (length (sw_samples w'), w'))"

text \<open>The index \<^verbatim>\<open>min(len(vals) - 1, max(0, int(round(q * (len(vals) - 1)))))\<close>.\<close>

definition percentile_index :: "rat \<Rightarrow> nat \<Rightarrow> nat" where
  "percentile_index q n = nat (min (int n - 1) (max 0 (py_round (q * (of_nat n - 1)))))"

definition sw_percentile :: "rat \<Rightarrow> secs \<Rightarrow> secs option \<Rightarrow> sample_window \<Rightarrow> rat option \<times> sample_window" where
  "sw_percentile q clock now w =
     (let w' = sw_prune (at_time clock now) w; vals = sort (map snd (sw_samples w'))
      in (if vals = [] then None else Some (vals ! percentile_index q (length vals)), w'))"

definition sw_reset :: "sample_window \<Rightarrow> sample_window" where
  "sw_reset w = w\<lparr>sw_samples := []\<rparr>"

section \<open>Ring of time stamps\<close>

record timestamp_ring =
  tr_window :: secs
  tr_max :: nat
  tr_ts :: "secs list"

definition TimestampRing :: "secs \<Rightarrow> nat \<Rightarrow> timestamp_ring" where
  "TimestampRing window_s max_events = \<lparr>tr_window = window_s, tr_max = max_events, tr_ts = []\<rparr>"

definition tr_add :: "secs \<Rightarrow> secs option \<Rightarrow> timestamp_ring \<Rightarrow> secs \<times> timestamp_ring" where
  "tr_add clock now r =
     (let t = at_time clock now; ts = push_max (tr_max r) t (tr_ts r)
      in (t, r\<lparr>tr_ts := dropWhile (\<lambda>x. x < t - tr_window r) ts\<rparr>))"

definition tr_count_since :: "rat \<Rightarrow> secs \<Rightarrow> secs option \<Rightarrow> timestamp_ring \<Rightarrow> nat" where
  "tr_count_since seconds clock now r =
     length (filter (\<lambda>ts. ts \<ge> at_time clock now - seconds) (tr_ts r))"

definition tr_count :: "secs \<Rightarrow> secs option \<Rightarrow> timestamp_ring \<Rightarrow> nat" where
  "tr_count clock now r = tr_count_since (tr_window r) clock now r"

definition tr_reset :: "timestamp_ring \<Rightarrow> timestamp_ring" where
  "tr_reset r = r\<lparr>tr_ts := []\<rparr>"

section \<open>The counter against its full history\<close>

interpretation rc: pruned_window fst "rc_expired w" for w
  by unfold_locales (auto simp: rc_expired_def)

interpretation ts: pruned_window "\<lambda>t. t" "\<lambda>now t :: secs. t < now - w" for w
  by unfold_locales auto

text \<open>
  The abstract counter forgets nothing: it keeps every event since the last reset, and its total is
  a sum over all of them. The calls below are the methods of the class, each with its clock reading.
\<close>

datatype rc_call = RcAdd int secs | RcTotal secs | RcReset secs

fun rc_time :: "rc_call \<Rightarrow> secs" where
  "rc_time (RcAdd n t) = t"
| "rc_time (RcTotal t) = t"
| "rc_time (RcReset t) = t"

fun rc_exec :: "rc_call \<Rightarrow> rate_counter \<Rightarrow> rate_counter" where
  "rc_exec (RcAdd n t) c = rc_add n t None c"
| "rc_exec (RcTotal t) c = snd (rc_total t None c)"
| "rc_exec (RcReset t) c = rc_reset c"

fun rc_history :: "rc_call \<Rightarrow> (secs \<times> int) list \<Rightarrow> (secs \<times> int) list" where
  "rc_history (RcAdd n t) h = (if n \<le> 0 then h else h @ [(t, n)])"
| "rc_history (RcTotal t) h = h"
| "rc_history (RcReset t) h = []"

definition rc_sim :: "secs \<Rightarrow> secs \<Rightarrow> rate_counter \<Rightarrow> (secs \<times> int) list \<Rightarrow> bool" where
  "rc_sim w t c h \<longleftrightarrow> rc_window c = w \<and> rc.tracks w t h (rc_events c) \<and> (\<forall>e \<in> set h. fst e \<le> t)"

lemma rc_sim_exec:
  assumes "rc_sim w t c h" and "t \<le> rc_time call"
  shows "rc_sim w (rc_time call) (rc_exec call c) (rc_history call h)"
proof (cases call)
  case (RcAdd n t')
  then have le: "t \<le> t'" using assms(2) by simp
  note s = assms(1)[unfolded rc_sim_def]
  show ?thesis
  proof (cases "n \<le> 0")
    case True
    moreover have "rc.tracks w t' h (rc_events c)"
      using s le unfolding rc.tracks_def by (fastforce intro: rc.expired_later)
    ultimately show ?thesis using s RcAdd le by (auto simp: rc_sim_def rc_add_def)
  next
    case False
    have "rc.tracks w t (h @ [(t', n)]) (rc_events c @ [(t', n)])"
      using s le by (intro rc.tracks_append) auto
    with False RcAdd le s show ?thesis
      by (auto simp: rc_sim_def rc_add_def rc_prune_def at_time_def Let_def intro: rc.tracks_prune)
  qed
next
  case (RcTotal t')
  then show ?thesis using assms
    by (auto simp: rc_sim_def rc_total_def rc_prune_def at_time_def Let_def intro: rc.tracks_prune)
next
  case (RcReset t')
  then show ?thesis using assms by (simp add: rc_sim_def rc_reset_def)
qed

lemma rc_sim_run:
  assumes "rc_sim w t c h" and "sorted (t # map rc_time calls)"
  shows "rc_sim w (last (t # map rc_time calls)) (fold rc_exec calls c) (fold rc_history calls h)"
  using assms
proof (induction calls arbitrary: t c h)
  case Nil
  then show ?case by simp
next
  case (Cons call calls)
  then have "rc_sim w (rc_time call) (rc_exec call c) (rc_history call h)"
    by (intro rc_sim_exec) auto
  from Cons.IH [OF this] Cons.prems(2) show ?case by simp
qed

text \<open>
  C13: the event counter refines the counter that forgets nothing: after any sequence of additions,
  readings and resets at non-decreasing times, its total at a time not before the last call is the
  sum of all events since the last reset that lie inside the trailing window (its lower end
  included), and the rate per minute is that sum over the window times 60.\<close>

theorem rate_counter_refines_history:
  assumes "sorted (map rc_time calls @ [t])" and "w > 0"
  defines "c \<equiv> fold rc_exec calls (RateCounter w)"
    and "live \<equiv> filter (\<lambda>e. t - w \<le> fst e) (fold rc_history calls [])"
  shows "fst (rc_total t None c) = sum_list (map snd live) \<and>
    fst (rc_per_min t None c) = of_int (sum_list (map snd live)) / w * 60"
proof -
  obtain t0 where t0: "sorted (t0 # map rc_time calls)"
    using assms(1) that [of 0] that [of "rc_time (hd calls)"]
    by (cases calls) (auto simp: sorted_append)
  have "rc_sim w t0 (RateCounter w) []" by (simp add: rc_sim_def RateCounter_def)
  from rc_sim_run [OF this t0]
  have sim: "rc_sim w (last (t0 # map rc_time calls)) c (fold rc_history calls [])"
    by (simp add: c_def)
  have tot: "fst (rc_total t None c) = sum_list (map snd live)"
  proof (cases "calls = []")
    case True
    then show ?thesis
      by (simp add: c_def live_def RateCounter_def rc_total_def rc_prune_def)
  next
    case False
    have "last (t0 # map rc_time calls) \<le> t" using assms(1) False by (auto simp: sorted_append last_map)
    with sim have "filter (\<lambda>e. \<not> rc_expired w t e) (fold rc_history calls []) =
        dropWhile (rc_expired w t) (rc_events c)"
      unfolding rc_sim_def by (intro rc.tracks_live) auto
    moreover have "rc_window c = w" using sim by (simp add: rc_sim_def)
    ultimately show ?thesis
      by (simp add: rc_total_def rc_prune_def at_time_def Let_def live_def rc_expired_def not_less)
  qed
  have "rc_window c = w" using sim by (simp add: rc_sim_def)
  with tot assms(2) show ?thesis
    by (simp add: rc_per_min_def rc_per_s_def rc_total_def rc_prune_def Let_def)
qed

theorem rate_counter_refines_history_witness:
  "fst (rc_total 70 None (fold rc_exec [RcAdd 2 5, RcAdd 3 20, RcTotal 66, RcAdd 1 70] (RateCounter 60))) = 4"
proof -
  have "sorted (map rc_time [RcAdd 2 5, RcAdd 3 20, RcTotal 66, RcAdd 1 70] @ [70])" "(60 :: secs) > 0"
    by simp_all
  from rate_counter_refines_history [OF this] show ?thesis by simp
qed

section \<open>Percentiles\<close>

lemma percentile_index_less: "n > 0 \<Longrightarrow> percentile_index q n < n"
  unfolding percentile_index_def by linarith

lemma percentile_index_mono: "q \<le> q' \<Longrightarrow> n > 0 \<Longrightarrow> percentile_index q n \<le> percentile_index q' n"
proof -
  assume "q \<le> q'" "n > 0"
  then have "q * (of_nat n - 1) \<le> q' * (of_nat n - 1)" by (intro mult_right_mono) auto
  from py_round_mono [OF this] show ?thesis
    unfolding percentile_index_def by (intro nat_mono) linarith
qed

lemma percentile_index_ends:
  "q \<le> 0 \<Longrightarrow> n > 0 \<Longrightarrow> percentile_index q n = 0"
  "q \<ge> 1 \<Longrightarrow> n > 0 \<Longrightarrow> percentile_index q n = n - 1"
proof -
  assume "q \<le> 0" "n > 0"
  then have "q * (of_nat n - 1) \<le> 0" by (intro mult_nonpos_nonneg) auto
  from py_round_mono [OF this] have "py_round (q * (of_nat n - 1)) \<le> 0"
    using py_round_of_int [where ?'a = rat, of 0] by simp
  then show "percentile_index q n = 0" by (simp add: percentile_index_def)
next
  assume "q \<ge> 1" "n > 0"
  then have "1 * (of_nat n - 1) \<le> q * (of_nat n - 1)" by (intro mult_right_mono) auto
  moreover have "(1 * (of_nat n - 1) :: rat) = of_int (int n - 1)" by simp
  ultimately have "int n - 1 \<le> py_round (q * (of_nat n - 1))"
    using py_round_mono py_round_of_int by metis
  then show "percentile_index q n = n - 1" using \<open>n > 0\<close> by (simp add: percentile_index_def)
qed

text \<open>
  a percentile is one of the live samples, grows with \<open>q\<close>, is the smallest live sample for
  \<open>q \<le> 0\<close> and the largest for \<open>q \<ge> 1\<close>, whatever the samples are; there is none exactly when no
  sample is live.\<close>

theorem percentile_bounds:
  fixes w :: sample_window and t :: secs
  defines "live \<equiv> map snd (dropWhile (sw_expired (sw_window w) t) (sw_samples w))"
  assumes "live \<noteq> []" and "q \<le> q'"
  shows "\<exists>a b. fst (sw_percentile q t None w) = Some a \<and> fst (sw_percentile q' t None w) = Some b \<and>
     a \<in> set live \<and> a \<le> b \<and> (q \<le> 0 \<longrightarrow> a = Min (set live)) \<and> (1 \<le> q' \<longrightarrow> b = Max (set live))"
proof -
  let ?v = "sort live" and ?n = "length live"
  have n: "?n > 0" using assms(2) by simp
  have at: "fst (sw_percentile p t None w) = Some (?v ! percentile_index p ?n)" for p
    using assms(2) by (simp add: sw_percentile_def sw_prune_def at_time_def Let_def live_def
        flip: set_empty)
  have mem: "?v ! percentile_index p ?n \<in> set live" for p
    using percentile_index_less [OF n, of p] by (metis length_sort nth_mem set_sort)
  have le: "?v ! i \<le> ?v ! j" if "i \<le> j" "j < ?n" for i j
    using that by (intro sorted_nth_mono) auto
  have lo: "?v ! 0 = Min (set live)"
  proof (rule Min_eqI [symmetric])
    show "?v ! 0 \<in> set live" using mem [of 0] percentile_index_ends(1) [of 0, OF _ n] by simp
    fix y assume "y \<in> set live"
    then obtain j where "j < ?n" "y = ?v ! j" by (metis in_set_conv_nth length_sort set_sort)
    then show "?v ! 0 \<le> y" using le [of 0 j] by simp
  qed simp
  have hi: "?v ! (?n - 1) = Max (set live)"
  proof (rule Max_eqI [symmetric])
    show "?v ! (?n - 1) \<in> set live" using mem [of 1] percentile_index_ends(2) [of 1, OF _ n] by simp
    fix y assume "y \<in> set live"
    then obtain j where "j < ?n" "y = ?v ! j" by (metis in_set_conv_nth length_sort set_sort)
    then show "y \<le> ?v ! (?n - 1)" using le [of j "?n - 1"] by simp
  qed simp
  have "?v ! percentile_index q ?n \<le> ?v ! percentile_index q' ?n"
    using percentile_index_mono [OF assms(3) n] percentile_index_less [OF n] by (intro le)
  with at mem lo hi percentile_index_ends [OF _ n] show ?thesis by auto
qed

definition ex_samples :: sample_window where
  "ex_samples = \<lparr>sw_window = 10, sw_max = 4, sw_samples = [(1, 9), (5, 4), (8, 7), (9, 2)]\<rparr>"

theorem percentile_bounds_witness:
  "fst (sw_percentile 0 12 None ex_samples) = Some 2 \<and> fst (sw_percentile 1 12 None ex_samples) = Some 7"
proof -
  have live: "map snd (dropWhile (sw_expired (sw_window ex_samples) 12) (sw_samples ex_samples)) = [4, 7, 2]"
    by (simp add: ex_samples_def sw_expired_def)
  have "\<exists>a b. fst (sw_percentile 0 12 None ex_samples) = Some a \<and> fst (sw_percentile 1 12 None ex_samples) = Some b \<and>
     a = Min (set [4, 7, 2]) \<and> b = Max (set [4, 7, 2])"
    using percentile_bounds [of ex_samples 12 0 1] unfolding live by auto
  then show ?thesis by simp
qed

section \<open>Bounded windows\<close>

interpretation sw: pruned_window fst "sw_expired w" for w
  by unfold_locales (auto simp: sw_expired_def)

text \<open>The numeric samples added by a sequence of \<open>(value, time)\<close> calls, in order.\<close>

definition sw_history :: "(rat option \<times> secs) list \<Rightarrow> (secs \<times> rat) list" where
  "sw_history calls = concat (map (\<lambda>(v, t). case v of None \<Rightarrow> [] | Some x \<Rightarrow> [(t, x)]) calls)"

lemma sw_history_snoc:
  "sw_history (calls @ [(v, t)]) = sw_history calls @ (case v of None \<Rightarrow> [] | Some x \<Rightarrow> [(t, x)])"
  by (simp add: sw_history_def)

lemma sw_history_times: "e \<in> set (sw_history calls) \<Longrightarrow> fst e \<in> set (map snd calls)"
  by (force simp: sw_history_def split: option.splits)

definition sw_run :: "secs \<Rightarrow> nat \<Rightarrow> (rat option \<times> secs) list \<Rightarrow> sample_window" where
  "sw_run w m calls = fold (\<lambda>(v, t). sw_add v t None) calls (SampleWindow w m)"

lemma sw_run_keeps:
  assumes "sorted (map snd calls @ [t])" and "w \<ge> 0"
  shows "\<exists>t0 \<le> t. sw_window (sw_run w m calls) = w \<and> sw_max (sw_run w m calls) = m \<and>
    sw.keeps w m t0 (sw_history calls) (sw_samples (sw_run w m calls))"
  using assms(1)
proof (induction calls arbitrary: t rule: rev_induct)
  case Nil
  then show ?case by (auto simp: sw_run_def SampleWindow_def sw_history_def)
next
  case (snoc c calls)
  obtain v t1 where c: "c = (v, t1)" by fastforce
  have t1: "t1 \<le> t" and so: "sorted (map snd calls @ [t1])"
    using snoc.prems c by (auto simp: sorted_append)
  let ?q = "sw_run w m calls"
  obtain t0 where t0: "t0 \<le> t1" "sw_window ?q = w" "sw_max ?q = m" "sw.keeps w m t0 (sw_history calls) (sw_samples ?q)"
    using snoc.IH [OF so] by blast
  have run: "sw_run w m (calls @ [c]) = sw_add v t1 None ?q" by (simp add: sw_run_def c)
  show ?case
  proof (cases v)
    case None
    then show ?thesis using t0 t1 run
      by (intro exI [of _ t0]) (simp add: c sw_history_snoc sw_add_def)
  next
    case (Some x)
    have "\<forall>e \<in> set (sw_history calls). fst e \<le> t1"
      using so sw_history_times [of _ calls] by (fastforce simp: sorted_append)
    then have "sw.keeps w m t0 (sw_history calls @ [(t1, x)]) (push_max m (t1, x) (sw_samples ?q))"
      using t0 assms(2) by (intro sw.keeps_push) (auto simp: sw_expired_def)
    from sw.keeps_prune [OF this t0(1)] show ?thesis using t0 t1 run Some
      by (intro exI [of _ t1]) (simp add: c sw_history_snoc sw_add_def sw_prune_def at_time_def Let_def)
  qed
qed

text \<open>
  the bounded sample window counts exactly what it should: after any additions at
  non-decreasing times, the count at a time not before the last one is the number of numeric
  samples inside the window, cut off at the configured maximum, and the samples kept are the most
  recent ones. Values that are not numbers leave no trace.\<close>

theorem sample_window_exact:
  assumes "sorted (map snd calls @ [t])" and "w \<ge> 0"
  defines "live \<equiv> filter (\<lambda>s. t - w \<le> fst s) (sw_history calls)"
  shows "fst (sw_count t None (sw_run w m calls)) = min m (length live) \<and>
    sw_samples (snd (sw_count t None (sw_run w m calls))) = drop (length live - m) live"
proof -
  obtain t0 where t0: "t0 \<le> t" "sw_window (sw_run w m calls) = w"
    "sw.keeps w m t0 (sw_history calls) (sw_samples (sw_run w m calls))"
    using sw_run_keeps [OF assms(1,2)] by blast
  from sw.keeps_prune [OF t0(3,1)]
  have "dropWhile (sw_expired w t) (sw_samples (sw_run w m calls)) = lastn m live"
    by (simp add: sw.keeps_def live_def sw_expired_def not_less)
  then show ?thesis using t0(2)
    by (simp add: sw_count_def sw_prune_def at_time_def Let_def lastn_def)
qed

theorem sample_window_exact_witness:
  "fst (sw_count 12 None (sw_run 10 2 [(Some 9, 1), (Some 4, 5), (None, 6), (Some 7, 8), (Some 2, 9)])) = 2"
proof -
  have "sorted (map snd [(Some 9, 1), (Some 4, 5), (None, 6), (Some 7, 8), (Some (2 :: rat), 9 :: secs)] @ [12])"
    "(10 :: secs) \<ge> 0" by simp_all
  from sample_window_exact [OF this, of 2] show ?thesis by (simp add: sw_history_def)
qed

end
