(* ===== verification/StreamPools.thy ===== *)
theory StreamPools
  imports Interfaces
begin

text \<open>
  The caps on long-lived event streams: \<^verbatim>\<open>StreamPool\<close> of the manager
  (\<^verbatim>\<open>src/llm-systems-manager/backend/stream_pool.py\<close>) and of the agent
  (\<^verbatim>\<open>src/agent/stream_pool.py\<close>), with the agent's generator wrapper \<^verbatim>\<open>guarded_async\<close>. Both classes
  do their work under one lock, so each method is a function on the record of the object; the clock
  reading a refusal makes is an argument. The contract the two share is the locale \<open>capped_pool\<close>.
\<close>

section \<open>The contract of a capped pool\<close>

text \<open>
  \<open>acquire t\<close> answers whether a slot was granted. What the request handlers do with a pool is
  \<open>pool_step\<close>: a handler whose request is granted holds one slot, and gives it back once, when its
  response closes; a refused one holds nothing.
\<close>

datatype 'c pool_event = Ask 'c secs | Close 'c

fun pool_step :: "(secs \<Rightarrow> 's \<Rightarrow> bool \<times> 's) \<Rightarrow> ('s \<Rightarrow> 's) \<Rightarrow> 'c pool_event \<Rightarrow> 's \<times> 'c list \<Rightarrow> 's \<times> 'c list" where
  "pool_step acquire free_slot (Ask c t) (s, hs) =
     (if c \<in> set hs then (s, hs) else let (ok, s') = acquire t s in (s', if ok then c # hs else hs))"
| "pool_step acquire free_slot (Close c) (s, hs) =
     (if c \<in> set hs then (free_slot s, remove1 c hs) else (s, hs))"

locale capped_pool =
  fixes in_use :: "'s \<Rightarrow> int"
    and high_water :: "'s \<Rightarrow> int"
    and refused :: "'s \<Rightarrow> int"
    and cap :: int
    and acquire :: "secs \<Rightarrow> 's \<Rightarrow> bool \<times> 's"
    and free_slot :: "'s \<Rightarrow> 's"
    and empty :: 's
  assumes cap_pos: "cap \<ge> 1"
    and empty_unused: "in_use empty = 0" "high_water empty = 0" "refused empty = 0"
    and granted: "in_use s < cap \<Longrightarrow> fst (acquire t s) \<and> in_use (snd (acquire t s)) = in_use s + 1 \<and>
        high_water (snd (acquire t s)) = max (high_water s) (in_use s + 1) \<and>
        refused (snd (acquire t s)) = refused s"
    and denied: "cap \<le> in_use s \<Longrightarrow> \<not> fst (acquire t s) \<and> in_use (snd (acquire t s)) = in_use s \<and>
        high_water (snd (acquire t s)) = high_water s \<and> refused (snd (acquire t s)) = refused s + 1"
    and freed: "in_use s > 0 \<Longrightarrow> in_use (free_slot s) = in_use s - 1"
    and freed_keeps: "high_water (free_slot s) = high_water s" "refused (free_slot s) = refused s"
begin

abbreviation client :: "'c pool_event \<Rightarrow> 's \<times> 'c list \<Rightarrow> 's \<times> 'c list" where
  "client \<equiv> pool_step acquire free_slot"

definition pool_inv :: "'s \<times> 'c list \<Rightarrow> bool" where
  "pool_inv p \<longleftrightarrow> in_use (fst p) = int (length (snd p)) \<and> distinct (snd p) \<and>
     in_use (fst p) \<le> cap \<and> high_water (fst p) \<le> cap \<and> in_use (fst p) \<le> high_water (fst p)"

lemma pool_inv_empty: "pool_inv (empty, [])"
  using cap_pos empty_unused by (simp add: pool_inv_def)

lemma pool_inv_step: "pool_inv p \<Longrightarrow> pool_inv (client e p)"
proof (cases e)
  case (Ask c t)
  assume inv: "pool_inv p"
  obtain s hs where p: "p = (s, hs)" by fastforce
  show ?thesis
  proof (cases "c \<in> set hs")
    case True
    then show ?thesis using inv Ask p by simp
  next
    case False
    then show ?thesis using inv Ask p granted [of s t] denied [of s t]
      by (cases "in_use s < cap") (auto simp: pool_inv_def split: prod.splits)
  qed
next
  case (Close c)
  assume inv: "pool_inv p"
  obtain s hs where p: "p = (s, hs)" by fastforce
  show ?thesis
  proof (cases "c \<in> set hs")
    case True
    then have len: "int (length (remove1 c hs)) = int (length hs) - 1" "length hs > 0"
      by (auto simp: length_remove1) (metis length_greater_0_conv list.size(3) empty_iff list.set(1) of_nat_diff of_nat_1 Suc_leI One_nat_def)+
    then show ?thesis using inv Close p True freed [of s] freed_keeps [of s]
      by (auto simp: pool_inv_def distinct_remove1)
  next
    case False
    then show ?thesis using inv Close p by simp
  qed
qed

lemma pool_run_inv: "pool_inv (fold client es (empty, []))"
  by (induction es rule: rev_induct) (auto intro: pool_inv_empty pool_inv_step)

lemma granted_iff_room:
  assumes "fold client es (empty, []) = (s, hs)" and "c \<notin> set hs"
  shows "c \<in> set (snd (client (Ask c t) (s, hs))) \<longleftrightarrow> int (length hs) < cap"
  using pool_run_inv [of es] assms granted [of s t] denied [of s t]
  by (cases "in_use s < cap") (auto simp: pool_inv_def split: prod.splits)

end

section \<open>The manager's pool\<close>

text \<open>The two settings it reads; \<open>None\<close> is a configuration that lacks the attribute.\<close>

record pool_settings =
  http_threads :: "int option"
  stream_reserve_threads :: "int option"

record stream_pool =
  sp_active :: int
  sp_peak :: int
  sp_refusals :: int
  sp_recent :: "secs list"
  sp_last_warn :: secs

definition REFUSAL_WINDOW_S :: secs where
  "REFUSAL_WINDOW_S = 600"

definition StreamPool :: stream_pool where
  "StreamPool = \<lparr>sp_active = 0, sp_peak = 0, sp_refusals = 0, sp_recent = [], sp_last_warn = 0\<rparr>"

definition sp_prune :: "secs \<Rightarrow> stream_pool \<Rightarrow> stream_pool" where
  "sp_prune now p = p\<lparr>sp_recent := dropWhile (\<lambda>r. now - r > REFUSAL_WINDOW_S) (sp_recent p)\<rparr>"

definition sp_limit :: "pool_settings \<Rightarrow> int" where
  "sp_limit cfg =
     (let threads = or_num (http_threads cfg) 64; reserve = or_num (stream_reserve_threads cfg) 24
      in max 1 (threads - reserve))"

definition sp_try_acquire :: "pool_settings \<Rightarrow> secs \<Rightarrow> stream_pool \<Rightarrow> bool \<times> stream_pool" where
  "sp_try_acquire cfg now p =
     (if sp_active p \<ge> sp_limit cfg
      then let p = p\<lparr>sp_refusals := sp_refusals p + 1, sp_recent := sp_recent p @ [now]\<rparr>;
               p = sp_prune now p
           in (False, if now - sp_last_warn p > 10 then p\<lparr>sp_last_warn := now\<rparr> else p)
      else let p = p\<lparr>sp_active := sp_active p + 1\<rparr>
           in (True, if sp_active p > sp_peak p then p\<lparr>sp_peak := sp_active p\<rparr> else p))"

definition sp_release :: "stream_pool \<Rightarrow> stream_pool" where
  "sp_release p = (if sp_active p > 0 then p\<lparr>sp_active := sp_active p - 1\<rparr> else p)"

record pool_stats =
  st_active :: int
  st_limit :: int
  st_peak :: int
  st_refusals :: int
  st_refusals_recent :: nat

definition sp_stats :: "pool_settings \<Rightarrow> secs \<Rightarrow> stream_pool \<Rightarrow> pool_stats \<times> stream_pool" where
  "sp_stats cfg now p =
     (let p = sp_prune now p
      in (\<lparr>st_active = sp_active p, st_limit = sp_limit cfg, st_peak = sp_peak p,
           st_refusals = sp_refusals p, st_refusals_recent = length (sp_recent p)\<rparr>, p))"

section \<open>The agent's pool\<close>

text \<open>The module globals that \<^verbatim>\<open>configure\<close> sets, and the pool object.\<close>

record agent_limits =
  worker_threads :: int
  reserve :: int

definition agent_defaults :: agent_limits where
  "agent_defaults = \<lparr>worker_threads = 64, reserve = 24\<rparr>"

definition ap_configure :: "int \<Rightarrow> int \<Rightarrow> agent_limits" where
  "ap_configure threads res = \<lparr>worker_threads = max 1 threads, reserve = max 0 res\<rparr>"

record agent_pool =
  ap_active :: int
  ap_peak :: int
  ap_refusals :: int
  ap_last_warn :: secs

definition AgentStreamPool :: agent_pool where
  "AgentStreamPool = \<lparr>ap_active = 0, ap_peak = 0, ap_refusals = 0, ap_last_warn = 0\<rparr>"

definition ap_limit :: "agent_limits \<Rightarrow> int" where
  "ap_limit g = max 1 (worker_threads g - reserve g)"

definition ap_try_acquire :: "agent_limits \<Rightarrow> secs \<Rightarrow> agent_pool \<Rightarrow> bool \<times> agent_pool" where
  "ap_try_acquire g now p =
     (if ap_active p \<ge> ap_limit g
      then let p = p\<lparr>ap_refusals := ap_refusals p + 1\<rparr>
           in (False, if now - ap_last_warn p > 10 then p\<lparr>ap_last_warn := now\<rparr> else p)
      else let p = p\<lparr>ap_active := ap_active p + 1\<rparr>
           in (True, if ap_active p > ap_peak p then p\<lparr>ap_peak := ap_active p\<rparr> else p))"

definition ap_release :: "agent_pool \<Rightarrow> agent_pool" where
  "ap_release p = (if ap_active p > 0 then p\<lparr>ap_active := ap_active p - 1\<rparr> else p)"

definition ap_stats :: "agent_limits \<Rightarrow> agent_pool \<Rightarrow> int \<times> int \<times> int \<times> int" where
  "ap_stats g p = (ap_active p, ap_limit g, ap_peak p, ap_refusals p)"

text \<open>
  \<^verbatim>\<open>guarded_async\<close> drains a synchronous generator. The generator is the list of what its \<^verbatim>\<open>next\<close>
  calls do until it stops: give a chunk or raise. A client that disconnects after \<open>k\<close> chunks cancels
  the wrapper at that point. The wrapper's \<^verbatim>\<open>finally\<close> frees the slot, if there is one, and closes
  the generator; the result is what the client received, how the stream ended and the pool.
\<close>

datatype 'a gen_step = Chunk 'a | Raises string

datatype stream_end = Exhausted | Failed string | Disconnected

fun drain :: "'a gen_step list \<Rightarrow> nat option \<Rightarrow> 'a list \<times> stream_end" where
  "drain g (Some 0) = ([], Disconnected)"
| "drain [] k = ([], Exhausted)"
| "drain (Raises e # g) k = ([], Failed e)"
| "drain (Chunk x # g) k =
     (let (out, fate) = drain g (case k of None \<Rightarrow> None | Some n \<Rightarrow> Some (n - 1)) in (x # out, fate))"

definition guarded_async ::
  "'a gen_step list \<Rightarrow> bool \<Rightarrow> nat option \<Rightarrow> agent_pool \<Rightarrow> 'a list \<times> stream_end \<times> agent_pool" where
  "guarded_async g pooled disconnect p =
     (let (out, fate) = drain g disconnect in (out, fate, if pooled then ap_release p else p))"

section \<open>Both pools meet the contract\<close>

interpretation mgr: capped_pool sp_active sp_peak sp_refusals "sp_limit cfg" "sp_try_acquire cfg"
    sp_release StreamPool for cfg
  by unfold_locales
    (auto simp: sp_limit_def StreamPool_def sp_try_acquire_def sp_release_def sp_prune_def Let_def)

interpretation agt: capped_pool ap_active ap_peak ap_refusals "ap_limit g" "ap_try_acquire g"
    ap_release AgentStreamPool for g
  by unfold_locales
    (auto simp: ap_limit_def AgentStreamPool_def ap_try_acquire_def ap_release_def Let_def)

abbreviation mgr_run :: "pool_settings \<Rightarrow> 'c pool_event list \<Rightarrow> stream_pool \<times> 'c list" where
  "mgr_run cfg es \<equiv> fold (pool_step (sp_try_acquire cfg) sp_release) es (StreamPool, [])"

text \<open>
  C16: whatever requests open and close streams, the manager's pool counts exactly the open ones and
  never more than the worker threads that are not held in reserve, so with more threads than the
  reserve at least the reserve stays free for other requests; its high-water mark lies between the
  two.\<close>

theorem stream_reserve_kept:
  assumes "mgr_run cfg es = (p, open_streams)"
    and "http_threads cfg = Some threads" "stream_reserve_threads cfg = Some res" "0 < res" "res < threads"
  shows "sp_active p = int (length open_streams) \<and> res \<le> threads - int (length open_streams) \<and>
    int (length open_streams) \<le> sp_peak p \<and> sp_peak p \<le> threads - res"
proof -
  have "sp_limit cfg = threads - res" using assms(2-5) by (simp add: sp_limit_def)
  with mgr.pool_run_inv [of cfg es, unfolded assms(1) mgr.pool_inv_def] show ?thesis by simp
qed

theorem stream_reserve_kept_witness:
  "sp_active (fst (mgr_run \<lparr>http_threads = Some 3, stream_reserve_threads = Some 2\<rparr>
      [Ask ''a'' 1, Ask ''b'' 2, Close ''a'', Ask ''c'' 3])) = 1"
proof -
  let ?cfg = "\<lparr>http_threads = Some 3, stream_reserve_threads = Some 2\<rparr>"
  let ?es = "[Ask ''a'' 1, Ask ''b'' 2, Close ''a'', Ask ''c'' 3]"
  have "mgr_run ?cfg ?es = (fst (mgr_run ?cfg ?es), snd (mgr_run ?cfg ?es))" by simp
  from stream_reserve_kept [OF this, of 3 2]
  have "sp_active (fst (mgr_run ?cfg ?es)) = int (length (snd (mgr_run ?cfg ?es)))" by simp
  also have "snd (mgr_run ?cfg ?es) = [''c'']"
    by (simp add: sp_try_acquire_def sp_release_def sp_prune_def sp_limit_def StreamPool_def Let_def)
  finally show ?thesis by simp
qed

text \<open>
  the agent refuses a stream only when every slot of its limit is held by an open stream, and a
  stream that was granted gives its slot back however it ends (exhausted, failed or disconnected),
  so when all streams have ended the whole limit is available again.\<close>

theorem agent_slots_never_leak:
  assumes "fold (pool_step (ap_try_acquire g) ap_release) es (AgentStreamPool, []) = (p, open_streams)"
  shows "(fst (ap_try_acquire g t p) \<longleftrightarrow> int (length open_streams) < ap_limit g) \<and>
    ap_active p = int (length open_streams) \<and>
    (open_streams \<noteq> [] \<longrightarrow>
       ap_active (snd (snd (guarded_async chunks True disconnect p))) = int (length open_streams) - 1)"
proof -
  have inv: "ap_active p = int (length open_streams)"
    using agt.pool_run_inv [of g es] assms by (simp add: agt.pool_inv_def)
  then have "fst (ap_try_acquire g t p) \<longleftrightarrow> int (length open_streams) < ap_limit g"
    using agt.granted [of p g t] agt.denied [of g p t] by linarith
  with inv show ?thesis
    by (cases open_streams) (auto simp: guarded_async_def ap_release_def split: prod.splits)
qed

theorem agent_slots_never_leak_witness:
  "ap_active (snd (snd (guarded_async [Chunk (1 :: nat), Raises ''boom''] True None
     (fst (fold (pool_step (ap_try_acquire agent_defaults) ap_release) [Ask ''a'' 1] (AgentStreamPool, [])))))) = 0"
proof -
  let ?r = "fold (pool_step (ap_try_acquire agent_defaults) ap_release) [Ask ''a'' 1] (AgentStreamPool, [])"
  have hs: "snd ?r = [''a'']"
    by (simp add: ap_try_acquire_def AgentStreamPool_def ap_limit_def agent_defaults_def Let_def)
  have "?r = (fst ?r, snd ?r)" by simp
  from agent_slots_never_leak [OF this, of 2 "[Chunk (1 :: nat), Raises ''boom'']" None]
  show ?thesis unfolding hs by (simp del: fold.simps)
qed

section \<open>Recent refusals\<close>

interpretation refusals: pruned_window "\<lambda>t. t" "\<lambda>now r :: secs. now - r > REFUSAL_WINDOW_S"
  by unfold_locales auto

lemma refusals_recent_exact:
  assumes "refusals.tracks t0 h (sp_recent p)" and "t0 \<le> now"
  shows "st_refusals_recent (fst (sp_stats cfg now p)) = length (filter (\<lambda>r. now - r \<le> REFUSAL_WINDOW_S) h)"
proof -
  have "filter (\<lambda>r. \<not> now - r > REFUSAL_WINDOW_S) h = dropWhile (\<lambda>r. now - r > REFUSAL_WINDOW_S) (sp_recent p)"
    by (rule refusals.tracks_live [OF assms])
  then show ?thesis by (simp add: sp_stats_def sp_prune_def Let_def not_less)
qed

end
