(* ===== verification/CounterWindow.thy ===== *)
theory CounterWindow
  imports Interfaces
begin

text \<open>
  Windowed deltas over the cumulative counters of llama-server
  (\<^verbatim>\<open>src/agent/providers/llama_counters.py\<close>): the parser of a \<^verbatim>\<open>/metrics\<close> body, and the ring of
  readings from which the agent derives prompt-cache reuse and speculative-decoding acceptance.
\<close>

section \<open>Reading numbers\<close>

text \<open>
  \<^verbatim>\<open>float(s)\<close> on ASCII text: optional sign, decimal digits with single underscores between digits,
  a point, an exponent; or an infinity or NaN. A literal too large for a double is infinite.
\<close>

datatype py_float = Finite rat | Not_Finite

definition is_digit :: "char \<Rightarrow> bool" where
  "is_digit c = (let n = of_char c :: nat in 48 \<le> n \<and> n \<le> 57)"

fun scan_digits :: "string \<Rightarrow> string \<times> string" where
  "scan_digits [] = ([], [])"
| "scan_digits [c] = (if is_digit c then ([c], []) else ([], [c]))"
| "scan_digits (c # d # cs) =
     (if \<not> is_digit c then ([], c # d # cs)
      else if d = CHR ''_'' \<and> cs \<noteq> [] \<and> is_digit (hd cs)
      then (let (ds, r) = scan_digits cs in (c # ds, r))
      else (let (ds, r) = scan_digits (d # cs) in (c # ds, r)))"

definition scan_sign :: "string \<Rightarrow> bool \<times> string" where
  "scan_sign s = (case s of [] \<Rightarrow> (False, []) | c # cs \<Rightarrow>
     if c = CHR ''-'' then (True, cs) else if c = CHR ''+'' then (False, cs) else (False, s))"

definition scan_exponent :: "string \<Rightarrow> int option" where
  "scan_exponent s = (case s of [] \<Rightarrow> Some 0 | c # cs \<Rightarrow>
     if lower_char c \<noteq> CHR ''e'' then None
     else let (neg, r) = scan_sign cs; (ds, rest) = scan_digits r
          in if ds = [] \<or> rest \<noteq> [] then None
             else Some (if neg then - int (read_digits ds) else int (read_digits ds)))"

definition double_overflow :: rat where
  "double_overflow = 2 ^ 1024 - 2 ^ 970"

definition parse_float :: "string \<Rightarrow> py_float option" where
  "parse_float s0 =
     (let (neg, s) = scan_sign (py_strip s0)
      in if lower s \<in> {''inf'', ''infinity'', ''nan''} then Some Not_Finite
         else let (ip, r1) = scan_digits s;
                  (fp, r2) = (if r1 \<noteq> [] \<and> hd r1 = CHR ''.'' then scan_digits (tl r1) else ([], r1))
              in if ip = [] \<and> fp = [] then None
                 else case scan_exponent r2 of
                        None \<Rightarrow> None
                      | Some e \<Rightarrow>
                          (let m = of_nat (read_digits (ip @ fp)) :: rat; x = e - int (length fp);
                               v = (if x \<ge> 0 then m * 10 ^ nat x else m / 10 ^ nat (- x))
                           in Some (if v \<ge> double_overflow then Not_Finite
                                    else Finite (if neg then - v else v))))"

text \<open>\<^verbatim>\<open>int(v)\<close> truncates towards zero.\<close>

definition py_int :: "rat \<Rightarrow> int" where
  "py_int v = (if v < 0 then \<lceil>v\<rceil> else \<lfloor>v\<rfloor>)"

section \<open>Splitting text\<close>

definition is_line_break :: "char \<Rightarrow> bool" where
  "is_line_break c = (let n = of_char c :: nat in (10 \<le> n \<and> n \<le> 13) \<or> (28 \<le> n \<and> n \<le> 30))"

text \<open>\<^verbatim>\<open>s.splitlines()\<close>: a carriage return followed by a line feed is one break, and a final break ends
  no extra line. \<open>cur\<close> is the line read so far, reversed.\<close>

fun split_lines :: "string \<Rightarrow> string \<Rightarrow> string list" where
  "split_lines cur [] = (if cur = [] then [] else [rev cur])"
| "split_lines cur (c # cs) =
     (if c = CHR 0x0D \<and> cs \<noteq> [] \<and> hd cs = CHR 0x0A then rev cur # split_lines [] (tl cs)
      else if is_line_break c then rev cur # split_lines [] cs
      else split_lines (c # cur) cs)"

text \<open>\<^verbatim>\<open>s.split()\<close>: the maximal runs without white space.\<close>

fun words_of :: "string \<Rightarrow> string \<Rightarrow> string list" where
  "words_of cur [] = (if cur = [] then [] else [rev cur])"
| "words_of cur (c # cs) =
     (if is_space c then (if cur = [] then words_of [] cs else rev cur # words_of [] cs)
      else words_of (c # cur) cs)"

section \<open>The metrics body\<close>

definition COUNTER_KEYS :: "(string, string) dict" where
  "COUNTER_KEYS =
     [(''llamacpp:prompt_tokens_total'', ''prompt_processed''),
      (''llamacpp:prompt_tokens_cached_total'', ''prompt_cached''),
      (''llamacpp:spec_decode_num_draft_tokens_total'', ''spec_drafted''),
      (''llamacpp:spec_decode_num_accepted_tokens_total'', ''spec_accepted''),
      (''llamacpp:spec_decode_num_drafts_total'', ''spec_drafts'')]"

type_synonym counter_map = "(string, int) dict"

definition counter_line :: "string \<Rightarrow> counter_map \<Rightarrow> counter_map" where
  "counter_line line out =
     (if line = [] \<or> hd line = CHR ''#'' then out
      else case dict_get COUNTER_KEYS (takeWhile (\<lambda>c. c \<noteq> CHR '' '') line) of
             None \<Rightarrow> out
           | Some key \<Rightarrow>
               (let ws = words_of [] line
                in if ws = [] then out
                   else case parse_float (last ws) of
                          Some (Finite v) \<Rightarrow> dict_set key (py_int v) out
                        | _ \<Rightarrow> out))"

definition parse_counters :: "string \<Rightarrow> counter_map" where
  "parse_counters metrics_text = fold counter_line (split_lines [] metrics_text) []"

section \<open>The ring of readings\<close>

datatype counter_state = St_Ok | St_Idle | St_Reset | St_Unsupported | St_Paused | St_Off

record counter_window =
  cw_window :: secs
  cw_model :: "string option"
  cw_ring :: "(secs \<times> counter_map) list"
  cw_reset_at :: "secs option"

definition DEFAULT_WINDOW_S :: secs where
  "DEFAULT_WINDOW_S = 60"

definition CounterWindow :: "secs \<Rightarrow> counter_window" where
  "CounterWindow window_s = \<lparr>cw_window = window_s, cw_model = None, cw_ring = [], cw_reset_at = None\<rparr>"

definition py_ratio :: "int \<Rightarrow> int \<Rightarrow> rat option" where
  "py_ratio num den = (if den > 0 then Some (py_round_to 4 (of_int num / of_int den)) else None)"

fun trim_ring :: "secs \<Rightarrow> secs \<Rightarrow> (secs \<times> counter_map) list \<Rightarrow> (secs \<times> counter_map) list" where
  "trim_ring w now (e # e' # es) = (if now - fst e > w then trim_ring w now (e' # es) else e # e' # es)"
| "trim_ring w now es = es"

definition cw_trim :: "secs \<Rightarrow> counter_window \<Rightarrow> counter_window" where
  "cw_trim now c = c\<lparr>cw_ring := trim_ring (cw_window c) now (cw_ring c)\<rparr>"

definition same_keys :: "counter_map \<Rightarrow> counter_map \<Rightarrow> bool" where
  "same_keys a b \<longleftrightarrow> set (dict_keys a) = set (dict_keys b)"

definition decreased :: "counter_map \<Rightarrow> counter_map \<Rightarrow> bool" where
  "decreased cs prev \<longleftrightarrow> list_ex (\<lambda>k. the (dict_get cs k) < the (dict_get prev k)) (dict_keys cs)"

definition cw_observe :: "string option \<Rightarrow> secs \<Rightarrow> counter_map \<Rightarrow> counter_window \<Rightarrow> counter_window" where
  "cw_observe model_id now cs c =
     (let c = (if model_id \<noteq> cw_model c
               then c\<lparr>cw_ring := [], cw_reset_at := None, cw_model := model_id\<rparr> else c);
          c = (if cw_ring c = [] then c
               else let prev = snd (last (cw_ring c))
                    in if \<not> same_keys cs prev then c\<lparr>cw_ring := []\<rparr>
                       else if decreased cs prev then c\<lparr>cw_ring := [], cw_reset_at := Some now\<rparr>
                       else c)
      in cw_trim now (c\<lparr>cw_ring := cw_ring c @ [(now, cs)]\<rparr>))"

definition cw_reset :: "secs \<Rightarrow> counter_window \<Rightarrow> counter_window" where
  "cw_reset now c = (if cw_ring c = [] then c else c\<lparr>cw_ring := [], cw_reset_at := Some now\<rparr>)"

definition cw_supported :: "string list \<Rightarrow> counter_window \<Rightarrow> bool" where
  "cw_supported keys c \<longleftrightarrow>
     cw_ring c \<noteq> [] \<and> list_all (\<lambda>k. dict_get (snd (last (cw_ring c))) k \<noteq> None) keys"

definition cw_delta :: "string \<Rightarrow> counter_window \<Rightarrow> int" where
  "cw_delta key c =
     max 0 (dict_get_or (snd (last (cw_ring c))) key 0 - dict_get_or (snd (hd (cw_ring c))) key 0)"

definition cw_state :: "secs \<Rightarrow> bool \<Rightarrow> bool \<Rightarrow> counter_window \<Rightarrow> counter_state" where
  "cw_state now active polled c =
     (if (case cw_reset_at c of None \<Rightarrow> False | Some r \<Rightarrow> now - r \<le> cw_window c) then St_Reset
      else if \<not> polled then St_Paused
      else if active then St_Ok else St_Idle)"

record cache_stats =
  ru_state :: counter_state
  ru_processed :: "int option"
  ru_cached :: "int option"
  ru_ratio :: "rat option"

definition cache_reuse :: "secs \<Rightarrow> bool \<Rightarrow> counter_window \<Rightarrow> cache_stats \<times> counter_window" where
  "cache_reuse now polled c =
     (if \<not> cw_supported [''prompt_processed'', ''prompt_cached''] c
      then (\<lparr>ru_state = St_Unsupported, ru_processed = None, ru_cached = None, ru_ratio = None\<rparr>, c)
      else let c = cw_trim now c;
               processed = cw_delta ''prompt_processed'' c; cached = cw_delta ''prompt_cached'' c;
               total = processed + cached
           in (\<lparr>ru_state = cw_state now (total > 0) polled c, ru_processed = Some processed,
                ru_cached = Some cached, ru_ratio = (if total > 0 then py_ratio cached total else None)\<rparr>, c))"

record accept_stats =
  as_state :: counter_state
  as_drafted :: "int option"
  as_accepted :: "int option"
  as_drafts :: "int option"
  as_ratio :: "rat option"
  as_per_draft :: "rat option"

definition spec_accept :: "secs \<Rightarrow> bool \<Rightarrow> counter_window \<Rightarrow> accept_stats \<times> counter_window" where
  "spec_accept now polled c =
     (if \<not> cw_supported [''spec_drafted'', ''spec_accepted''] c
      then (\<lparr>as_state = St_Unsupported, as_drafted = None, as_accepted = None, as_drafts = None,
             as_ratio = None, as_per_draft = None\<rparr>, c)
      else let c = cw_trim now c; latest = snd (last (cw_ring c))
           in if dict_get latest ''spec_drafted'' = Some 0 \<and> dict_get latest ''spec_accepted'' = Some 0
              then (\<lparr>as_state = St_Off, as_drafted = Some 0, as_accepted = Some 0,
                     as_drafts = dict_get latest ''spec_drafts'', as_ratio = None, as_per_draft = None\<rparr>, c)
              else let drafted = cw_delta ''spec_drafted'' c; accepted = cw_delta ''spec_accepted'' c;
                       drafts = (if cw_supported [''spec_drafts''] c then Some (cw_delta ''spec_drafts'' c) else None)
                   in (\<lparr>as_state = cw_state now (drafted > 0) polled c, as_drafted = Some drafted,
                        as_accepted = Some accepted, as_drafts = drafts,
                        as_ratio = (if drafted > 0 then py_ratio accepted drafted else None),
                        as_per_draft = (case drafts of None \<Rightarrow> None | Some d \<Rightarrow>
                           if d = 0 then None else Some (py_round_to 2 (of_int accepted / of_int d)))\<rparr>, c))"

definition cw_latest :: "counter_window \<Rightarrow> counter_map" where
  "cw_latest c = (if cw_ring c = [] then [] else snd (last (cw_ring c)))"

section \<open>The readings a window stands for\<close>

text \<open>
  The abstract window is never trimmed: it is the list of all readings since the model changed, a
  counter appeared or vanished, a counter went down or the server was seen to restart.
\<close>

datatype cw_call = Observe "string option" secs counter_map | Restarted secs | Read_Cache secs bool | Read_Spec secs bool

fun call_time :: "cw_call \<Rightarrow> secs" where
  "call_time (Observe m t cs) = t"
| "call_time (Restarted t) = t"
| "call_time (Read_Cache t polled) = t"
| "call_time (Read_Spec t polled) = t"

fun cw_exec :: "cw_call \<Rightarrow> counter_window \<Rightarrow> counter_window" where
  "cw_exec (Observe m t cs) c = cw_observe m t cs c"
| "cw_exec (Restarted t) c = cw_reset t c"
| "cw_exec (Read_Cache t polled) c = snd (cache_reuse t polled c)"
| "cw_exec (Read_Spec t polled) c = snd (spec_accept t polled c)"

type_synonym readings = "string option \<times> (secs \<times> counter_map) list"

fun seg_exec :: "cw_call \<Rightarrow> readings \<Rightarrow> readings" where
  "seg_exec (Observe m t cs) (model, seg) =
     (if m \<noteq> model then (m, [(t, cs)])
      else if seg \<noteq> [] \<and> (\<not> same_keys cs (snd (last seg)) \<or> decreased cs (snd (last seg)))
      then (model, [(t, cs)]) else (model, seg @ [(t, cs)]))"
| "seg_exec (Restarted t) (model, seg) = (model, [])"
| "seg_exec (Read_Cache t polled) r = r"
| "seg_exec (Read_Spec t polled) r = r"

lemma trim_nonempty [simp]: "trim_ring w t xs = [] \<longleftrightarrow> xs = []"
  by (induction w t xs rule: trim_ring.induct) auto

lemma trim_last [simp]: "xs \<noteq> [] \<Longrightarrow> last (trim_ring w t xs) = last xs"
  by (induction w t xs rule: trim_ring.induct) auto

lemma trim_trim: "t \<le> t' \<Longrightarrow> trim_ring w t' (trim_ring w t xs) = trim_ring w t' xs"
  by (induction w t xs rule: trim_ring.induct) auto

lemma trim_append: "t \<le> t' \<Longrightarrow> trim_ring w t' (trim_ring w t xs @ [x]) = trim_ring w t' (xs @ [x])"
  by (induction w t xs rule: trim_ring.induct) auto

lemma trim_hd:
  "xs \<noteq> [] \<Longrightarrow> hd (trim_ring w t xs) = (case find (\<lambda>e. t - fst e \<le> w) xs of None \<Rightarrow> last xs | Some e \<Rightarrow> e)"
  by (induction w t xs rule: trim_ring.induct) (auto split: option.split)

definition le_counters :: "counter_map \<Rightarrow> counter_map \<Rightarrow> bool" where
  "le_counters a b \<longleftrightarrow> same_keys a b \<and> (\<forall>k \<in> set (dict_keys a). dict_get_or a k 0 \<le> dict_get_or b k 0)"

lemma le_counters_trans: "le_counters a b \<Longrightarrow> le_counters b c \<Longrightarrow> le_counters a c"
  unfolding le_counters_def same_keys_def by (metis order_trans)

lemma le_counters_refl: "le_counters a a"
  by (simp add: le_counters_def same_keys_def)

lemma not_decreased_le:
  assumes "same_keys cs prev" and "\<not> decreased cs prev"
  shows "le_counters prev cs"
proof -
  have "dict_get_or prev k 0 \<le> dict_get_or cs k 0" if k': "k \<in> set (dict_keys prev)" for k
  proof -
    have k: "k \<in> set (dict_keys cs)" using assms(1) k' by (simp add: same_keys_def)
    obtain v where v: "dict_get cs k = Some v"
      using k by (cases "dict_get cs k") (simp_all add: map_of_eq_None_iff)
    obtain v' where v': "dict_get prev k = Some v'"
      using k' by (cases "dict_get prev k") (simp_all add: map_of_eq_None_iff)
    have "\<not> the (dict_get cs k) < the (dict_get prev k)"
      using assms(2) k unfolding decreased_def list_ex_iff by blast
    then show ?thesis using v v' by (simp add: dict_get_or_def)
  qed
  then show ?thesis using assms(1) unfolding le_counters_def same_keys_def by simp
qed

definition cw_sim :: "secs \<Rightarrow> secs \<Rightarrow> counter_window \<Rightarrow> readings \<Rightarrow> bool" where
  "cw_sim w t c r \<longleftrightarrow> cw_window c = w \<and> cw_model c = fst r \<and>
     trim_ring w t (cw_ring c) = trim_ring w t (snd r) \<and> sorted_wrt le_counters (map snd (snd r))"

lemma cw_sim_later: "cw_sim w t c r \<Longrightarrow> t \<le> t' \<Longrightarrow> cw_sim w t' c r"
  unfolding cw_sim_def by (metis trim_trim)

lemma cw_sim_last:
  "cw_sim w t c r \<Longrightarrow> (cw_ring c = [] \<longleftrightarrow> snd r = []) \<and> (snd r \<noteq> [] \<longrightarrow> last (cw_ring c) = last (snd r))"
proof -
  assume "cw_sim w t c r"
  then have eq: "trim_ring w t (cw_ring c) = trim_ring w t (snd r)" by (simp add: cw_sim_def)
  then have ne: "cw_ring c = [] \<longleftrightarrow> snd r = []" using trim_nonempty [of w t] by metis
  moreover have "last (cw_ring c) = last (snd r)" if "snd r \<noteq> []"
    using that ne arg_cong [OF eq, of last] by simp
  ultimately show ?thesis by blast
qed

lemma cw_sim_trim: "cw_sim w t c r \<Longrightarrow> cw_sim w t (cw_trim t c) r"
  by (simp add: cw_sim_def cw_trim_def trim_trim)

lemma seg_append_sorted:
  assumes "sorted_wrt le_counters (map snd seg)" and "seg \<noteq> [] \<Longrightarrow> le_counters (snd (last seg)) cs"
  shows "sorted_wrt le_counters (map snd (seg @ [(t, cs)]))"
proof (cases seg rule: rev_cases)
  case (snoc xs x)
  have x: "le_counters (snd x) cs" using assms(2) snoc by simp
  have "le_counters y cs" if "y \<in> set (map snd seg)" for y
  proof (cases "y = snd x")
    case False
    then have "le_counters y (snd x)"
      using that assms(1) unfolding snoc map_append sorted_wrt_append by auto
    then show ?thesis using x by (rule le_counters_trans)
  qed (simp add: x)
  then show ?thesis using assms(1) unfolding map_append sorted_wrt_append by simp
qed simp

lemma cw_sim_observe:
  assumes sim: "cw_sim w t c (model, seg)"
  shows "cw_sim w t (cw_observe m t cs c) (seg_exec (Observe m t cs) (model, seg))"
proof -
  note last = cw_sim_last [OF sim]
  have w: "cw_window c = w" "cw_model c = model" using sim by (simp_all add: cw_sim_def)
  show ?thesis
  proof (cases "m = model \<and> (seg = [] \<or> same_keys cs (snd (last seg)) \<and> \<not> decreased cs (snd (last seg)))")
    case True
    have so: "sorted_wrt le_counters (map snd (seg @ [(t, cs)]))"
      using sim True by (intro seg_append_sorted) (auto simp: cw_sim_def intro: not_decreased_le)
    have "trim_ring w t (cw_ring c @ [(t, cs)]) = trim_ring w t (seg @ [(t, cs)])"
      using sim trim_append [of t t w] unfolding cw_sim_def by (metis order_refl snd_conv)
    with True so w last show ?thesis
      by (auto simp: cw_sim_def cw_observe_def cw_trim_def trim_trim Let_def)
  next
    case False
    then show ?thesis using w last
      by (auto simp: cw_sim_def cw_observe_def cw_trim_def Let_def)
  qed
qed

lemma cw_sim_exec:
  assumes "cw_sim w t c r" and "t \<le> call_time call"
  shows "cw_sim w (call_time call) (cw_exec call c) (seg_exec call r)"
proof -
  note sim = cw_sim_later [OF assms]
  obtain model seg where r: "r = (model, seg)" by fastforce
  show ?thesis
  proof (cases call)
    case (Observe m t' cs)
    then show ?thesis using cw_sim_observe sim r by simp
  next
    case (Restarted t')
    then show ?thesis using sim r cw_sim_last [OF sim] by (auto simp: cw_sim_def cw_reset_def)
  next
    case (Read_Cache t' polled)
    then show ?thesis using sim cw_sim_trim [OF sim] by (simp add: cache_reuse_def Let_def)
  next
    case (Read_Spec t' polled)
    then show ?thesis using sim cw_sim_trim [OF sim] by (simp add: spec_accept_def Let_def)
  qed
qed

lemma cw_sim_run:
  assumes "sorted (map call_time calls @ [t])"
  shows "\<exists>t0 \<le> t. cw_sim w t0 (fold cw_exec calls (CounterWindow w)) (fold seg_exec calls (None, []))"
  using assms
proof (induction calls arbitrary: t rule: rev_induct)
  case Nil
  show ?case by (auto simp: cw_sim_def CounterWindow_def)
next
  case (snoc call calls)
  then have so: "sorted (map call_time calls @ [call_time call])" "call_time call \<le> t"
    by (auto simp: sorted_append)
  from snoc.IH [OF so(1)] obtain t0 where t0: "t0 \<le> call_time call"
    "cw_sim w t0 (fold cw_exec calls (CounterWindow w)) (fold seg_exec calls (None, []))" by blast
  from cw_sim_exec [OF t0(2,1)] so(2) show ?case by auto
qed

section \<open>What the readouts mean\<close>

lemma py_round_to_unit: "0 \<le> x \<Longrightarrow> x \<le> 1 \<Longrightarrow> 0 \<le> py_round_to d x \<and> py_round_to d x \<le> 1" for x :: rat
proof -
  assume x: "0 \<le> x" "x \<le> 1"
  have "0 \<le> x * 10 ^ d" "x * 10 ^ d \<le> of_int (10 ^ d)" using x by (simp_all add: mult_left_le_one_le)
  from py_round_mono [OF this(1)] py_round_mono [OF this(2)]
  have "0 \<le> py_round (x * 10 ^ d)" "py_round (x * 10 ^ d) \<le> 10 ^ d"
    using py_round_of_int [where ?'a = rat, of 0] py_round_of_int [where ?'a = rat, of "10 ^ d"] by simp_all
  then have "0 \<le> (of_int (py_round (x * 10 ^ d)) :: rat)" "(of_int (py_round (x * 10 ^ d)) :: rat) \<le> of_int (10 ^ d)"
    by (simp_all only: of_int_le_iff of_int_0_le_iff)
  then show ?thesis by (simp add: py_round_to_def)
qed

text \<open>The reading the deltas at time \<open>t\<close> are taken against: the oldest one still inside the window, or
  the last one when all have left it.\<close>

definition base_reading :: "secs \<Rightarrow> secs \<Rightarrow> (secs \<times> counter_map) list \<Rightarrow> counter_map" where
  "base_reading w t seg = snd (case find (\<lambda>e. t - fst e \<le> w) seg of None \<Rightarrow> last seg | Some e \<Rightarrow> e)"

lemma base_reading_le:
  assumes "sorted_wrt le_counters (map snd seg)" and "seg \<noteq> []"
  shows "le_counters (base_reading w t seg) (snd (last seg))"
proof (cases "find (\<lambda>e. t - fst e \<le> w) seg")
  case None
  then show ?thesis by (simp add: base_reading_def le_counters_refl)
next
  case (Some e)
  then have "e \<in> set seg" by (metis find_Some_iff nth_mem)
  then obtain i where i: "i < length seg" "e = seg ! i" by (metis in_set_conv_nth)
  have "le_counters (snd (seg ! i)) (snd (seg ! (length seg - 1)))"
  proof (cases "i = length seg - 1")
    case True
    then show ?thesis by (simp add: le_counters_refl)
  next
    case False
    with i assms(1) show ?thesis by (simp add: sorted_wrt_iff_nth_less)
  qed
  then have "le_counters (snd e) (snd (last seg))" using i assms(2) by (simp add: last_conv_nth)
  then show ?thesis using Some by (simp add: base_reading_def)
qed

lemma delta_exact:
  assumes "cw_sim w t c (model, seg)" and "seg \<noteq> []" and "dict_get (snd (last seg)) key \<noteq> None"
  shows "cw_delta key (cw_trim t c) = dict_get_or (snd (last seg)) key 0 - dict_get_or (base_reading w t seg) key 0 \<and>
    0 \<le> cw_delta key (cw_trim t c)"
proof -
  have ring: "cw_ring (cw_trim t c) = trim_ring w t seg"
    using assms(1) by (simp add: cw_sim_def cw_trim_def)
  have "le_counters (base_reading w t seg) (snd (last seg))"
    using assms(1,2) by (intro base_reading_le) (auto simp: cw_sim_def)
  moreover have "key \<in> set (dict_keys (snd (last seg)))" using assms(3) by (simp add: map_of_eq_None_iff)
  ultimately have "dict_get_or (base_reading w t seg) key 0 \<le> dict_get_or (snd (last seg)) key 0"
    unfolding le_counters_def same_keys_def by blast
  then show ?thesis using assms(2) ring by (simp add: cw_delta_def trim_hd base_reading_def)
qed

text \<open>
  C15: for any sequence of readings, restarts and readouts at non-decreasing times, the prompt-cache
  readout is exact against the untrimmed list of readings: the tokens it reports are the increase
  of each counter since the oldest reading of the current run that is still inside the window,
  never negative, and the ratio is a number between 0 and 1, absent exactly when nothing
  happened.\<close>

theorem cache_reuse_exact:
  fixes w :: secs and polled :: bool
  assumes "sorted (map call_time calls @ [t])"
    and "fold seg_exec calls (None, []) = (model, seg)" and "seg \<noteq> []"
    and "dict_get (snd (last seg)) ''prompt_processed'' = Some p"
    and "dict_get (snd (last seg)) ''prompt_cached'' = Some q"
  defines "r \<equiv> fst (cache_reuse t polled (fold cw_exec calls (CounterWindow w)))"
    and "dp \<equiv> p - dict_get_or (base_reading w t seg) ''prompt_processed'' 0"
    and "dq \<equiv> q - dict_get_or (base_reading w t seg) ''prompt_cached'' 0"
  shows "ru_processed r = Some dp \<and> ru_cached r = Some dq \<and> 0 \<le> dp \<and> 0 \<le> dq \<and>
    (ru_ratio r = None \<longleftrightarrow> dp + dq = 0) \<and> (\<forall>x. ru_ratio r = Some x \<longrightarrow> 0 \<le> x \<and> x \<le> 1)"
proof -
  let ?c = "fold cw_exec calls (CounterWindow w)"
  obtain t0 where "t0 \<le> t" "cw_sim w t0 ?c (model, seg)" using cw_sim_run [OF assms(1)] assms(2) by force
  then have sim: "cw_sim w t ?c (model, seg)" by (blast intro: cw_sim_later)
  have sup: "cw_supported [''prompt_processed'', ''prompt_cached''] ?c"
    using cw_sim_last [OF sim] assms(3-5) by (simp add: cw_supported_def)
  have dp: "cw_delta ''prompt_processed'' (cw_trim t ?c) = dp" "0 \<le> dp"
    using delta_exact [OF sim assms(3), of "''prompt_processed''"] assms(4) by (simp_all add: dp_def dict_get_or_def)
  have dq: "cw_delta ''prompt_cached'' (cw_trim t ?c) = dq" "0 \<le> dq"
    using delta_exact [OF sim assms(3), of "''prompt_cached''"] assms(5) by (simp_all add: dq_def dict_get_or_def)
  have r: "ru_processed r = Some dp" "ru_cached r = Some dq"
    "ru_ratio r = (if dp + dq > 0 then py_ratio dq (dp + dq) else None)"
    using sup dp(1) dq(1) by (simp_all add: r_def cache_reuse_def Let_def)
  have "0 \<le> x \<and> x \<le> 1" if "ru_ratio r = Some x" for x
  proof -
    have pos: "dp + dq > 0" and x: "x = py_round_to 4 (of_int dq / of_int (dp + dq))"
      using that r(3) by (auto simp: py_ratio_def split: if_splits)
    have "0 \<le> (of_int dq / of_int (dp + dq) :: rat)" "(of_int dq / of_int (dp + dq) :: rat) \<le> 1"
      using dp(2) dq(2) pos by (simp_all add: divide_le_eq_1)
    then show ?thesis unfolding x by (rule py_round_to_unit)
  qed
  moreover have "ru_ratio r = None \<longleftrightarrow> dp + dq = 0"
    using r(3) dp(2) dq(2) by (auto simp: py_ratio_def)
  ultimately show ?thesis using r dp dq by simp
qed

definition ex_calls :: "cw_call list" where
  "ex_calls =
     [Observe (Some ''m'') 0 [(''prompt_processed'', 5), (''prompt_cached'', 1)],
      Observe (Some ''m'') 30 [(''prompt_processed'', 9), (''prompt_cached'', 2)],
      Observe (Some ''m'') 70 [(''prompt_processed'', 12), (''prompt_cached'', 8)]]"

theorem cache_reuse_exact_witness:
  "ru_processed (fst (cache_reuse 80 True (fold cw_exec ex_calls (CounterWindow 60)))) = Some 3 \<and>
   ru_cached (fst (cache_reuse 80 True (fold cw_exec ex_calls (CounterWindow 60)))) = Some 6"
proof -
  let ?seg = "[(0, [(''prompt_processed'', 5), (''prompt_cached'', 1)]), (30, [(''prompt_processed'', 9), (''prompt_cached'', 2)]),
    (70, [(''prompt_processed'', 12), (''prompt_cached'', 8)])] :: (secs \<times> counter_map) list"
  have "sorted (map call_time ex_calls @ [80])" by (simp add: ex_calls_def)
  moreover have "fold seg_exec ex_calls (None, []) = (Some ''m'', ?seg)"
    by (simp add: ex_calls_def same_keys_def decreased_def)
  ultimately show ?thesis
    using cache_reuse_exact [of ex_calls 80 "Some ''m''" ?seg 12 8 True 60]
    by (simp add: base_reading_def dict_get_or_def)
qed

end
