(* ===== verification/AlertStore.thy ===== *)
theory AlertStore
  imports Interfaces
begin

text \<open>
  Alerts of the alarm engine and where they live: the data model
  (\<^verbatim>\<open>src/llm-systems-alarm-engine/backend/models/alert.py\<close>), the SQLite store with its hot table and
  its history table (\<^verbatim>\<open>storage/ae_alarms_db.py\<close>) and the repository with its cached snapshot of the
  ongoing alerts (\<^verbatim>\<open>AlertRepository\<close> in \<^verbatim>\<open>storage/repositories.py\<close>).

  An SQL statement is a function on the list of rows of a table; a table keeps its rows in rowid
  order, and rows that tie in an \<^verbatim>\<open>ORDER BY\<close> keep that order. Time stamps are naive UTC, written as
  ISO text, whose order is the order of the times; they are \<^typ>\<open>secs\<close> here. An identifier is the text
  of its UUID. A row and an \<^verbatim>\<open>Alert\<close> share one record: the column of the message is nullable, the
  field of the model is not, so reading a row back fails on a null message (\<open>dict_to_alert\<close>).
  \<open>now\<close> is a reading of \<^verbatim>\<open>now_utc()\<close>, \<open>clock\<close> one of \<^verbatim>\<open>time.time()\<close>. The database is always
  attached, as the engine does at start, and its calls do not fail.
\<close>

section \<open>Data model\<close>

datatype alert_status = Al_Active | Al_Acknowledged | Al_Closed | Al_Ignored | Al_Exception

definition ONGOING_STATUSES :: "alert_status list" where
  "ONGOING_STATUSES = [Al_Active, Al_Acknowledged, Al_Ignored]"

record alert =
  al_id :: string
  al_rule :: "string option"
  al_rule_name :: "string option"
  al_source :: string
  al_metric :: string
  al_value :: real
  al_threshold :: real
  al_severity :: string
  al_status :: alert_status
  al_message :: "string option"
  al_channels :: "string list"
  al_created :: secs
  al_evaluated :: "secs option"
  al_triggers :: int
  al_acked_at :: "secs option"
  al_closed_at :: "secs option"
  al_acked_by :: "string option"
  al_exception :: "string option"
  al_host :: "string option"
  al_incident :: "string option"
  al_reason :: "string option"
  al_resolved :: "real option"
  al_ignored_until :: "secs option"

record alert_create =
  cr_rule :: "string option"
  cr_rule_name :: "string option"
  cr_source :: string
  cr_metric :: string
  cr_value :: real
  cr_threshold :: real
  cr_severity :: string
  cr_message :: string
  cr_channels :: "string list"
  cr_host :: "string option"
  cr_incident :: "string option"

text \<open>\<^verbatim>\<open>x or None\<close> for an optional string.\<close>

definition or_none :: "string option \<Rightarrow> string option" where
  "or_none x = (if x = Some [] then None else x)"

definition to_alert :: "string \<Rightarrow> secs \<Rightarrow> alert_create \<Rightarrow> alert" where
  "to_alert aid now c =
     \<lparr>al_id = aid, al_rule = cr_rule c, al_rule_name = cr_rule_name c, al_source = cr_source c,
      al_metric = cr_metric c, al_value = cr_value c, al_threshold = cr_threshold c,
      al_severity = cr_severity c, al_status = Al_Active, al_message = Some (cr_message c),
      al_channels = cr_channels c, al_created = now, al_evaluated = Some now, al_triggers = 1,
      al_acked_at = None, al_closed_at = None, al_acked_by = None, al_exception = None,
      al_host = cr_host c, al_incident = Some (or_list (cr_incident c) aid),
      al_reason = None, al_resolved = None, al_ignored_until = None\<rparr>"

definition is_ongoing :: "alert \<Rightarrow> bool" where
  "is_ongoing a \<longleftrightarrow> al_status a \<in> {Al_Active, Al_Acknowledged}"

record alert_update =
  up_status :: "alert_status option"
  up_acked_by :: "string option"
  up_exception :: "string option"
  up_reason :: "string option"
  up_resolved :: "real option"
  up_ignored_until :: "secs option"

section \<open>The SQLite store\<close>

definition LIVE_STATUSES :: "alert_status list" where
  "LIVE_STATUSES = [Al_Active, Al_Acknowledged, Al_Ignored]"

definition NON_LIVE_STATUSES :: "alert_status list" where
  "NON_LIVE_STATUSES = filter (\<lambda>s. s \<notin> set LIVE_STATUSES) [Al_Active, Al_Acknowledged, Al_Closed, Al_Ignored, Al_Exception]"

record alert_event =
  ae_alert :: string
  ae_event :: string
  ae_at :: secs
  ae_actor :: "string option"
  ae_detail :: "string option"

record alarms_db =
  db_alerts :: "alert list"
  db_history :: "alert list"
  db_events :: "alert_event list"

definition archive_non_live :: "string option \<Rightarrow> alarms_db \<Rightarrow> alarms_db" where
  "archive_non_live alert_id db =
     (let moves = (\<lambda>r. al_status r \<in> set NON_LIVE_STATUSES \<and> (alert_id = None \<or> alert_id = Some (al_id r)));
          moved = filter moves (db_alerts db)
      in db\<lparr>db_history := filter (\<lambda>r. al_id r \<notin> al_id ` set moved) (db_history db) @ moved,
            db_alerts := filter (\<lambda>r. \<not> moves r) (db_alerts db)\<rparr>)"

text \<open>The column values \<^verbatim>\<open>write_alert\<close> stores for an alert.\<close>

definition alert_cols :: "alert \<Rightarrow> alert" where
  "alert_cols a = a\<lparr>al_rule := or_none (al_rule a), al_rule_name := or_none (al_rule_name a),
     al_host := or_none (al_host a), al_incident := or_none (al_incident a),
     al_severity := (if al_severity a = [] then ''info'' else al_severity a),
     al_message := or_none (al_message a), al_triggers := (if al_triggers a = 0 then 1 else al_triggers a),
     al_acked_by := or_none (al_acked_by a), al_exception := or_none (al_exception a),
     al_reason := or_none (al_reason a)\<rparr>"

text \<open>The conflict clause of the upsert keeps the rule, the metric and the creation time of the row.\<close>

definition upsert :: "alert \<Rightarrow> alert list \<Rightarrow> alert list" where
  "upsert a rows =
     (if al_id a \<in> al_id ` set rows
      then map (\<lambda>r. if al_id r = al_id a
                    then a\<lparr>al_rule := al_rule r, al_source := al_source r, al_metric := al_metric r,
                           al_created := al_created r\<rparr> else r) rows
      else rows @ [a])"

definition write_alert :: "alert \<Rightarrow> alarms_db \<Rightarrow> alarms_db" where
  "write_alert a db =
     (let db = db\<lparr>db_alerts := upsert (alert_cols a) (db_alerts db)\<rparr>
      in if al_status a \<in> set NON_LIVE_STATUSES then archive_non_live (Some (al_id a)) db
         else db\<lparr>db_history := filter (\<lambda>r. al_id r \<noteq> al_id a) (db_history db)\<rparr>)"

definition bump_refresh :: "string \<Rightarrow> real \<Rightarrow> secs \<Rightarrow> alarms_db \<Rightarrow> alarms_db" where
  "bump_refresh alert_id v ts db =
     db\<lparr>db_alerts := map (\<lambda>r. if al_id r = alert_id
        then r\<lparr>al_value := v, al_evaluated := Some ts, al_triggers := al_triggers r + 1\<rparr> else r) (db_alerts db)\<rparr>"

text \<open>\<^verbatim>\<open>COALESCE(closed_at, acknowledged_at, ignored_until, created_at)\<close>.\<close>

definition end_time :: "alert \<Rightarrow> secs" where
  "end_time r = (case al_closed_at r of Some t \<Rightarrow> t | None \<Rightarrow>
     (case al_acked_at r of Some t \<Rightarrow> t | None \<Rightarrow>
     (case al_ignored_until r of Some t \<Rightarrow> t | None \<Rightarrow> al_created r)))"

definition purge_history_older_than :: "secs \<Rightarrow> secs \<Rightarrow> alarms_db \<Rightarrow> nat \<times> alarms_db" where
  "purge_history_older_than cutoff now db =
     (let gone = (\<lambda>r. end_time r < cutoff \<and>
            (case al_ignored_until r of None \<Rightarrow> True | Some u \<Rightarrow> u \<le> now))
      in (length (filter gone (db_history db)), db\<lparr>db_history := filter (\<lambda>r. \<not> gone r) (db_history db)\<rparr>))"

definition unignore :: "string \<Rightarrow> alert \<Rightarrow> alert" where
  "unignore rid r = (if al_rule r = Some rid then r\<lparr>al_ignored_until := None\<rparr> else r)"

definition clear_ignored_until :: "string \<Rightarrow> alarms_db \<Rightarrow> alarms_db" where
  "clear_ignored_until rid db =
     db\<lparr>db_alerts := map (unignore rid) (db_alerts db), db_history := map (unignore rid) (db_history db)\<rparr>"

definition db_delete_alert :: "string \<Rightarrow> alarms_db \<Rightarrow> bool \<times> alarms_db" where
  "db_delete_alert alert_id db =
     (alert_id \<in> al_id ` set (db_alerts db) \<or> alert_id \<in> al_id ` set (db_history db),
      db\<lparr>db_alerts := filter (\<lambda>r. al_id r \<noteq> alert_id) (db_alerts db),
         db_history := filter (\<lambda>r. al_id r \<noteq> alert_id) (db_history db)\<rparr>)"

definition find_alert :: "string \<Rightarrow> alert list \<Rightarrow> alert option" where
  "find_alert alert_id rows = find (\<lambda>r. al_id r = alert_id) rows"

definition db_get_alert :: "string \<Rightarrow> alarms_db \<Rightarrow> alert option" where
  "db_get_alert alert_id db =
     (case find_alert alert_id (db_alerts db) of
        Some r \<Rightarrow> Some r | None \<Rightarrow> find_alert alert_id (db_history db))"

definition write_event :: "string \<Rightarrow> string \<Rightarrow> secs \<Rightarrow> string option \<Rightarrow> string option \<Rightarrow> alarms_db \<Rightarrow> alarms_db" where
  "write_event alert_id event ts actor detail db =
     db\<lparr>db_events := db_events db @
       [\<lparr>ae_alert = alert_id, ae_event = event, ae_at = ts, ae_actor = actor, ae_detail = detail\<rparr>]\<rparr>"

definition query_events :: "string \<Rightarrow> nat \<Rightarrow> alarms_db \<Rightarrow> alert_event list" where
  "query_events alert_id n db = take n (filter (\<lambda>e. ae_alert e = alert_id) (db_events db))"

definition query_active :: "nat \<Rightarrow> alarms_db \<Rightarrow> alert list" where
  "query_active n db =
     take n (sort_key (\<lambda>r. - al_created r) (filter (\<lambda>r. al_status r \<in> set LIVE_STATUSES) (db_alerts db)))"

definition query_all :: "nat \<Rightarrow> alarms_db \<Rightarrow> alert list" where
  "query_all n db = take n (sort_key (\<lambda>r. - al_created r) (db_alerts db))"

record alert_query =
  qr_status :: "alert_status option"
  qr_severity :: "string option"
  qr_rule :: "string option"
  qr_source :: "string option"
  qr_metric :: "string option"
  qr_sort_by :: string
  qr_desc :: bool
  qr_limit :: nat
  qr_offset :: nat

text \<open>An empty filter string does not filter.\<close>

definition matches :: "alert_query \<Rightarrow> alert \<Rightarrow> bool" where
  "matches q r \<longleftrightarrow>
     (case qr_status q of None \<Rightarrow> True | Some s \<Rightarrow> al_status r = s) \<and>
     (case or_none (qr_severity q) of None \<Rightarrow> True | Some s \<Rightarrow> al_severity r = s) \<and>
     (case or_none (qr_rule q) of None \<Rightarrow> True | Some s \<Rightarrow> al_rule r = Some s) \<and>
     (case or_none (qr_source q) of None \<Rightarrow> True | Some s \<Rightarrow> al_source r = s) \<and>
     (case or_none (qr_metric q) of None \<Rightarrow> True | Some s \<Rightarrow> al_metric r = s)"

text \<open>\<^verbatim>\<open>ORDER BY\<close> a column, in either direction.\<close>

definition order_rows :: "string \<Rightarrow> bool \<Rightarrow> alert list \<Rightarrow> alert list" where
  "order_rows sort_by desc rows =
     (if sort_by = ''severity''
      then (if desc then rev (sort_key al_severity (rev rows)) else sort_key al_severity rows)
      else (if desc then sort_key (\<lambda>r. - al_created r) rows else sort_key al_created rows))"

definition query_filtered :: "bool \<Rightarrow> alert_query \<Rightarrow> alarms_db \<Rightarrow> alert list" where
  "query_filtered live_only q db =
     (let rows = (if live_only then filter (\<lambda>r. al_status r \<in> set LIVE_STATUSES) (db_alerts db)
                  else db_alerts db @ db_history db)
      in take (qr_limit q) (drop (qr_offset q) (order_rows (qr_sort_by q) (qr_desc q) (filter (matches q) rows))))"

text \<open>The counts of one \<^verbatim>\<open>GROUP BY\<close> over both tables; \<^verbatim>\<open>by_severity\<close> has an entry per severity seen.\<close>

record alert_counts =
  ct_status :: "alert_status \<Rightarrow> nat"
  ct_severity :: "(string, nat) dict"
  ct_total :: nat

definition count_by_status_and_severity :: "alarms_db \<Rightarrow> alert_counts" where
  "count_by_status_and_severity db =
     (let rows = db_alerts db @ db_history db
      in \<lparr>ct_status = (\<lambda>s. length (filter (\<lambda>r. al_status r = s) rows)),
          ct_severity = map (\<lambda>v. (v, length (filter (\<lambda>r. al_severity r = v) rows))) (remdups (map al_severity rows)),
          ct_total = length rows\<rparr>)"

definition bulk_update_status ::
  "alert_status list \<Rightarrow> alert_status \<Rightarrow> secs option \<Rightarrow> secs option \<Rightarrow> secs option \<Rightarrow> alarms_db \<Rightarrow> nat \<times> alarms_db" where
  "bulk_update_status from_statuses to_status closed_at acked_at ignored_until db =
     (let hit = (\<lambda>r. al_status r \<in> set from_statuses);
          put = (\<lambda>r. let r = r\<lparr>al_status := to_status\<rparr>;
                         r = (if closed_at = None then r else r\<lparr>al_closed_at := closed_at\<rparr>);
                         r = (if acked_at = None then r else r\<lparr>al_acked_at := acked_at\<rparr>)
                     in if ignored_until = None then r else r\<lparr>al_ignored_until := ignored_until\<rparr>);
          n = length (filter hit (db_alerts db));
          db = db\<lparr>db_alerts := map (\<lambda>r. if hit r then put r else r) (db_alerts db)\<rparr>
      in (n, if to_status \<in> set NON_LIVE_STATUSES then archive_non_live None db else db))"

text \<open>One pair per rule with an open window, the latest end of its windows.\<close>

definition get_active_ignores :: "secs \<Rightarrow> alarms_db \<Rightarrow> (string \<times> secs) list" where
  "get_active_ignores now db =
     (let ws = concat (map (\<lambda>r. case (al_rule r, al_ignored_until r) of
                  (Some rid, Some u) \<Rightarrow> if u > now then [(rid, u)] else []
                | _ \<Rightarrow> []) (db_alerts db @ db_history db))
      in map (\<lambda>rid. (rid, Max (set (map snd (filter (\<lambda>w. fst w = rid) ws))))) (remdups (map fst ws)))"

section \<open>The repository\<close>

record alert_repo =
  rp_db :: alarms_db
  rp_cache :: "alert list option"
  rp_cache_ts :: secs
  rp_ttl :: secs
  rp_ignored :: "(string, secs) dict"

text \<open>A row becomes an \<^verbatim>\<open>Alert\<close> unless its message is null, which the model rejects.\<close>

definition dict_to_alert :: "alert \<Rightarrow> alert option" where
  "dict_to_alert r =
     (if al_message r = None then None
      else Some (r\<lparr>al_triggers := (if al_triggers r = 0 then 1 else al_triggers r),
                   al_reason := or_none (al_reason r)\<rparr>))"

definition load_ignores :: "secs \<Rightarrow> alarms_db \<Rightarrow> (string, secs) dict" where
  "load_ignores now db =
     fold (\<lambda>(rid, u) m. if rid = [] then m else dict_set rid u m) (get_active_ignores now db) []"

definition AlertRepository :: "secs \<Rightarrow> secs \<Rightarrow> alarms_db \<Rightarrow> alert_repo" where
  "AlertRepository ttl now db =
     \<lparr>rp_db = db, rp_cache = None, rp_cache_ts = 0, rp_ttl = ttl, rp_ignored = load_ignores now db\<rparr>"

definition invalidate_active_cache :: "alert_repo \<Rightarrow> alert_repo" where
  "invalidate_active_cache rp = rp\<lparr>rp_cache := None, rp_cache_ts := 0\<rparr>"

text \<open>A rule-less alert is \<open>None\<close>; so is an empty rule id.\<close>

definition set_rule_ignored :: "string option \<Rightarrow> secs \<Rightarrow> alert_repo \<Rightarrow> alert_repo" where
  "set_rule_ignored rid until rp =
     (case or_none rid of None \<Rightarrow> rp | Some r \<Rightarrow> rp\<lparr>rp_ignored := dict_set r until (rp_ignored rp)\<rparr>)"

definition clear_rule_ignored :: "string option \<Rightarrow> alert_repo \<Rightarrow> alert_repo" where
  "clear_rule_ignored rid rp =
     (case or_none rid of
        None \<Rightarrow> rp
      | Some r \<Rightarrow> rp\<lparr>rp_ignored := dict_pop r (rp_ignored rp), rp_db := clear_ignored_until r (rp_db rp)\<rparr>)"

definition is_rule_ignored :: "secs \<Rightarrow> string option \<Rightarrow> alert_repo \<Rightarrow> bool \<times> alert_repo" where
  "is_rule_ignored now rid rp =
     (case or_none rid of
        None \<Rightarrow> (False, rp)
      | Some r \<Rightarrow> (case dict_get (rp_ignored rp) r of
          None \<Rightarrow> (False, rp)
        | Some until \<Rightarrow> if until \<le> now then (False, rp\<lparr>rp_ignored := dict_pop r (rp_ignored rp)\<rparr>)
                        else (True, rp)))"

definition rule_ignored_until :: "secs \<Rightarrow> string option \<Rightarrow> alert_repo \<Rightarrow> secs option \<times> alert_repo" where
  "rule_ignored_until now rid rp =
     (let (ign, rp') = is_rule_ignored now rid rp
      in if \<not> ign then (None, rp')
         else (case or_none rid of None \<Rightarrow> None | Some r \<Rightarrow> dict_get (rp_ignored rp') r, rp'))"

definition save_alert :: "alert \<Rightarrow> alert_repo \<Rightarrow> alert_repo" where
  "save_alert a rp = rp\<lparr>rp_db := write_alert a (rp_db rp)\<rparr>"

definition repo_create :: "string \<Rightarrow> secs \<Rightarrow> alert_create \<Rightarrow> alert_repo \<Rightarrow> alert \<times> alert_repo" where
  "repo_create aid now c rp =
     (let a = to_alert aid now c in (a, invalidate_active_cache (save_alert a rp)))"

definition get_by_id :: "string \<Rightarrow> alert_repo \<Rightarrow> alert option" where
  "get_by_id alert_id rp = (case db_get_alert alert_id (rp_db rp) of None \<Rightarrow> None | Some r \<Rightarrow> dict_to_alert r)"

definition record_event :: "secs \<Rightarrow> string \<Rightarrow> string \<Rightarrow> string option \<Rightarrow> string option \<Rightarrow> alert_repo \<Rightarrow> alert_repo" where
  "record_event now alert_id event actor detail rp =
     rp\<lparr>rp_db := write_event alert_id event now actor detail (rp_db rp)\<rparr>"

definition get_events :: "string \<Rightarrow> nat \<Rightarrow> alert_repo \<Rightarrow> alert_event list" where
  "get_events alert_id n rp = query_events alert_id n (rp_db rp)"

definition readable :: "alert list \<Rightarrow> alert list" where
  "readable rows = List.map_filter dict_to_alert rows"

definition get_active :: "secs \<Rightarrow> alert_repo \<Rightarrow> alert list \<times> alert_repo" where
  "get_active clock rp =
     (case rp_cache rp of
        Some c \<Rightarrow> if clock - rp_cache_ts rp < rp_ttl rp then (c, rp)
                  else (let out = readable (query_active 1000 (rp_db rp))
                        in (out, rp\<lparr>rp_cache := Some out, rp_cache_ts := clock\<rparr>))
      | None \<Rightarrow> (let out = readable (query_active 1000 (rp_db rp))
                 in (out, rp\<lparr>rp_cache := Some out, rp_cache_ts := clock\<rparr>)))"

definition list_alerts :: "bool \<Rightarrow> bool \<Rightarrow> alert_query \<Rightarrow> alert_repo \<Rightarrow> alert list" where
  "list_alerts only_active include_closed q rp =
     (let live_only = (only_active \<or> \<not> include_closed) \<and>
            (case qr_status q of None \<Rightarrow> True | Some s \<Rightarrow> s \<notin> set NON_LIVE_STATUSES)
      in readable (query_filtered live_only (q\<lparr>qr_source := None, qr_sort_by := ''created_at'', qr_desc := True\<rparr>) (rp_db rp)))"

definition repo_query :: "bool \<Rightarrow> alert_query \<Rightarrow> alert_repo \<Rightarrow> alert list" where
  "repo_query include_closed q rp =
     (let live_only = \<not> include_closed \<and> (case qr_status q of None \<Rightarrow> True | Some s \<Rightarrow> s \<notin> set NON_LIVE_STATUSES)
      in query_filtered live_only q (rp_db rp))"

text \<open>The fields an update names replace those of the stored alert.\<close>

definition or_keep :: "'a option \<Rightarrow> 'a option \<Rightarrow> 'a option" where
  "or_keep new old = (case new of None \<Rightarrow> old | Some v \<Rightarrow> Some v)"

definition apply_update :: "secs \<Rightarrow> alert_update \<Rightarrow> alert \<Rightarrow> alert" where
  "apply_update now u a =
     (let a = a\<lparr>al_status := (case up_status u of None \<Rightarrow> al_status a | Some s \<Rightarrow> s),
                al_acked_by := or_keep (up_acked_by u) (al_acked_by a),
                al_exception := or_keep (up_exception u) (al_exception a),
                al_reason := or_none (or_keep (up_reason u) (al_reason a)),
                al_resolved := or_keep (up_resolved u) (al_resolved a),
                al_ignored_until := or_keep (up_ignored_until u) (al_ignored_until a)\<rparr>
      in if up_status u = Some Al_Acknowledged \<and> al_acked_at a = None then a\<lparr>al_acked_at := Some now\<rparr>
         else if up_status u = Some Al_Closed \<and> al_closed_at a = None then a\<lparr>al_closed_at := Some now\<rparr>
         else a)"

definition repo_update :: "secs \<Rightarrow> string \<Rightarrow> alert_update \<Rightarrow> alert_repo \<Rightarrow> alert option \<times> alert_repo" where
  "repo_update now alert_id u rp =
     (case get_by_id alert_id rp of
        None \<Rightarrow> (None, rp)
      | Some e \<Rightarrow> (let a = apply_update now u e in (Some a, invalidate_active_cache (save_alert a rp))))"

definition resumed :: "alert \<Rightarrow> alert" where
  "resumed a = a\<lparr>al_status := Al_Active, al_ignored_until := None, al_acked_at := None, al_acked_by := None\<rparr>"

definition repo_resume :: "string \<Rightarrow> alert_repo \<Rightarrow> alert option \<times> alert_repo" where
  "repo_resume alert_id rp =
     (case get_by_id alert_id rp of
        None \<Rightarrow> (None, rp)
      | Some e \<Rightarrow> (let a = resumed e in (Some a, invalidate_active_cache (save_alert a rp))))"

definition refreshed :: "real \<Rightarrow> secs \<Rightarrow> alert \<Rightarrow> alert" where
  "refreshed v ts a = a\<lparr>al_value := v, al_evaluated := Some ts,
     al_triggers := (if al_triggers a = 0 then 1 else al_triggers a) + 1\<rparr>"

text \<open>\<open>patch_first\<close> copies the refreshed fields onto the first cached alert with the same id.\<close>

fun patch_first :: "alert \<Rightarrow> alert list \<Rightarrow> alert list" where
  "patch_first a [] = []"
| "patch_first a (c # cs) =
     (if al_id c = al_id a
      then c\<lparr>al_value := al_value a, al_evaluated := al_evaluated a, al_triggers := al_triggers a\<rparr> # cs
      else c # patch_first a cs)"

definition repo_refresh :: "secs \<Rightarrow> alert \<Rightarrow> real \<Rightarrow> alert_repo \<Rightarrow> alert \<times> alert_repo" where
  "repo_refresh now a v rp =
     (let a' = refreshed v now a
      in (a', rp\<lparr>rp_db := bump_refresh (al_id a) v now (rp_db rp),
                 rp_cache := map_option (patch_first a') (rp_cache rp)\<rparr>))"

definition repo_delete :: "string \<Rightarrow> alert_repo \<Rightarrow> bool \<times> alert_repo" where
  "repo_delete alert_id rp =
     (let (ok, db) = db_delete_alert alert_id (rp_db rp)
      in (ok, invalidate_active_cache (rp\<lparr>rp_db := db\<rparr>)))"

definition close_all_alerts :: "secs \<Rightarrow> alert_repo \<Rightarrow> nat \<times> alert_repo" where
  "close_all_alerts now rp =
     (let (n, db) = bulk_update_status [Al_Active, Al_Acknowledged, Al_Ignored] Al_Closed (Some now) None None (rp_db rp)
      in (n, invalidate_active_cache (rp\<lparr>rp_db := db\<rparr>)))"

definition ignore_all_alerts :: "secs \<Rightarrow> secs \<Rightarrow> int \<Rightarrow> alert_repo \<Rightarrow> nat \<times> alert_repo" where
  "ignore_all_alerts now clock hours rp =
     (let until = now + 3600 * of_int hours;
          (active, rp) = get_active clock rp;
          affected = remdups (List.map_filter (\<lambda>a. or_none (al_rule a)) active);
          (n, db) = bulk_update_status [Al_Active, Al_Acknowledged] Al_Ignored None None (Some until) (rp_db rp);
          rp = rp\<lparr>rp_db := db\<rparr>;
          rp = fold (\<lambda>rid. set_rule_ignored (Some rid) until) affected rp
      in (n, invalidate_active_cache rp))"

end
