(* ===== verification/AlertManager.thy ===== *)
theory AlertManager
  imports AlertStore
begin

text \<open>
  The life cycle of alerts (\<^verbatim>\<open>src/llm-systems-alarm-engine/backend/engine/alert_manager.py\<close>):
  creation with deduplication and incident correlation, acknowledge, close, ignore, resume and
  delete. A method is a function on the manager's record: the repository, whether a broadcast
  callback is set, and the broadcasts made so far. An alert id in the text form is an optional UUID,
  \<open>None\<close> where \<^verbatim>\<open>uuid.UUID\<close> raises \<^verbatim>\<open>ValueError\<close>; log lines are left out.
\<close>

datatype alert_exn = AlertStateError string

record ws_message =
  ws_event :: string
  ws_alert :: alert
  ws_incident_size :: nat

record alert_manager =
  mg_repo :: alert_repo
  mg_ws :: bool
  mg_sent :: "ws_message list"

text \<open>The rules' correlation groups and the correlation settings.\<close>

record correlation =
  co_enabled :: bool
  co_window :: "secs option"
  co_groups :: "(string \<times> string option) list"

section \<open>Broadcasts\<close>

definition incident_size :: "secs \<Rightarrow> alert \<Rightarrow> alert_repo \<Rightarrow> nat \<times> alert_repo" where
  "incident_size clock a rp =
     (case or_none (al_incident a) of
        None \<Rightarrow> (1, rp)
      | Some iid \<Rightarrow> (let (active, rp) = get_active clock rp
                     in (max 1 (length (filter (\<lambda>b. al_incident b = Some iid) active)), rp)))"

definition emit_ws_event :: "secs \<Rightarrow> string \<Rightarrow> alert \<Rightarrow> alert_manager \<Rightarrow> alert_manager" where
  "emit_ws_event clock event a m =
     (if \<not> mg_ws m then m
      else let (n, rp) = incident_size clock a (mg_repo m)
           in m\<lparr>mg_repo := rp,
                mg_sent := mg_sent m @ [\<lparr>ws_event = event, ws_alert = a, ws_incident_size = n\<rparr>]\<rparr>)"

section \<open>Incidents\<close>

definition rule_correlation_groups :: "correlation \<Rightarrow> (string, string option) dict" where
  "rule_correlation_groups co = dict_comp fst (\<lambda>r. or_none (snd r)) (co_groups co) []"

text \<open>\<^verbatim>\<open>groups.get(str(rule_id))\<close>; the text of a missing rule id is \<^verbatim>\<open>"None"\<close>.\<close>

definition rule_text :: "string option \<Rightarrow> string" where
  "rule_text rid = (case rid of None \<Rightarrow> ''None'' | Some r \<Rightarrow> r)"

definition group_of :: "(string, string option) dict \<Rightarrow> string option \<Rightarrow> string option" where
  "group_of groups rid = (case dict_get groups (rule_text rid) of None \<Rightarrow> None | Some g \<Rightarrow> g)"

definition anchor :: "alert \<Rightarrow> secs" where
  "anchor a = (case al_evaluated a of None \<Rightarrow> al_created a | Some t \<Rightarrow> t)"

definition assign_incident :: "correlation \<Rightarrow> secs \<Rightarrow> alert_create \<Rightarrow> alert list \<Rightarrow> string option" where
  "assign_incident co now c active =
     (if \<not> co_enabled co then None
      else let host = or_none (cr_host c);
               ongoing = filter (\<lambda>a. is_ongoing a \<and> or_none (al_host a) = host) active
           in if ongoing = [] then None
              else let groups = rule_correlation_groups co;
                       my_group = group_of groups (cr_rule c);
                       mates = (if my_group = None then []
                                else filter (\<lambda>a. group_of groups (al_rule a) = my_group \<and>
                                                 or_none (al_incident a) \<noteq> None) ongoing)
                   in if mates \<noteq> [] then al_incident (hd mates)
                      else if host = None then None
                      else let window = (case co_window co of None \<Rightarrow> 60 | Some w \<Rightarrow> w);
                               near = filter (\<lambda>a. now - anchor a \<le> window \<and> or_none (al_incident a) \<noteq> None)
                                        (sort_key (\<lambda>a. - anchor a) ongoing)
                           in if near = [] then None else al_incident (hd near))"

section \<open>Creation\<close>

definition same_rule :: "string option \<Rightarrow> alert \<Rightarrow> bool" where
  "same_rule rid a \<longleftrightarrow> rule_text (al_rule a) = rule_text rid \<and> al_status a \<in> set ONGOING_STATUSES"

text \<open>\<open>show\<close> renders the two numbers of the \<^verbatim>\<open>created\<close> event.\<close>

definition process_alert ::
  "(real \<Rightarrow> string) \<Rightarrow> correlation \<Rightarrow> string \<Rightarrow> secs \<Rightarrow> secs \<Rightarrow> alert_create \<Rightarrow> alert_manager \<Rightarrow> alert option \<times> alert_manager" where
  "process_alert show_num co aid now clock c m =
     (let (born, rp) = (if or_none (cr_rule c) = None then (None, mg_repo m)
                        else let (ign, rp) = is_rule_ignored now (cr_rule c) (mg_repo m)
                             in if ign then rule_ignored_until now (cr_rule c) rp else (None, rp));
          (existing, rp) = get_active clock rp;
          matching = filter (same_rule (cr_rule c)) existing
      in if matching \<noteq> [] then (None, m\<lparr>mg_repo := snd (repo_refresh now (hd matching) (cr_value c) rp)\<rparr>)
         else let incident = assign_incident co now c existing;
                  c = (if or_none incident = None then c else c\<lparr>cr_incident := incident\<rparr>);
                  (a, rp) = repo_create aid now c rp;
                  (a, rp) = (case born of
                      None \<Rightarrow> (a, rp)
                    | Some until \<Rightarrow>
                        (let (r, rp) = repo_update now (al_id a)
                               \<lparr>up_status = Some Al_Ignored, up_acked_by = None, up_exception = None,
                                up_reason = None, up_resolved = None, up_ignored_until = Some until\<rparr> rp
                         in (case r of None \<Rightarrow> a | Some b \<Rightarrow> b, rp)));
                  rp = record_event now (al_id a) ''created'' None
                         (Some (show_num (al_value a) @ '' vs '' @ show_num (al_threshold a))) rp
              in (Some a, emit_ws_event clock ''alert_created'' a (m\<lparr>mg_repo := rp\<rparr>)))"

section \<open>Transitions\<close>

definition status_update :: "alert_status \<Rightarrow> alert_update" where
  "status_update s = \<lparr>up_status = Some s, up_acked_by = None, up_exception = None, up_reason = None,
     up_resolved = None, up_ignored_until = None\<rparr>"

definition acknowledge_alert ::
  "secs \<Rightarrow> secs \<Rightarrow> string option \<Rightarrow> alert_manager \<Rightarrow> alert_exn + alert option \<times> alert_manager" where
  "acknowledge_alert now clock uid m =
     (case uid of None \<Rightarrow> Inr (None, m) | Some i \<Rightarrow>
      (case get_by_id i (mg_repo m) of
         None \<Rightarrow> Inr (None, m)
       | Some a \<Rightarrow>
           if al_status a = Al_Closed
           then Inl (AlertStateError (''Alert '' @ i @ '' is closed and cannot be acknowledged''))
           else let (r, rp) = repo_update now i (status_update Al_Acknowledged) (mg_repo m)
                in case r of
                     None \<Rightarrow> Inr (None, m\<lparr>mg_repo := rp\<rparr>)
                   | Some b \<Rightarrow>
                       (let rp = clear_rule_ignored (al_rule a) rp;
                            rp = record_event now i ''acknowledged'' (al_acked_by b) None rp
                        in Inr (Some b, emit_ws_event clock ''alert_acknowledged'' b (m\<lparr>mg_repo := rp\<rparr>)))))"

text \<open>\<open>reason\<close> is \<open>Some ''auto''\<close> for an auto-resolve; the detail of the event is the reason and, when
  there is one, the value at which the alert cleared.\<close>

definition close_detail :: "(real \<Rightarrow> string) \<Rightarrow> string option \<Rightarrow> real option \<Rightarrow> string" where
  "close_detail show_num reason resolved =
     or_list reason ''manual'' @ (case resolved of None \<Rightarrow> [] | Some v \<Rightarrow> '' @ '' @ show_num v)"

definition close_alert ::
  "(real \<Rightarrow> string) \<Rightarrow> secs \<Rightarrow> secs \<Rightarrow> string option \<Rightarrow> string option \<Rightarrow> real option \<Rightarrow> alert_manager \<Rightarrow> alert option \<times> alert_manager" where
  "close_alert show_num now clock uid reason resolved m =
     (case uid of None \<Rightarrow> (None, m) | Some i \<Rightarrow>
      (case get_by_id i (mg_repo m) of
         None \<Rightarrow> (None, m)
       | Some a \<Rightarrow>
           (let (r, rp) = repo_update now i
                  ((status_update Al_Closed)\<lparr>up_reason := reason, up_resolved := resolved\<rparr>) (mg_repo m)
            in case r of
                 None \<Rightarrow> (None, m\<lparr>mg_repo := rp\<rparr>)
               | Some b \<Rightarrow>
                   (let rp = (if reason \<noteq> Some ''auto'' then clear_rule_ignored (al_rule a) rp else rp);
                        rp = record_event now i ''closed'' (al_acked_by a) (Some (close_detail show_num reason resolved)) rp
                    in (Some b, emit_ws_event clock ''alert_closed'' b (m\<lparr>mg_repo := rp\<rparr>))))))"

fun close_each ::
  "(real \<Rightarrow> string) \<Rightarrow> secs \<Rightarrow> secs \<Rightarrow> string \<Rightarrow> string \<Rightarrow> alert list \<Rightarrow> alert_manager \<Rightarrow> nat \<times> alert_manager" where
  "close_each show_num now clock rid reason [] m = (0, m)"
| "close_each show_num now clock rid reason (a # as) m =
     (if al_status a \<notin> set ONGOING_STATUSES \<or> rule_text (al_rule a) \<noteq> rid
      then close_each show_num now clock rid reason as m
      else let (r, m) = close_alert show_num now clock (Some (al_id a)) (Some reason) None m;
               (n, m) = close_each show_num now clock rid reason as m
           in (if r = None then n else n + 1, m))"

definition close_rule_alerts ::
  "(real \<Rightarrow> string) \<Rightarrow> secs \<Rightarrow> secs \<Rightarrow> string \<Rightarrow> string \<Rightarrow> alert_manager \<Rightarrow> nat \<times> alert_manager" where
  "close_rule_alerts show_num now clock rid reason m =
     (let (active, rp) = get_active clock (mg_repo m)
      in close_each show_num now clock rid reason active (m\<lparr>mg_repo := rp\<rparr>))"

definition delete_alert :: "string option \<Rightarrow> alert_manager \<Rightarrow> bool \<times> alert_manager" where
  "delete_alert uid m =
     (case uid of None \<Rightarrow> (False, m) | Some i \<Rightarrow>
      (let existing = get_by_id i (mg_repo m); (ok, rp) = repo_delete i (mg_repo m);
           rp = (case existing of
                   Some a \<Rightarrow> if ok then clear_rule_ignored (al_rule a) rp else rp
                 | None \<Rightarrow> rp)
       in (ok, m\<lparr>mg_repo := rp\<rparr>)))"

text \<open>The route \<^verbatim>\<open>DELETE /alerts/{alert_id}\<close> goes to the repository, not to the manager.\<close>

definition delete_route :: "string option \<Rightarrow> alert_manager \<Rightarrow> bool \<times> alert_manager" where
  "delete_route uid m =
     (case uid of None \<Rightarrow> (False, m) | Some i \<Rightarrow>
      (let (ok, rp) = repo_delete i (mg_repo m) in (ok, m\<lparr>mg_repo := rp\<rparr>)))"

text \<open>\<open>iso_text\<close> prints the end of the window.\<close>

definition ignore_alert ::
  "(secs \<Rightarrow> string) \<Rightarrow> secs \<Rightarrow> secs \<Rightarrow> string option \<Rightarrow> int \<Rightarrow> alert_manager \<Rightarrow> alert_exn + alert option \<times> alert_manager" where
  "ignore_alert iso_text now clock uid hours m =
     (case uid of None \<Rightarrow> Inr (None, m) | Some i \<Rightarrow>
      (case get_by_id i (mg_repo m) of
         None \<Rightarrow> Inr (None, m)
       | Some a \<Rightarrow>
           if al_status a = Al_Closed
           then Inl (AlertStateError (''Alert '' @ i @ '' is closed and cannot be ignored''))
           else let until = now + 3600 * of_int hours;
                    (r, rp) = repo_update now i ((status_update Al_Ignored)\<lparr>up_ignored_until := Some until\<rparr>) (mg_repo m)
                in case r of
                     None \<Rightarrow> Inr (None, m\<lparr>mg_repo := rp\<rparr>)
                   | Some b \<Rightarrow>
                       (let rp = set_rule_ignored (al_rule a) until rp;
                            rp = record_event now i ''ignored'' None (Some (iso_text until)) rp
                        in Inr (Some b, emit_ws_event clock ''alert_ignored'' b (m\<lparr>mg_repo := rp\<rparr>)))))"

definition resume_alert :: "secs \<Rightarrow> secs \<Rightarrow> string option \<Rightarrow> alert_manager \<Rightarrow> alert option \<times> alert_manager" where
  "resume_alert now clock uid m =
     (case uid of None \<Rightarrow> (None, m) | Some i \<Rightarrow>
      (case get_by_id i (mg_repo m) of
         None \<Rightarrow> (None, m)
       | Some a \<Rightarrow>
           (let (r, rp) = repo_resume i (mg_repo m)
            in case r of
                 None \<Rightarrow> (None, m\<lparr>mg_repo := rp\<rparr>)
               | Some b \<Rightarrow>
                   (let rp = clear_rule_ignored (al_rule a) rp;
                        rp = record_event now i (if al_status a = Al_Ignored then ''ignore_ended'' else ''unacknowledged'')
                               None None rp
                    in (Some b, emit_ws_event clock ''alert_resumed'' b (m\<lparr>mg_repo := rp\<rparr>))))))"

definition get_alert_stats :: "alert_manager \<Rightarrow> alert_counts" where
  "get_alert_stats m = count_by_status_and_severity (rp_db (mg_repo m))"

end
