(* ===== verification/Notifications.thy ===== *)
theory Notifications
  imports AlertManager
begin

text \<open>
  Channels and policies of the alarm engine's notifications
  (\<^verbatim>\<open>src/llm-systems-alarm-engine/backend/models/notification.py\<close>): the per-type channel
  configurations, the filters of an alarm policy, and the masking of channel secrets on the way to
  the browser and back.
\<close>

section \<open>Channels\<close>

datatype channel_type = Ch_Toast | Ch_Sms | Ch_Email | Ch_Webhook | Ch_Discord | Ch_Webpush

record toast_config =
  to_enabled :: bool

record sms_config =
  sm_enabled :: bool
  sm_number :: string

record email_config =
  em_enabled :: bool
  em_to :: string
  em_prefix :: string

record webhook_config =
  wh_enabled :: bool
  wh_url :: string
  wh_method :: string
  wh_headers :: "(string, string) dict"
  wh_secret :: "string option"

record discord_config =
  di_enabled :: bool
  di_url :: string
  di_username :: "string option"
  di_avatar :: "string option"

record webpush_config =
  wp_enabled :: bool
  wp_url :: string
  wp_token :: "string option"
  wp_verify :: bool

record channel_config =
  cc_toast :: "toast_config option"
  cc_sms :: "sms_config option"
  cc_email :: "email_config option"
  cc_webhook :: "webhook_config option"
  cc_discord :: "discord_config option"
  cc_webpush :: "webpush_config option"

record channel =
  ch_id :: string
  ch_name :: string
  ch_description :: "string option"
  ch_type :: channel_type
  ch_config :: channel_config
  ch_enabled :: bool
  ch_rules :: "string list"
  ch_created :: secs
  ch_last_sent :: "secs option"
  ch_sends :: int
  ch_fails :: int

record channel_create =
  cn_name :: string
  cn_description :: "string option"
  cn_type :: channel_type
  cn_config :: channel_config
  cn_enabled :: bool
  cn_rules :: "string list"

definition to_channel :: "string \<Rightarrow> secs \<Rightarrow> channel_create \<Rightarrow> channel" where
  "to_channel cid now c =
     \<lparr>ch_id = cid, ch_name = cn_name c, ch_description = cn_description c, ch_type = cn_type c,
      ch_config = cn_config c, ch_enabled = cn_enabled c, ch_rules = cn_rules c, ch_created = now,
      ch_last_sent = None, ch_sends = 0, ch_fails = 0\<rparr>"

section \<open>Secrets\<close>

definition SECRET_MASK :: string where
  "SECRET_MASK = ''********''"

definition mask_text :: "string option \<Rightarrow> string option" where
  "mask_text t = (if or_none t = None then t else Some SECRET_MASK)"

definition mask_channel_secrets :: "channel_config \<Rightarrow> channel_config" where
  "mask_channel_secrets c =
     c\<lparr>cc_webpush := map_option (\<lambda>w. w\<lparr>wp_token := mask_text (wp_token w)\<rparr>) (cc_webpush c),
       cc_webhook := map_option (\<lambda>w. w\<lparr>wh_secret := mask_text (wh_secret w),
         wh_headers := map (\<lambda>(k, v). (k, SECRET_MASK)) (wh_headers w)\<rparr>) (cc_webhook c)\<rparr>"

definition keep_headers :: "(string, string) dict \<Rightarrow> (string, string) dict \<Rightarrow> (string, string) dict" where
  "keep_headers old hs =
     fold (\<lambda>(k, v) out. if v \<noteq> SECRET_MASK then dict_set k v out
                        else case dict_get old k of None \<Rightarrow> out | Some w \<Rightarrow> dict_set k w out) hs []"

definition keep_webhook :: "webhook_config option \<Rightarrow> webhook_config \<Rightarrow> webhook_config" where
  "keep_webhook old w =
     w\<lparr>wh_secret := (if wh_secret w = Some SECRET_MASK
          then (case old of None \<Rightarrow> None | Some o1 \<Rightarrow> wh_secret o1) else wh_secret w),
       wh_headers := keep_headers (case old of None \<Rightarrow> [] | Some o1 \<Rightarrow> wh_headers o1) (wh_headers w)\<rparr>"

definition keep_webpush :: "webpush_config option \<Rightarrow> webpush_config \<Rightarrow> webpush_config" where
  "keep_webpush old w =
     (if wp_token w = Some SECRET_MASK
      then w\<lparr>wp_token := (case old of None \<Rightarrow> None | Some o1 \<Rightarrow> wp_token o1)\<rparr> else w)"

text \<open>\<open>upd\<close> is the config of the update, \<open>None\<close> when the update leaves it alone.\<close>

definition keep_masked_secrets :: "channel_config option \<Rightarrow> channel_config \<Rightarrow> channel_config option" where
  "keep_masked_secrets upd existing =
     map_option (\<lambda>c. c\<lparr>cc_webpush := map_option (keep_webpush (cc_webpush existing)) (cc_webpush c),
                       cc_webhook := map_option (keep_webhook (cc_webhook existing)) (cc_webhook c)\<rparr>) upd"

section \<open>Policies\<close>

record policy =
  po_id :: string
  po_name :: string
  po_channels :: "string list"
  po_enabled :: bool
  po_auto_dismiss :: bool
  po_dismiss_s :: int
  po_min_severity :: "string option"
  po_sources :: "string list"
  po_metrics :: "string list"
  po_hosts :: "string list"
  po_rules :: "string list"
  po_repeat_min :: int
  po_on_clear :: bool
  po_min_count :: int

definition ascii_lower :: "string \<Rightarrow> string" where
  "ascii_lower s = map (\<lambda>c. let n = of_char c :: nat in if 65 \<le> n \<and> n \<le> 90 then char_of (n + 32) else c) s"

definition SEVERITY_RANK :: "(string, nat) dict" where
  "SEVERITY_RANK = [(''info'', 0), (''warning'', 1), (''critical'', 2)]"

definition severity_passes :: "string option \<Rightarrow> string \<Rightarrow> bool" where
  "severity_passes min_sev sev =
     (case or_none min_sev of
        None \<Rightarrow> True
      | Some f \<Rightarrow> (case dict_get SEVERITY_RANK (ascii_lower f) of
          None \<Rightarrow> True
        | Some lo \<Rightarrow> (case dict_get SEVERITY_RANK (ascii_lower sev) of None \<Rightarrow> False | Some l \<Rightarrow> \<not> l < lo)))"

definition whitelisted :: "string list \<Rightarrow> string \<Rightarrow> bool" where
  "whitelisted xs x \<longleftrightarrow> xs = [] \<or> x \<in> set xs"

definition matches_alert :: "alert \<Rightarrow> policy \<Rightarrow> bool" where
  "matches_alert a p \<longleftrightarrow>
     severity_passes (po_min_severity p) (al_severity a) \<and> whitelisted (po_sources p) (al_source a) \<and>
     whitelisted (po_metrics p) (al_metric a) \<and> whitelisted (po_hosts p) (or_list (al_host a) []) \<and>
     whitelisted (po_rules p) (or_list (al_rule a) [])"

section \<open>Masked secrets come back\<close>

lemma keep_headers_mask:
  assumes "dict_ok hs"
  shows "keep_headers hs (map (\<lambda>(k, v). (k, SECRET_MASK)) hs) = hs"
proof -
  have "fold (\<lambda>(k, v) out. if v \<noteq> SECRET_MASK then dict_set k v out
      else case dict_get hs k of None \<Rightarrow> out | Some w \<Rightarrow> dict_set k w out)
      (map (\<lambda>(k, v). (k, SECRET_MASK)) ys) xs = xs @ ys"
    if "hs = xs @ ys" for xs ys
    using that
  proof (induction ys arbitrary: xs)
    case (Cons y ys)
    obtain k v where y: "y = (k, v)" by fastforce
    have k: "k \<notin> set (dict_keys xs)" using assms Cons.prems y by auto
    have "(k, v) \<in> set hs" using Cons.prems y by simp
    then have v: "dict_get hs k = Some v" by (rule dict_get_iff [OF assms, THEN iffD2])
    have "dict_set k v xs = xs @ [(k, v)]" using k by (induction xs) auto
    then show ?case using Cons.IH [of "xs @ [y]"] Cons.prems v y by simp
  qed simp
  from this [of "[]" hs] show ?thesis by (simp add: keep_headers_def)
qed

lemma mask_text_kept: "(if mask_text t = Some SECRET_MASK then t else mask_text t) = t"
  by (simp add: mask_text_def)

lemma keep_webhook_mask:
  "dict_ok (wh_headers w) \<Longrightarrow>
   keep_webhook (Some w) (w\<lparr>wh_secret := mask_text (wh_secret w), wh_headers := map (\<lambda>(k, v). (k, SECRET_MASK)) (wh_headers w)\<rparr>) = w"
  using mask_text_kept [of "wh_secret w"] by (cases "mask_text (wh_secret w) = Some SECRET_MASK") (simp_all add: keep_webhook_def keep_headers_mask)

lemma keep_webpush_mask: "keep_webpush (Some w) (w\<lparr>wp_token := mask_text (wp_token w)\<rparr>) = w"
  using mask_text_kept [of "wp_token w"] by (auto simp: keep_webpush_def split: if_splits)

text \<open>
  an operator who saves a channel form unchanged keeps its secrets: the update that echoes the
  masked configuration restores the stored token, signing secret and header values exactly.\<close>

theorem masked_update_keeps_secrets:
  assumes "\<And>w. cc_webhook c = Some w \<Longrightarrow> dict_ok (wh_headers w)"
  shows "keep_masked_secrets (Some (mask_channel_secrets c)) c = Some c"
proof -
  have "map_option (keep_webhook (cc_webhook c)) (cc_webhook (mask_channel_secrets c)) = cc_webhook c"
    using assms by (cases "cc_webhook c") (simp_all add: mask_channel_secrets_def keep_webhook_mask)
  moreover have "map_option (keep_webpush (cc_webpush c)) (cc_webpush (mask_channel_secrets c)) = cc_webpush c"
    by (cases "cc_webpush c") (simp_all add: mask_channel_secrets_def keep_webpush_mask)
  ultimately have "keep_masked_secrets (Some (mask_channel_secrets c)) c =
      Some ((mask_channel_secrets c)\<lparr>cc_webpush := cc_webpush c, cc_webhook := cc_webhook c\<rparr>)"
    by (simp add: keep_masked_secrets_def)
  then show ?thesis by (simp add: mask_channel_secrets_def)
qed

definition ex_webhook :: channel_config where
  "ex_webhook = \<lparr>cc_toast = None, cc_sms = None, cc_email = None, cc_webhook = Some \<lparr>wh_enabled = True, wh_url = ''u'',
     wh_method = ''POST'', wh_headers = [(''X'', ''key'')], wh_secret = Some ''s''\<rparr>, cc_discord = None, cc_webpush = None\<rparr>"

theorem masked_update_keeps_secrets_witness:
  "keep_masked_secrets (Some (mask_channel_secrets ex_webhook)) ex_webhook = Some ex_webhook"
  by (rule masked_update_keeps_secrets) (simp add: ex_webhook_def)

end
