(* ===== verification/AlarmRules.thy ===== *)
theory AlarmRules
  imports AlertStore
begin

text \<open>
  Alarm rules and threshold evaluation: the rule and metric models
  (\<^verbatim>\<open>src/llm-systems-alarm-engine/backend/models/alarm_rule.py\<close>, \<^verbatim>\<open>models/metrics.py\<close>) and the
  threshold half of \<^verbatim>\<open>engine/threshold_evaluator.py\<close>, with quiet hours.

  Metric values are finite floats, here \<^typ>\<open>real\<close> numbers; \<open>mp_finite\<close> is what \<^verbatim>\<open>math.isfinite\<close>
  answers for the value of a point. Text is UTF-8, one \<^typ>\<open>char\<close> per byte. \<open>tod\<close> is the time of day
  of the host at the moment of the call, in seconds after midnight.
\<close>

section \<open>Rules\<close>

datatype rule_type =
    Threshold_Above | Threshold_Below | Threshold_Range
  | Rate_Of_Change | Z_Score | Moving_Average | Percentile

datatype severity = Sev_Info | Sev_Warning | Sev_Critical

definition severity_str :: "severity \<Rightarrow> string" where
  "severity_str s = (case s of Sev_Info \<Rightarrow> ''info'' | Sev_Warning \<Rightarrow> ''warning'' | Sev_Critical \<Rightarrow> ''critical'')"

record threshold_config =
  th_value :: "real option"
  th_lower :: "real option"
  th_upper :: "real option"
  th_warning :: "real option"
  th_critical :: "real option"
  th_unit :: "string option"

record moving_average_config =
  ma_window_minutes :: int
  ma_deviation_factor :: real
  ma_min_points :: nat

record percentile_config =
  pc_percentile :: real
  pc_window_minutes :: int
  pc_min_points :: nat

record rate_config =
  rt_max_change :: real
  rt_window_minutes :: int
  rt_min_points :: nat

record z_score_config =
  zs_threshold :: real
  zs_window_minutes :: int
  zs_min_points :: nat

text \<open>The models' defaults.\<close>

definition ThresholdConfig :: threshold_config where
  "ThresholdConfig = \<lparr>th_value = None, th_lower = None, th_upper = None, th_warning = None, th_critical = None, th_unit = None\<rparr>"

definition MovingAverageConfig :: moving_average_config where
  "MovingAverageConfig = \<lparr>ma_window_minutes = 15, ma_deviation_factor = 2, ma_min_points = 5\<rparr>"

definition PercentileConfig :: percentile_config where
  "PercentileConfig = \<lparr>pc_percentile = 95, pc_window_minutes = 60, pc_min_points = 10\<rparr>"

definition RateOfChangeConfig :: rate_config where
  "RateOfChangeConfig = \<lparr>rt_max_change = 10, rt_window_minutes = 5, rt_min_points = 2\<rparr>"

definition ZScoreConfig :: z_score_config where
  "ZScoreConfig = \<lparr>zs_threshold = 2, zs_window_minutes = 60, zs_min_points = 10\<rparr>"

record rule_config =
  rs_threshold :: "threshold_config option"
  rs_moving_average :: "moving_average_config option"
  rs_percentile :: "percentile_config option"
  rs_rate_of_change :: "rate_config option"
  rs_z_score :: "z_score_config option"

record alarm_rule =
  rl_id :: string
  rl_name :: string
  rl_description :: "string option"
  rl_host :: "string option"
  rl_source :: string
  rl_metric :: string
  rl_type :: rule_type
  rl_config :: rule_config
  rl_severity :: severity
  rl_enabled :: bool
  rl_channels :: "string list"
  rl_quiet_start :: "string option"
  rl_quiet_end :: "string option"
  rl_auto_resolve :: int
  rl_min_trigger :: int
  rl_group :: "string option"
  rl_created :: secs
  rl_updated :: secs
  rl_evaluated :: "secs option"
  rl_last_alert :: "secs option"

text \<open>\<^verbatim>\<open>TAG_VALUE_RE\<close> and the validator built on it; \<open>None\<close> is the \<^verbatim>\<open>ValueError\<close>.\<close>

definition tag_char :: "char \<Rightarrow> bool" where
  "tag_char c =
     (let n = of_char c :: nat
      in (65 \<le> n \<and> n \<le> 90) \<or> (97 \<le> n \<and> n \<le> 122) \<or> (48 \<le> n \<and> n \<le> 57) \<or> c \<in> set ''_.:- '')"

definition validate_metric_tag :: "string \<Rightarrow> string option" where
  "validate_metric_tag v = (if 1 \<le> length v \<and> length v \<le> 128 \<and> list_all tag_char v then Some v else None)"

section \<open>Metric points\<close>

text \<open>A time stamp is naive, or aware: local time and offset from UTC.\<close>

datatype stamp = Naive secs | Aware secs secs

definition to_naive_utc :: "stamp \<Rightarrow> secs" where
  "to_naive_utc dt = (case dt of Naive t \<Rightarrow> t | Aware t offset \<Rightarrow> t - offset)"

record metric_point =
  mp_source :: string
  mp_metric :: string
  mp_value :: real
  mp_finite :: bool
  mp_stamp :: stamp
  mp_host :: "string option"

section \<open>Thresholds\<close>

fun first_some :: "'a option list \<Rightarrow> 'a option" where
  "first_some [] = None"
| "first_some (None # xs) = first_some xs"
| "first_some (Some v # xs) = Some v"

definition resolve_upper :: "threshold_config \<Rightarrow> real option" where
  "resolve_upper c = first_some [th_upper c, th_value c, th_critical c, th_warning c]"

definition resolve_lower :: "threshold_config \<Rightarrow> real option" where
  "resolve_lower c = first_some [th_lower c, th_value c, th_warning c, th_critical c]"

definition DEGREE :: string where
  "DEGREE = [CHR 0xC2, CHR 0xB0]"

definition fmt_value :: "real \<Rightarrow> string option \<Rightarrow> string" where
  "fmt_value v un =
     (let u = py_strip (or_list un []);
          sep = (if u \<in> {[], ''%'', DEGREE @ ''C'', DEGREE @ ''F''} then [] else '' '');
          r = py_round_to 2 v
      in (if v < 0 \<and> r = 0 then ''-'' else []) @ show_float r @ sep @ u)"

definition rule_alert :: "alarm_rule \<Rightarrow> real \<Rightarrow> real \<Rightarrow> string \<Rightarrow> string option \<Rightarrow> alert_create" where
  "rule_alert rule v thr msg host =
     \<lparr>cr_rule = Some (rl_id rule), cr_rule_name = Some (rl_name rule), cr_source = rl_source rule,
      cr_metric = rl_metric rule, cr_value = v, cr_threshold = thr,
      cr_severity = severity_str (rl_severity rule), cr_message = msg, cr_channels = [],
      cr_host = host, cr_incident = None\<rparr>"

definition evaluate_threshold_above :: "alarm_rule \<Rightarrow> real \<Rightarrow> threshold_config \<Rightarrow> string option \<Rightarrow> alert_create option" where
  "evaluate_threshold_above rule v c host =
     (case resolve_upper c of
        None \<Rightarrow> None
      | Some t \<Rightarrow> if v \<le> t then None
                  else Some (rule_alert rule v t (''Value '' @ fmt_value v (th_unit c) @ '' exceeds threshold '' @
                               fmt_value t (th_unit c)) host))"

definition evaluate_threshold_below :: "alarm_rule \<Rightarrow> real \<Rightarrow> threshold_config \<Rightarrow> string option \<Rightarrow> alert_create option" where
  "evaluate_threshold_below rule v c host =
     (case resolve_lower c of
        None \<Rightarrow> None
      | Some t \<Rightarrow> if v \<ge> t then None
                  else Some (rule_alert rule v t (''Value '' @ fmt_value v (th_unit c) @ '' falls below threshold '' @
                               fmt_value t (th_unit c)) host))"

definition evaluate_threshold_range :: "alarm_rule \<Rightarrow> real \<Rightarrow> threshold_config \<Rightarrow> string option \<Rightarrow> alert_create option" where
  "evaluate_threshold_range rule v c host =
     (case (th_lower c, th_upper c) of
        (Some lo, Some hi) \<Rightarrow>
          if lo \<le> v \<and> v \<le> hi then None
          else Some (rule_alert rule v (if v < lo then lo else hi)
                 (''Value '' @ fmt_value v (th_unit c) @ '' is outside range ['' @ fmt_value lo (th_unit c) @ '', '' @
                  fmt_value hi (th_unit c) @ '']'') host)
      | _ \<Rightarrow> None)"

section \<open>Quiet hours\<close>

text \<open>\<^verbatim>\<open>datetime.strptime(s, "%H:%M")\<close>: one or two digits on each side, in range; the time of day in seconds.\<close>

definition ascii_digits :: "string \<Rightarrow> bool" where
  "ascii_digits s = list_all (\<lambda>c. let n = of_char c :: nat in 48 \<le> n \<and> n \<le> 57) s"

definition parse_field :: "nat \<Rightarrow> string \<Rightarrow> nat option" where
  "parse_field bound s =
     (if (length s = 1 \<or> length s = 2) \<and> ascii_digits s \<and> read_digits s < bound then Some (read_digits s) else None)"

definition parse_hhmm :: "string \<Rightarrow> secs option" where
  "parse_hhmm s =
     (let h = takeWhile (\<lambda>c. c \<noteq> CHR '':'') s; rest = dropWhile (\<lambda>c. c \<noteq> CHR '':'') s
      in if rest = [] then None
         else case (parse_field 24 h, parse_field 60 (tl rest)) of
                (Some hh, Some mm) \<Rightarrow> Some (3600 * of_nat hh + 60 * of_nat mm)
              | _ \<Rightarrow> None)"

definition is_in_quiet_hours :: "secs \<Rightarrow> alarm_rule \<Rightarrow> bool" where
  "is_in_quiet_hours tod rule =
     (case (or_none (rl_quiet_start rule), or_none (rl_quiet_end rule)) of
        (Some a, Some b) \<Rightarrow>
          (case (parse_hhmm a, parse_hhmm b) of
             (Some s, Some e) \<Rightarrow> if s \<le> e then s \<le> tod \<and> tod \<le> e else tod \<ge> s \<or> tod \<le> e
           | _ \<Rightarrow> False)
      | _ \<Rightarrow> False)"

section \<open>Facts about thresholds and quiet hours\<close>

lemma parse_hhmm_range: "parse_hhmm s = Some t \<Longrightarrow> 0 \<le> t \<and> t < 86400"
proof -
  assume "parse_hhmm s = Some t"
  then obtain h m :: nat where "t = 3600 * of_nat h + 60 * of_nat m" "h < 24" "m < 60"
    by (auto simp: parse_hhmm_def parse_field_def Let_def split: if_splits option.splits)
  moreover from this have "of_nat h \<le> (23 :: rat)" "of_nat m \<le> (59 :: rat)" by simp_all
  ultimately show ?thesis by simp
qed

text \<open>The length of the time a clock needs to go forward from \<open>a\<close> to \<open>b\<close>.\<close>

definition clock_span :: "secs \<Rightarrow> secs \<Rightarrow> secs" where
  "clock_span a b = (if a \<le> b then b - a else b - a + 86400)"

text \<open>
  quiet hours are an interval on the clock face: with both ends well formed, a rule is quiet
  exactly when going forward from the start one meets the current time no later than the end, also
  when the window runs over midnight; without a well-formed start and end it is never quiet.\<close>

theorem quiet_hours_circular:
  assumes "0 \<le> tod" "tod < 86400"
  shows "is_in_quiet_hours tod rule \<longleftrightarrow>
    (\<exists>a b s e. rl_quiet_start rule = Some a \<and> rl_quiet_end rule = Some b \<and>
       parse_hhmm a = Some s \<and> parse_hhmm b = Some e \<and> clock_span s tod \<le> clock_span s e)"
proof (cases "\<exists>a b s e. rl_quiet_start rule = Some a \<and> rl_quiet_end rule = Some b \<and>
       parse_hhmm a = Some s \<and> parse_hhmm b = Some e")
  case True
  then obtain a b s e where q: "rl_quiet_start rule = Some a" "rl_quiet_end rule = Some b"
    "parse_hhmm a = Some s" "parse_hhmm b = Some e" by blast
  have "a \<noteq> []" "b \<noteq> []" using q(3,4) by (auto simp: parse_hhmm_def)
  then have "is_in_quiet_hours tod rule \<longleftrightarrow> (if s \<le> e then s \<le> tod \<and> tod \<le> e else tod \<ge> s \<or> tod \<le> e)"
    using q by (simp add: is_in_quiet_hours_def or_none_def)
  also have "\<dots> \<longleftrightarrow> clock_span s tod \<le> clock_span s e"
    using parse_hhmm_range [OF q(3)] parse_hhmm_range [OF q(4)] assms by (auto simp: clock_span_def)
  finally show ?thesis using q by auto
next
  case False
  then show ?thesis by (auto simp: is_in_quiet_hours_def or_none_def split: option.splits if_splits)
qed

definition ex_rule :: alarm_rule where
  "ex_rule = \<lparr>rl_id = ''r1'', rl_name = ''hot'', rl_description = None, rl_host = None, rl_source = ''gpu'',
     rl_metric = ''temp'', rl_type = Threshold_Above,
     rl_config = \<lparr>rs_threshold = Some (ThresholdConfig\<lparr>th_upper := Some 80\<rparr>), rs_moving_average = None,
       rs_percentile = None, rs_rate_of_change = None, rs_z_score = None\<rparr>,
     rl_severity = Sev_Warning, rl_enabled = True, rl_channels = [], rl_quiet_start = Some ''22:30'',
     rl_quiet_end = Some ''6:00'', rl_auto_resolve = 2, rl_min_trigger = 2, rl_group = None,
     rl_created = 0, rl_updated = 0, rl_evaluated = None, rl_last_alert = None\<rparr>"

theorem quiet_hours_circular_witness:
  "is_in_quiet_hours 3600 ex_rule = (clock_span 81000 3600 \<le> clock_span 81000 21600)"
proof -
  have p: "parse_hhmm ''22:30'' = Some 81000" "parse_hhmm ''6:00'' = Some 21600" by code_simp+
  have q: "rl_quiet_start ex_rule = Some ''22:30''" "rl_quiet_end ex_rule = Some ''6:00''"
    by (simp_all add: ex_rule_def)
  have "is_in_quiet_hours 3600 ex_rule \<longleftrightarrow>
    (\<exists>a b s e. rl_quiet_start ex_rule = Some a \<and> rl_quiet_end ex_rule = Some b \<and>
       parse_hhmm a = Some s \<and> parse_hhmm b = Some e \<and> clock_span s 3600 \<le> clock_span s e)"
    by (rule quiet_hours_circular) simp_all
  then show ?thesis unfolding q using p by (simp only: option.inject) auto
qed

lemma threshold_above_iff:
  "evaluate_threshold_above rule v c host \<noteq> None \<longleftrightarrow> (\<exists>t. resolve_upper c = Some t \<and> v > t)"
  by (auto simp: evaluate_threshold_above_def split: option.splits)

lemma threshold_below_iff:
  "evaluate_threshold_below rule v c host \<noteq> None \<longleftrightarrow> (\<exists>t. resolve_lower c = Some t \<and> v < t)"
  by (auto simp: evaluate_threshold_below_def split: option.splits)

lemma threshold_range_iff:
  "evaluate_threshold_range rule v c host \<noteq> None \<longleftrightarrow>
     (\<exists>lo hi. th_lower c = Some lo \<and> th_upper c = Some hi \<and> (v < lo \<or> hi < v))"
  by (auto simp: evaluate_threshold_range_def split: option.splits)

end
