(* ===== verification/AnomalyDetector.thy ===== *)
theory AnomalyDetector
  imports AlarmRules
begin

text \<open>
  Statistical anomaly detection
  (\<^verbatim>\<open>src/llm-systems-alarm-engine/backend/engine/anomaly_detector.py\<close>): z-score, moving average,
  percentile, rate of change and trend, as stand-alone detectors and as the evaluators of the
  corresponding rule types. Arithmetic is on exact reals; an exception Python would raise (division
  by zero, an index out of range, the difference of a naive and an aware time) is a value of the
  left summand. The logging calls are left out.
\<close>

section \<open>Python arithmetic that can raise\<close>

datatype py_error = Zero_Division | Index_Error | Type_Error

type_synonym 'a py = "py_error + 'a"

definition py_bind :: "'a py \<Rightarrow> ('a \<Rightarrow> 'b py) \<Rightarrow> 'b py" where
  "py_bind x f = (case x of Inl e \<Rightarrow> Inl e | Inr v \<Rightarrow> f v)"

lemma py_bind_simps [simp]: "py_bind (Inl e) f = Inl e" "py_bind (Inr v) f = f v"
  by (simp_all add: py_bind_def)

text \<open>\<^verbatim>\<open>dt - dt'\<close>: naive and aware times do not mix.\<close>

definition stamp_diff :: "stamp \<Rightarrow> stamp \<Rightarrow> secs py" where
  "stamp_diff a b =
     (case (a, b) of
        (Naive t, Naive u) \<Rightarrow> Inr (t - u)
      | (Aware t o1, Aware u o2) \<Rightarrow> Inr ((t - o1) - (u - o2))
      | _ \<Rightarrow> Inl Type_Error)"

text \<open>\<^verbatim>\<open>xs[i]\<close>: a negative index counts from the end.\<close>

definition py_index :: "'a list \<Rightarrow> int \<Rightarrow> 'a py" where
  "py_index xs i =
     (let j = (if i < 0 then i + int (length xs) else i)
      in if 0 \<le> j \<and> j < int (length xs) then Inr (xs ! nat j) else Inl Index_Error)"

text \<open>\<^verbatim>\<open>xs[-w:]\<close> for a non-negative \<open>w\<close>.\<close>

definition py_tail :: "nat \<Rightarrow> 'a list \<Rightarrow> 'a list" where
  "py_tail w xs = (if w = 0 then xs else lastn w xs)"

text \<open>\<^verbatim>\<open>int(x)\<close>.\<close>

definition real_int :: "real \<Rightarrow> int" where
  "real_int x = (if x < 0 then \<lceil>x\<rceil> else \<lfloor>x\<rfloor>)"

section \<open>Helpers of the module\<close>

definition filter_by_window :: "secs \<Rightarrow> int \<Rightarrow> metric_point list \<Rightarrow> metric_point list" where
  "filter_by_window now window_minutes points =
     filter (\<lambda>p. to_naive_utc (mp_stamp p) \<ge> now - 60 * of_int window_minutes) points"

definition host_from_points :: "metric_point list \<Rightarrow> alarm_rule \<Rightarrow> string option" where
  "host_from_points points rule =
     (if points = [] then rl_host rule
      else case or_none (mp_host (last points)) of Some h \<Rightarrow> Some h | None \<Rightarrow> rl_host rule)"

definition mean :: "real list \<Rightarrow> real" where
  "mean vs = sum_list vs / real (length vs)"

definition variance :: "real list \<Rightarrow> real" where
  "variance vs =
     (if length vs > 1 then sum_list (map (\<lambda>v. (v - mean vs)\<^sup>2) vs) / real (length vs) else 0)"

definition std_dev :: "real list \<Rightarrow> real" where
  "std_dev vs = sqrt (variance vs)"

section \<open>Detectors\<close>

record anomaly_result =
  an_is_anomaly :: bool
  an_score :: real
  an_method :: string
  an_details :: string
  an_at :: secs

record anomaly_detector =
  ad_z_threshold :: real
  ad_min_points :: nat
  ad_window :: nat
  ad_percentile :: real

definition AnomalyDetector :: anomaly_detector where
  "AnomalyDetector = \<lparr>ad_z_threshold = 3, ad_min_points = 10, ad_window = 50, ad_percentile = 95\<rparr>"

definition detect_z_score :: "secs \<Rightarrow> anomaly_detector \<Rightarrow> real \<Rightarrow> metric_point list \<Rightarrow> anomaly_result py" where
  "detect_z_score now d v points =
     (let vs = map mp_value (py_tail (ad_window d) points)
      in if vs = [] then Inl Zero_Division
         else if std_dev vs < 1 / 10 ^ 10
         then Inr \<lparr>an_is_anomaly = False, an_score = 0, an_method = ''z_score'',
                   an_details = ''Standard deviation too low (std='' @ fmt_fixed 6 (std_dev vs) @ '')'', an_at = now\<rparr>
         else let z = \<bar>v - mean vs\<bar> / std_dev vs
              in Inr \<lparr>an_is_anomaly = (z > ad_z_threshold d), an_score = z, an_method = ''z_score'',
                      an_details = ''Z-score: '' @ fmt_fixed 2 z @ '' (threshold: '' @ show_float (ad_z_threshold d) @
                        '', mean: '' @ fmt_fixed 2 (mean vs) @ '', std: '' @ fmt_fixed 2 (std_dev vs) @ '')'', an_at = now\<rparr>)"

definition detect_moving_average :: "secs \<Rightarrow> anomaly_detector \<Rightarrow> real \<Rightarrow> metric_point list \<Rightarrow> anomaly_result py" where
  "detect_moving_average now d v points =
     (let vs = map mp_value (py_tail (ad_window d) points)
      in if vs = [] then Inl Zero_Division
         else let deviation = \<bar>v - mean vs\<bar>;
                  threshold = (if std_dev vs > 0 then 2 * std_dev vs else mean vs * (1 / 10));
                  score = (if threshold > 0 then deviation / threshold else 0)
              in Inr \<lparr>an_is_anomaly = (score > 1), an_score = score, an_method = ''moving_average'',
                      an_details = ''Deviation: '' @ fmt_fixed 2 deviation @ '' from MA ('' @ fmt_fixed 2 (mean vs) @
                        ''), threshold: '' @ fmt_fixed 2 threshold, an_at = now\<rparr>)"

definition percentile_of :: "real \<Rightarrow> real list \<Rightarrow> real py" where
  "percentile_of p vs =
     (let n = int (length vs); idx = real_int (p / 100 * of_int (n - 1))
      in py_index (sort vs) (min idx (n - 1)))"

definition detect_percentile :: "secs \<Rightarrow> anomaly_detector \<Rightarrow> real \<Rightarrow> metric_point list \<Rightarrow> anomaly_result py" where
  "detect_percentile now d v points =
     (let vs = map mp_value (py_tail (ad_window d) points)
      in py_bind (percentile_of (ad_percentile d) vs) (\<lambda>p.
           let score = (if p > 0 then v / p else if v > 0 then 1 else 0)
           in Inr \<lparr>an_is_anomaly = (v > p), an_score = score, an_method = ''percentile'',
                   an_details = ''Value '' @ fmt_fixed 2 v @ '' vs '' @ show_float (ad_percentile d) @
                     ''th percentile ('' @ fmt_fixed 2 p @ '')'', an_at = now\<rparr>))"

text \<open>The rates between consecutive points whose times differ, in order.\<close>

fun rates :: "metric_point list \<Rightarrow> real list py" where
  "rates (p # q # ps) =
     py_bind (stamp_diff (mp_stamp q) (mp_stamp p)) (\<lambda>dt.
     py_bind (rates (q # ps)) (\<lambda>rs.
       Inr (if dt > 0 then \<bar>mp_value q - mp_value p\<bar> / of_rat dt # rs else rs)))"
| "rates ps = Inr []"

definition no_rate :: "secs \<Rightarrow> string \<Rightarrow> string \<Rightarrow> anomaly_result" where
  "no_rate now m details =
     \<lparr>an_is_anomaly = False, an_score = 0, an_method = m, an_details = details, an_at = now\<rparr>"

definition detect_rate_of_change :: "secs \<Rightarrow> real \<Rightarrow> metric_point list \<Rightarrow> anomaly_result py" where
  "detect_rate_of_change now v points =
     (if length points < 2 then Inr (no_rate now ''rate_of_change'' ''Insufficient data points'')
      else let window = py_tail (min 20 (length points)) points
           in py_bind (rates window) (\<lambda>rs.
                if rs = [] then Inr (no_rate now ''rate_of_change'' ''No valid rates calculated'')
                else py_bind (stamp_diff (mp_stamp (last points)) (mp_stamp (hd window))) (\<lambda>dt.
                  let current = (if dt > 0 then \<bar>v - mp_value (hd window)\<bar> / of_rat dt else 0);
                      score = (if std_dev rs > 0 then (current - mean rs) / std_dev rs
                               else if current > mean rs then 1 else 0)
                  in Inr \<lparr>an_is_anomaly = (score > 2), an_score = score, an_method = ''rate_of_change'',
                          an_details = ''Current rate: '' @ fmt_fixed 4 current @ '', historical mean: '' @
                            fmt_fixed 4 (mean rs) @ '', std: '' @ fmt_fixed 4 (std_dev rs), an_at = now\<rparr>)))"

section \<open>Trend\<close>

record trend_result =
  tr_direction :: string
  tr_slope :: real
  tr_intercept :: real
  tr_r_squared :: real
  tr_is_significant :: bool

definition flat_trend :: trend_result where
  "flat_trend = \<lparr>tr_direction = ''stable'', tr_slope = 0, tr_intercept = 0, tr_r_squared = 0, tr_is_significant = False\<rparr>"

definition sq_error :: "real \<Rightarrow> real \<Rightarrow> real list \<Rightarrow> real" where
  "sq_error a b vs = (\<Sum>i<length vs. (vs ! i - (a * real i + b))\<^sup>2)"

definition linear_regression :: "real list \<Rightarrow> trend_result" where
  "linear_regression vs =
     (let n = length vs
      in if n < 2 then flat_trend
         else let x_mean = (\<Sum>i<n. real i) / real n; y_mean = sum_list vs / real n;
                  ss_xy = (\<Sum>i<n. (real i - x_mean) * (vs ! i - y_mean));
                  ss_xx = (\<Sum>i<n. (real i - x_mean)\<^sup>2);
                  ss_yy = (\<Sum>i<n. (vs ! i - y_mean)\<^sup>2);
                  slope = (if ss_xx > 0 then ss_xy / ss_xx else 0);
                  intercept = y_mean - slope * x_mean;
                  ss_res = sq_error slope intercept vs;
                  r_squared = (if ss_yy > 0 then 1 - ss_res / ss_yy else 0)
              in \<lparr>tr_direction = (if \<bar>slope\<bar> < 1 / 10 ^ 10 then ''stable''
                                  else if slope > 0 then ''increasing'' else ''decreasing''),
                  tr_slope = slope, tr_intercept = intercept, tr_r_squared = r_squared,
                  tr_is_significant = (r_squared > 1 / 2 \<and> n \<ge> 5)\<rparr>)"

definition R_SQUARED :: string where
  "R_SQUARED = [CHR ''R'', CHR 0xC2, CHR 0xB2]"

definition detect_trend_anomaly :: "secs \<Rightarrow> real \<Rightarrow> metric_point list \<Rightarrow> anomaly_result" where
  "detect_trend_anomaly now v points =
     (if length points < 5 then no_rate now ''trend'' ''Insufficient data for trend analysis''
      else let vs = map mp_value (py_tail 100 points); t = linear_regression vs; n = length vs;
               predicted = tr_slope t * (real n - 1) + tr_intercept t;
               deviation = \<bar>v - predicted\<bar>;
               data_range = Max (set vs) - Min (set vs);
               score = (if data_range > 0 then deviation / data_range else 0)
           in \<lparr>an_is_anomaly = (score > 3 / 2 \<and> tr_is_significant t), an_score = score, an_method = ''trend'',
               an_details = ''Trend: '' @ tr_direction t @ '' (slope: '' @ fmt_fixed 4 (tr_slope t) @ '', '' @ R_SQUARED @ '': '' @
                 fmt_fixed 4 (tr_r_squared t) @ ''), deviation: '' @ fmt_fixed 2 deviation, an_at = now\<rparr>)"

definition analyze_trend :: "metric_point list \<Rightarrow> trend_result" where
  "analyze_trend points =
     (if length points < 3 then flat_trend else linear_regression (map mp_value (py_tail 100 points)))"

record predicted_value =
  pv_value :: real
  pv_lower :: real
  pv_upper :: real
  pv_horizon :: int

text \<open>The positive gaps between consecutive points, in minutes.\<close>

fun time_deltas :: "metric_point list \<Rightarrow> real list py" where
  "time_deltas (p # q # ps) =
     py_bind (stamp_diff (mp_stamp q) (mp_stamp p)) (\<lambda>dt.
     py_bind (time_deltas (q # ps)) (\<lambda>ds. Inr (if dt / 60 > 0 then of_rat (dt / 60) # ds else ds)))"
| "time_deltas ps = Inr []"

definition predict_value :: "metric_point list \<Rightarrow> int \<Rightarrow> predicted_value option py" where
  "predict_value points horizon =
     (if length points < 5 then Inr None
      else let vs = map mp_value (py_tail 100 points); t = linear_regression vs; n = length vs
           in py_bind (time_deltas points) (\<lambda>ds.
                let avg = (if ds = [] then 1 else mean ds);
                    steps = (if avg > 0 then of_int horizon / avg else of_int horizon);
                    predicted = tr_slope t * (real n + steps) + tr_intercept t;
                    std_res = sqrt (sq_error (tr_slope t) (tr_intercept t) vs / real n);
                    width = std_res * (1 + steps * (1 / 10))
                in Inr (Some \<lparr>pv_value = predicted, pv_lower = predicted - width, pv_upper = predicted + width,
                              pv_horizon = horizon\<rparr>)))"

section \<open>All detectors\<close>

definition detect_one :: "secs \<Rightarrow> anomaly_detector \<Rightarrow> real \<Rightarrow> metric_point list \<Rightarrow> string \<Rightarrow> anomaly_result option py" where
  "detect_one now d v points m =
     (if m = ''z_score'' then py_bind (detect_z_score now d v points) (\<lambda>r. Inr (Some r))
      else if m = ''moving_average'' then py_bind (detect_moving_average now d v points) (\<lambda>r. Inr (Some r))
      else if m = ''percentile'' then py_bind (detect_percentile now d v points) (\<lambda>r. Inr (Some r))
      else if m = ''rate_of_change'' then py_bind (detect_rate_of_change now v points) (\<lambda>r. Inr (Some r))
      else if m = ''trend'' then Inr (Some (detect_trend_anomaly now v points))
      else Inr None)"

fun detect_each :: "secs \<Rightarrow> anomaly_detector \<Rightarrow> real \<Rightarrow> metric_point list \<Rightarrow> string list \<Rightarrow> anomaly_result list py" where
  "detect_each now d v points [] = Inr []"
| "detect_each now d v points (m # ms) =
     py_bind (detect_one now d v points m) (\<lambda>r.
     py_bind (detect_each now d v points ms) (\<lambda>rs. Inr (case r of None \<Rightarrow> rs | Some x \<Rightarrow> x # rs)))"

definition detect_anomalies ::
  "secs \<Rightarrow> anomaly_detector \<Rightarrow> real \<Rightarrow> metric_point list \<Rightarrow> string list option \<Rightarrow> anomaly_result list py" where
  "detect_anomalies now d v points methods =
     (if length points < ad_min_points d
      then Inr (map (\<lambda>m. no_rate now m (''Insufficient data points ('' @ show_nat (length points) @ '' < '' @
                       show_nat (ad_min_points d) @ '')''))
                 (or_list methods [''z_score'', ''moving_average'', ''percentile'']))
      else detect_each now d v points
             (or_list methods [''z_score'', ''moving_average'', ''percentile'', ''rate_of_change'']))"

section \<open>Evaluators of the anomaly rules\<close>

text \<open>The points of a rule are optional, and no point means no alert.\<close>

definition SIGMA_CHR :: string where
  "SIGMA_CHR = [CHR 0xCF, CHR 0x83]"

definition baseline :: "secs \<Rightarrow> int \<Rightarrow> metric_point list \<Rightarrow> real list" where
  "baseline now window_minutes points = map mp_value (filter_by_window now window_minutes (butlast points))"

definition evaluate_z_score_rule ::
  "secs \<Rightarrow> alarm_rule \<Rightarrow> real \<Rightarrow> metric_point list \<Rightarrow> z_score_config \<Rightarrow> alert_create option py" where
  "evaluate_z_score_rule now rule v points c =
     (if points = [] then Inr None
      else let vs = baseline now (zs_window_minutes c) points
           in if length vs < zs_min_points c then Inr None
              else if vs = [] then Inl Zero_Division
              else if std_dev vs < 1 / 10 ^ 10 then Inr None
              else let z = \<bar>v - mean vs\<bar> / std_dev vs
                   in if z \<le> zs_threshold c then Inr None
                      else Inr (Some (rule_alert rule v (py_round_to 4 z)
                             (''Z-score '' @ fmt_fixed 2 z @ '' exceeds threshold '' @ show_float (zs_threshold c) @
                              '' (mean='' @ fmt_fixed 2 (mean vs) @ '', std='' @ fmt_fixed 2 (std_dev vs) @ '')'')
                             (host_from_points points rule))))"

definition evaluate_moving_average_rule ::
  "secs \<Rightarrow> alarm_rule \<Rightarrow> real \<Rightarrow> metric_point list \<Rightarrow> moving_average_config \<Rightarrow> alert_create option py" where
  "evaluate_moving_average_rule now rule v points c =
     (if points = [] then Inr None
      else let vs = baseline now (ma_window_minutes c) points
           in if length vs < ma_min_points c then Inr None
              else if vs = [] then Inl Zero_Division
              else if std_dev vs < 1 / 10 ^ 10 then Inr None
              else let deviation = \<bar>v - mean vs\<bar> / std_dev vs
                   in if deviation \<le> ma_deviation_factor c then Inr None
                      else Inr (Some (rule_alert rule v (py_round_to 4 (mean vs + ma_deviation_factor c * std_dev vs))
                             (''Value '' @ fmt_fixed 2 v @ '' deviates '' @ fmt_fixed 2 deviation @ SIGMA_CHR @
                              '' from moving average '' @ fmt_fixed 2 (mean vs))
                             (host_from_points points rule))))"

definition evaluate_percentile_rule ::
  "secs \<Rightarrow> alarm_rule \<Rightarrow> real \<Rightarrow> metric_point list \<Rightarrow> percentile_config \<Rightarrow> alert_create option py" where
  "evaluate_percentile_rule now rule v points c =
     (if points = [] then Inr None
      else let vs = baseline now (pc_window_minutes c) points
           in if length vs < pc_min_points c then Inr None
              else py_bind (percentile_of (pc_percentile c) vs) (\<lambda>p.
                     if v \<le> p then Inr None
                     else Inr (Some (rule_alert rule v (py_round_to 4 p)
                            (''Value '' @ fmt_fixed 2 v @ '' exceeds '' @ show_float (pc_percentile c) @
                             ''th percentile ('' @ fmt_fixed 2 p @ '')'')
                            (host_from_points points rule)))))"

definition evaluate_rate_of_change_rule ::
  "secs \<Rightarrow> alarm_rule \<Rightarrow> real \<Rightarrow> metric_point list \<Rightarrow> rate_config \<Rightarrow> alert_create option py" where
  "evaluate_rate_of_change_rule now rule v points c =
     (if length points < 2 then Inr None
      else let recent = filter_by_window now (rt_window_minutes c) points
           in if length recent < rt_min_points c then Inr None
              else if recent = [] then Inl Index_Error
              else py_bind (stamp_diff (mp_stamp (last recent)) (mp_stamp (hd recent))) (\<lambda>dt.
                     if dt < 1 / 10 ^ 10 then Inr None
                     else let change = (mp_value (last recent) - mp_value (hd recent)) / of_rat dt * 60
                          in if \<bar>change\<bar> \<le> rt_max_change c then Inr None
                             else Inr (Some (rule_alert rule v (py_round_to 6 (rt_max_change c))
                                    (''Value is '' @ (if change > 0 then ''increasing'' else ''decreasing'') @ '' at '' @
                                     fmt_fixed 4 change @ ''/min, exceeding '' @ show_float (rt_max_change c) @ ''/min'')
                                    (host_from_points points rule)))))"

section \<open>The regression line is the least-squares line\<close>

lemma sum_list_nth: "sum_list vs = (\<Sum>i<length vs. vs ! i)" for vs :: "real list"
  by (simp add: sum_list_sum_nth atLeast0LessThan)

lemma sum_dev_zero:
  fixes f :: "nat \<Rightarrow> real"
  assumes "n > 0"
  shows "(\<Sum>i<n. f i - (\<Sum>i<n. f i) / real n) = 0"
  using assms by (simp add: sum_subtractf)

lemma sq_error_split:
  assumes "(\<Sum>i<length vs. vs ! i - (s * real i + c)) = 0" "(\<Sum>i<length vs. (vs ! i - (s * real i + c)) * real i) = 0"
  shows "sq_error a b vs = sq_error s c vs + (\<Sum>i<length vs. ((s - a) * real i + (c - b))\<^sup>2)"
proof -
  let ?r = "\<lambda>i. vs ! i - (s * real i + c)" and ?d = "\<lambda>i. (s - a) * real i + (c - b)"
  have expand: "(vs ! i - (a * real i + b))\<^sup>2 =
      (?r i)\<^sup>2 + (?d i)\<^sup>2 + (2 * (s - a) * (?r i * real i) + 2 * (c - b) * ?r i)" for i
    by (simp add: power2_eq_square algebra_simps)
  have "(\<Sum>i<length vs. 2 * (s - a) * (?r i * real i) + 2 * (c - b) * ?r i) =
      2 * (s - a) * (\<Sum>i<length vs. ?r i * real i) + 2 * (c - b) * (\<Sum>i<length vs. ?r i)"
    by (simp add: sum.distrib sum_distrib_left)
  also have "\<dots> = 0" using assms by simp
  finally show ?thesis unfolding sq_error_def expand by (simp add: sum.distrib)
qed

lemma sum_of_nat_pos:
  assumes "n \<ge> 2" shows "(\<Sum>i<n. (real i - (\<Sum>i<n. real i) / real n)\<^sup>2) > 0"
proof -
  let ?m = "(\<Sum>i<n. real i) / real n"
  have "(real 0 - ?m)\<^sup>2 + (real 1 - ?m)\<^sup>2 = (\<Sum>i \<in> {0, 1}. (real i - ?m)\<^sup>2)" by simp
  also have "\<dots> \<le> (\<Sum>i<n. (real i - ?m)\<^sup>2)" using assms by (intro sum_mono2) auto
  finally have "(real 0 - ?m)\<^sup>2 + (real 1 - ?m)\<^sup>2 \<le> (\<Sum>i<n. (real i - ?m)\<^sup>2)" .
  moreover have "(real 0 - ?m)\<^sup>2 + (real 1 - ?m)\<^sup>2 > 0"
  proof (cases "?m = 0")
    case True
    show ?thesis unfolding True by simp
  next
    case False
    then have "(real 0 - ?m)\<^sup>2 > 0" by simp
    then show ?thesis by (rule add_pos_nonneg) simp
  qed
  ultimately show ?thesis by linarith
qed

lemma regression_residuals:
  assumes "length vs \<ge> 2"
  defines "s \<equiv> tr_slope (linear_regression vs)" and "c \<equiv> tr_intercept (linear_regression vs)"
  shows "(\<Sum>i<length vs. vs ! i - (s * real i + c)) = 0" "(\<Sum>i<length vs. (vs ! i - (s * real i + c)) * real i) = 0"
proof -
  define n where "n = length vs"
  define xm where "xm = (\<Sum>i<n. real i) / real n"
  define ym where "ym = (\<Sum>i<n. vs ! i) / real n"
  have n: "n \<ge> 2" "\<not> n < 2" using assms(1) by (simp_all add: n_def)
  let ?sxy = "\<Sum>i<n. (real i - xm) * (vs ! i - ym)" and ?sxx = "\<Sum>i<n. (real i - xm)\<^sup>2"
  have sxx: "?sxx > 0" unfolding xm_def by (rule sum_of_nat_pos [OF n(1)])
  have y: "sum_list vs / real n = ym" by (simp add: ym_def sum_list_nth n_def)
  have s: "s = ?sxy / ?sxx" and c: "c = ym - s * xm"
    using sxx n y unfolding s_def c_def linear_regression_def
    by (simp_all add: Let_def xm_def [symmetric] n_def [symmetric])
  have r: "vs ! i - (s * real i + c) = (vs ! i - ym) - s * (real i - xm)" for i
    by (simp add: c algebra_simps)
  have dx: "(\<Sum>i<n. real i - xm) = 0" unfolding xm_def using n(1) by (intro sum_dev_zero) simp
  have dy: "(\<Sum>i<n. vs ! i - ym) = 0" unfolding ym_def using n(1) by (intro sum_dev_zero) simp
  have zero: "(\<Sum>i<n. (vs ! i - ym) - s * (real i - xm)) = 0"
    unfolding sum_subtractf [of "\<lambda>i. vs ! i - ym"] sum_distrib_left [symmetric] dx dy by simp
  have "((vs ! i - ym) - s * (real i - xm)) * (real i - xm) = (real i - xm) * (vs ! i - ym) - s * (real i - xm)\<^sup>2" for i
    by (simp add: power2_eq_square algebra_simps)
  then have "(\<Sum>i<n. ((vs ! i - ym) - s * (real i - xm)) * (real i - xm)) = ?sxy - s * ?sxx"
    by (simp only: sum_subtractf sum_distrib_left)
  also have "\<dots> = 0" using s sxx by simp
  finally have orth: "(\<Sum>i<n. ((vs ! i - ym) - s * (real i - xm)) * (real i - xm)) = 0" .
  show "(\<Sum>i<length vs. vs ! i - (s * real i + c)) = 0"
    unfolding r n_def [symmetric] by (rule zero)
  have "(\<Sum>i<n. ((vs ! i - ym) - s * (real i - xm)) * real i) =
      (\<Sum>i<n. ((vs ! i - ym) - s * (real i - xm)) * (real i - xm)) + xm * (\<Sum>i<n. (vs ! i - ym) - s * (real i - xm))"
    by (simp add: sum_distrib_left sum.distrib [symmetric] algebra_simps)
  then show "(\<Sum>i<length vs. (vs ! i - (s * real i + c)) * real i) = 0"
    unfolding r n_def [symmetric] using orth zero by simp
qed

lemma regression_optimal:
  assumes "length vs \<ge> 2"
  shows "sq_error (tr_slope (linear_regression vs)) (tr_intercept (linear_regression vs)) vs \<le> sq_error a b vs"
  unfolding sq_error_split [OF regression_residuals [OF assms], of a b] by (simp add: sum_nonneg)

text \<open>
  C34: the trend of a metric is its least-squares line: no other line through at least two samples has
  a smaller sum of squared deviations, and the reported coefficient of determination lies between 0
  and 1.\<close>

theorem linear_regression_least_squares:
  assumes "length vs \<ge> 2"
  shows "(\<forall>a b. sq_error (tr_slope (linear_regression vs)) (tr_intercept (linear_regression vs)) vs \<le> sq_error a b vs) \<and>
    0 \<le> tr_r_squared (linear_regression vs) \<and> tr_r_squared (linear_regression vs) \<le> 1"
proof -
  let ?t = "linear_regression vs" and ?n = "length vs"
  let ?res = "sq_error (tr_slope ?t) (tr_intercept ?t) vs"
  let ?yy = "\<Sum>i<?n. (vs ! i - sum_list vs / real ?n)\<^sup>2"
  have n: "\<not> ?n < 2" using assms by simp
  have r2: "tr_r_squared ?t = (if ?yy > 0 then 1 - ?res / ?yy else 0)"
    using n by (simp add: linear_regression_def Let_def)
  have "?res \<le> ?yy"
    using regression_optimal [OF assms, of 0 "sum_list vs / real ?n"] by (simp add: sq_error_def)
  moreover have "0 \<le> ?res" by (simp add: sq_error_def sum_nonneg)
  ultimately have "0 \<le> tr_r_squared ?t \<and> tr_r_squared ?t \<le> 1"
    unfolding r2 by (auto simp: divide_le_eq_1 not_less)
  then show ?thesis using regression_optimal [OF assms] by blast
qed

theorem linear_regression_least_squares_witness:
  "sq_error (tr_slope (linear_regression [1, 2, 4])) (tr_intercept (linear_regression [1, 2, 4])) [1, 2, 4] \<le> sq_error 1 1 [1, 2, 4]"
  using linear_regression_least_squares [of "[1, 2, 4]"] by simp

section \<open>How often the deviation rules can fire\<close>

lemma sum_list_filter_le:
  fixes f :: "'a \<Rightarrow> real"
  assumes "\<And>x. 0 \<le> f x"
  shows "sum_list (map f (filter P xs)) \<le> sum_list (map f xs)"
  using assms by (induction xs) (auto intro: add_increasing)

lemma chebyshev:
  assumes "std_dev vs > 0" "k > 0"
  shows "k\<^sup>2 * real (length (filter (\<lambda>v. \<bar>v - mean vs\<bar> / std_dev vs > k) vs)) \<le> real (length vs)"
proof -
  let ?far = "filter (\<lambda>v. \<bar>v - mean vs\<bar> / std_dev vs > k) vs"
  let ?sq = "\<lambda>v. (v - mean vs)\<^sup>2"
  have len: "length vs > 1" using assms(1) by (auto simp: std_dev_def variance_def split: if_splits)
  have "0 \<le> sum_list (map ?sq vs)" by (rule sum_list_nonneg) auto
  then have "0 \<le> sum_list (map ?sq vs) / real (length vs)" by simp
  then have var: "real (length vs) * (std_dev vs)\<^sup>2 = sum_list (map ?sq vs)"
    using len real_sqrt_pow2 [of "sum_list (map ?sq vs) / real (length vs)"] by (simp add: std_dev_def variance_def)
  have far: "(k * std_dev vs)\<^sup>2 \<le> ?sq v" if "v \<in> set ?far" for v
  proof -
    have "k * std_dev vs \<le> \<bar>v - mean vs\<bar>" using that assms(1) by (simp add: pos_less_divide_eq)
    then show ?thesis using assms by (metis abs_ge_zero less_eq_real_def mult_nonneg_nonneg power2_abs power_mono)
  qed
  have "real (length ?far) * (k * std_dev vs)\<^sup>2 = sum_list (map (\<lambda>v. (k * std_dev vs)\<^sup>2) ?far)"
    by (simp add: sum_list_triv)
  also have "\<dots> \<le> sum_list (map ?sq ?far)" by (rule sum_list_mono) (rule far)
  also have "\<dots> \<le> sum_list (map ?sq vs)" by (rule sum_list_filter_le) simp
  finally have "real (length ?far) * (k * std_dev vs)\<^sup>2 \<le> real (length vs) * (std_dev vs)\<^sup>2" unfolding var .
  then have "(k\<^sup>2 * real (length ?far)) * (std_dev vs)\<^sup>2 \<le> real (length vs) * (std_dev vs)\<^sup>2"
    by (simp add: power_mult_distrib mult_ac)
  then show ?thesis using assms(1) by (simp add: mult_le_cancel_right)
qed

text \<open>
  a z-score rule with threshold \<open>k\<close> can call at most the fraction \<open>1 / k\<^sup>2\<close> of its own baseline
  anomalous: whatever the samples of the window are, at most that share of them would fire the rule
  (Chebyshev's bound, for the population standard deviation the code computes).\<close>

theorem z_score_fires_rarely:
  assumes "points \<noteq> []" "zs_threshold c > 0"
  shows "(zs_threshold c)\<^sup>2 *
     real (length (filter (\<lambda>v. \<exists>al. evaluate_z_score_rule now rule v points c = Inr (Some al))
       (baseline now (zs_window_minutes c) points)))
     \<le> real (length (baseline now (zs_window_minutes c) points))"
proof -
  let ?vs = "baseline now (zs_window_minutes c) points"
  let ?fires = "\<lambda>v. \<exists>al. evaluate_z_score_rule now rule v points c = Inr (Some al)"
  show ?thesis
  proof (cases "length ?vs < zs_min_points c \<or> ?vs = [] \<or> std_dev ?vs < 1 / 10 ^ 10")
    case True
    then have "\<not> ?fires v" for v using assms(1) by (auto simp: evaluate_z_score_rule_def Let_def)
    then show ?thesis by simp
  next
    case False
    then have fires: "?fires v \<longleftrightarrow> \<bar>v - mean ?vs\<bar> / std_dev ?vs > zs_threshold c" for v
      using assms(1) by (auto simp: evaluate_z_score_rule_def Let_def)
    have "std_dev ?vs > 0" using False by (auto simp: not_less intro: less_le_trans [of 0 "1 / 10 ^ 10"])
    from chebyshev [OF this assms(2)] show ?thesis unfolding fires .
  qed
qed

definition ex_point :: "real \<Rightarrow> secs \<Rightarrow> metric_point" where
  "ex_point v t = \<lparr>mp_source = ''gpu'', mp_metric = ''temp'', mp_value = v, mp_finite = True, mp_stamp = Naive t, mp_host = None\<rparr>"

theorem z_score_fires_rarely_witness:
  "(zs_threshold ZScoreConfig)\<^sup>2 *
     real (length (filter (\<lambda>v. \<exists>al. evaluate_z_score_rule 3 ex_rule v [ex_point 1 1, ex_point 5 2, ex_point 1 3] ZScoreConfig = Inr (Some al))
       (baseline 3 60 [ex_point 1 1, ex_point 5 2, ex_point 1 3]))) \<le> 2"
  using z_score_fires_rarely [of "[ex_point 1 1, ex_point 5 2, ex_point 1 3]" ZScoreConfig 3 ex_rule]
  by (simp add: ZScoreConfig_def baseline_def filter_by_window_def ex_point_def to_naive_utc_def)

section \<open>Percentile rules\<close>

lemma percentile_of_rank:
  assumes "percentile_of p vs = Inr x" "0 \<le> p" "p \<le> 100"
  shows "vs \<noteq> [] \<and> x = sort vs ! nat \<lfloor>p / 100 * real (length vs - 1)\<rfloor> \<and>
     nat \<lfloor>p / 100 * real (length vs - 1)\<rfloor> < length vs"
proof -
  have ne: "vs \<noteq> []" using assms(1) by (auto simp: percentile_of_def py_index_def Let_def split: if_splits)
  define q where "q = p / 100 * real (length vs - 1)"
  have len: "of_int (int (length vs) - 1) = real (length vs - 1)" using ne by (cases vs) simp_all
  have q: "0 \<le> q" "q \<le> real (length vs - 1)"
    using assms(2,3) mult_right_mono [of "p / 100" 1 "real (length vs - 1)"] by (simp_all add: q_def)
  have idx: "real_int q = \<lfloor>q\<rfloor>" using q(1) by (simp add: real_int_def not_less)
  have bounds: "0 \<le> \<lfloor>q\<rfloor>" "\<lfloor>q\<rfloor> \<le> int (length vs) - 1"
    using q floor_mono [OF q(2)] ne by (simp_all add: of_nat_diff Suc_le_eq)
  have "py_index (sort vs) (min \<lfloor>q\<rfloor> (int (length vs) - 1)) = Inr x"
    using assms(1) unfolding percentile_of_def Let_def len q_def [symmetric] idx .
  then have "x = sort vs ! nat \<lfloor>q\<rfloor>" using bounds by (simp add: py_index_def Let_def)
  moreover have "nat \<lfloor>q\<rfloor> < length vs" using bounds by linarith
  ultimately show ?thesis using ne unfolding q_def by blast
qed

lemma sorted_below_count:
  assumes "i < length vs" "sort vs ! i < v"
  shows "i + 1 \<le> length (filter (\<lambda>x. x < v) vs)"
proof -
  have "\<forall>x \<in> set (take (i + 1) (sort vs)). x < v"
  proof
    fix x assume "x \<in> set (take (i + 1) (sort vs))"
    then obtain j where j: "j < i + 1" "x = sort vs ! j"
      by (metis in_set_conv_nth length_take min_less_iff_conj nth_take)
    then have "x \<le> sort vs ! i" using sorted_nth_mono [of "sort vs" j i] assms(1) by simp
    then show "x < v" using assms(2) by simp
  qed
  then have "filter (\<lambda>x. x < v) (take (i + 1) (sort vs)) = take (i + 1) (sort vs)" by (simp add: filter_id_conv)
  moreover have "length (filter (\<lambda>x. x < v) (sort vs)) =
      length (filter (\<lambda>x. x < v) (take (i + 1) (sort vs))) + length (filter (\<lambda>x. x < v) (drop (i + 1) (sort vs)))"
    by (metis append_take_drop_id filter_append length_append)
  moreover have "length (filter (\<lambda>x. x < v) (sort vs)) = length (filter (\<lambda>x. x < v) vs)"
    by (metis mset_filter mset_sort size_mset)
  ultimately show ?thesis using assms(1) by simp
qed

text \<open>
  when a percentile rule fires, the value exceeds at least the configured percentage of the
  baseline's ranks: more than \<open>p / 100 * (n - 1)\<close> of the \<open>n\<close> baseline samples lie strictly below it.\<close>

theorem percentile_rule_rank:
  assumes "evaluate_percentile_rule now rule v points c = Inr (Some al)"
    and "0 \<le> pc_percentile c" "pc_percentile c \<le> 100"
  defines "vs \<equiv> baseline now (pc_window_minutes c) points"
  shows "pc_percentile c / 100 * real (length vs - 1) < real (length (filter (\<lambda>x. x < v) vs))"
proof -
  obtain x where x: "percentile_of (pc_percentile c) vs = Inr x" "x < v"
    using assms(1) unfolding evaluate_percentile_rule_def vs_def [symmetric] Let_def
    by (cases "percentile_of (pc_percentile c) vs") (auto split: if_splits)
  define q where "q = pc_percentile c / 100 * real (length vs - 1)"
  have q: "0 \<le> q" using assms(2) by (simp add: q_def)
  from percentile_of_rank [OF x(1) assms(2,3)] x(2)
  have "nat \<lfloor>q\<rfloor> + 1 \<le> length (filter (\<lambda>x. x < v) vs)"
    unfolding q_def [symmetric] by (intro sorted_below_count) auto
  then have "real (nat \<lfloor>q\<rfloor>) + 1 \<le> real (length (filter (\<lambda>x. x < v) vs))" by linarith
  moreover have "q < real (nat \<lfloor>q\<rfloor>) + 1" using q by (simp add: of_nat_nat)
  ultimately show ?thesis unfolding q_def by linarith
qed

definition ex_history :: "metric_point list" where
  "ex_history = [ex_point 1 1, ex_point 5 2, ex_point 9 3]"

definition ex_percentile :: percentile_config where
  "ex_percentile = \<lparr>pc_percentile = 95, pc_window_minutes = 60, pc_min_points = 2\<rparr>"

theorem percentile_rule_rank_witness:
  "(95 :: real) / 100 < real (length (filter (\<lambda>x. x < 9) [1, 5 :: real]))"
proof -
  have b: "baseline 4 60 ex_history = [1, 5]"
    by (simp add: ex_history_def baseline_def filter_by_window_def ex_point_def to_naive_utc_def)
  have "\<exists>al. evaluate_percentile_rule 4 ex_rule 9 ex_history ex_percentile = Inr (Some al)"
    by (simp add: evaluate_percentile_rule_def ex_percentile_def b percentile_of_def py_index_def real_int_def)
      (simp add: ex_history_def)
  then obtain al where "evaluate_percentile_rule 4 ex_rule 9 ex_history ex_percentile = Inr (Some al)" ..
  from percentile_rule_rank [OF this] show ?thesis by (simp add: ex_percentile_def b)
qed

end
