(* ===== verification/RuleEngine.thy ===== *)
theory RuleEngine
  imports AnomalyDetector AlertManager
begin

text \<open>
  The rule engine (\<^verbatim>\<open>src/llm-systems-alarm-engine/backend/engine/rule_engine.py\<close>) and the dispatch half
  of \<^verbatim>\<open>engine/threshold_evaluator.py\<close>: one evaluation cycle looks at the newest metric points of every
  enabled rule, counts consecutive breaching and recovered cycles per rule, and creates, refreshes or
  auto-resolves alerts through the alert manager.

  What an evaluation reads from outside is the record \<open>reading\<close>: the points the metric repository
  returns for the rule (\<open>None\<close>: no metric repository), the clocks, the time of day, and the id a new
  alert would get. The calls to the notification dispatcher are recorded in \<open>eg_notices\<close>, the saves of
  a rule's \<^verbatim>\<open>last_evaluated_at\<close> in \<open>eg_saved\<close>; the dispatcher's exceptions are caught by the engine and
  change nothing. Timing statistics and log lines are left out.
\<close>

section \<open>Evaluating one rule on one value\<close>

definition newest_host :: "metric_point list \<Rightarrow> alarm_rule \<Rightarrow> string option" where
  "newest_host points rule =
     (if points \<noteq> [] \<and> or_none (mp_host (last points)) \<noteq> None then mp_host (last points) else rl_host rule)"

definition or_default :: "'a option \<Rightarrow> 'a \<Rightarrow> 'a" where
  "or_default x d = (case x of None \<Rightarrow> d | Some v \<Rightarrow> v)"

definition evaluate_rule ::
  "secs \<Rightarrow> secs \<Rightarrow> alarm_rule \<Rightarrow> real \<Rightarrow> bool \<Rightarrow> metric_point list \<Rightarrow> alert_create option py" where
  "evaluate_rule now tod rule v finite_v points =
     (if \<not> rl_enabled rule then Inr None
      else if is_in_quiet_hours tod rule then Inr None
      else if \<not> finite_v then Inr None
      else let rs = rl_config rule; host = newest_host points rule
           in case rl_type rule of
                Threshold_Above \<Rightarrow> Inr (evaluate_threshold_above rule v (or_default (rs_threshold rs) ThresholdConfig) host)
              | Threshold_Below \<Rightarrow> Inr (evaluate_threshold_below rule v (or_default (rs_threshold rs) ThresholdConfig) host)
              | Threshold_Range \<Rightarrow> Inr (evaluate_threshold_range rule v (or_default (rs_threshold rs) ThresholdConfig) host)
              | Z_Score \<Rightarrow> evaluate_z_score_rule now rule v points (or_default (rs_z_score rs) ZScoreConfig)
              | Moving_Average \<Rightarrow> evaluate_moving_average_rule now rule v points (or_default (rs_moving_average rs) MovingAverageConfig)
              | Percentile \<Rightarrow> evaluate_percentile_rule now rule v points (or_default (rs_percentile rs) PercentileConfig)
              | Rate_Of_Change \<Rightarrow> evaluate_rate_of_change_rule now rule v points (or_default (rs_rate_of_change rs) RateOfChangeConfig))"

section \<open>The engine\<close>

record evaluation =
  ev_at :: secs
  ev_rule :: string
  ev_rule_name :: string
  ev_metric :: string
  ev_value :: real
  ev_status :: string
  ev_triggered :: bool

datatype notice = Send alert | Resolved alert

record rule_engine =
  eg_mgr :: alert_manager
  eg_recent :: "evaluation list"
  eg_persist :: "(string, secs) dict"
  eg_ok :: "(string, int) dict"
  eg_breach :: "(string, int) dict"
  eg_max_age :: secs
  eg_dispatcher :: bool
  eg_notices :: "notice list"
  eg_saved :: "(string \<times> secs) list"

definition MAX_EVALUATIONS_LOG :: nat where
  "MAX_EVALUATIONS_LOG = 100"

definition PERSIST_MIN_INTERVAL_S :: secs where
  "PERSIST_MIN_INTERVAL_S = 300"

definition RuleEngine :: "alert_manager \<Rightarrow> bool \<Rightarrow> secs \<Rightarrow> rule_engine" where
  "RuleEngine m dispatcher max_age =
     \<lparr>eg_mgr = m, eg_recent = [], eg_persist = [], eg_ok = [], eg_breach = [], eg_max_age = max_age,
      eg_dispatcher = dispatcher, eg_notices = [], eg_saved = []\<rparr>"

record reading =
  rd_points :: "metric_point list option"
  rd_now :: secs
  rd_clock :: secs
  rd_tod :: secs
  rd_new_id :: string

text \<open>What does not change during a run: number rendering and correlation settings.\<close>

record engine_env =
  ee_num :: "real \<Rightarrow> string"
  ee_corr :: correlation

definition point_age_s :: "secs \<Rightarrow> metric_point \<Rightarrow> secs" where
  "point_age_s now p = now - to_naive_utc (mp_stamp p)"

definition log_evaluation :: "secs \<Rightarrow> alarm_rule \<Rightarrow> real \<Rightarrow> string \<Rightarrow> bool \<Rightarrow> rule_engine \<Rightarrow> rule_engine" where
  "log_evaluation now rule v status triggered eg =
     (let rows = eg_recent eg @
            [\<lparr>ev_at = now, ev_rule = rl_id rule, ev_rule_name = rl_name rule,
              ev_metric = rl_source rule @ ''/'' @ rl_metric rule, ev_value = v, ev_status = status,
              ev_triggered = triggered\<rparr>]
      in eg\<lparr>eg_recent := (if length rows > MAX_EVALUATIONS_LOG then lastn MAX_EVALUATIONS_LOG rows else rows)\<rparr>)"

definition drop_streaks :: "string \<Rightarrow> rule_engine \<Rightarrow> rule_engine" where
  "drop_streaks rid eg = eg\<lparr>eg_ok := dict_pop rid (eg_ok eg), eg_breach := dict_pop rid (eg_breach eg)\<rparr>"

definition notify :: "notice \<Rightarrow> rule_engine \<Rightarrow> rule_engine" where
  "notify x eg = (if eg_dispatcher eg then eg\<lparr>eg_notices := eg_notices eg @ [x]\<rparr> else eg)"

definition is_threshold :: "rule_type \<Rightarrow> bool" where
  "is_threshold t \<longleftrightarrow> t \<in> {Threshold_Above, Threshold_Below, Threshold_Range}"

text \<open>The recovery check: none of the last points breaches a threshold rule any more.\<close>

definition recovered :: "secs \<Rightarrow> secs \<Rightarrow> alarm_rule \<Rightarrow> int \<Rightarrow> metric_point list \<Rightarrow> bool" where
  "recovered now tod rule resolve_after points =
     (\<not> (resolve_after > 0 \<and> is_threshold (rl_type rule)) \<or>
      list_all (\<lambda>p. evaluate_rule now tod rule (mp_value p) (mp_finite p) [p] = Inr None)
        (py_tail (nat (max (resolve_after * 2) 5)) points))"

definition ongoing_of :: "string \<Rightarrow> alert list \<Rightarrow> alert list" where
  "ongoing_of rid as = filter (\<lambda>a. rule_text (al_rule a) = rid \<and> al_status a \<in> set ONGOING_STATUSES) as"

fun auto_close :: "engine_env \<Rightarrow> secs \<Rightarrow> secs \<Rightarrow> real \<Rightarrow> alert list \<Rightarrow> rule_engine \<Rightarrow> rule_engine" where
  "auto_close e now clock v [] eg = eg"
| "auto_close e now clock v (a # as) eg =
     (let (closed, m) = close_alert (ee_num e) now clock (Some (al_id a)) (Some ''auto'') (Some v) (eg_mgr eg);
          eg = eg\<lparr>eg_mgr := m\<rparr>;
          eg = (case closed of None \<Rightarrow> eg | Some b \<Rightarrow> notify (Resolved b) eg)
      in auto_close e now clock v as eg)"

text \<open>The per-cycle snapshot when there is one, a fresh query otherwise.\<close>

definition snapshot_or_query :: "secs \<Rightarrow> alert list option \<Rightarrow> rule_engine \<Rightarrow> alert list \<times> rule_engine" where
  "snapshot_or_query clock active eg =
     (case active of
        Some as \<Rightarrow> (as, eg)
      | None \<Rightarrow> (let (as, rp) = get_active clock (mg_repo (eg_mgr eg))
                 in (as, eg\<lparr>eg_mgr := (eg_mgr eg)\<lparr>mg_repo := rp\<rparr>\<rparr>)))"

definition on_recovery ::
  "engine_env \<Rightarrow> reading \<Rightarrow> alert list option \<Rightarrow> alarm_rule \<Rightarrow> real \<Rightarrow> bool \<Rightarrow> rule_engine \<Rightarrow> rule_engine" where
  "on_recovery e rd active rule v recovered_now eg =
     (let rid = rl_id rule; resolve_after = rl_auto_resolve rule;
          eg = eg\<lparr>eg_breach := dict_pop rid (eg_breach eg)\<rparr>
      in if resolve_after \<le> 0 then eg
         else let eg = (if recovered_now then eg\<lparr>eg_ok := dict_set rid (dict_get_or (eg_ok eg) rid 0 + 1) (eg_ok eg)\<rparr>
                        else eg\<lparr>eg_ok := dict_pop rid (eg_ok eg)\<rparr>)
              in if dict_get_or (eg_ok eg) rid 0 \<ge> resolve_after
                 then let (as, eg) = snapshot_or_query (rd_clock rd) active eg
                      in auto_close e (rd_now rd) (rd_clock rd) v (ongoing_of rid as) eg
                 else eg)"

definition on_breach ::
  "engine_env \<Rightarrow> reading \<Rightarrow> alert list option \<Rightarrow> alarm_rule \<Rightarrow> real \<Rightarrow> alert_create \<Rightarrow> rule_engine \<Rightarrow> bool \<times> rule_engine" where
  "on_breach e rd active rule v ac eg =
     (let rid = rl_id rule;
          eg = eg\<lparr>eg_ok := dict_pop rid (eg_ok eg)\<rparr>;
          (as, eg) = snapshot_or_query (rd_clock rd) active eg;
          existing = ongoing_of rid as;
          need = max 1 (if rl_min_trigger rule = 0 then 1 else rl_min_trigger rule);
          streak = dict_get_or (eg_breach eg) rid 0 + 1;
          eg = (if existing = [] then eg\<lparr>eg_breach := dict_set rid streak (eg_breach eg)\<rparr> else eg)
      in if existing = [] \<and> streak < need then (False, eg)
         else if existing = []
         then let eg = eg\<lparr>eg_breach := dict_pop rid (eg_breach eg)\<rparr>;
                  (created, m) = process_alert (ee_num e) (ee_corr e) (rd_new_id rd) (rd_now rd) (rd_clock rd) ac (eg_mgr eg);
                  eg = eg\<lparr>eg_mgr := m\<rparr>
              in (case created of None \<Rightarrow> (False, eg) | Some a \<Rightarrow> (True, notify (Send a) eg))
         else let (a, rp) = repo_refresh (rd_now rd) (hd existing) v (mg_repo (eg_mgr eg))
              in (False, notify (Send a) (eg\<lparr>eg_mgr := (eg_mgr eg)\<lparr>mg_repo := rp\<rparr>\<rparr>)))"

definition persist_rule :: "reading \<Rightarrow> alarm_rule \<Rightarrow> bool \<Rightarrow> rule_engine \<Rightarrow> rule_engine" where
  "persist_rule rd rule fired eg =
     (let rid = rl_id rule; last_ts = dict_get_or (eg_persist eg) rid 0
      in if fired \<or> rd_clock rd - last_ts \<ge> PERSIST_MIN_INTERVAL_S
         then eg\<lparr>eg_saved := eg_saved eg @ [(rid, rd_now rd)], eg_persist := dict_set rid (rd_clock rd) (eg_persist eg)\<rparr>
         else eg)"

text \<open>
  \<^verbatim>\<open>_evaluate_rule\<close>: whether an alert was created, and the engine afterwards. An exception of the
  evaluator comes before any change of state.
\<close>

definition evaluate_rule_once ::
  "engine_env \<Rightarrow> reading \<Rightarrow> alert list option \<Rightarrow> alarm_rule \<Rightarrow> rule_engine \<Rightarrow> (bool \<times> rule_engine) py" where
  "evaluate_rule_once e rd active rule eg =
     (case rd_points rd of
        None \<Rightarrow> Inr (False, eg)
      | Some points \<Rightarrow>
          if points = [] then Inr (False, eg)
          else let p = last points; v = mp_value p; rid = rl_id rule
               in if point_age_s (rd_now rd) p > eg_max_age eg
                  then Inr (False, log_evaluation (rd_now rd) rule v ''stale'' False (drop_streaks rid eg))
                  else if \<not> mp_finite p
                  then Inr (False, log_evaluation (rd_now rd) rule v ''invalid'' False (drop_streaks rid eg))
                  else if is_in_quiet_hours (rd_tod rd) rule
                  then Inr (False, log_evaluation (rd_now rd) rule v ''quiet'' False (drop_streaks rid eg))
                  else py_bind (evaluate_rule (rd_now rd) (rd_tod rd) rule v True points) (\<lambda>ac.
                    let eg = log_evaluation (rd_now rd) rule v (if ac = None then ''ok'' else ''violation'') (ac \<noteq> None) eg;
                        (fired, eg) =
                          (case ac of
                             None \<Rightarrow> (False, on_recovery e rd active rule v
                                         (recovered (rd_now rd) (rd_tod rd) rule (rl_auto_resolve rule) points) eg)
                           | Some c \<Rightarrow> on_breach e rd active rule v c eg)
                    in Inr (fired, persist_rule rd rule fired eg)))"

section \<open>A cycle\<close>

fun expire_each :: "secs \<Rightarrow> secs \<Rightarrow> alert list \<Rightarrow> alert_manager \<Rightarrow> bool \<times> alert_manager" where
  "expire_each now clock [] m = (False, m)"
| "expire_each now clock (a # as) m =
     (if al_status a \<noteq> Al_Ignored \<or> (case al_ignored_until a of None \<Rightarrow> True | Some u \<Rightarrow> u > now)
      then expire_each now clock as m
      else let (r, m) = resume_alert now clock (Some (al_id a)) m;
               (c, m) = expire_each now clock as m
           in (r \<noteq> None \<or> c, m))"

definition expire_ignore_windows :: "secs \<Rightarrow> secs \<Rightarrow> alert list \<Rightarrow> alert_manager \<Rightarrow> alert list \<times> alert_manager" where
  "expire_ignore_windows now clock snapshot m =
     (if snapshot = [] then (snapshot, m)
      else let (changed, m) = expire_each now clock snapshot m
           in if changed then (let (as, rp) = get_active clock (mg_repo m) in (as, m\<lparr>mg_repo := rp\<rparr>))
              else (snapshot, m))"

text \<open>
  Between two rules the event loop may run request handlers: \<open>between\<close> is what they do to the alert
  manager after each rule. An exception in one rule is caught and leaves the engine as it was.
\<close>

fun evaluate_each ::
  "engine_env \<Rightarrow> alert list \<Rightarrow> (alarm_rule \<times> reading \<times> (alert_manager \<Rightarrow> alert_manager)) list \<Rightarrow> rule_engine \<Rightarrow> nat \<times> rule_engine" where
  "evaluate_each e snapshot [] eg = (0, eg)"
| "evaluate_each e snapshot ((rule, rd, between) # rest) eg =
     (let (fired, eg) = (case evaluate_rule_once e rd (Some snapshot) rule eg of
                           Inl x \<Rightarrow> (False, eg) | Inr r \<Rightarrow> r);
          (n, eg) = evaluate_each e snapshot rest (eg\<lparr>eg_mgr := between (eg_mgr eg)\<rparr>)
      in (if fired then n + 1 else n, eg))"

text \<open>
  \<open>get_active\<close> runs in a worker thread and is awaited, so request handlers may also run before the ignore
  windows are looked at: \<open>pause\<close> is what they do to the alert manager in the meantime, and the clocks
  are read again afterwards.
\<close>

definition evaluate_all ::
  "engine_env \<Rightarrow> secs \<Rightarrow> (alert_manager \<Rightarrow> alert_manager) \<Rightarrow> secs \<Rightarrow> secs \<Rightarrow>
     (alarm_rule \<times> reading \<times> (alert_manager \<Rightarrow> alert_manager)) list \<Rightarrow> rule_engine \<Rightarrow> nat \<times> rule_engine" where
  "evaluate_all e clock pause now clock' rules eg =
     (let (snapshot, rp) = get_active clock (mg_repo (eg_mgr eg));
          m = pause ((eg_mgr eg)\<lparr>mg_repo := rp\<rparr>);
          (snapshot, m) = expire_ignore_windows now clock' snapshot m
      in evaluate_each e snapshot (filter (\<lambda>(rule, rd, between). rl_enabled rule) rules) (eg\<lparr>eg_mgr := m\<rparr>))"

definition evaluate_single ::
  "engine_env \<Rightarrow> reading \<Rightarrow> alarm_rule \<Rightarrow> metric_point \<Rightarrow> rule_engine \<Rightarrow> (alert_create option \<times> rule_engine) py" where
  "evaluate_single e rd rule p eg =
     py_bind (evaluate_rule (rd_now rd) (rd_tod rd) rule (mp_value p) (mp_finite p) [p]) (\<lambda>ac.
       Inr (ac, case ac of
                  None \<Rightarrow> eg
                | Some c \<Rightarrow> eg\<lparr>eg_mgr := snd (process_alert (ee_num e) (ee_corr e) (rd_new_id rd) (rd_now rd)
                                          (rd_clock rd) c (eg_mgr eg))\<rparr>))"

definition get_recent_evaluations :: "nat \<Rightarrow> rule_engine \<Rightarrow> evaluation list" where
  "get_recent_evaluations n eg = py_tail n (eg_recent eg)"

record evaluation_stats =
  es_total :: nat
  es_violations :: nat
  es_rate :: rat

definition get_evaluation_stats :: "rule_engine \<Rightarrow> evaluation_stats" where
  "get_evaluation_stats eg =
     (let total = length (eg_recent eg); violations = length (filter ev_triggered (eg_recent eg))
      in \<lparr>es_total = total, es_violations = violations,
          es_rate = (if total > 0 then py_round_to 2 (of_nat violations / of_nat total * 100) else 0)\<rparr>)"

end
