(* ===== verification/NotificationDispatcher.thy ===== *)
theory NotificationDispatcher
  imports Notifications RuleEngine
begin

text \<open>
  The notification dispatcher
  (\<^verbatim>\<open>src/llm-systems-alarm-engine/backend/engine/notification_dispatcher.py\<close>): which channels hear about
  an alert. Policies filter alerts, hold the first notification back until an alert has fired
  \<^verbatim>\<open>min_alarm_count\<close> times, repeat it at most every \<^verbatim>\<open>repeat_interval_minutes\<close>, and announce a clear only to
  those who heard the alarm; one notification goes out per incident.

  A dispatch task runs without interruption up to its first send, so it is \<open>dispatch_begin\<close>; then each
  send ends with \<open>record_delivery\<close>, whose success comes from outside (SMTP, HTTP, web socket); then the
  task ends with \<open>dispatch_end\<close>. Tasks of different alerts interleave at these points. The texts of
  messages (a toast is one message for all its channels, a delivery is recorded for each), the SSRF check of destinations and the log lines are left out. \<open>clock\<close> is \<^verbatim>\<open>time.time()\<close> and
  \<open>tick\<close> \<^verbatim>\<open>time.monotonic()\<close>; the repositories are wired, as the engine does at start.
\<close>

section \<open>State\<close>

datatype notify_event = Firing | Cleared | Acked

record delivery =
  dl_channel :: string
  dl_type :: channel_type
  dl_recipient :: string
  dl_alert :: string
  dl_success :: bool
  dl_error :: "string option"

record dispatcher =
  nd_channels :: "(string, channel) dict"
  nd_enabled :: "(channel_type, bool) dict"
  nd_custom :: "(string, string list) dict"
  nd_sms_warned :: "string list"
  nd_breach :: "(string, int) dict"
  nd_incident :: "(string, secs) dict"
  nd_send_ok :: "string list"
  nd_last :: "(string \<times> string, secs) dict"
  nd_first :: "(string \<times> string) list"
  nd_swept :: "secs option"
  nd_bumped :: "string list"
  nd_deliveries :: "delivery list"

definition SWEEP_MIN_INTERVAL_S :: secs where
  "SWEEP_MIN_INTERVAL_S = 5"

definition NotificationDispatcher :: dispatcher where
  "NotificationDispatcher =
     \<lparr>nd_channels = [],
      nd_enabled = [(Ch_Toast, True), (Ch_Email, False), (Ch_Sms, False), (Ch_Webhook, False),
                    (Ch_Discord, False), (Ch_Webpush, False)],
      nd_custom = [], nd_sms_warned = [], nd_breach = [], nd_incident = [], nd_send_ok = [], nd_last = [],
      nd_first = [], nd_swept = None, nd_bumped = [], nd_deliveries = []\<rparr>"

section \<open>In-memory channels and custom rules\<close>

definition update_channel_flags :: "dispatcher \<Rightarrow> dispatcher" where
  "update_channel_flags d =
     d\<lparr>nd_enabled := fold (\<lambda>ch fl. dict_set (ch_type ch) (ch_enabled ch) fl) (dict_values (nd_channels d)) (nd_enabled d)\<rparr>"

definition add_channel :: "string \<Rightarrow> secs \<Rightarrow> channel_create \<Rightarrow> dispatcher \<Rightarrow> channel \<times> dispatcher" where
  "add_channel cid now c d =
     (let ch = to_channel cid now c
      in (ch, update_channel_flags (d\<lparr>nd_channels := dict_set cid ch (nd_channels d)\<rparr>)))"

definition remove_channel :: "string \<Rightarrow> dispatcher \<Rightarrow> bool \<times> dispatcher" where
  "remove_channel cid d =
     (if dict_get (nd_channels d) cid = None then (False, d)
      else (True, update_channel_flags (d\<lparr>nd_channels := dict_pop cid (nd_channels d)\<rparr>)))"

definition get_channel :: "string \<Rightarrow> dispatcher \<Rightarrow> channel option" where
  "get_channel cid d = dict_get (nd_channels d) cid"

definition add_custom_rule :: "string \<Rightarrow> string list \<Rightarrow> dispatcher \<Rightarrow> dispatcher" where
  "add_custom_rule rid cids d = d\<lparr>nd_custom := dict_set rid cids (nd_custom d)\<rparr>"

definition remove_custom_rule :: "string \<Rightarrow> dispatcher \<Rightarrow> bool \<times> dispatcher" where
  "remove_custom_rule rid d =
     (if dict_get (nd_custom d) rid = None then (False, d)
      else (True, d\<lparr>nd_custom := dict_pop rid (nd_custom d)\<rparr>))"

section \<open>Which policies dispatch\<close>

definition HANDLED_STATUSES :: "alert_status list" where
  "HANDLED_STATUSES = [Al_Acknowledged, Al_Ignored, Al_Closed]"

definition toast_category :: "alert \<Rightarrow> notify_event \<Rightarrow> string" where
  "toast_category a ev =
     (case ev of
        Cleared \<Rightarrow> ''clear''
      | Acked \<Rightarrow> ''ack''
      | Firing \<Rightarrow> (if al_status a \<in> {Al_Closed, Al_Exception} then ''clear''
                   else if al_status a \<in> {Al_Acknowledged, Al_Ignored} then ''ack'' else ''alert''))"

definition enabled_policies :: "policy list \<Rightarrow> policy list" where
  "enabled_policies ps = filter po_enabled ps"

definition bump_policy_trigger :: "policy \<Rightarrow> dispatcher \<Rightarrow> dispatcher" where
  "bump_policy_trigger p d = d\<lparr>nd_bumped := nd_bumped d @ [po_id p]\<rparr>"

definition forget_breaches :: "string \<Rightarrow> dispatcher \<Rightarrow> dispatcher" where
  "forget_breaches aid d = d\<lparr>nd_breach := dict_pop aid (nd_breach d)\<rparr>"

definition add_all :: "string list \<Rightarrow> string list \<Rightarrow> string list" where
  "add_all cids matched = fold List.insert cids matched"

fun clear_policies :: "alert \<Rightarrow> policy list \<Rightarrow> string list \<times> dispatcher \<Rightarrow> string list \<times> dispatcher" where
  "clear_policies a [] s = s"
| "clear_policies a (p # ps) (matched, d) =
     (if \<not> matches_alert a p \<or> \<not> po_on_clear p \<or> (po_id p, al_id a) \<notin> set (nd_first d) \<or> po_channels p = []
      then clear_policies a ps (matched, d)
      else clear_policies a ps (add_all (po_channels p) matched, bump_policy_trigger p d))"

definition forget_alert :: "string \<Rightarrow> dispatcher \<Rightarrow> dispatcher" where
  "forget_alert aid d =
     (forget_breaches aid d)\<lparr>nd_first := filter (\<lambda>k. snd k \<noteq> aid) (nd_first d),
                             nd_last := filter (\<lambda>e. snd (fst e) \<noteq> aid) (nd_last d)\<rparr>"

definition min_count :: "policy \<Rightarrow> int" where
  "min_count p = (if po_min_count p = 0 then 1 else po_min_count p)"

definition window_s :: "policy \<Rightarrow> secs" where
  "window_s p = of_int (po_repeat_min p * 60)"

definition due :: "alert \<Rightarrow> int \<Rightarrow> secs \<Rightarrow> policy \<Rightarrow> dispatcher \<Rightarrow> bool" where
  "due a breaches now p d \<longleftrightarrow>
     (let key = (po_id p, al_id a)
      in matches_alert a p \<and> \<not> breaches < min_count p \<and>
         \<not> (window_s p > 0 \<and> key \<in> set (nd_first d) \<and> now - dict_get_or (nd_last d) key 0 < window_s p) \<and>
         po_channels p \<noteq> [])"

fun fire_policies :: "alert \<Rightarrow> int \<Rightarrow> secs \<Rightarrow> policy list \<Rightarrow> string list \<times> dispatcher \<Rightarrow> string list \<times> dispatcher" where
  "fire_policies a breaches now [] s = s"
| "fire_policies a breaches now (p # ps) (matched, d) =
     (if due a breaches now p d
      then fire_policies a breaches now ps
             (add_all (po_channels p) matched,
              bump_policy_trigger p (d\<lparr>nd_last := dict_set (po_id p, al_id a) now (nd_last d),
                                      nd_first := List.insert (po_id p, al_id a) (nd_first d)\<rparr>))
      else fire_policies a breaches now ps (matched, d))"

definition policies_that_should_dispatch ::
  "secs \<Rightarrow> alert \<Rightarrow> notify_event \<Rightarrow> policy list \<Rightarrow> dispatcher \<Rightarrow> string list \<times> dispatcher" where
  "policies_that_should_dispatch clock a ev policies d =
     (if ev = Acked then ([], forget_breaches (al_id a) d)
      else if ev = Firing \<and> al_status a \<in> set HANDLED_STATUSES then ([], forget_breaches (al_id a) d)
      else if ev = Cleared
      then let (matched, d) = clear_policies a policies ([], d) in (matched, forget_alert (al_id a) d)
      else let breaches = dict_get_or (nd_breach d) (al_id a) 0 + 1
           in fire_policies a breaches clock policies ([], d\<lparr>nd_breach := dict_set (al_id a) breaches (nd_breach d)\<rparr>))"

section \<open>Incidents\<close>

definition is_incident_joiner :: "alert \<Rightarrow> bool" where
  "is_incident_joiner a = (case or_none (al_incident a) of None \<Rightarrow> False | Some i \<Rightarrow> i \<noteq> al_id a)"

definition incident_channel_suppressed :: "bool \<Rightarrow> alert \<Rightarrow> notify_event \<Rightarrow> dispatcher \<Rightarrow> bool" where
  "incident_channel_suppressed per_incident a ev d \<longleftrightarrow>
     ev = Firing \<and> per_incident \<and> is_incident_joiner a \<and>
     (case al_incident a of None \<Rightarrow> False | Some i \<Rightarrow> dict_get (nd_incident d) i \<noteq> None)"

definition record_incident_dispatch :: "secs \<Rightarrow> alert \<Rightarrow> dispatcher \<Rightarrow> dispatcher" where
  "record_incident_dispatch tick a d =
     (case or_none (al_incident a) of
        None \<Rightarrow> d
      | Some i \<Rightarrow> d\<lparr>nd_incident := dict_setdefault i tick (nd_incident d)\<rparr>)"

definition sweep_incident_dispatched :: "secs \<Rightarrow> alert list \<Rightarrow> dispatcher \<Rightarrow> dispatcher" where
  "sweep_incident_dispatched tick active d =
     (if nd_incident d = [] then d
      else if (case nd_swept d of None \<Rightarrow> False | Some t \<Rightarrow> tick - t < SWEEP_MIN_INTERVAL_S) then d
      else d\<lparr>nd_swept := Some tick,
             nd_incident := filter (\<lambda>(i, t). Some i \<in> set (map al_incident active) \<and> i \<in> set (map al_id active))
                              (nd_incident d)\<rparr>)"

section \<open>A dispatch task\<close>

definition toast_behaviour :: "alert \<Rightarrow> policy list \<Rightarrow> channel list \<Rightarrow> bool \<times> int" where
  "toast_behaviour a policies chs =
     (let sel = filter (\<lambda>p. list_ex (\<lambda>c. c \<in> ch_id ` set chs) (po_channels p) \<and> matches_alert a p) policies;
          seconds = fold (\<lambda>p s. max s (if po_dismiss_s p = 0 then 10 else po_dismiss_s p)) sel 0
      in (list_ex (\<lambda>p. \<not> po_auto_dismiss p) sel, if seconds = 0 then 10 else seconds))"

text \<open>What a task sends: the selected channels of each type, and the incident it claimed.\<close>

record task =
  tk_alert :: alert
  tk_event :: notify_event
  tk_channels :: "channel list"
  tk_toast :: "bool \<times> int"
  tk_claimed :: "string option"

definition dispatch_begin ::
  "secs \<Rightarrow> secs \<Rightarrow> bool \<Rightarrow> alert list \<Rightarrow> channel list \<Rightarrow> policy list \<Rightarrow> alert \<Rightarrow> notify_event \<Rightarrow> dispatcher \<Rightarrow> task \<times> dispatcher" where
  "dispatch_begin clock tick per_incident active channels all_policies a ev d =
     (let policies = enabled_policies all_policies;
          (matched, d) = policies_that_should_dispatch clock a ev policies d;
          d = sweep_incident_dispatched tick active d;
          suppressed = incident_channel_suppressed per_incident a ev d;
          matched = (if suppressed then [] else matched);
          claims = ev = Firing \<and> matched \<noteq> [] \<and> \<not> suppressed \<and> per_incident;
          claimed = (if claims then (case or_none (al_incident a) of
                       None \<Rightarrow> None
                     | Some i \<Rightarrow> if dict_get (nd_incident d) i = None then Some i else None) else None);
          d = (if claims then record_incident_dispatch tick a d else d);
          selected = filter (\<lambda>c. ch_enabled c \<and> ch_id c \<in> set matched) channels;
          of_type = (\<lambda>t. filter (\<lambda>c. ch_type c = t) selected)
      in (\<lparr>tk_alert = a, tk_event = ev,
           tk_channels = of_type Ch_Toast @ of_type Ch_Email @ of_type Ch_Sms @ of_type Ch_Webhook @ of_type Ch_Discord @ of_type Ch_Webpush,
           tk_toast = toast_behaviour a policies (of_type Ch_Toast), tk_claimed = claimed\<rparr>, d))"

text \<open>
  The recipient of a channel, \<open>None\<close> when its configuration for its own type is missing or disabled;
  \<open>ws\<close> says that a web socket sender is set and \<open>manager_url\<close> is where a blank web-push URL goes.
\<close>

definition sms_recipient :: "channel \<Rightarrow> string option" where
  "sms_recipient c =
     (case cc_sms (ch_config c) of None \<Rightarrow> None | Some x \<Rightarrow> if sm_enabled x then Some (sm_number x) else None)"

definition email_recipient :: "channel \<Rightarrow> string option" where
  "email_recipient c =
     (case cc_email (ch_config c) of None \<Rightarrow> None | Some x \<Rightarrow> if em_enabled x then Some (em_to x) else None)"

definition webhook_recipient :: "channel \<Rightarrow> string option" where
  "webhook_recipient c =
     (case cc_webhook (ch_config c) of None \<Rightarrow> None | Some x \<Rightarrow> if wh_enabled x then Some (wh_url x) else None)"

definition discord_recipient :: "channel \<Rightarrow> string option" where
  "discord_recipient c =
     (case cc_discord (ch_config c) of None \<Rightarrow> None | Some x \<Rightarrow> if di_enabled x then Some (di_url x) else None)"

definition webpush_url :: "string \<Rightarrow> webpush_config \<Rightarrow> string" where
  "webpush_url manager_url x = (if py_strip (wp_url x) = [] then manager_url else py_strip (wp_url x))"

definition webpush_recipient :: "string \<Rightarrow> channel \<Rightarrow> string option" where
  "webpush_recipient manager_url c =
     (case cc_webpush (ch_config c) of
        None \<Rightarrow> None
      | Some x \<Rightarrow> if wp_enabled x then Some (webpush_url manager_url x) else None)"

definition recipient :: "bool \<Rightarrow> string \<Rightarrow> channel \<Rightarrow> string option" where
  "recipient ws manager_url c =
     (case ch_type c of
        Ch_Toast \<Rightarrow> if ws then Some ''webui'' else None
      | Ch_Sms \<Rightarrow> sms_recipient c
      | Ch_Email \<Rightarrow> email_recipient c
      | Ch_Webhook \<Rightarrow> webhook_recipient c
      | Ch_Discord \<Rightarrow> discord_recipient c
      | Ch_Webpush \<Rightarrow> webpush_recipient manager_url c)"

definition SMS_ERROR :: string where
  "SMS_ERROR = ''SMS sending is not implemented (no provider integration)''"

definition record_delivery ::
  "secs \<Rightarrow> alert \<Rightarrow> channel \<Rightarrow> string \<Rightarrow> string option \<Rightarrow> notify_event \<Rightarrow> dispatcher \<Rightarrow> dispatcher" where
  "record_delivery tick a c to err ev d =
     (let ok = (err = None);
          d = (if ok then d\<lparr>nd_send_ok := List.insert (al_id a) (nd_send_ok d)\<rparr> else d);
          d = (if ok \<and> ev = Firing then record_incident_dispatch tick a d else d)
      in d\<lparr>nd_deliveries := nd_deliveries d @
             [\<lparr>dl_channel = ch_id c, dl_type = ch_type c, dl_recipient = to, dl_alert = al_id a,
               dl_success = ok, dl_error = err\<rparr>]\<rparr>)"

text \<open>One send of a task; \<open>err\<close> is what the transport answers, for SMS always the same refusal.\<close>

definition send_channel ::
  "bool \<Rightarrow> string \<Rightarrow> secs \<Rightarrow> task \<Rightarrow> channel \<Rightarrow> string option \<Rightarrow> dispatcher \<Rightarrow> dispatcher" where
  "send_channel ws manager_url tick tk c err d =
     (case recipient ws manager_url c of
        None \<Rightarrow> d
      | Some to \<Rightarrow>
          if ch_type c = Ch_Sms
          then record_delivery tick (tk_alert tk) c to (Some SMS_ERROR) (tk_event tk)
                 (d\<lparr>nd_sms_warned := List.insert (ch_id c) (nd_sms_warned d)\<rparr>)
          else record_delivery tick (tk_alert tk) c to err (tk_event tk) d)"

definition dispatch_end :: "task \<Rightarrow> dispatcher \<Rightarrow> dispatcher" where
  "dispatch_end tk d =
     (let aid = al_id (tk_alert tk); sent_ok = aid \<in> set (nd_send_ok d);
          d = d\<lparr>nd_send_ok := removeAll aid (nd_send_ok d)\<rparr>
      in case tk_claimed tk of
           None \<Rightarrow> d
         | Some i \<Rightarrow> if sent_ok then d else d\<lparr>nd_incident := dict_pop i (nd_incident d)\<rparr>)"

text \<open>The event a notice of the rule engine stands for.\<close>

definition notice_event :: "notice \<Rightarrow> alert \<times> notify_event" where
  "notice_event n = (case n of Send a \<Rightarrow> (a, Firing) | Resolved a \<Rightarrow> (a, Cleared))"

end
