(* ===== verification/AlertLifecycle.thy ===== *)
theory AlertLifecycle
  imports AlertManager
begin

text \<open>
  The alert manager as an event machine: every entry point of the manager and of the repository that
  the routes, the rule engine and the retention job call is an event, and the invariants of the store
  hold after any sequence of them.
\<close>

section \<open>Events\<close>

datatype alert_op =
    Op_Process string secs secs alert_create
  | Op_Acknowledge secs secs "string option"
  | Op_Close secs secs "string option" "string option" "real option"
  | Op_Close_Rule secs secs string string
  | Op_Ignore secs secs "string option" int
  | Op_Resume secs secs "string option"
  | Op_Delete "string option"
  | Op_Delete_Route "string option"
  | Op_Close_All secs
  | Op_Ignore_All secs secs int
  | Op_Refresh secs alert real
  | Op_Purge secs secs
  | Op_Read secs

text \<open>What the environment supplies: number and time rendering, and the correlation settings.\<close>

record alert_env =
  en_num :: "real \<Rightarrow> string"
  en_iso :: "secs \<Rightarrow> string"
  en_corr :: correlation

fun alert_step :: "alert_env \<Rightarrow> alert_op \<Rightarrow> alert_manager \<Rightarrow> alert_manager" where
  "alert_step e (Op_Process aid now clock c) m = snd (process_alert (en_num e) (en_corr e) aid now clock c m)"
| "alert_step e (Op_Acknowledge now clock uid) m =
     (case acknowledge_alert now clock uid m of Inl x \<Rightarrow> m | Inr (r, m') \<Rightarrow> m')"
| "alert_step e (Op_Close now clock uid reason v) m = snd (close_alert (en_num e) now clock uid reason v m)"
| "alert_step e (Op_Close_Rule now clock rid reason) m = snd (close_rule_alerts (en_num e) now clock rid reason m)"
| "alert_step e (Op_Ignore now clock uid hours) m =
     (case ignore_alert (en_iso e) now clock uid hours m of Inl x \<Rightarrow> m | Inr (r, m') \<Rightarrow> m')"
| "alert_step e (Op_Resume now clock uid) m = snd (resume_alert now clock uid m)"
| "alert_step e (Op_Delete uid) m = snd (delete_alert uid m)"
| "alert_step e (Op_Delete_Route uid) m = snd (delete_route uid m)"
| "alert_step e (Op_Close_All now) m = m\<lparr>mg_repo := snd (close_all_alerts now (mg_repo m))\<rparr>"
| "alert_step e (Op_Ignore_All now clock hours) m = m\<lparr>mg_repo := snd (ignore_all_alerts now clock hours (mg_repo m))\<rparr>"
| "alert_step e (Op_Refresh now a v) m = m\<lparr>mg_repo := snd (repo_refresh now a v (mg_repo m))\<rparr>"
| "alert_step e (Op_Purge cutoff now) m =
     m\<lparr>mg_repo := (mg_repo m)\<lparr>rp_db := snd (purge_history_older_than cutoff now (rp_db (mg_repo m)))\<rparr>\<rparr>"
| "alert_step e (Op_Read clock) m = m\<lparr>mg_repo := snd (get_active clock (mg_repo m))\<rparr>"

section \<open>The invariant of the tables\<close>

text \<open>
  What the invariant looks at in a row. \<open>tab_inv K T H\<close> is about these for the hot table and the
  history: no id twice, the hot table holds the ongoing alerts and the history the closed ones,
  every row can be read back, and the hot table has at most one alert per rule, all of them of
  rules in \<open>K\<close>.
\<close>

record info =
  i_id :: string
  i_rule :: "string option"
  i_status :: alert_status
  i_msg :: bool

definition info :: "alert \<Rightarrow> info" where
  "info r = \<lparr>i_id = al_id r, i_rule = al_rule r, i_status = al_status r, i_msg = (or_none (al_message r) \<noteq> None)\<rparr>"

definition tab_inv :: "string option set \<Rightarrow> info list \<Rightarrow> info list \<Rightarrow> bool" where
  "tab_inv K T H \<longleftrightarrow> distinct (map i_id T @ map i_id H) \<and>
     (\<forall>t \<in> set T. i_status t \<in> set LIVE_STATUSES \<and> i_msg t) \<and>
     (\<forall>t \<in> set H. i_status t = Al_Closed \<and> i_msg t \<and> i_rule t \<noteq> Some []) \<and>
     distinct (map i_rule T) \<and> i_rule ` set T \<subseteq> K \<and> Some [] \<notin> K"

definition db_inv :: "string option set \<Rightarrow> alarms_db \<Rightarrow> bool" where
  "db_inv K db \<longleftrightarrow> tab_inv K (map info (db_alerts db)) (map info (db_history db))"

definition cache_ok :: "alert_repo \<Rightarrow> bool" where
  "cache_ok rp \<longleftrightarrow> (case rp_cache rp of None \<Rightarrow> True | Some c \<Rightarrow> info ` set c = info ` set (db_alerts (rp_db rp)))"

definition repo_inv :: "string option set \<Rightarrow> alert_repo \<Rightarrow> bool" where
  "repo_inv K rp \<longleftrightarrow> db_inv K (rp_db rp) \<and> cache_ok rp"

lemma info_sel [simp]: "i_id (info r) = al_id r" "i_rule (info r) = al_rule r"
  "i_status (info r) = al_status r" "i_msg (info r) = (or_none (al_message r) \<noteq> None)"
  by (simp_all add: info_def)

lemma NON_LIVE_iff: "s \<in> set NON_LIVE_STATUSES \<longleftrightarrow> s \<notin> set LIVE_STATUSES"
  by (cases s) (simp_all add: NON_LIVE_STATUSES_def LIVE_STATUSES_def)

lemma LIVE_iff: "s \<in> set LIVE_STATUSES \<longleftrightarrow> s \<noteq> Al_Closed \<and> s \<noteq> Al_Exception"
  by (cases s) (simp_all add: LIVE_STATUSES_def)

lemma info_map_same: "(\<And>r. info (f r) = info r) \<Longrightarrow> map info (map f rows) = map info rows"
  by simp

lemma db_inv_same:
  "db_inv K db \<Longrightarrow> map info (db_alerts db') = map info (db_alerts db) \<Longrightarrow>
   map info (db_history db') = map info (db_history db) \<Longrightarrow> db_inv K db'"
  by (simp add: db_inv_def)

lemma db_inv_rows:
  assumes "db_inv K db"
  shows "r \<in> set (db_alerts db) \<Longrightarrow> al_status r \<in> set LIVE_STATUSES \<and> or_none (al_message r) \<noteq> None \<and> al_rule r \<in> K"
    and "r \<in> set (db_history db) \<Longrightarrow> al_status r = Al_Closed \<and> or_none (al_message r) \<noteq> None \<and> al_rule r \<noteq> Some []"
    and "distinct (map al_id (db_alerts db))" "distinct (map al_id (db_history db))"
    and "r \<in> set (db_alerts db) \<Longrightarrow> r' \<in> set (db_history db) \<Longrightarrow> al_id r \<noteq> al_id r'"
    and "distinct (map al_rule (db_alerts db))" "Some [] \<notin> K"
  using assms by (auto simp: db_inv_def tab_inv_def comp_def image_image)

lemma db_inv_small:
  assumes "db_inv K db" "finite K" "card K \<le> 1000"
  shows "length (db_alerts db) \<le> 1000"
proof -
  have "length (db_alerts db) = card (set (map al_rule (db_alerts db)))"
    using db_inv_rows(6) [OF assms(1)] by (metis distinct_card length_map)
  also have "\<dots> \<le> card K"
    using db_inv_rows(1) [OF assms(1)] by (intro card_mono assms(2)) auto
  finally show ?thesis using assms(3) by simp
qed

section \<open>The snapshot of ongoing alerts\<close>

lemma info_dict_to_alert: "or_none (al_message r) \<noteq> None \<Longrightarrow> \<exists>a. dict_to_alert r = Some a \<and> info a = info r"
  by (auto simp: dict_to_alert_def info_def or_none_def)

lemma dict_to_alert_info: "dict_to_alert r = Some a \<Longrightarrow> info a = info r"
  by (auto simp: dict_to_alert_def info_def split: if_splits)

lemma readable_info:
  "\<forall>r \<in> set rows. or_none (al_message r) \<noteq> None \<Longrightarrow> info ` set (readable rows) = info ` set rows"
proof (induction rows)
  case Nil
  show ?case by (simp add: readable_def map_filter_simps)
next
  case (Cons r rows)
  then obtain a where "dict_to_alert r = Some a" "info a = info r" using info_dict_to_alert [of r] by auto
  with Cons show ?case by (simp add: readable_def map_filter_simps)
qed

lemma query_active_info:
  assumes "db_inv K db" "finite K" "card K \<le> 1000"
  shows "info ` set (readable (query_active 1000 db)) = info ` set (db_alerts db)"
proof -
  have "filter (\<lambda>r. al_status r \<in> set LIVE_STATUSES) (db_alerts db) = db_alerts db"
    using db_inv_rows(1) [OF assms(1)] by (simp add: filter_id_conv)
  then have "set (query_active 1000 db) = set (db_alerts db)"
    using db_inv_small [OF assms] by (simp add: query_active_def)
  moreover have "\<forall>r \<in> set (query_active 1000 db). or_none (al_message r) \<noteq> None"
    using calculation db_inv_rows(1) [OF assms(1)] by blast
  ultimately show ?thesis using readable_info by metis
qed

lemma get_active_inv:
  assumes "repo_inv K rp" "finite K" "card K \<le> 1000"
  shows "repo_inv K (snd (get_active clock rp)) \<and>
    info ` set (fst (get_active clock rp)) = info ` set (db_alerts (rp_db rp)) \<and>
    rp_db (snd (get_active clock rp)) = rp_db rp"
  using assms query_active_info [of K "rp_db rp"]
  by (auto simp: get_active_def repo_inv_def cache_ok_def Let_def split: option.splits)

section \<open>Writes, seen through the invariant\<close>

definition put_status :: "string \<Rightarrow> alert_status \<Rightarrow> info list \<Rightarrow> info list" where
  "put_status i s T = map (\<lambda>t. if i_id t = i then \<lparr>i_id = i, i_rule = i_rule t, i_status = s, i_msg = True\<rparr> else t) T"

lemma subseq_distinct: "subseq xs ys \<Longrightarrow> distinct ys \<Longrightarrow> distinct xs"
  by (auto simp: subseq_conv_nths distinct_nthsI)

lemma subseq_subset: "subseq xs ys \<Longrightarrow> set xs \<subseteq> set ys"
  by (auto simp: subseq_conv_nths dest: in_set_nthsD)

lemma tab_inv_subseq:
  assumes inv: "tab_inv K T H" and T: "subseq T' T" and H: "subseq H' H"
  shows "tab_inv K T' H'"
proof -
  have ids: "distinct (map i_id T' @ map i_id H')"
    using inv unfolding tab_inv_def
    by (intro subseq_distinct [OF list_emb_append_mono [OF subseq_map [OF T] subseq_map [OF H]]]) simp
  have rules: "distinct (map i_rule T')"
    using inv unfolding tab_inv_def by (intro subseq_distinct [OF subseq_map [OF T]]) simp
  have "i_rule ` set T' \<subseteq> K"
    using inv image_mono [OF subseq_subset [OF T], of i_rule] unfolding tab_inv_def by (meson order_trans)
  then show ?thesis using inv ids rules subseq_subset [OF T] subseq_subset [OF H]
    unfolding tab_inv_def by (meson subsetD)
qed

lemma tab_inv_put:
  assumes "tab_inv K T H" and "s \<in> set LIVE_STATUSES"
  shows "tab_inv K (put_status i s T) H"
proof -
  have "map i_id (put_status i s T) = map i_id T" "map i_rule (put_status i s T) = map i_rule T"
    by (simp_all add: put_status_def)
  moreover have "\<forall>t \<in> set (put_status i s T). i_status t \<in> set LIVE_STATUSES \<and> i_msg t"
    using assms by (auto simp: put_status_def tab_inv_def)
  moreover have "i_rule ` set (put_status i s T) = i_rule ` set T"
    using calculation(2) by (metis list.set_map)
  ultimately show ?thesis using assms(1) unfolding tab_inv_def by simp
qed

lemma tab_inv_close:
  assumes "tab_inv K T H" and "x \<noteq> Some []"
  shows "tab_inv K (filter (\<lambda>t. i_id t \<noteq> i) T) (filter (\<lambda>t. i_id t \<noteq> i) H @ [\<lparr>i_id = i, i_rule = x, i_status = Al_Closed, i_msg = True\<rparr>])"
proof -
  let ?T = "filter (\<lambda>t. i_id t \<noteq> i) T" and ?H = "filter (\<lambda>t. i_id t \<noteq> i) H"
  have "tab_inv K ?T ?H" by (rule tab_inv_subseq [OF assms(1)]) simp_all
  then show ?thesis using assms(2) unfolding tab_inv_def by auto
qed

lemma tab_inv_create:
  assumes "tab_inv K T H" and "i \<notin> i_id ` set T" "i \<notin> i_id ` set H" and "x \<notin> i_rule ` set T" "x \<in> K"
    and "s \<in> set LIVE_STATUSES"
  shows "tab_inv K (T @ [\<lparr>i_id = i, i_rule = x, i_status = s, i_msg = True\<rparr>]) H"
  using assms unfolding tab_inv_def by auto

lemma upsert_info:
  "map info (upsert a rows) =
     (if al_id a \<in> al_id ` set rows
      then map (\<lambda>t. if i_id t = al_id a then (info a)\<lparr>i_rule := i_rule t\<rparr> else t) (map info rows)
      else map info rows @ [info a])"
  by (auto simp: upsert_def info_def)

text \<open>An alert that can be stored without losing what the invariant looks at.\<close>

definition storable :: "alert \<Rightarrow> bool" where
  "storable a \<longleftrightarrow> al_rule a \<noteq> Some [] \<and> or_none (al_message a) \<noteq> None"

lemma info_cols: "storable a \<Longrightarrow> info (alert_cols a) = info a"
  by (auto simp: storable_def info_def alert_cols_def or_none_def)

lemma alert_cols_sel [simp]: "al_id (alert_cols a) = al_id a" "al_status (alert_cols a) = al_status a"
  by (simp_all add: alert_cols_def)

lemma write_live_info:
  assumes "db_inv K db" "storable a" "al_status a \<in> set LIVE_STATUSES" "al_id a \<in> al_id ` set (db_alerts db)"
  shows "map info (db_alerts (write_alert a db)) = put_status (al_id a) (al_status a) (map info (db_alerts db))"
    and "map info (db_history (write_alert a db)) = map info (db_history db)"
proof -
  have st: "i_id (info a) = al_id a" "i_status (info a) = al_status a" "i_msg (info a)"
    using assms(2) by (simp_all add: storable_def)
  show "map info (db_alerts (write_alert a db)) = put_status (al_id a) (al_status a) (map info (db_alerts db))"
    using assms(3,4) st
    by (auto simp: write_alert_def NON_LIVE_iff upsert_info info_cols [OF assms(2)] put_status_def)
  have "filter (\<lambda>r. al_id r \<noteq> al_id a) (db_history db) = db_history db"
    unfolding filter_id_conv using db_inv_rows(5) [OF assms(1)] assms(4) by (metis imageE)
  then show "map info (db_history (write_alert a db)) = map info (db_history db)"
    using assms(3) by (simp add: write_alert_def NON_LIVE_iff)
qed

lemma write_new_info:
  assumes "storable a" "al_status a \<in> set LIVE_STATUSES" "al_id a \<notin> al_id ` set (db_alerts db)"
    "al_id a \<notin> al_id ` set (db_history db)"
  shows "map info (db_alerts (write_alert a db)) = map info (db_alerts db) @ [info a]"
    and "map info (db_history (write_alert a db)) = map info (db_history db)"
proof -
  have "filter (\<lambda>r. al_id r \<noteq> al_id a) (db_history db) = db_history db"
    unfolding filter_id_conv using assms(4) by (metis imageI)
  then show "map info (db_alerts (write_alert a db)) = map info (db_alerts db) @ [info a]"
    "map info (db_history (write_alert a db)) = map info (db_history db)"
    using assms by (simp_all add: write_alert_def NON_LIVE_iff upsert_info info_cols)
qed

text \<open>Closing takes the alert out of the hot table and puts it at the end of the history.\<close>

lemma filter_upsert_closed:
  assumes "\<forall>r \<in> set rows. al_status r \<in> set LIVE_STATUSES" "distinct (map al_id rows)"
    "al_status a = Al_Closed"
  shows "\<exists>r. filter (\<lambda>r. al_status r \<in> set NON_LIVE_STATUSES \<and> al_id a = al_id r) (upsert a rows) = [r] \<and>
      al_id r = al_id a \<and> al_status r = Al_Closed \<and> al_message r = al_message a \<and>
      (al_rule r = al_rule a \<or> al_rule r \<in> al_rule ` set rows)"
    and "filter (\<lambda>r. \<not> (al_status r \<in> set NON_LIVE_STATUSES \<and> al_id a = al_id r)) (upsert a rows) =
      filter (\<lambda>r. al_id r \<noteq> al_id a) rows"
  using assms
proof (induction rows)
  case Nil
  {
    case 1
    then show ?case by (simp add: upsert_def NON_LIVE_iff LIVE_iff)
  next
    case 2
    then show ?case by (simp add: upsert_def NON_LIVE_iff LIVE_iff)
  }
next
  case (Cons r rows)
  have step: "upsert a (r # rows) =
     (if al_id r = al_id a \<and> al_id a \<notin> al_id ` set rows
      then a\<lparr>al_rule := al_rule r, al_source := al_source r, al_metric := al_metric r, al_created := al_created r\<rparr> # rows
      else if al_id r = al_id a then upsert a (r # rows) else r # upsert a rows)"
    by (auto simp: upsert_def intro!: map_idI) (metis imageI)
  {
    case 1
    then show ?case using Cons.IH(1)
      by (cases "al_id r = al_id a") (auto simp: step NON_LIVE_iff LIVE_iff filter_empty_conv)
  next
    case 2
    then show ?case using Cons.IH(2)
      by (cases "al_id r = al_id a")
        (auto simp: step NON_LIVE_iff LIVE_iff filter_id_conv, metis (mono_tags, lifting) filter_True imageI)
  }
qed

lemma write_closed_info:
  assumes "db_inv K db" "storable a" "al_status a = Al_Closed"
  shows "\<exists>x. x \<noteq> Some [] \<and> map info (db_alerts (write_alert a db)) = filter (\<lambda>t. i_id t \<noteq> al_id a) (map info (db_alerts db)) \<and>
    map info (db_history (write_alert a db)) =
      filter (\<lambda>t. i_id t \<noteq> al_id a) (map info (db_history db)) @ [\<lparr>i_id = al_id a, i_rule = x, i_status = Al_Closed, i_msg = True\<rparr>]"
proof -
  let ?u = "upsert (alert_cols a) (db_alerts db)"
  have live: "\<forall>r \<in> set (db_alerts db). al_status r \<in> set LIVE_STATUSES" using db_inv_rows(1) [OF assms(1)] by blast
  note f = filter_upsert_closed [OF live db_inv_rows(3) [OF assms(1)], of "alert_cols a"]
  obtain r where r: "filter (\<lambda>r. al_status r \<in> set NON_LIVE_STATUSES \<and> al_id a = al_id r) ?u = [r]"
    "al_id r = al_id a" "al_status r = Al_Closed" "al_message r = al_message (alert_cols a)"
    "al_rule r = al_rule (alert_cols a) \<or> al_rule r \<in> al_rule ` set (db_alerts db)"
    using f(1) assms(3) by auto
  have "al_rule (alert_cols a) \<noteq> Some []" by (simp add: alert_cols_def or_none_def)
  moreover have "Some [] \<notin> al_rule ` set (db_alerts db)" using db_inv_rows(1,7) [OF assms(1)] by fastforce
  ultimately have rule: "al_rule r \<noteq> Some []" using r(5) by metis
  have msg: "or_none (al_message r) \<noteq> None"
    using r(4) assms(2) by (auto simp: alert_cols_def storable_def or_none_def split: if_splits)
  have kept: "filter (\<lambda>r. \<not> (al_status r \<in> set NON_LIVE_STATUSES \<and> al_id a = al_id r)) ?u =
      filter (\<lambda>r. al_id r \<noteq> al_id a) (db_alerts db)" using f(2) assms(3) by simp
  have non_live: "Al_Closed \<in> set NON_LIVE_STATUSES" by (simp add: NON_LIVE_iff LIVE_iff)
  have alerts: "db_alerts (write_alert a db) = filter (\<lambda>r. al_id r \<noteq> al_id a) (db_alerts db)"
    using assms(3) non_live kept by (simp add: write_alert_def archive_non_live_def Let_def)
  have "db_history (write_alert a db) = filter (\<lambda>x. al_id x \<notin> al_id ` set [r]) (db_history db) @ [r]"
    using assms(3) non_live unfolding r(1) [symmetric] by (simp add: write_alert_def archive_non_live_def Let_def)
  then have history: "db_history (write_alert a db) = filter (\<lambda>x. al_id x \<noteq> al_id a) (db_history db) @ [r]"
    using r(2) by simp
  have "info r = \<lparr>i_id = al_id a, i_rule = al_rule r, i_status = Al_Closed, i_msg = True\<rparr>"
    using r msg by (simp add: info_def)
  then show ?thesis unfolding alerts history by (intro exI [of _ "al_rule r"]) (simp add: rule filter_map comp_def)
qed

section \<open>Repository operations keep the invariant\<close>

lemma repo_inv_db: "db_inv K (rp_db rp) \<Longrightarrow> repo_inv K (invalidate_active_cache rp)"
  by (simp add: repo_inv_def cache_ok_def invalidate_active_cache_def)

lemma repo_inv_same:
  assumes "repo_inv K rp" and "map info (db_alerts (rp_db rp')) = map info (db_alerts (rp_db rp))"
    and "map info (db_history (rp_db rp')) = map info (db_history (rp_db rp))" and "rp_cache rp' = rp_cache rp"
  shows "repo_inv K rp'"
proof -
  have "info ` set (db_alerts (rp_db rp')) = info ` set (db_alerts (rp_db rp))"
    using assms(2) by (metis list.set_map)
  then show ?thesis using assms db_inv_same [of K "rp_db rp" "rp_db rp'"]
    by (simp add: repo_inv_def cache_ok_def split: option.splits)
qed

lemma unignore_info: "info (unignore rid r) = info r"
  by (simp add: unignore_def info_def)

lemma clear_rule_ignored_inv: "repo_inv K rp \<Longrightarrow> repo_inv K (clear_rule_ignored rid rp)"
  by (rule repo_inv_same [of K rp])
    (auto simp: clear_rule_ignored_def clear_ignored_until_def unignore_info split: option.splits)

lemma record_event_inv: "repo_inv K rp \<Longrightarrow> repo_inv K (record_event now i ev actor detail rp)"
  by (rule repo_inv_same [of K rp]) (auto simp: record_event_def write_event_def)

lemma set_rule_ignored_inv: "repo_inv K rp \<Longrightarrow> repo_inv K (set_rule_ignored rid until rp)"
  by (rule repo_inv_same [of K rp]) (auto simp: set_rule_ignored_def split: option.splits)

lemma is_rule_ignored_inv: "repo_inv K rp \<Longrightarrow> repo_inv K (snd (is_rule_ignored now rid rp))"
  by (rule repo_inv_same [of K rp]) (auto simp: is_rule_ignored_def split: option.splits)

lemma rule_ignored_until_inv: "repo_inv K rp \<Longrightarrow> repo_inv K (snd (rule_ignored_until now rid rp))"
  using is_rule_ignored_inv [of K rp now rid] by (auto simp: rule_ignored_until_def split: prod.splits)

lemma patch_first_info: "map info (patch_first a cs) = map info cs"
  by (induction cs) (auto simp: info_def)

lemma repo_refresh_inv: "repo_inv K rp \<Longrightarrow> repo_inv K (snd (repo_refresh now a v rp))"
proof -
  assume inv: "repo_inv K rp"
  let ?rp = "snd (repo_refresh now a v rp)"
  have alerts: "map info (db_alerts (rp_db ?rp)) = map info (db_alerts (rp_db rp))"
    by (simp add: repo_refresh_def bump_refresh_def Let_def info_def)
  have hist: "db_history (rp_db ?rp) = db_history (rp_db rp)"
    by (simp add: repo_refresh_def bump_refresh_def Let_def)
  have cache: "map_option (map info) (rp_cache ?rp) = map_option (map info) (rp_cache rp)"
    by (cases "rp_cache rp") (simp_all add: repo_refresh_def Let_def patch_first_info)
  have "info ` set (db_alerts (rp_db ?rp)) = info ` set (db_alerts (rp_db rp))"
    using alerts by (metis list.set_map)
  moreover have "info ` set c' = info ` set c" if "rp_cache rp = Some c" "rp_cache ?rp = Some c'" for c c'
    using cache that by (metis list.set_map option.inject option.simps(9))
  ultimately have "cache_ok ?rp" using inv cache
    by (auto simp: repo_inv_def cache_ok_def split: option.splits)
  then show ?thesis using inv alerts hist db_inv_same [of K "rp_db rp" "rp_db ?rp"] by (simp add: repo_inv_def)
qed

lemma get_by_id_cases [consumes 2, case_names hot old]:
  assumes "db_inv K (rp_db rp)" "get_by_id i rp = Some a"
  obtains (hot) r where "r \<in> set (db_alerts (rp_db rp))" "info a = info r" "al_id a = i"
    | (old) r where "r \<in> set (db_history (rp_db rp))" "info a = info r" "al_id a = i"
proof -
  obtain r where r: "db_get_alert i (rp_db rp) = Some r" "dict_to_alert r = Some a"
    using assms(2) by (auto simp: get_by_id_def split: option.splits)
  have "al_id a = al_id r" using dict_to_alert_info [OF r(2)] by (metis info_sel(1))
  moreover have "al_id r = i \<and> (r \<in> set (db_alerts (rp_db rp)) \<or> r \<in> set (db_history (rp_db rp)))"
    using r(1) by (auto simp: db_get_alert_def find_alert_def split: option.splits dest: find_SomeD)
  ultimately show ?thesis using dict_to_alert_info [OF r(2)] that by metis
qed

lemma get_by_id_storable:
  assumes "db_inv K (rp_db rp)" "get_by_id i rp = Some a"
  shows "storable a"
  using assms
proof (cases rule: get_by_id_cases)
  case (hot r)
  then show ?thesis using db_inv_rows(1,7) [OF assms(1)] info_sel(2,4) unfolding storable_def by metis
next
  case (old r)
  then show ?thesis using db_inv_rows(2) [OF assms(1)] info_sel(2,4) unfolding storable_def by metis
qed

text \<open>Saving a changed copy of a stored alert: closing it is always fine, a live status only for an
  alert that is not closed.\<close>

lemma save_stored_inv:
  assumes "repo_inv K rp" "get_by_id i rp = Some e" "al_id a = i" "storable a"
    and "al_status a = Al_Closed \<or> (al_status a \<in> set LIVE_STATUSES \<and> al_status e \<noteq> Al_Closed)"
  shows "repo_inv K (invalidate_active_cache (save_alert a rp))"
proof (rule repo_inv_db)
  have db: "db_inv K (rp_db rp)" using assms(1) by (simp add: repo_inv_def)
  show "db_inv K (rp_db (save_alert a rp))"
  proof (cases "al_status a = Al_Closed")
    case True
    from write_closed_info [OF db assms(4) True] show ?thesis
      using db tab_inv_close unfolding db_inv_def save_alert_def by fastforce
  next
    case False
    then have live: "al_status a \<in> set LIVE_STATUSES" "al_status e \<noteq> Al_Closed" using assms(5) by auto
    have "i \<in> al_id ` set (db_alerts (rp_db rp))"
      using db assms(2)
    proof (cases rule: get_by_id_cases)
      case (hot r)
      then show ?thesis by (metis imageI info_sel(1))
    next
      case (old r)
      then show ?thesis using live(2) db_inv_rows(2) [OF db] by (metis info_sel(3))
    qed
    then show ?thesis
      using write_live_info [OF db assms(4) live(1)] tab_inv_put [OF _ live(1)] db assms(3)
      by (simp add: db_inv_def save_alert_def)
  qed
qed

lemma apply_update_sel [simp]: "al_id (apply_update now u a) = al_id a" "al_rule (apply_update now u a) = al_rule a"
  "al_message (apply_update now u a) = al_message a"
  "al_status (apply_update now u a) = (case up_status u of None \<Rightarrow> al_status a | Some s \<Rightarrow> s)"
  by (simp_all add: apply_update_def Let_def)

lemma get_by_id_id: "db_inv K (rp_db rp) \<Longrightarrow> get_by_id i rp = Some a \<Longrightarrow> al_id a = i"
  by (auto elim: get_by_id_cases)

lemma repo_update_inv:
  assumes "repo_inv K rp" "up_status u = Some s"
    and "s = Al_Closed \<or> (s \<in> set LIVE_STATUSES \<and> (\<forall>e. get_by_id i rp = Some e \<longrightarrow> al_status e \<noteq> Al_Closed))"
  shows "repo_inv K (snd (repo_update now i u rp))"
proof (cases "get_by_id i rp")
  case None
  then show ?thesis using assms(1) by (simp add: repo_update_def)
next
  case (Some e)
  have db: "db_inv K (rp_db rp)" using assms(1) by (simp add: repo_inv_def)
  have "repo_inv K (invalidate_active_cache (save_alert (apply_update now u e) rp))"
    using get_by_id_storable [OF db Some] get_by_id_id [OF db Some] assms(2,3) Some
    by (intro save_stored_inv [OF assms(1) Some]) (auto simp: storable_def)
  then show ?thesis using Some by (simp add: repo_update_def Let_def)
qed

lemma repo_resume_inv:
  assumes "repo_inv K rp" "\<forall>e. get_by_id i rp = Some e \<longrightarrow> al_status e \<noteq> Al_Closed"
  shows "repo_inv K (snd (repo_resume i rp))"
proof (cases "get_by_id i rp")
  case None
  then show ?thesis using assms(1) by (simp add: repo_resume_def)
next
  case (Some e)
  have db: "db_inv K (rp_db rp)" using assms(1) by (simp add: repo_inv_def)
  have "repo_inv K (invalidate_active_cache (save_alert (resumed e) rp))"
    using get_by_id_storable [OF db Some] get_by_id_id [OF db Some] assms(2) Some
    by (intro save_stored_inv [OF assms(1) Some]) (auto simp: storable_def resumed_def LIVE_iff)
  then show ?thesis using Some by (simp add: repo_resume_def Let_def)
qed

lemma filter_info: "map info (filter (\<lambda>r. al_id r \<noteq> i) rows) = filter (\<lambda>t. i_id t \<noteq> i) (map info rows)"
  by (simp add: filter_map comp_def)

lemma repo_delete_inv: "repo_inv K rp \<Longrightarrow> repo_inv K (snd (repo_delete i rp))"
proof -
  assume "repo_inv K rp"
  then have "tab_inv K (filter (\<lambda>t. i_id t \<noteq> i) (map info (db_alerts (rp_db rp))))
      (filter (\<lambda>t. i_id t \<noteq> i) (map info (db_history (rp_db rp))))"
    unfolding repo_inv_def db_inv_def by (blast intro: tab_inv_subseq subseq_filter_left)
  then have "db_inv K (rp_db (rp\<lparr>rp_db := snd (db_delete_alert i (rp_db rp))\<rparr>))"
    by (simp add: db_inv_def db_delete_alert_def filter_info)
  from repo_inv_db [OF this] show ?thesis by (simp add: repo_delete_def db_delete_alert_def Let_def)
qed

lemma purge_inv: "repo_inv K rp \<Longrightarrow> repo_inv K (rp\<lparr>rp_db := snd (purge_history_older_than cutoff now (rp_db rp))\<rparr>)"
proof -
  assume inv: "repo_inv K rp"
  let ?db = "snd (purge_history_older_than cutoff now (rp_db rp))"
  have "subseq (map info (db_history ?db)) (map info (db_history (rp_db rp)))"
    by (intro subseq_map) (simp add: purge_history_older_than_def Let_def)
  moreover have "db_alerts ?db = db_alerts (rp_db rp)"
    by (simp add: purge_history_older_than_def Let_def)
  ultimately have "tab_inv K (map info (db_alerts ?db)) (map info (db_history ?db))"
    using inv unfolding repo_inv_def db_inv_def by (auto intro: tab_inv_subseq)
  then show ?thesis using inv \<open>db_alerts ?db = db_alerts (rp_db rp)\<close>
    by (auto simp: repo_inv_def cache_ok_def db_inv_def split: option.splits)
qed

lemma close_all_info:
  assumes "db_inv K db"
  shows "db_alerts (snd (bulk_update_status [Al_Active, Al_Acknowledged, Al_Ignored] Al_Closed (Some now) None None db)) = []"
    and "map info (db_history (snd (bulk_update_status [Al_Active, Al_Acknowledged, Al_Ignored] Al_Closed (Some now) None None db))) =
      map info (db_history db) @ map (\<lambda>t. t\<lparr>i_status := Al_Closed\<rparr>) (map info (db_alerts db))"
proof -
  let ?hit = "\<lambda>r. al_status r \<in> set [Al_Active, Al_Acknowledged, Al_Ignored]"
  let ?put = "\<lambda>r. r\<lparr>al_status := Al_Closed, al_closed_at := Some now\<rparr>"
  have all: "\<forall>r \<in> set (db_alerts db). ?hit r"
    using db_inv_rows(1) [OF assms] by (auto simp: LIVE_STATUSES_def)
  have rows: "map (\<lambda>r. if ?hit r then ?put r else r) (db_alerts db) = map ?put (db_alerts db)"
    using all by (auto intro!: map_cong)
  have closed: "Al_Closed \<in> set NON_LIVE_STATUSES" by (simp add: NON_LIVE_iff LIVE_iff)
  let ?db = "db\<lparr>db_alerts := map ?put (db_alerts db)\<rparr>"
  have bulk: "snd (bulk_update_status [Al_Active, Al_Acknowledged, Al_Ignored] Al_Closed (Some now) None None db) =
      archive_non_live None ?db"
    using closed arg_cong [OF rows, of "\<lambda>x. archive_non_live None (db\<lparr>db_alerts := x\<rparr>)"]
    by (simp add: bulk_update_status_def Let_def del: map_eq_conv cong: if_cong)
  have moved: "filter (\<lambda>r. al_status r \<in> set NON_LIVE_STATUSES) (map ?put (db_alerts db)) = map ?put (db_alerts db)"
    using closed by (auto simp: filter_id_conv)
  have gone: "filter (\<lambda>r. al_status r \<notin> set NON_LIVE_STATUSES) (map ?put (db_alerts db)) = []"
    using closed by (auto simp: filter_empty_conv)
  have kept: "filter (\<lambda>r. al_id r \<notin> al_id ` set (map ?put (db_alerts db))) (db_history db) = db_history db"
    using db_inv_rows(5) [OF assms] by (fastforce simp: filter_id_conv)
  have db: "db_alerts (archive_non_live None ?db) = []"
    "db_history (archive_non_live None ?db) = db_history db @ map ?put (db_alerts db)"
    unfolding archive_non_live_def Let_def using gone kept moved by (simp_all del: set_map)
  show "db_alerts (snd (bulk_update_status [Al_Active, Al_Acknowledged, Al_Ignored] Al_Closed (Some now) None None db)) = []"
    unfolding bulk by (rule db(1))
  show "map info (db_history (snd (bulk_update_status [Al_Active, Al_Acknowledged, Al_Ignored] Al_Closed (Some now) None None db))) =
      map info (db_history db) @ map (\<lambda>t. t\<lparr>i_status := Al_Closed\<rparr>) (map info (db_alerts db))"
    unfolding bulk db(2) by (simp add: info_def)
qed

lemma close_all_inv: "repo_inv K rp \<Longrightarrow> repo_inv K (snd (close_all_alerts now rp))"
proof -
  assume "repo_inv K rp"
  then have db: "db_inv K (rp_db rp)" by (simp add: repo_inv_def)
  let ?db = "snd (bulk_update_status [Al_Active, Al_Acknowledged, Al_Ignored] Al_Closed (Some now) None None (rp_db rp))"
  have "tab_inv K [] (map info (db_history (rp_db rp)) @ map (\<lambda>t. t\<lparr>i_status := Al_Closed\<rparr>) (map info (db_alerts (rp_db rp))))"
    using db unfolding db_inv_def tab_inv_def by (auto simp: comp_def image_image image_subset_iff)
  then have "db_inv K ?db" by (simp add: db_inv_def close_all_info [OF db])
  then have "repo_inv K (invalidate_active_cache (rp\<lparr>rp_db := ?db\<rparr>))" by (intro repo_inv_db) simp
  then show ?thesis by (auto simp: close_all_alerts_def split: prod.splits)
qed

lemma tab_inv_restatus:
  assumes "tab_inv K T H" and "\<And>s. s \<in> set LIVE_STATUSES \<Longrightarrow> f s \<in> set LIVE_STATUSES"
  shows "tab_inv K (map (\<lambda>t. t\<lparr>i_status := f (i_status t)\<rparr>) T) H"
  using assms unfolding tab_inv_def by (auto simp: comp_def image_image)

lemma ignore_all_inv:
  assumes "repo_inv K rp" "finite K" "card K \<le> 1000"
  shows "repo_inv K (snd (ignore_all_alerts now clock hours rp))"
proof -
  let ?until = "now + 3600 * of_int hours"
  let ?rp = "snd (get_active clock rp)"
  let ?db = "snd (bulk_update_status [Al_Active, Al_Acknowledged] Al_Ignored None None (Some ?until) (rp_db ?rp))"
  let ?f = "\<lambda>s. if s \<in> {Al_Active, Al_Acknowledged} then Al_Ignored else s"
  have db: "db_inv K (rp_db ?rp)"
    using get_active_inv [OF assms, of clock, THEN conjunct1] unfolding repo_inv_def by simp
  have live: "Al_Ignored \<notin> set NON_LIVE_STATUSES" by (simp add: NON_LIVE_iff LIVE_iff)
  have alerts: "map info (db_alerts ?db) = map (\<lambda>t. t\<lparr>i_status := ?f (i_status t)\<rparr>) (map info (db_alerts (rp_db ?rp)))"
    using live by (simp add: bulk_update_status_def Let_def info_def)
  have hist: "db_history ?db = db_history (rp_db ?rp)" using live by (simp add: bulk_update_status_def Let_def)
  have dbi: "db_inv K ?db"
    unfolding db_inv_def alerts hist by (rule tab_inv_restatus [OF db [unfolded db_inv_def]]) (auto simp: LIVE_iff)
  have fold: "rp_db (fold (\<lambda>rid. set_rule_ignored (Some rid) ?until) rids r) = rp_db r" for rids r
    by (induction rids arbitrary: r) (simp_all add: set_rule_ignored_def split: option.splits)
  show ?thesis unfolding ignore_all_alerts_def Let_def
    using dbi by (auto simp: fold split: prod.splits intro!: repo_inv_db)
qed

section \<open>Manager operations keep the invariant\<close>

lemma emit_inv:
  assumes "repo_inv K (mg_repo m)" "finite K" "card K \<le> 1000"
  shows "repo_inv K (mg_repo (emit_ws_event clock ev a m))"
  using get_active_inv [OF assms, of clock] assms(1)
  by (auto simp: emit_ws_event_def incident_size_def Let_def split: prod.splits option.splits)

lemma mg_repo_id: "m\<lparr>mg_repo := mg_repo m\<rparr> = m"
  by simp

lemma acknowledge_inv:
  assumes "repo_inv K (mg_repo m)" "finite K" "card K \<le> 1000" "acknowledge_alert now clock uid m = Inr (r, m')"
  shows "repo_inv K (mg_repo m')"
proof (cases uid)
  case None
  then show ?thesis using assms by (simp add: acknowledge_alert_def)
next
  case (Some i)
  show ?thesis
  proof (cases "get_by_id i (mg_repo m)")
    case None
    then show ?thesis using assms Some by (simp add: acknowledge_alert_def)
  next
    case a: (Some a)
    have open_: "al_status a \<noteq> Al_Closed" using assms(4) Some a by (auto simp: acknowledge_alert_def)
    obtain b rp where u: "repo_update now i (status_update Al_Acknowledged) (mg_repo m) = (b, rp)" by fastforce
    have "repo_inv K rp"
      using repo_update_inv [OF assms(1), of "status_update Al_Acknowledged" Al_Acknowledged i now] a open_ u
      by (simp add: status_update_def LIVE_iff)
    then show ?thesis using assms(4) Some a open_ u
      by (auto simp: acknowledge_alert_def Let_def split: option.splits
          intro!: emit_inv record_event_inv clear_rule_ignored_inv assms(2,3))
  qed
qed

lemma ignore_inv:
  assumes "repo_inv K (mg_repo m)" "finite K" "card K \<le> 1000" "ignore_alert iso_text now clock uid hours m = Inr (r, m')"
  shows "repo_inv K (mg_repo m')"
proof (cases uid)
  case None
  then show ?thesis using assms by (simp add: ignore_alert_def)
next
  case (Some i)
  let ?u = "(status_update Al_Ignored)\<lparr>up_ignored_until := Some (now + 3600 * of_int hours)\<rparr>"
  show ?thesis
  proof (cases "get_by_id i (mg_repo m)")
    case None
    then show ?thesis using assms Some by (simp add: ignore_alert_def)
  next
    case a: (Some a)
    have open_: "al_status a \<noteq> Al_Closed" using assms(4) Some a by (auto simp: ignore_alert_def)
    obtain b rp where u: "repo_update now i ?u (mg_repo m) = (b, rp)" by fastforce
    have "repo_inv K rp"
      using repo_update_inv [OF assms(1), of ?u Al_Ignored i now] a open_ u
      by (simp add: status_update_def LIVE_iff)
    then show ?thesis using assms(4) Some a open_ u
      by (auto simp: ignore_alert_def Let_def split: option.splits
          intro!: emit_inv record_event_inv set_rule_ignored_inv assms(2,3))
  qed
qed

lemma close_inv:
  assumes "repo_inv K (mg_repo m)" "finite K" "card K \<le> 1000"
  shows "repo_inv K (mg_repo (snd (close_alert show_num now clock uid reason v m)))"
proof (cases uid)
  case None
  then show ?thesis using assms by (simp add: close_alert_def)
next
  case (Some i)
  let ?u = "(status_update Al_Closed)\<lparr>up_reason := reason, up_resolved := v\<rparr>"
  obtain b rp where u: "repo_update now i ?u (mg_repo m) = (b, rp)" by fastforce
  have "repo_inv K rp"
    using repo_update_inv [OF assms(1), of ?u Al_Closed i now] u by (simp add: status_update_def)
  then show ?thesis using Some u assms(1)
    by (auto simp: close_alert_def Let_def split: option.splits
        intro!: emit_inv record_event_inv clear_rule_ignored_inv assms(2,3))
qed

lemma close_each_inv:
  assumes "finite K" "card K \<le> 1000"
  shows "repo_inv K (mg_repo m) \<Longrightarrow> repo_inv K (mg_repo (snd (close_each show_num now clock rid reason as m)))"
proof (induction as arbitrary: m)
  case (Cons a as)
  then show ?case using close_inv [OF Cons.prems assms, of show_num now clock "Some (al_id a)" "Some reason" None]
    by (auto simp: Let_def split: prod.splits) (metis snd_conv)+
qed simp

lemma resume_inv:
  assumes "repo_inv K (mg_repo m)" "finite K" "card K \<le> 1000"
    and "\<forall>i e. uid = Some i \<and> get_by_id i (mg_repo m) = Some e \<longrightarrow> al_status e \<noteq> Al_Closed"
  shows "repo_inv K (mg_repo (snd (resume_alert now clock uid m)))"
proof (cases uid)
  case None
  then show ?thesis using assms by (simp add: resume_alert_def)
next
  case (Some i)
  obtain b rp where u: "repo_resume i (mg_repo m) = (b, rp)" by fastforce
  have "repo_inv K rp" using repo_resume_inv [OF assms(1), of i] assms(4) Some u by simp
  then show ?thesis using Some u assms(1)
    by (auto simp: resume_alert_def Let_def split: option.splits
        intro!: emit_inv record_event_inv clear_rule_ignored_inv assms(2,3))
qed

lemma is_rule_ignored_db [simp]: "rp_db (snd (is_rule_ignored now rid rp)) = rp_db rp"
  by (auto simp: is_rule_ignored_def split: option.splits)

lemma rule_ignored_until_db [simp]: "rp_db (snd (rule_ignored_until now rid rp)) = rp_db rp"
proof -
  obtain ign rp' where i: "is_rule_ignored now rid rp = (ign, rp')" by fastforce
  then have "rp_db rp' = rp_db rp" using is_rule_ignored_db [of now rid rp] by simp
  with i show ?thesis by (simp add: rule_ignored_until_def)
qed

text \<open>The ignore window a new alert is born into, and the repository after the look-up.\<close>

definition born_window :: "secs \<Rightarrow> alert_create \<Rightarrow> alert_repo \<Rightarrow> secs option \<times> alert_repo" where
  "born_window now c rp =
     (if or_none (cr_rule c) = None then (None, rp)
      else let (ign, rp) = is_rule_ignored now (cr_rule c) rp
           in if ign then rule_ignored_until now (cr_rule c) rp else (None, rp))"

lemma born_window_inv: "repo_inv K rp \<Longrightarrow> repo_inv K (snd (born_window now c rp))"
  using is_rule_ignored_inv [of K rp now "cr_rule c"] rule_ignored_until_inv
  by (auto simp: born_window_def split: prod.splits)

lemma born_window_db [simp]: "rp_db (snd (born_window now c rp)) = rp_db rp"
proof (cases "or_none (cr_rule c) = None")
  case False
  obtain ign rp' where i: "is_rule_ignored now (cr_rule c) rp = (ign, rp')" by fastforce
  then have "rp_db rp' = rp_db rp" using is_rule_ignored_db [of now "cr_rule c" rp] by simp
  with False i show ?thesis by (simp add: born_window_def)
qed (simp add: born_window_def)

lemma to_alert_sel [simp]: "al_id (to_alert i now c) = i" "al_rule (to_alert i now c) = cr_rule c"
  "al_status (to_alert i now c) = Al_Active" "al_message (to_alert i now c) = Some (cr_message c)"
  by (simp_all add: to_alert_def)

lemma hot_not_closed:
  assumes "db_inv K (rp_db rp)" "i \<in> al_id ` set (db_alerts (rp_db rp))" "get_by_id i rp = Some e"
  shows "al_status e \<noteq> Al_Closed"
  using assms(1,3)
proof (cases rule: get_by_id_cases)
  case (hot r)
  then show ?thesis using db_inv_rows(1) [OF assms(1)] by (metis LIVE_iff info_sel(3))
next
  case (old r)
  then show ?thesis using db_inv_rows(5) [OF assms(1)] assms(2) by (metis imageE info_sel(1))
qed

lemma repo_create_inv:
  assumes "repo_inv K rp" "cr_rule c \<in> K" "cr_message c \<noteq> []" "cr_rule c \<notin> al_rule ` set (db_alerts (rp_db rp))"
    and "i \<notin> al_id ` set (db_alerts (rp_db rp))" "i \<notin> al_id ` set (db_history (rp_db rp))"
  shows "repo_inv K (snd (repo_create i now c rp))"
    and "i \<in> al_id ` set (db_alerts (rp_db (snd (repo_create i now c rp))))"
proof -
  let ?a = "to_alert i now c" and ?db = "rp_db rp"
  have db: "db_inv K ?db" using assms(1) by (simp add: repo_inv_def)
  have st: "storable ?a" using assms(2,3) db_inv_rows(7) [OF db] by (auto simp: storable_def or_none_def)
  have info: "info ?a = \<lparr>i_id = i, i_rule = cr_rule c, i_status = Al_Active, i_msg = True\<rparr>"
    using assms(3) by (simp add: info_def or_none_def)
  note w = write_new_info [OF st, of ?db]
  have rows: "map info (db_alerts (write_alert ?a ?db)) = map info (db_alerts ?db) @ [info ?a]"
    "map info (db_history (write_alert ?a ?db)) = map info (db_history ?db)"
    using w assms(5,6) by (simp_all add: LIVE_iff)
  have "tab_inv K (map info (db_alerts ?db) @ [info ?a]) (map info (db_history ?db))"
    unfolding info using db assms(2,4-6) by (intro tab_inv_create) (auto simp: db_inv_def LIVE_iff)
  then have "db_inv K (rp_db (save_alert ?a rp))" by (simp add: db_inv_def save_alert_def rows)
  from repo_inv_db [OF this] show "repo_inv K (snd (repo_create i now c rp))"
    by (simp add: repo_create_def Let_def)
  have "i \<in> i_id ` set (map info (db_alerts (write_alert ?a ?db)))" unfolding rows by (simp add: info)
  then show "i \<in> al_id ` set (db_alerts (rp_db (snd (repo_create i now c rp))))"
    by (simp add: repo_create_def save_alert_def invalidate_active_cache_def Let_def image_image)
qed

lemma no_match_new_rule:
  assumes "db_inv K db" "info ` set existing = info ` set (db_alerts db)" "filter (same_rule rid) existing = []"
  shows "rid \<notin> al_rule ` set (db_alerts db)"
proof
  assume "rid \<in> al_rule ` set (db_alerts db)"
  then obtain r where r: "r \<in> set (db_alerts db)" "al_rule r = rid" by auto
  then obtain a where a: "a \<in> set existing" "info a = info r" using assms(2) by (metis imageE imageI)
  then have "al_rule a = rid" "al_status a \<in> set LIVE_STATUSES"
    using r db_inv_rows(1) [OF assms(1) r(1)] by (metis info_sel(2,3))+
  then have "same_rule rid a" by (simp add: same_rule_def ONGOING_STATUSES_def LIVE_STATUSES_def)
  with a(1) assms(3) show False by (simp add: filter_empty_conv)
qed

definition born_update :: "secs \<Rightarrow> secs option \<Rightarrow> alert \<Rightarrow> alert_repo \<Rightarrow> alert \<times> alert_repo" where
  "born_update now born a rp =
     (case born of
        None \<Rightarrow> (a, rp)
      | Some until \<Rightarrow>
          (let (r, rp) = repo_update now (al_id a)
                 \<lparr>up_status = Some Al_Ignored, up_acked_by = None, up_exception = None,
                  up_reason = None, up_resolved = None, up_ignored_until = Some until\<rparr> rp
           in (case r of None \<Rightarrow> a | Some b \<Rightarrow> b, rp)))"

text \<open>The two ways \<^verbatim>\<open>process_alert\<close> can go.\<close>

lemma process_cases:
  assumes b: "born_window now c (mg_repo m) = (born, rp1)" and g: "get_active clock rp1 = (existing, rp2)"
  obtains (refresh) "filter (same_rule (cr_rule c)) existing \<noteq> []"
      "process_alert show_num co i now clock c m =
         (None, m\<lparr>mg_repo := snd (repo_refresh now (hd (filter (same_rule (cr_rule c)) existing)) (cr_value c) rp2)\<rparr>)"
    | (create) c' a rp4 where "filter (same_rule (cr_rule c)) existing = []"
      "cr_rule c' = cr_rule c" "cr_message c' = cr_message c"
      "born_update now born (to_alert i now c') (snd (repo_create i now c' rp2)) = (a, rp4)"
      "process_alert show_num co i now clock c m = (Some a, emit_ws_event clock ''alert_created'' a
         (m\<lparr>mg_repo := record_event now (al_id a) ''created'' None
            (Some (show_num (al_value a) @ '' vs '' @ show_num (al_threshold a))) rp4\<rparr>))"
proof (cases "filter (same_rule (cr_rule c)) existing = []")
  case False
  show ?thesis
    by (rule refresh [OF False])
      (simp only: process_alert_def b [unfolded born_window_def Let_def] g False Let_def prod.case simp_thms if_True)
next
  case True
  let ?inc = "assign_incident co now c existing"
  let ?c = "if or_none ?inc = None then c else c\<lparr>cr_incident := ?inc\<rparr>"
  obtain a rp4 where u: "born_update now born (to_alert i now ?c) (snd (repo_create i now ?c rp2)) = (a, rp4)" by fastforce
  have cr: "repo_create i now ?c rp2 = (to_alert i now ?c, snd (repo_create i now ?c rp2))"
    by (simp only: repo_create_def Let_def snd_conv)
  show ?thesis
  proof (rule create [OF True _ _ u])
    show "process_alert show_num co i now clock c m = (Some a, emit_ws_event clock ''alert_created'' a
         (m\<lparr>mg_repo := record_event now (al_id a) ''created'' None
            (Some (show_num (al_value a) @ '' vs '' @ show_num (al_threshold a))) rp4\<rparr>))"
      using u unfolding born_update_def Let_def
      by (simp only: process_alert_def b [unfolded born_window_def Let_def] g True Let_def prod.case simp_thms if_False)
        (subst cr, simp only: prod.case)
  qed simp_all
qed

text \<open>An ignored birth writes a live status over the alert just created.\<close>

lemma born_update_repo [consumes 1, case_names kept ignored]:
  assumes "born_update now born a rp = (a', rp')"
  obtains "rp' = rp"
    | until e where "get_by_id (al_id a) rp = Some e" "al_status (apply_update now ((status_update Al_Ignored)\<lparr>up_ignored_until := Some until\<rparr>) e) \<in> set LIVE_STATUSES"
        "rp' = invalidate_active_cache (save_alert (apply_update now ((status_update Al_Ignored)\<lparr>up_ignored_until := Some until\<rparr>) e) rp)"
proof (cases born)
  case None
  then show ?thesis using assms that(1) by (simp add: born_update_def)
next
  case (Some until)
  have u: "(status_update Al_Ignored)\<lparr>up_ignored_until := Some until\<rparr> =
      \<lparr>up_status = Some Al_Ignored, up_acked_by = None, up_exception = None,
       up_reason = None, up_resolved = None, up_ignored_until = Some until\<rparr>" by (simp add: status_update_def)
  show ?thesis
  proof (cases "get_by_id (al_id a) rp")
    case None
    then show ?thesis using assms Some that(1) by (simp add: born_update_def repo_update_def)
  next
    case (Some e)
    show ?thesis
    proof (rule that(2) [OF Some, of until])
      show "rp' = invalidate_active_cache (save_alert (apply_update now ((status_update Al_Ignored)\<lparr>up_ignored_until := Some until\<rparr>) e) rp)"
        using assms \<open>born = Some until\<close> Some unfolding u by (auto simp: born_update_def repo_update_def Let_def)
    qed (simp add: u LIVE_iff)
  qed
qed

lemma process_inv:
  assumes inv: "repo_inv K (mg_repo m)" and K: "finite K" "card K \<le> 1000"
    and c: "cr_rule c \<in> K" "cr_message c \<noteq> []"
    and fresh: "i \<notin> al_id ` set (db_alerts (rp_db (mg_repo m)))" "i \<notin> al_id ` set (db_history (rp_db (mg_repo m)))"
  shows "repo_inv K (mg_repo (snd (process_alert show_num co i now clock c m)))"
proof -
  obtain born rp1 where b: "born_window now c (mg_repo m) = (born, rp1)" by fastforce
  obtain existing rp2 where g: "get_active clock rp1 = (existing, rp2)" by fastforce
  have rp1: "repo_inv K rp1" "rp_db rp1 = rp_db (mg_repo m)"
    using born_window_inv [OF inv, of now c] born_window_db [of now c "mg_repo m"] b by simp_all
  have rp2: "repo_inv K rp2" "info ` set existing = info ` set (db_alerts (rp_db rp2))" "rp_db rp2 = rp_db (mg_repo m)"
    using get_active_inv [OF rp1(1) K, of clock] g rp1(2) by simp_all
  show ?thesis
  proof (rule process_cases [OF b g, of show_num co i], goal_cases refresh create)
    case refresh
    then show ?case using repo_refresh_inv [OF rp2(1)] by simp
  next
    case (create c' a rp4)
    have new: "cr_rule c \<notin> al_rule ` set (db_alerts (rp_db rp2))"
      using rp2 create(1) by (intro no_match_new_rule [of K]) (auto simp: repo_inv_def)
    let ?rp3 = "snd (repo_create i now c' rp2)"
    have rp3: "repo_inv K ?rp3" "i \<in> al_id ` set (db_alerts (rp_db ?rp3))"
      using repo_create_inv [of K rp2 c' i now] rp2(1,3) c new fresh create(2,3) by auto
    have nc: "al_status e \<noteq> Al_Closed" if "get_by_id i ?rp3 = Some e" for e
      using hot_not_closed [OF _ rp3(2) that] rp3(1) unfolding repo_inv_def by blast
    have db3: "db_inv K (rp_db ?rp3)" using rp3(1) by (simp add: repo_inv_def)
    have "repo_inv K rp4" using create(4)
    proof (cases rule: born_update_repo)
      case kept
      then show ?thesis using rp3(1) by simp
    next
      case (ignored until e)
      have e: "get_by_id i ?rp3 = Some e" using ignored(1) by simp
      show ?thesis unfolding ignored(3)
        by (rule save_stored_inv [OF rp3(1) e])
          (use get_by_id_id [OF db3 e] get_by_id_storable [OF db3 e] nc [OF e] ignored(2) in \<open>auto simp: storable_def\<close>)
    qed
    then show ?case unfolding create(5) snd_conv by (auto intro!: emit_inv record_event_inv K)
  qed
qed

end
