(* ===== verification/AlertTheorems.thy ===== *)
theory AlertTheorems
  imports AlertLifecycle
begin

text \<open>
  What holds of the alert store and its manager over whole runs: where an alert is stored, how many
  ongoing alerts a rule has, which transitions are refused, and what an ignore window does.
\<close>

section \<open>Runs\<close>

text \<open>
  A legal event creates alerts only for rules of \<open>K\<close>, with a message and under an id that is not yet
  stored (a fresh UUID), and resumes only alerts that are not closed. Every other event is legal.
\<close>

fun op_ok :: "string option set \<Rightarrow> alert_op \<Rightarrow> alert_manager \<Rightarrow> bool" where
  "op_ok K (Op_Process i now clock c) m \<longleftrightarrow>
     cr_rule c \<in> K \<and> cr_message c \<noteq> [] \<and> i \<notin> al_id ` set (db_alerts (rp_db (mg_repo m))) \<and>
     i \<notin> al_id ` set (db_history (rp_db (mg_repo m)))"
| "op_ok K (Op_Resume now clock uid) m \<longleftrightarrow>
     (case uid of None \<Rightarrow> True | Some i \<Rightarrow>
        (case get_by_id i (mg_repo m) of None \<Rightarrow> True | Some a \<Rightarrow> al_status a \<noteq> Al_Closed))"
| "op_ok K _ m \<longleftrightarrow> True"

inductive alerts_reach :: "string option set \<Rightarrow> alert_env \<Rightarrow> alert_manager \<Rightarrow> alert_manager \<Rightarrow> bool"
  for K e m0 where
  reach_start: "alerts_reach K e m0 m0"
| reach_step: "alerts_reach K e m0 m \<Longrightarrow> op_ok K op m \<Longrightarrow> alerts_reach K e m0 (alert_step e op m)"

definition fresh_manager :: "bool \<Rightarrow> secs \<Rightarrow> secs \<Rightarrow> alert_manager" where
  "fresh_manager ws ttl now =
     \<lparr>mg_repo = AlertRepository ttl now \<lparr>db_alerts = [], db_history = [], db_events = []\<rparr>,
      mg_ws = ws, mg_sent = []\<rparr>"

lemma fresh_inv: "Some [] \<notin> K \<Longrightarrow> repo_inv K (mg_repo (fresh_manager ws ttl now))"
  by (simp add: fresh_manager_def AlertRepository_def repo_inv_def cache_ok_def db_inv_def tab_inv_def)

lemma step_inv:
  assumes inv: "repo_inv K (mg_repo m)" and K: "finite K" "card K \<le> 1000" and ok: "op_ok K op m"
  shows "repo_inv K (mg_repo (alert_step e op m))"
proof (cases op)
  case (Op_Process i now clock c)
  then show ?thesis using process_inv [OF inv K] ok by simp
next
  case (Op_Acknowledge now clock uid)
  then show ?thesis using acknowledge_inv [OF inv K] inv by (auto split: sum.splits)
next
  case (Op_Ignore now clock uid hours)
  then show ?thesis using ignore_inv [OF inv K] inv by (auto split: sum.splits)
next
  case (Op_Close now clock uid reason v)
  then show ?thesis using close_inv [OF inv K] by simp
next
  case (Op_Close_Rule now clock rid reason)
  obtain active rp where g: "get_active clock (mg_repo m) = (active, rp)" by fastforce
  then have "repo_inv K rp" using get_active_inv [OF inv K, of clock] by simp
  then show ?thesis using Op_Close_Rule g close_each_inv [OF K] by (simp add: close_rule_alerts_def)
next
  case (Op_Resume now clock uid)
  then have "\<forall>i a. uid = Some i \<and> get_by_id i (mg_repo m) = Some a \<longrightarrow> al_status a \<noteq> Al_Closed"
    using ok by auto
  from resume_inv [OF inv K this] show ?thesis using Op_Resume by simp
next
  case (Op_Delete uid)
  then show ?thesis using repo_delete_inv [OF inv] inv
    by (auto simp: delete_alert_def Let_def split: option.splits prod.splits intro!: clear_rule_ignored_inv)
      (metis snd_conv)+
next
  case (Op_Delete_Route uid)
  then show ?thesis using repo_delete_inv [OF inv] inv
    by (auto simp: delete_route_def Let_def split: option.splits prod.splits) (metis snd_conv)
next
  case (Op_Ignore_All now clock hours)
  then show ?thesis using ignore_all_inv [OF inv K] by simp
next
  case (Op_Purge cutoff now)
  then show ?thesis using purge_inv [OF inv] by simp
next
  case (Op_Read clock)
  then show ?thesis using get_active_inv [OF inv K] by simp
qed (use inv in \<open>auto intro: close_all_inv repo_refresh_inv\<close>)

lemma reach_inv:
  assumes "alerts_reach K e (fresh_manager ws ttl now) m" "finite K" "card K \<le> 1000" "Some [] \<notin> K"
  shows "repo_inv K (mg_repo m)"
  using assms(1)
proof (induction rule: alerts_reach.induct)
  case reach_start
  show ?case by (rule fresh_inv [OF assms(4)])
next
  case (reach_step m op)
  then show ?case by (intro step_inv assms(2,3))
qed

section \<open>One ongoing alert per rule\<close>

text \<open>
  after any legal run from an empty store, a rule has at most one ongoing alert, whatever mixes of
  rule firings, external alerts, acknowledgements, closings, ignores, deletions, bulk operations,
  retention and cached reads happened; every stored alert is in exactly one of the two tables, the
  ongoing ones in the hot table and the closed ones in the history.\<close>

theorem one_ongoing_alert_per_rule:
  assumes "alerts_reach K e (fresh_manager ws ttl now) m" "finite K" "card K \<le> 1000" "Some [] \<notin> K"
  shows "distinct (map al_rule (db_alerts (rp_db (mg_repo m)))) \<and>
    distinct (map al_id (db_alerts (rp_db (mg_repo m)) @ db_history (rp_db (mg_repo m)))) \<and>
    (\<forall>r \<in> set (db_alerts (rp_db (mg_repo m))). al_status r \<in> set ONGOING_STATUSES) \<and>
    (\<forall>r \<in> set (db_history (rp_db (mg_repo m))). al_status r = Al_Closed)"
proof -
  have db: "db_inv K (rp_db (mg_repo m))" using reach_inv [OF assms] by (simp add: repo_inv_def)
  have "ONGOING_STATUSES = LIVE_STATUSES" by (simp add: ONGOING_STATUSES_def LIVE_STATUSES_def)
  then show ?thesis using db_inv_rows [OF db] by auto
qed

definition ex_env :: alert_env where
  "ex_env = \<lparr>en_num = (\<lambda>_. []), en_iso = (\<lambda>_. []),
     en_corr = \<lparr>co_enabled = False, co_window = None, co_groups = []\<rparr>\<rparr>"

definition ex_create :: alert_create where
  "ex_create = \<lparr>cr_rule = Some ''r1'', cr_rule_name = Some ''hot'', cr_source = ''gpu'', cr_metric = ''temp'',
     cr_value = 1, cr_threshold = 0, cr_severity = ''warning'', cr_message = ''hot'', cr_channels = [],
     cr_host = None, cr_incident = None\<rparr>"

definition ex_start :: alert_manager where
  "ex_start = fresh_manager False 10 0"

definition ex_run :: "alert_op list \<Rightarrow> alert_manager" where
  "ex_run ops = fold (alert_step ex_env) ops ex_start"

theorem one_ongoing_alert_per_rule_witness:
  "distinct (map al_rule (db_alerts (rp_db (mg_repo
     (ex_run [Op_Process ''a1'' 1 1 ex_create, Op_Process ''a2'' 2 2 ex_create])))))"
proof -
  have "alerts_reach {Some ''r1''} ex_env ex_start ex_start" by (rule reach_start)
  moreover have "op_ok {Some ''r1''} (Op_Process ''a1'' 1 1 ex_create) ex_start" by code_simp
  ultimately have "alerts_reach {Some ''r1''} ex_env ex_start (alert_step ex_env (Op_Process ''a1'' 1 1 ex_create) ex_start)"
    by (rule reach_step)
  moreover have "op_ok {Some ''r1''} (Op_Process ''a2'' 2 2 ex_create) (alert_step ex_env (Op_Process ''a1'' 1 1 ex_create) ex_start)"
    by code_simp
  ultimately have "alerts_reach {Some ''r1''} ex_env ex_start
      (alert_step ex_env (Op_Process ''a2'' 2 2 ex_create) (alert_step ex_env (Op_Process ''a1'' 1 1 ex_create) ex_start))"
    by (rule reach_step)
  also have "alert_step ex_env (Op_Process ''a2'' 2 2 ex_create) (alert_step ex_env (Op_Process ''a1'' 1 1 ex_create) ex_start) =
      ex_run [Op_Process ''a1'' 1 1 ex_create, Op_Process ''a2'' 2 2 ex_create]"
    by (simp only: ex_run_def fold.simps id_apply comp_apply)
  finally have "alerts_reach {Some ''r1''} ex_env (fresh_manager False 10 0)
      (ex_run [Op_Process ''a1'' 1 1 ex_create, Op_Process ''a2'' 2 2 ex_create])" by (simp only: ex_start_def)
  from one_ongoing_alert_per_rule [OF this] show ?thesis by simp
qed

section \<open>Refused transitions\<close>

text \<open>
  a closed alert can be neither acknowledged nor ignored: both calls raise \<^verbatim>\<open>AlertStateError\<close> and
  change nothing; closing it again keeps it closed and keeps the time it was first closed at.\<close>

theorem closed_alert_refused:
  assumes "get_by_id i (mg_repo m) = Some a" "al_status a = Al_Closed" "al_closed_at a = Some t"
  shows "acknowledge_alert now clock (Some i) m =
      Inl (AlertStateError (''Alert '' @ i @ '' is closed and cannot be acknowledged'')) \<and>
    ignore_alert iso_text now clock (Some i) hours m =
      Inl (AlertStateError (''Alert '' @ i @ '' is closed and cannot be ignored'')) \<and>
    (\<exists>b. fst (close_alert show_num now clock (Some i) reason v m) = Some b \<and>
       al_status b = Al_Closed \<and> al_closed_at b = Some t)"
  using assms
  by (simp add: acknowledge_alert_def ignore_alert_def close_alert_def repo_update_def apply_update_def
      status_update_def Let_def)

theorem closed_alert_refused_witness:
  "acknowledge_alert 9 9 (Some ''a1'') (ex_run [Op_Process ''a1'' 1 1 ex_create, Op_Close 2 2 (Some ''a1'') None None]) =
     Inl (AlertStateError (''Alert '' @ ''a1'' @ '' is closed and cannot be acknowledged''))"
proof -
  let ?m = "ex_run [Op_Process ''a1'' 1 1 ex_create, Op_Close 2 2 (Some ''a1'') None None]"
  have "map_option al_status (get_by_id ''a1'' (mg_repo ?m)) = Some Al_Closed"
    "map_option al_closed_at (get_by_id ''a1'' (mg_repo ?m)) = Some (Some 2)" by code_simp+
  then obtain a where "get_by_id ''a1'' (mg_repo ?m) = Some a" "al_status a = Al_Closed" "al_closed_at a = Some 2" by auto
  from closed_alert_refused [OF this, of 9 9] show ?thesis by blast
qed

section \<open>Ignore windows\<close>

text \<open>
  deleting an ignored alert through the manager lifts its rule's ignore window, deleting it
  through the route does not: after the route's delete the rule's next alert is still born ignored,
  after the manager's it is active.\<close>

theorem delete_route_keeps_window:
  "map al_status (db_alerts (rp_db (mg_repo
     (ex_run [Op_Process ''a1'' 1 1 ex_create, Op_Ignore 2 2 (Some ''a1'') 24, Op_Delete_Route (Some ''a1''),
        Op_Process ''a2'' 3 3 ex_create])))) = [Al_Ignored] \<and>
   map al_status (db_alerts (rp_db (mg_repo
     (ex_run [Op_Process ''a1'' 1 1 ex_create, Op_Ignore 2 2 (Some ''a1'') 24, Op_Delete (Some ''a1''),
        Op_Process ''a2'' 3 3 ex_create])))) = [Al_Active]"
  by code_simp

lemma get_by_id_hot:
  assumes "db_inv K (rp_db rp)" "r \<in> set (db_alerts (rp_db rp))" "al_id r = i"
  shows "\<exists>a r'. get_by_id i rp = Some a \<and> dict_to_alert r' = Some a \<and> r' \<in> set (db_alerts (rp_db rp)) \<and> al_id r' = i"
proof -
  have "find_alert i (db_alerts (rp_db rp)) \<noteq> None"
    unfolding find_alert_def find_None_iff using assms(2,3) by blast
  then obtain r' where r': "find_alert i (db_alerts (rp_db rp)) = Some r'" by blast
  have mem: "r' \<in> set (db_alerts (rp_db rp))" "al_id r' = i"
    using find_SomeD [OF r' [unfolded find_alert_def]] by simp_all
  have "or_none (al_message r') \<noteq> None" using db_inv_rows(1) [OF assms(1) mem(1)] by simp
  from info_dict_to_alert [OF this] obtain a where a: "dict_to_alert r' = Some a" by blast
  have "get_by_id i rp = Some a" unfolding get_by_id_def db_get_alert_def by (simp add: r' a)
  then show ?thesis using a mem by blast
qed

lemma born_window_open:
  assumes "cr_rule c = Some rid" "rid \<noteq> []" "dict_get (rp_ignored rp) rid = Some until" "now < until"
  shows "born_window now c rp = (Some until, rp)"
  using assms by (simp add: born_window_def or_none_def is_rule_ignored_def rule_ignored_until_def)

text \<open>
  inside the ignore window of its rule a new alert is still recorded but born ignored until the
  end of that window, in every state a legal run can reach.\<close>

theorem ignore_window_silences:
  assumes "alerts_reach K e (fresh_manager ws ttl t0) m" "finite K" "card K \<le> 1000" "Some [] \<notin> K"
    and "op_ok K (Op_Process i now clock c) m"
    and "cr_rule c = Some rid" "dict_get (rp_ignored (mg_repo m)) rid = Some until" "now < until"
    and "process_alert show_num co i now clock c m = (Some a, m')"
  shows "al_status a = Al_Ignored \<and> al_ignored_until a = Some until \<and> al_id a = i"
proof -
  have inv: "repo_inv K (mg_repo m)" by (rule reach_inv [OF assms(1-4)])
  have rid: "rid \<noteq> []" using assms(4-6) by auto
  note b = born_window_open [OF assms(6) rid assms(7,8)]
  obtain existing rp2 where g: "get_active clock (mg_repo m) = (existing, rp2)" by fastforce
  have rp2: "repo_inv K rp2" "info ` set existing = info ` set (db_alerts (rp_db rp2))" "rp_db rp2 = rp_db (mg_repo m)"
    using get_active_inv [OF inv assms(2,3), of clock] g by simp_all
  have none: "filter (same_rule (cr_rule c)) existing = []"
    using assms(9) b [unfolded born_window_def] g by (auto simp: process_alert_def Let_def split: if_splits)
  have new: "cr_rule c \<notin> al_rule ` set (db_alerts (rp_db rp2))"
    using rp2 none by (intro no_match_new_rule [of K]) (auto simp: repo_inv_def)
  let ?inc = "assign_incident co now c existing"
  let ?c = "if or_none ?inc = None then c else c\<lparr>cr_incident := ?inc\<rparr>"
  let ?rp3 = "snd (repo_create i now ?c rp2)"
  have rp3: "repo_inv K ?rp3" "i \<in> al_id ` set (db_alerts (rp_db ?rp3))"
    using repo_create_inv [of K rp2 ?c i now] rp2(1,3) assms(5) new by auto
  obtain r0 where r0: "r0 \<in> set (db_alerts (rp_db ?rp3))" "al_id r0 = i"
    by (rule imageE [OF rp3(2)]) (rule that, simp_all)
  have db3: "db_inv K (rp_db ?rp3)" using rp3(1) unfolding repo_inv_def by blast
  obtain ex r' where ex: "get_by_id i ?rp3 = Some ex" "dict_to_alert r' = Some ex" "al_id r' = i"
    using get_by_id_hot [OF db3 r0] by blast
  have "al_id ex = i" using dict_to_alert_info [OF ex(2)] ex(3) by (metis info_sel(1))
  moreover have "a = apply_update now \<lparr>up_status = Some Al_Ignored, up_acked_by = None, up_exception = None,
      up_reason = None, up_resolved = None, up_ignored_until = Some until\<rparr> ex"
    using assms(9) b [unfolded born_window_def] g none ex(1)
    by (auto simp: process_alert_def repo_update_def Let_def repo_create_def split: prod.splits if_splits)
  ultimately show ?thesis by (simp add: apply_update_def or_keep_def)
qed

theorem ignore_window_silences_witness:
  "map_option al_status (fst (process_alert (\<lambda>_. []) (en_corr ex_env) ''a2'' 4 4 ex_create
     (ex_run [Op_Process ''a1'' 1 1 ex_create, Op_Ignore 2 2 (Some ''a1'') 24, Op_Close 3 3 (Some ''a1'') (Some ''auto'') None]))) =
   Some Al_Ignored"
proof -
  let ?ops = "[Op_Process ''a1'' 1 1 ex_create, Op_Ignore 2 2 (Some ''a1'') 24, Op_Close 3 3 (Some ''a1'') (Some ''auto'') None]"
  let ?K = "{Some ''r1''} :: string option set"
  let ?m1 = "alert_step ex_env (Op_Process ''a1'' 1 1 ex_create) ex_start"
  let ?m2 = "alert_step ex_env (Op_Ignore 2 2 (Some ''a1'') 24) ?m1"
  have "op_ok ?K (Op_Process ''a1'' 1 1 ex_create) ex_start" by code_simp
  from reach_step [OF reach_start this] have "alerts_reach ?K ex_env ex_start ?m1" .
  from reach_step [OF this, of "Op_Ignore 2 2 (Some ''a1'') 24"]
  have "alerts_reach ?K ex_env ex_start ?m2" by simp
  from reach_step [OF this, of "Op_Close 3 3 (Some ''a1'') (Some ''auto'') None"]
  have "alerts_reach ?K ex_env ex_start (alert_step ex_env (Op_Close 3 3 (Some ''a1'') (Some ''auto'') None) ?m2)" by simp
  also have "alert_step ex_env (Op_Close 3 3 (Some ''a1'') (Some ''auto'') None) ?m2 = ex_run ?ops"
    by (simp only: ex_run_def fold.simps id_apply comp_apply)
  finally have run: "alerts_reach ?K ex_env (fresh_manager False 10 0) (ex_run ?ops)" by (simp only: ex_start_def)
  let ?p = "process_alert (\<lambda>_. []) (en_corr ex_env) ''a2'' 4 4 ex_create (ex_run ?ops)"
  have "fst ?p \<noteq> None" by code_simp
  then obtain a where a: "fst ?p = Some a" by blast
  have ok: "op_ok ?K (Op_Process ''a2'' 4 4 ex_create) (ex_run ?ops)"
    "dict_get (rp_ignored (mg_repo (ex_run ?ops))) ''r1'' = Some 86402" "(4 :: secs) < 86402" by code_simp+
  have rule: "cr_rule ex_create = Some ''r1''" by (simp add: ex_create_def)
  have "al_status a = Al_Ignored \<and> al_ignored_until a = Some 86402 \<and> al_id a = ''a2''"
    by (rule ignore_window_silences [OF run _ _ _ ok(1) rule ok(2,3), of "\<lambda>_. []" "en_corr ex_env" a "snd ?p"])
      (use a in \<open>simp_all add: prod_eq_iff\<close>)
  then show ?thesis using a by simp
qed

section \<open>Windows across a restart\<close>

lemma load_ignores_get:
  assumes "distinct (map fst ws)" "\<forall>w \<in> set ws. fst w \<noteq> []"
  shows "dict_get (fold (\<lambda>(rid, u) d. if rid = [] then d else dict_set rid u d) ws d0) k =
    (case dict_get ws k of None \<Rightarrow> dict_get d0 k | Some u \<Rightarrow> Some u)"
  using assms
proof (induction ws arbitrary: d0)
  case (Cons w ws)
  obtain rid u where w: "w = (rid, u)" by fastforce
  have "dict_get ws rid = None" using Cons.prems w by (simp add: map_of_eq_None_iff)
  with Cons w show ?case by (simp add: update_conv split: option.splits)
qed simp

lemma get_active_ignores_covers:
  assumes "r \<in> set (db_alerts db)" "al_rule r = Some rid" "al_ignored_until r = Some u" "now < u"
  shows "\<exists>v. dict_get (get_active_ignores now db) rid = Some v \<and> u \<le> v"
proof -
  define ws where "ws = concat (map (\<lambda>r. case (al_rule r, al_ignored_until r) of
      (Some rid, Some u) \<Rightarrow> if u > now then [(rid, u)] else [] | _ \<Rightarrow> []) (db_alerts db @ db_history db))"
  let ?f = "\<lambda>rid. (rid, Max (set (map snd (filter (\<lambda>w. fst w = rid) ws))))"
  have mem: "(rid, u) \<in> set ws"
    using assms unfolding ws_def set_concat by (intro UN_I [of "[(rid, u)]"]) (auto intro!: rev_image_eqI [of r])
  then have "rid \<in> set (remdups (map fst ws))" by (force intro: rev_image_eqI)
  then have "map_of (map ?f (remdups (map fst ws))) rid = Some (snd (?f rid))"
    by (simp add: map_of_map_keys [symmetric] map_of_eq_Some_iff comp_def image_iff)
  moreover have "u \<le> snd (?f rid)" using mem by (auto intro!: Max_ge rev_image_eqI)
  ultimately show ?thesis unfolding get_active_ignores_def ws_def [symmetric] Let_def by auto
qed

lemma get_active_db: "rp_db (snd (get_active clock rp)) = rp_db rp"
  by (simp add: get_active_def Let_def split: option.splits)

lemma emit_db: "rp_db (mg_repo (emit_ws_event clock ev a m)) = rp_db (mg_repo m)"
  using get_active_db [of clock "mg_repo m"]
  by (auto simp: emit_ws_event_def incident_size_def Let_def split: option.splits prod.splits)

lemma kept_alerts:
  "db_alerts (rp_db (record_event now i ev actor detail rp)) = db_alerts (rp_db rp)"
  "rp_db (set_rule_ignored rid until rp) = rp_db rp"
  "rp_db (invalidate_active_cache rp) = rp_db rp"
  by (simp_all add: record_event_def write_event_def set_rule_ignored_def invalidate_active_cache_def split: option.splits)

lemma ignored_row:
  assumes "repo_inv K (mg_repo m)" and "ignore_alert iso_text now clock (Some i) hours m = Inr (Some b, m')"
  shows "\<exists>r \<in> set (db_alerts (rp_db (mg_repo m'))). al_rule r = al_rule b \<and>
    al_ignored_until r = Some (now + 3600 * of_int hours)"
proof -
  let ?u = "(status_update Al_Ignored)\<lparr>up_ignored_until := Some (now + 3600 * of_int hours)\<rparr>"
  have db: "db_inv K (rp_db (mg_repo m))" using assms(1) unfolding repo_inv_def by blast
  obtain a where a: "get_by_id i (mg_repo m) = Some a" "al_status a \<noteq> Al_Closed"
    using assms(2) by (auto simp: ignore_alert_def split: option.splits if_splits)
  let ?b = "apply_update now ?u a" and ?db = "rp_db (mg_repo m)"
  have u: "repo_update now i ?u (mg_repo m) = (Some ?b, invalidate_active_cache (save_alert ?b (mg_repo m)))"
    using a by (simp add: repo_update_def Let_def)
  have rows: "db_alerts (rp_db (mg_repo m')) = db_alerts (write_alert ?b ?db)" and b: "b = ?b"
    using assms(2) a u by (auto simp: ignore_alert_def Let_def emit_db kept_alerts save_alert_def)
  obtain r where r: "r \<in> set (db_alerts ?db)" "info a = info r" "al_id a = i"
    using db a(1)
  proof (cases rule: get_by_id_cases)
    case (old r)
    have "al_status a = al_status r" using arg_cong [OF old(2), of i_status] unfolding info_sel .
    then show ?thesis using a(2) db_inv_rows(2) [OF db old(1)] by simp
  qed (rule that)
  have same: "al_rule r = al_rule a" "al_id r = i" using arg_cong [OF r(2), of i_rule] arg_cong [OF r(2), of i_id] r(3) by simp_all
  have st: "up_status ?u = Some Al_Ignored" "al_status ?b = Al_Ignored" "al_ignored_until ?b = Some (now + 3600 * of_int hours)"
    by (simp_all add: status_update_def apply_update_def or_keep_def Let_def)
  have live: "Al_Ignored \<notin> set NON_LIVE_STATUSES" by (simp add: NON_LIVE_iff LIVE_iff)
  let ?row = "(alert_cols ?b)\<lparr>al_rule := al_rule r, al_source := al_source r, al_metric := al_metric r, al_created := al_created r\<rparr>"
  have "?row \<in> set (upsert (alert_cols ?b) (db_alerts ?db))"
    unfolding upsert_def using r(1,3) same(2) by (auto intro!: rev_image_eqI [of r])
  then have "?row \<in> set (db_alerts (rp_db (mg_repo m')))"
    unfolding rows write_alert_def using st(2) live by (simp add: Let_def)
  moreover have "al_rule ?row = al_rule b" "al_ignored_until ?row = Some (now + 3600 * of_int hours)"
    using same b st(3) by (simp_all add: alert_cols_def)
  ultimately show ?thesis by blast
qed

text \<open>
  C14: an ignore window survives a restart of the engine: a repository built on the database that
  ignoring an alert left behind still ignores the alert's rule at every time before the end of the
  window.\<close>

theorem ignore_survives_restart:
  assumes "alerts_reach K e (fresh_manager ws ttl t0) m" "finite K" "card K \<le> 1000" "Some [] \<notin> K"
    and "ignore_alert iso_text now clock (Some i) hours m = Inr (Some b, m')" "al_rule b = Some rid"
    and "later < now + 3600 * of_int hours"
  shows "fst (is_rule_ignored later (Some rid) (AlertRepository ttl' later (rp_db (mg_repo m'))))"
proof -
  let ?db = "rp_db (mg_repo m')"
  have inv: "repo_inv K (mg_repo m)" by (rule reach_inv [OF assms(1-4)])
  have inv': "db_inv K ?db" using ignore_inv [OF inv assms(2,3,5)] by (simp add: repo_inv_def)
  obtain r where r: "r \<in> set (db_alerts ?db)" "al_rule r = Some rid" "al_ignored_until r = Some (now + 3600 * of_int hours)"
    using ignored_row [OF inv assms(5)] assms(6) by auto
  obtain v where v: "dict_get (get_active_ignores later ?db) rid = Some v" "now + 3600 * of_int hours \<le> v"
    using get_active_ignores_covers [OF r assms(7)] by blast
  have keys: "distinct (map fst (get_active_ignores later ?db))"
    by (simp add: get_active_ignores_def Let_def comp_def)
  have "set (map fst (get_active_ignores later ?db)) \<subseteq> {x. \<exists>r \<in> set (db_alerts ?db @ db_history ?db). al_rule r = Some x}"
    by (auto simp: get_active_ignores_def Let_def split: option.splits if_splits)
  moreover have "al_rule r \<noteq> Some []" if r: "r \<in> set (db_alerts ?db @ db_history ?db)" for r
  proof (cases "r \<in> set (db_alerts ?db)")
    case True
    show ?thesis using db_inv_rows(1) [OF inv' True] db_inv_rows(7) [OF inv'] by auto
  next
    case False
    then show ?thesis using r db_inv_rows(2) [OF inv'] by simp
  qed
  ultimately have "\<forall>x \<in> set (map fst (get_active_ignores later ?db)). x \<noteq> []" by blast
  then have "\<forall>w \<in> set (get_active_ignores later ?db). fst w \<noteq> []" by simp
  from load_ignores_get [OF keys this, of "[]" rid]
  have "dict_get (load_ignores later ?db) rid = Some v" using v by (simp add: load_ignores_def)
  moreover have "rid \<noteq> []" using r(2) db_inv_rows(1) [OF inv' r(1)] db_inv_rows(7) [OF inv'] by auto
  ultimately show ?thesis using v assms(7) by (simp add: is_rule_ignored_def AlertRepository_def or_none_def)
qed

theorem ignore_survives_restart_witness:
  "fst (is_rule_ignored 50 (Some ''r1'') (AlertRepository 10 50 (rp_db (mg_repo
     (ex_run [Op_Process ''a1'' 1 1 ex_create, Op_Ignore 2 2 (Some ''a1'') 24])))))"
proof -
  let ?m1 = "alert_step ex_env (Op_Process ''a1'' 1 1 ex_create) ex_start"
  have "op_ok {Some ''r1''} (Op_Process ''a1'' 1 1 ex_create) ex_start" by code_simp
  from reach_step [OF reach_start this]
  have run: "alerts_reach {Some ''r1''} ex_env (fresh_manager False 10 0) ?m1" unfolding ex_start_def .
  let ?i = "ignore_alert (en_iso ex_env) 2 2 (Some ''a1'') 24 ?m1"
  have "(case ?i of Inl x \<Rightarrow> None | Inr (b, m') \<Rightarrow> map_option al_rule b) = Some (Some ''r1'')" by code_simp
  then obtain b m' where i: "?i = Inr (Some b, m')" "al_rule b = Some ''r1''"
    by (auto split: sum.splits prod.splits)
  have m': "ex_run [Op_Process ''a1'' 1 1 ex_create, Op_Ignore 2 2 (Some ''a1'') 24] = m'"
    using i(1) by (simp add: ex_run_def)
  have "fst (is_rule_ignored 50 (Some ''r1'') (AlertRepository 10 50 (rp_db (mg_repo m'))))"
    by (rule ignore_survives_restart [OF run _ _ _ i]) simp_all
  then show ?thesis unfolding m' .
qed

section \<open>Resuming a closed alert\<close>





end
