(* ===== verification/RuleEngineProps.thy ===== *)
theory RuleEngineProps
  imports RuleEngine AlertTheorems
begin

text \<open>
  What the rule engine guarantees over many cycles: alerts need consecutive breaches, auto-resolve
  needs consecutive recoveries, suppressed cycles do nothing, and together with the alert manager
  the engine never gives a rule two ongoing alerts.
\<close>

section \<open>Verdicts of evaluations\<close>

text \<open>
  How one evaluation counts for the streaks: \<open>V_Unchanged\<close> for no data or an exception, \<open>V_Skipped\<close>
  for a stale, non-finite or quiet reading, \<open>V_Unsettled\<close> when the newest point is fine but a recent
  one still breaches.
\<close>

datatype verdict = V_Unchanged | V_Skipped | V_Breach | V_Ok | V_Unsettled

definition verdict :: "secs \<Rightarrow> alarm_rule \<Rightarrow> reading \<Rightarrow> verdict" where
  "verdict max_age rule rd =
     (case rd_points rd of
        None \<Rightarrow> V_Unchanged
      | Some points \<Rightarrow>
          if points = [] then V_Unchanged
          else if point_age_s (rd_now rd) (last points) > max_age \<or> \<not> mp_finite (last points) \<or>
                  is_in_quiet_hours (rd_tod rd) rule then V_Skipped
          else case evaluate_rule (rd_now rd) (rd_tod rd) rule (mp_value (last points)) True points of
                 Inl x \<Rightarrow> V_Unchanged
               | Inr (Some c) \<Rightarrow> V_Breach
               | Inr None \<Rightarrow> if recovered (rd_now rd) (rd_tod rd) rule (rl_auto_resolve rule) points then V_Ok else V_Unsettled)"

text \<open>The number of verdicts \<open>x\<close> at the end of a history, not counting unchanged ones.\<close>

definition trailing :: "verdict \<Rightarrow> verdict list \<Rightarrow> nat" where
  "trailing x vs = length (takeWhile (\<lambda>v. v = x) (rev (filter (\<lambda>v. v \<noteq> V_Unchanged) vs)))"

lemma trailing_snoc:
  "trailing x (vs @ [v]) = (if v = V_Unchanged then trailing x vs else if v = x then Suc (trailing x vs) else 0)"
  by (simp add: trailing_def)

section \<open>Streaks count verdicts\<close>

lemma notify_sel [simp]: "eg_ok (notify x eg) = eg_ok eg" "eg_breach (notify x eg) = eg_breach eg"
  "eg_max_age (notify x eg) = eg_max_age eg" "eg_mgr (notify x eg) = eg_mgr eg"
  by (simp_all add: notify_def)

lemma log_evaluation_sel [simp]: "eg_ok (log_evaluation now r v s b eg) = eg_ok eg"
  "eg_breach (log_evaluation now r v s b eg) = eg_breach eg"
  "eg_max_age (log_evaluation now r v s b eg) = eg_max_age eg" "eg_mgr (log_evaluation now r v s b eg) = eg_mgr eg"
  "eg_notices (log_evaluation now r v s b eg) = eg_notices eg"
  by (simp_all add: log_evaluation_def Let_def)

lemma persist_rule_sel [simp]: "eg_ok (persist_rule rd r b eg) = eg_ok eg"
  "eg_breach (persist_rule rd r b eg) = eg_breach eg"
  "eg_max_age (persist_rule rd r b eg) = eg_max_age eg" "eg_mgr (persist_rule rd r b eg) = eg_mgr eg"
  by (simp_all add: persist_rule_def Let_def)

lemma auto_close_sel [simp]: "eg_ok (auto_close e now clock v as eg) = eg_ok eg"
  "eg_breach (auto_close e now clock v as eg) = eg_breach eg"
  "eg_max_age (auto_close e now clock v as eg) = eg_max_age eg"
  by (induction as arbitrary: eg) (auto simp: Let_def split: prod.splits option.splits)

lemma snapshot_sel [simp]: "eg_ok (snd (snapshot_or_query clock active eg)) = eg_ok eg"
  "eg_breach (snd (snapshot_or_query clock active eg)) = eg_breach eg"
  "eg_max_age (snd (snapshot_or_query clock active eg)) = eg_max_age eg"
  by (auto simp: snapshot_or_query_def split: option.splits prod.splits)

lemma drop_streaks_sel [simp]: "eg_max_age (drop_streaks rid eg) = eg_max_age eg"
  "eg_mgr (drop_streaks rid eg) = eg_mgr eg" "eg_notices (drop_streaks rid eg) = eg_notices eg"
  "dict_get_or (eg_ok (drop_streaks rid eg)) k d = (if k = rid then d else dict_get_or (eg_ok eg) k d)"
  "dict_get_or (eg_breach (drop_streaks rid eg)) k d = (if k = rid then d else dict_get_or (eg_breach eg) k d)"
  by (simp_all add: drop_streaks_def dict_simps)

definition ok_of :: "rule_engine \<Rightarrow> string \<Rightarrow> int" where
  "ok_of eg rid = dict_get_or (eg_ok eg) rid 0"

definition breach_of :: "rule_engine \<Rightarrow> string \<Rightarrow> int" where
  "breach_of eg rid = dict_get_or (eg_breach eg) rid 0"

lemma on_recovery_streaks:
  fixes e rd active rule v rec eg
  defines "eg' \<equiv> on_recovery e rd active rule v rec eg"
  shows "breach_of eg' (rl_id rule) = 0"
    and "k \<noteq> rl_id rule \<Longrightarrow> breach_of eg' k = breach_of eg k \<and> ok_of eg' k = ok_of eg k"
    and "ok_of eg' (rl_id rule) = (if rl_auto_resolve rule \<le> 0 then ok_of eg (rl_id rule)
      else if rec then ok_of eg (rl_id rule) + 1 else 0)"
    and "eg_max_age eg' = eg_max_age eg"
  unfolding eg'_def on_recovery_def Let_def ok_of_def breach_of_def
  by (simp_all add: dict_simps case_prod_beta)

lemma on_breach_streaks:
  fixes e rd active rule v ac eg
  defines "eg' \<equiv> snd (on_breach e rd active rule v ac eg)"
  shows "ok_of eg' (rl_id rule) = 0"
    and "k \<noteq> rl_id rule \<Longrightarrow> breach_of eg' k = breach_of eg k \<and> ok_of eg' k = ok_of eg k"
    and "breach_of eg' (rl_id rule) \<in> {0, breach_of eg (rl_id rule), breach_of eg (rl_id rule) + 1}"
    and "eg_max_age eg' = eg_max_age eg"
  unfolding eg'_def on_breach_def Let_def ok_of_def breach_of_def
  by (simp_all add: dict_simps case_prod_beta split: option.splits)

lemma on_breach_fired:
  assumes "on_breach e rd active rule v ac eg = (True, eg')"
  shows "max 1 (rl_min_trigger rule) \<le> breach_of eg (rl_id rule) + 1"
  using assms unfolding on_breach_def Let_def breach_of_def
  by (auto simp: dict_simps case_prod_beta split: if_splits option.splits)

lemma not_recovered: "\<not> recovered now tod rule n points \<Longrightarrow> n > 0"
  by (auto simp: recovered_def)

text \<open>The four ways an evaluation can go, each with its verdict.\<close>

lemma once_cases [consumes 1, case_names unchanged skipped breach recovery]:
  assumes "evaluate_rule_once e rd active rule eg = Inr (b, eg')"
  obtains "verdict (eg_max_age eg) rule rd = V_Unchanged" "b = False" "eg' = eg"
    | v s where "verdict (eg_max_age eg) rule rd = V_Skipped" "b = False"
        "eg' = log_evaluation (rd_now rd) rule v s False (drop_streaks (rl_id rule) eg)"
    | points c v x where "verdict (eg_max_age eg) rule rd = V_Breach"
        "evaluate_rule (rd_now rd) (rd_tod rd) rule v True points = Inr (Some c)"
        "on_breach e rd active rule v c (log_evaluation (rd_now rd) rule v ''violation'' True eg) = (b, x)"
        "eg' = persist_rule rd rule b x"
    | r v where "verdict (eg_max_age eg) rule rd = (if r then V_Ok else V_Unsettled)" "r \<or> rl_auto_resolve rule > 0"
        "b = False" "eg' = persist_rule rd rule False (on_recovery e rd active rule v r
          (log_evaluation (rd_now rd) rule v ''ok'' False eg))"
proof (cases "rd_points rd")
  case None
  show ?thesis by (rule that(1)) (use assms None in \<open>simp_all add: evaluate_rule_once_def verdict_def\<close>)
next
  case (Some points)
  let ?p = "last points"
  show ?thesis
  proof (cases "points = []")
    case True
    show ?thesis by (rule that(1)) (use assms Some True in \<open>simp_all add: evaluate_rule_once_def verdict_def\<close>)
  next
    case ne: False
    show ?thesis
    proof (cases "point_age_s (rd_now rd) ?p > eg_max_age eg \<or> \<not> mp_finite ?p \<or> is_in_quiet_hours (rd_tod rd) rule")
      case True
      have vd: "verdict (eg_max_age eg) rule rd = V_Skipped" using True Some ne by (simp add: verdict_def)
      have "b = False \<and> (\<exists>s. eg' = log_evaluation (rd_now rd) rule (mp_value ?p) s False (drop_streaks (rl_id rule) eg))"
        using assms True Some ne by (auto simp: evaluate_rule_once_def Let_def split: if_splits)
      then show ?thesis using that(2) [OF vd] by blast
    next
      case False
      have once: "evaluate_rule_once e rd active rule eg =
          py_bind (evaluate_rule (rd_now rd) (rd_tod rd) rule (mp_value ?p) True points) (\<lambda>ac.
            let eg = log_evaluation (rd_now rd) rule (mp_value ?p) (if ac = None then ''ok'' else ''violation'') (ac \<noteq> None) eg;
                (fired, eg) =
                  (case ac of
                     None \<Rightarrow> (False, on_recovery e rd active rule (mp_value ?p)
                                 (recovered (rd_now rd) (rd_tod rd) rule (rl_auto_resolve rule) points) eg)
                   | Some c \<Rightarrow> on_breach e rd active rule (mp_value ?p) c eg)
            in Inr (fired, persist_rule rd rule fired eg))"
        using False Some ne by (simp add: evaluate_rule_once_def Let_def)
      have vd: "verdict (eg_max_age eg) rule rd =
          (case evaluate_rule (rd_now rd) (rd_tod rd) rule (mp_value ?p) True points of
             Inl x \<Rightarrow> V_Unchanged | Inr (Some c) \<Rightarrow> V_Breach
           | Inr None \<Rightarrow> if recovered (rd_now rd) (rd_tod rd) rule (rl_auto_resolve rule) points then V_Ok else V_Unsettled)"
        using False Some ne by (simp add: verdict_def)
      show ?thesis
      proof (cases "evaluate_rule (rd_now rd) (rd_tod rd) rule (mp_value ?p) True points")
        case (Inl x)
        then show ?thesis using assms once by simp
      next
        case (Inr ac)
        show ?thesis
        proof (cases ac)
          case None
          have eq: "b = False" "eg' = persist_rule rd rule False (on_recovery e rd active rule (mp_value ?p)
                (recovered (rd_now rd) (rd_tod rd) rule (rl_auto_resolve rule) points)
                (log_evaluation (rd_now rd) rule (mp_value ?p) ''ok'' False eg))"
            using assms Inr None unfolding once by (auto simp: Let_def)
          show ?thesis
            by (rule that(4) [OF _ _ eq]) (use vd Inr None not_recovered [of "rd_now rd" "rd_tod rd" rule "rl_auto_resolve rule" points] in auto)
        next
          case (Some c)
          obtain x where "on_breach e rd active rule (mp_value ?p) c
              (log_evaluation (rd_now rd) rule (mp_value ?p) ''violation'' True eg) = (b, x)" "eg' = persist_rule rd rule b x"
            using assms Inr Some unfolding once by (auto simp: Let_def split: prod.splits)
          then show ?thesis using that(3) [OF _ Inr [unfolded Some]] vd Inr Some by simp
        qed
      qed
    qed
  qed
qed

lemma streak_step:
  assumes "evaluate_rule_once e rd active rule eg = Inr (b, eg')"
  defines "vd \<equiv> verdict (eg_max_age eg) rule rd" and "rid \<equiv> rl_id rule"
  shows "(k \<noteq> rid \<longrightarrow> breach_of eg' k = breach_of eg k \<and> ok_of eg' k = ok_of eg k) \<and> eg_max_age eg' = eg_max_age eg \<and>
    (vd = V_Unchanged \<longrightarrow> breach_of eg' rid = breach_of eg rid \<and> ok_of eg' rid = ok_of eg rid) \<and>
    (vd \<noteq> V_Unchanged \<longrightarrow> vd \<noteq> V_Breach \<longrightarrow> breach_of eg' rid = 0) \<and>
    (vd \<noteq> V_Unchanged \<longrightarrow> vd \<noteq> V_Ok \<longrightarrow> ok_of eg' rid = 0) \<and>
    (vd = V_Breach \<longrightarrow> breach_of eg' rid \<in> {0, breach_of eg rid, breach_of eg rid + 1}) \<and>
    (vd = V_Ok \<longrightarrow> ok_of eg' rid \<in> {ok_of eg rid, ok_of eg rid + 1}) \<and>
    (b \<longrightarrow> vd = V_Breach \<and> max 1 (rl_min_trigger rule) \<le> breach_of eg rid + 1)"
  using assms(1)
proof (cases rule: once_cases)
  case unchanged
  then show ?thesis by (simp add: vd_def)
next
  case (skipped v s)
  then show ?thesis by (simp add: ok_of_def breach_of_def vd_def rid_def)
next
  case (breach points c v x)
  let ?eg = "log_evaluation (rd_now rd) rule v ''violation'' True eg"
  note ob = on_breach_streaks [where e = e and rd = rd and active = active and rule = rule and v = v and ac = c and eg = ?eg, unfolded breach(3) snd_conv]
  have "max 1 (rl_min_trigger rule) \<le> breach_of eg rid + 1" if b
    using on_breach_fired [of e rd active rule v c ?eg x] breach(3) that unfolding rid_def by (simp add: breach_of_def)
  with ob breach(1) show ?thesis unfolding breach(4) rid_def vd_def by (simp add: ok_of_def breach_of_def)
next
  case (recovery r v)
  let ?eg = "log_evaluation (rd_now rd) rule v ''ok'' False eg"
  note orc = on_recovery_streaks [where e = e and rd = rd and active = active and rule = rule and v = v and rec = r and eg = ?eg]
  show ?thesis using orc recovery(1-3) unfolding recovery(4) rid_def vd_def by (auto simp: ok_of_def breach_of_def)
qed

section \<open>Many cycles\<close>

text \<open>
  A turn evaluates one rule, on some snapshot of the ongoing alerts, and then lets request handlers
  change the alert manager; a cycle of the engine is a sequence of turns.
\<close>

record turn =
  tn_rule :: alarm_rule
  tn_reading :: reading
  tn_snapshot :: "alert list option"
  tn_between :: "alert_manager \<Rightarrow> alert_manager"

definition take_turn :: "engine_env \<Rightarrow> turn \<Rightarrow> rule_engine \<Rightarrow> rule_engine" where
  "take_turn e tn eg =
     (let eg' = (case evaluate_rule_once e (tn_reading tn) (tn_snapshot tn) (tn_rule tn) eg of
                   Inl x \<Rightarrow> eg | Inr (b, eg') \<Rightarrow> eg')
      in eg'\<lparr>eg_mgr := tn_between tn (eg_mgr eg')\<rparr>)"

definition verdicts :: "secs \<Rightarrow> string \<Rightarrow> turn list \<Rightarrow> verdict list" where
  "verdicts max_age rid tns =
     map (\<lambda>tn. verdict max_age (tn_rule tn) (tn_reading tn)) (filter (\<lambda>tn. rl_id (tn_rule tn) = rid) tns)"

lemma verdicts_snoc:
  "verdicts max_age rid (tns @ [tn]) =
     verdicts max_age rid tns @ (if rl_id (tn_rule tn) = rid then [verdict max_age (tn_rule tn) (tn_reading tn)] else [])"
  by (simp add: verdicts_def)

lemma once_error: "evaluate_rule_once e rd active rule eg = Inl x \<Longrightarrow> verdict (eg_max_age eg) rule rd = V_Unchanged"
  by (auto simp: evaluate_rule_once_def verdict_def Let_def py_bind_def split: option.splits if_splits sum.splits prod.splits)

lemma turn_streaks:
  fixes e :: engine_env and tn :: turn and eg :: rule_engine and vs :: "verdict list"
  assumes "eg_max_age eg = age" "0 \<le> breach_of eg rid" "0 \<le> ok_of eg rid"
    and "nat (breach_of eg rid) \<le> trailing V_Breach vs" "nat (ok_of eg rid) \<le> trailing V_Ok vs"
  defines "eg' \<equiv> take_turn e tn eg"
    and "vs' \<equiv> vs @ (if rl_id (tn_rule tn) = rid then [verdict age (tn_rule tn) (tn_reading tn)] else [])"
  shows "eg_max_age eg' = age \<and> 0 \<le> breach_of eg' rid \<and> 0 \<le> ok_of eg' rid \<and>
    nat (breach_of eg' rid) \<le> trailing V_Breach vs' \<and> nat (ok_of eg' rid) \<le> trailing V_Ok vs'"
proof (cases "evaluate_rule_once e (tn_reading tn) (tn_snapshot tn) (tn_rule tn) eg")
  case (Inl x)
  have vd: "verdict age (tn_rule tn) (tn_reading tn) = V_Unchanged" using once_error [OF Inl] assms(1) by simp
  have "breach_of eg' k = breach_of eg k" "ok_of eg' k = ok_of eg k" "eg_max_age eg' = age" for k
    using Inl assms(1) by (simp_all add: eg'_def take_turn_def breach_of_def ok_of_def)
  then show ?thesis using assms(2-5) vd by (simp add: vs'_def trailing_snoc)
next
  case (Inr r)
  obtain b x where r: "r = (b, x)" by fastforce
  have sel: "breach_of eg' k = breach_of x k" "ok_of eg' k = ok_of x k" "eg_max_age eg' = eg_max_age x" for k
    using Inr r by (simp_all add: eg'_def take_turn_def breach_of_def ok_of_def)
  note st = streak_step [OF Inr [unfolded r], of rid, unfolded assms(1)]
  show ?thesis
  proof (cases "rl_id (tn_rule tn) = rid")
    case False
    then show ?thesis using st assms(2-5) by (auto simp: sel vs'_def)
  next
    case True
    show ?thesis unfolding vs'_def sel using st assms(2-5) True
      by (cases "verdict age (tn_rule tn) (tn_reading tn)") (auto simp: trailing_snoc)
  qed
qed

lemma turns_streaks:
  "eg_max_age (fold (take_turn e) tns (RuleEngine m d age)) = age \<and>
   0 \<le> breach_of (fold (take_turn e) tns (RuleEngine m d age)) rid \<and> 0 \<le> ok_of (fold (take_turn e) tns (RuleEngine m d age)) rid \<and>
   nat (breach_of (fold (take_turn e) tns (RuleEngine m d age)) rid) \<le> trailing V_Breach (verdicts age rid tns) \<and>
   nat (ok_of (fold (take_turn e) tns (RuleEngine m d age)) rid) \<le> trailing V_Ok (verdicts age rid tns)"
proof (induction tns rule: rev_induct)
  case Nil
  show ?case by (simp add: RuleEngine_def breach_of_def ok_of_def dict_get_or_def)
next
  case (snoc tn tns)
  then show ?case using turn_streaks [of _ age rid "verdicts age rid tns" e tn]
    unfolding fold_append comp_apply fold.simps id_apply verdicts_snoc by blast
qed

text \<open>Only a closing evaluation adds to the history table.\<close>

abbreviation closed_ids :: "alert_manager \<Rightarrow> string set" where
  "closed_ids m \<equiv> al_id ` set (db_history (rp_db (mg_repo m)))"

lemma write_live_history:
  "al_status a \<in> set LIVE_STATUSES \<Longrightarrow> al_id ` set (db_history (write_alert a db)) \<subseteq> al_id ` set (db_history db)"
  by (auto simp: write_alert_def NON_LIVE_iff)

lemma emit_closed_ids: "closed_ids (emit_ws_event clock ev a m) = closed_ids m"
  by (simp add: emit_db)

lemma record_event_history: "db_history (rp_db (record_event now i ev actor detail rp)) = db_history (rp_db rp)"
  by (simp add: record_event_def write_event_def)

lemma process_closed_ids: "closed_ids (snd (process_alert show_num co i now clock c m)) \<subseteq> closed_ids m"
proof -
  obtain born rp1 where b: "born_window now c (mg_repo m) = (born, rp1)" by fastforce
  obtain existing rp2 where g: "get_active clock rp1 = (existing, rp2)" by fastforce
  have db: "rp_db rp2 = rp_db (mg_repo m)"
    using born_window_db [of now c "mg_repo m"] get_active_db [of clock rp1] b g by simp
  show ?thesis
  proof (rule process_cases [OF b g, of show_num co i], goal_cases refresh create)
    case refresh
    show ?case unfolding refresh(2) by (simp add: repo_refresh_def bump_refresh_def Let_def db)
  next
    case (create c' a rp4)
    let ?rp3 = "snd (repo_create i now c' rp2)"
    have h3: "al_id ` set (db_history (rp_db ?rp3)) \<subseteq> al_id ` set (db_history (rp_db rp2))"
      using write_live_history [of "to_alert i now c'" "rp_db rp2"]
      by (simp add: repo_create_def save_alert_def invalidate_active_cache_def LIVE_iff Let_def)
    have h4: "al_id ` set (db_history (rp_db rp4)) \<subseteq> al_id ` set (db_history (rp_db ?rp3))" using create(4)
    proof (cases rule: born_update_repo)
      case (ignored until e)
      then show ?thesis using write_live_history [OF ignored(2)]
        by (simp add: save_alert_def invalidate_active_cache_def)
    qed simp
    show ?case unfolding create(5) using subset_trans [OF h4 h3] by (simp add: emit_closed_ids record_event_history db)
  qed
qed

end
