(* ===== verification/AlarmSystem.thy ===== *)
theory AlarmSystem
  imports RuleEngineProps
begin

text \<open>
  The alarm engine as a whole: rule evaluations, the expiry of ignore windows and the requests of
  operators interleave on one alert store. The laws of the alert manager (\<open>AlertLifecycle\<close>) carry over
  to every step of the rule engine, so the guarantee of one ongoing alert per rule holds of the system.
\<close>

section \<open>Alerts need consecutive breaches\<close>

text \<open>
  C10: an alert is only created after the configured number of consecutive breaching evaluations of
  its rule: over any sequence of cycles, with other rules, operator actions and evaluations without
  data in between, when an evaluation creates an alert then the last \<^verbatim>\<open>min_trigger_cycles\<close>
  evaluations of the rule that had data, this one included, all breached.\<close>

theorem alert_needs_consecutive_breaches:
  assumes "evaluate_rule_once e rd active rule (fold (take_turn e) tns (RuleEngine m d age)) = Inr (True, eg')"
  shows "max 1 (nat (rl_min_trigger rule)) \<le>
    trailing V_Breach (verdicts age (rl_id rule) tns @ [verdict age rule rd])"
proof -
  let ?eg = "fold (take_turn e) tns (RuleEngine m d age)"
  note inv = turns_streaks [of e tns m d age "rl_id rule"]
  have age: "eg_max_age ?eg = age" using inv by blast
  have "verdict age rule rd = V_Breach" "max 1 (rl_min_trigger rule) \<le> breach_of ?eg (rl_id rule) + 1"
    using streak_step [OF assms, unfolded age] by blast+
  then show ?thesis using inv by (auto simp: trailing_snoc)
qed

section \<open>Only recoveries close alerts\<close>

lemma refresh_history: "db_history (rp_db (snd (repo_refresh now a v rp))) = db_history (rp_db rp)"
  by (simp add: repo_refresh_def bump_refresh_def Let_def)

lemma snapshot_db: "rp_db (mg_repo (eg_mgr (snd (snapshot_or_query clock active eg)))) = rp_db (mg_repo (eg_mgr eg))"
  using get_active_db [of clock "mg_repo (eg_mgr eg)"]
  by (auto simp: snapshot_or_query_def case_prod_beta split: option.splits)

lemma on_breach_closed_ids: "closed_ids (eg_mgr (snd (on_breach e rd active rule v ac eg))) \<subseteq> closed_ids (eg_mgr eg)"
proof -
  let ?eg = "eg\<lparr>eg_ok := dict_pop (rl_id rule) (eg_ok eg)\<rparr>"
  obtain as eg1 where s: "snapshot_or_query (rd_clock rd) active ?eg = (as, eg1)" by fastforce
  have h: "closed_ids (eg_mgr eg1) = closed_ids (eg_mgr eg)"
    using snapshot_db [of "rd_clock rd" active ?eg] s by simp
  note p = process_closed_ids [of "ee_num e" "ee_corr e" "rd_new_id rd" "rd_now rd" "rd_clock rd" ac "eg_mgr eg1"]
  show ?thesis unfolding h [symmetric] using p
    by (auto simp: on_breach_def Let_def s case_prod_beta refresh_history split: option.splits)
qed

lemma on_recovery_idle:
  assumes "\<not> (rec \<and> rl_auto_resolve rule \<le> ok_of eg (rl_id rule) + 1 \<and> 0 < rl_auto_resolve rule)"
  shows "eg_mgr (on_recovery e rd active rule v rec eg) = eg_mgr eg"
  using assms by (auto simp: on_recovery_def ok_of_def dict_simps Let_def)

lemma once_closed_ids:
  assumes "evaluate_rule_once e rd active rule eg = Inr (b, eg')"
    and "i \<in> closed_ids (eg_mgr eg')" "i \<notin> closed_ids (eg_mgr eg)"
  shows "verdict (eg_max_age eg) rule rd = V_Ok \<and> 0 < rl_auto_resolve rule \<and>
    rl_auto_resolve rule \<le> ok_of eg (rl_id rule) + 1"
  using assms(1)
proof (cases rule: once_cases)
  case (breach points c v x)
  let ?eg = "log_evaluation (rd_now rd) rule v ''violation'' True eg"
  have "closed_ids (eg_mgr x) \<subseteq> closed_ids (eg_mgr eg)"
    using on_breach_closed_ids [of e rd active rule v c ?eg] breach(3) by simp
  then show ?thesis using assms(2,3) breach(4) by auto
next
  case (recovery r v)
  let ?eg = "log_evaluation (rd_now rd) rule v ''ok'' False eg"
  show ?thesis
  proof (rule ccontr)
    assume "\<not> ?thesis"
    then have "\<not> (r \<and> rl_auto_resolve rule \<le> ok_of ?eg (rl_id rule) + 1 \<and> 0 < rl_auto_resolve rule)"
      using recovery(1) by (auto simp: ok_of_def)
    from on_recovery_idle [OF this] have "eg_mgr eg' = eg_mgr eg" using recovery(4) by simp
    then show False using assms(2,3) by simp
  qed
qed (use assms(2,3) in simp_all)

text \<open>
  an evaluation closes an alert only as an auto-resolve, when the rule asks for one and the last
  \<^verbatim>\<open>auto_resolve_after_cycles\<close> evaluations of the rule that had data, this one included, all found it
  recovered; stale, non-finite, quiet or breaching readings never close anything.\<close>

theorem auto_resolve_needs_consecutive_ok:
  assumes "evaluate_rule_once e rd active rule (fold (take_turn e) tns (RuleEngine m d age)) = Inr (b, eg')"
    and "i \<in> al_id ` set (db_history (rp_db (mg_repo (eg_mgr eg'))))"
    and "i \<notin> al_id ` set (db_history (rp_db (mg_repo (eg_mgr (fold (take_turn e) tns (RuleEngine m d age))))))"
  shows "0 < rl_auto_resolve rule \<and>
    nat (rl_auto_resolve rule) \<le> trailing V_Ok (verdicts age (rl_id rule) tns @ [verdict age rule rd])"
proof -
  let ?eg = "fold (take_turn e) tns (RuleEngine m d age)"
  note inv = turns_streaks [of e tns m d age "rl_id rule"]
  have age: "eg_max_age ?eg = age" using inv by blast
  note c = once_closed_ids [OF assms, unfolded age]
  then show ?thesis using inv by (auto simp: trailing_snoc)
qed

text \<open>
  a stale, non-finite or quiet reading is inert: it creates no alert, leaves the alert store and its
  cache as they are, notifies nobody, and restarts both streaks of its rule.\<close>

theorem skipped_reading_inert:
  assumes "rd_points rd = Some points" "points \<noteq> []"
    and "point_age_s (rd_now rd) (last points) > eg_max_age eg \<or> \<not> mp_finite (last points) \<or>
         is_in_quiet_hours (rd_tod rd) rule"
  shows "\<exists>eg'. evaluate_rule_once e rd active rule eg = Inr (False, eg') \<and> eg_mgr eg' = eg_mgr eg \<and>
    eg_notices eg' = eg_notices eg \<and> breach_of eg' (rl_id rule) = 0 \<and> ok_of eg' (rl_id rule) = 0 \<and>
    (\<forall>k. k \<noteq> rl_id rule \<longrightarrow> breach_of eg' k = breach_of eg k \<and> ok_of eg' k = ok_of eg k)"
  using assms by (auto simp: evaluate_rule_once_def Let_def breach_of_def ok_of_def)

section \<open>Engine steps keep the store's invariant\<close>

lemma fmt_message: "cr_rule (rule_alert rule v t msg host) = Some (rl_id rule)" "cr_message (rule_alert rule v t msg host) = msg"
  by (simp_all add: rule_alert_def)

lemma evaluate_rule_alert:
  assumes "evaluate_rule now tod rule v fin points = Inr (Some c)"
  shows "cr_rule c = Some (rl_id rule) \<and> cr_message c \<noteq> []"
proof -
  have "cr_rule c = Some (rl_id rule) \<and> cr_message c \<noteq> []" if "evaluate_threshold_above rule v t host = Some c" for t host
    using that by (auto simp: evaluate_threshold_above_def fmt_message split: option.splits if_splits)
  moreover have "cr_rule c = Some (rl_id rule) \<and> cr_message c \<noteq> []" if "evaluate_threshold_below rule v t host = Some c" for t host
    using that by (auto simp: evaluate_threshold_below_def fmt_message split: option.splits if_splits)
  moreover have "cr_rule c = Some (rl_id rule) \<and> cr_message c \<noteq> []" if "evaluate_threshold_range rule v t host = Some c" for t host
    using that by (auto simp: evaluate_threshold_range_def fmt_message split: option.splits if_splits)
  moreover have "cr_rule c = Some (rl_id rule) \<and> cr_message c \<noteq> []" if "evaluate_z_score_rule now rule v points k = Inr (Some c)" for k
    using that by (auto simp: evaluate_z_score_rule_def fmt_message Let_def split: if_splits)
  moreover have "cr_rule c = Some (rl_id rule) \<and> cr_message c \<noteq> []" if "evaluate_moving_average_rule now rule v points k = Inr (Some c)" for k
    using that by (auto simp: evaluate_moving_average_rule_def fmt_message Let_def split: if_splits)
  moreover have "cr_rule c = Some (rl_id rule) \<and> cr_message c \<noteq> []" if "evaluate_percentile_rule now rule v points k = Inr (Some c)" for k
    using that by (auto simp: evaluate_percentile_rule_def fmt_message py_bind_def Let_def split: if_splits sum.splits)
  moreover have "cr_rule c = Some (rl_id rule) \<and> cr_message c \<noteq> []" if "evaluate_rate_of_change_rule now rule v points k = Inr (Some c)" for k
    using that by (auto simp: evaluate_rate_of_change_rule_def fmt_message py_bind_def Let_def split: if_splits sum.splits)
  ultimately show ?thesis using assms
    by (auto simp: evaluate_rule_def Let_def split: if_splits rule_type.splits)
qed

lemma auto_close_inv:
  assumes "finite K" "card K \<le> 1000"
  shows "repo_inv K (mg_repo (eg_mgr eg)) \<Longrightarrow> repo_inv K (mg_repo (eg_mgr (auto_close e now clock v as eg)))"
proof (induction as arbitrary: eg)
  case (Cons a as)
  obtain c m where cl: "close_alert (ee_num e) now clock (Some (al_id a)) (Some ''auto'') (Some v) (eg_mgr eg) = (c, m)"
    by fastforce
  have "repo_inv K (mg_repo m)"
    using close_inv [OF Cons.prems assms, of "ee_num e" now clock "Some (al_id a)" "Some ''auto''" "Some v"] cl by simp
  then show ?case by (auto simp: cl Let_def split: option.splits intro!: Cons.IH)
qed simp

lemma snapshot_inv:
  assumes "repo_inv K (mg_repo (eg_mgr eg))" "finite K" "card K \<le> 1000"
  shows "repo_inv K (mg_repo (eg_mgr (snd (snapshot_or_query clock active eg))))"
  using get_active_inv [OF assms, of clock] assms(1)
  by (simp add: snapshot_or_query_def case_prod_beta split: option.splits)

lemma on_recovery_inv:
  assumes "repo_inv K (mg_repo (eg_mgr eg))" "finite K" "card K \<le> 1000"
  shows "repo_inv K (mg_repo (eg_mgr (on_recovery e rd active rule v rec eg)))"
  unfolding on_recovery_def Let_def case_prod_beta
  using assms by (auto intro!: auto_close_inv snapshot_inv)

abbreviation fresh_id :: "string \<Rightarrow> alert_manager \<Rightarrow> bool" where
  "fresh_id i m \<equiv> i \<notin> al_id ` set (db_alerts (rp_db (mg_repo m))) \<and> i \<notin> closed_ids m"

lemma on_breach_inv:
  assumes inv: "repo_inv K (mg_repo (eg_mgr eg))" and K: "finite K" "card K \<le> 1000"
    and c: "cr_rule ac \<in> K" "cr_message ac \<noteq> []" and f: "fresh_id (rd_new_id rd) (eg_mgr eg)"
  shows "repo_inv K (mg_repo (eg_mgr (snd (on_breach e rd active rule v ac eg))))"
proof -
  let ?eg = "eg\<lparr>eg_ok := dict_pop (rl_id rule) (eg_ok eg)\<rparr>"
  obtain as eg1 where s: "snapshot_or_query (rd_clock rd) active ?eg = (as, eg1)" by fastforce
  have inv1: "repo_inv K (mg_repo (eg_mgr eg1))" using snapshot_inv [of K ?eg "rd_clock rd" active] inv K s by simp
  have db: "rp_db (mg_repo (eg_mgr eg1)) = rp_db (mg_repo (eg_mgr eg))"
    using snapshot_db [of "rd_clock rd" active ?eg] s by simp
  have "repo_inv K (mg_repo (snd (process_alert (ee_num e) (ee_corr e) (rd_new_id rd) (rd_now rd) (rd_clock rd) ac (eg_mgr eg1))))"
    by (rule process_inv [OF inv1 K c]) (use f db in simp_all)
  then show ?thesis using inv1 repo_refresh_inv [OF inv1]
    by (auto simp: on_breach_def Let_def s case_prod_beta split: option.splits)
qed

lemma once_inv:
  assumes "evaluate_rule_once e rd active rule eg = Inr (b, eg')"
    and inv: "repo_inv K (mg_repo (eg_mgr eg))" and K: "finite K" "card K \<le> 1000"
    and "Some (rl_id rule) \<in> K" "fresh_id (rd_new_id rd) (eg_mgr eg)"
  shows "repo_inv K (mg_repo (eg_mgr eg'))"
  using assms(1)
proof (cases rule: once_cases)
  case (breach points c v x)
  let ?eg = "log_evaluation (rd_now rd) rule v ''violation'' True eg"
  have "repo_inv K (mg_repo (eg_mgr (snd (on_breach e rd active rule v c ?eg))))"
    by (rule on_breach_inv) (use assms evaluate_rule_alert [OF breach(2)] in simp_all)
  then show ?thesis using breach(3,4) by simp
next
  case (recovery r v)
  then show ?thesis using on_recovery_inv [of K "log_evaluation (rd_now rd) rule v ''ok'' False eg"] inv K by simp
qed (use inv in simp_all)

section \<open>Expiry of ignore windows\<close>

definition elapsed :: "secs \<Rightarrow> alert \<Rightarrow> bool" where
  "elapsed now a \<longleftrightarrow> al_status a = Al_Ignored \<and> (case al_ignored_until a of None \<Rightarrow> False | Some u \<Rightarrow> u \<le> now)"

lemma expire_each_Cons:
  "expire_each now clock (a # as) m =
     (if elapsed now a
      then (fst (resume_alert now clock (Some (al_id a)) m) \<noteq> None \<or> fst (expire_each now clock as (snd (resume_alert now clock (Some (al_id a)) m))),
            snd (expire_each now clock as (snd (resume_alert now clock (Some (al_id a)) m))))
      else expire_each now clock as m)"
  by (auto simp: elapsed_def not_le case_prod_beta Let_def split: option.splits)

text \<open>No alert whose window is about to be ended has been closed since the snapshot was taken.\<close>

definition expire_ok :: "secs \<Rightarrow> alert list \<Rightarrow> alert_manager \<Rightarrow> bool" where
  "expire_ok now as m \<longleftrightarrow>
     list_all (\<lambda>a. elapsed now a \<longrightarrow> al_id a \<notin> al_id ` set (db_history (rp_db (mg_repo m)))) as"

lemma resume_closed_ids: "closed_ids (snd (resume_alert now clock uid m)) \<subseteq> closed_ids m"
proof -
  have live: "al_id ` set (db_history (write_alert (resumed a) db)) \<subseteq> al_id ` set (db_history db)" for a db
    by (auto simp: write_alert_def NON_LIVE_iff LIVE_iff resumed_def Let_def)
  have "map al_id (db_history (rp_db (clear_rule_ignored rid rp))) = map al_id (db_history (rp_db rp))" for rid rp
    by (auto simp: clear_rule_ignored_def clear_ignored_until_def unignore_def split: option.splits)
  then have unign: "al_id ` set (db_history (rp_db (clear_rule_ignored rid rp))) = al_id ` set (db_history (rp_db rp))" for rid rp
    by (metis list.set_map)
  show ?thesis
    using live by (simp add: resume_alert_def repo_resume_def save_alert_def invalidate_active_cache_def Let_def
        emit_closed_ids record_event_history unign split: option.splits)
qed

lemma expire_each_inv:
  assumes "finite K" "card K \<le> 1000"
  shows "repo_inv K (mg_repo m) \<Longrightarrow> expire_ok now as m \<Longrightarrow> repo_inv K (mg_repo (snd (expire_each now clock as m)))"
proof (induction as arbitrary: m)
  case (Cons a as)
  let ?m = "snd (resume_alert now clock (Some (al_id a)) m)"
  have db: "db_inv K (rp_db (mg_repo m))" using Cons.prems(1) by (simp add: repo_inv_def)
  have ok: "expire_ok now as m" using Cons.prems(2) by (simp add: expire_ok_def)
  show ?case
  proof (cases "elapsed now a")
    case True
    have "al_status x \<noteq> Al_Closed" if "get_by_id (al_id a) (mg_repo m) = Some x" for x
    proof (cases "al_id a \<in> al_id ` set (db_alerts (rp_db (mg_repo m)))")
      case True
      then show ?thesis using hot_not_closed [OF db _ that] by blast
    next
      case False
      have "al_id a \<notin> closed_ids m" using Cons.prems(2) \<open>elapsed now a\<close> by (simp add: expire_ok_def)
      from db that show ?thesis
        by (cases rule: get_by_id_cases) (use False \<open>al_id a \<notin> closed_ids m\<close> in \<open>metis imageI info_sel(1)\<close>)+
    qed
    then have "repo_inv K (mg_repo ?m)" by (intro resume_inv [OF Cons.prems(1) assms]) auto
    moreover have "expire_ok now as ?m"
      using ok resume_closed_ids [of now clock "Some (al_id a)" m] unfolding expire_ok_def list_all_iff by blast
    ultimately show ?thesis using Cons.IH True by (simp add: expire_each_Cons del: expire_each.simps)
  qed (use Cons ok in \<open>simp add: expire_each_Cons del: expire_each.simps\<close>)
qed simp

lemma expire_inv:
  assumes "repo_inv K (mg_repo m)" "finite K" "card K \<le> 1000" "expire_ok now as m"
  shows "repo_inv K (mg_repo (snd (expire_ignore_windows now clock as m)))"
  using assms(1) expire_each_inv [OF assms(2,3,1,4)] get_active_inv [OF expire_each_inv [OF assms(2,3,1,4)] assms(2,3)]
  by (simp add: expire_ignore_windows_def case_prod_beta)

section \<open>The system\<close>

text \<open>
  A run of the alarm engine: it reads the ongoing alerts, ends elapsed ignore windows on a snapshot read
  earlier, evaluates a rule on any snapshot, however old, or serves a request. A rule of the run is one
  of \<open>K\<close> and the id a new alert would get is fresh; requests are the legal operations of the alert
  manager (\<open>op_ok\<close>: everything but the resume of a closed alert), and likewise no window is ended on a
  snapshot older than the close of its alert (\<open>expire_ok\<close>). The code does not check either.
\<close>

inductive alarm_reach :: "string option set \<Rightarrow> alert_env \<Rightarrow> engine_env \<Rightarrow> rule_engine \<Rightarrow> rule_engine \<Rightarrow> bool"
  for K ae e eg0 where
  start: "alarm_reach K ae e eg0 eg0"
| query: "alarm_reach K ae e eg0 eg \<Longrightarrow>
    alarm_reach K ae e eg0 (eg\<lparr>eg_mgr := (eg_mgr eg)\<lparr>mg_repo := snd (get_active clock (mg_repo (eg_mgr eg)))\<rparr>\<rparr>)"
| expire: "alarm_reach K ae e eg0 eg \<Longrightarrow> expire_ok now as (eg_mgr eg) \<Longrightarrow>
    alarm_reach K ae e eg0 (eg\<lparr>eg_mgr := snd (expire_ignore_windows now clock as (eg_mgr eg))\<rparr>)"
| evaluate: "alarm_reach K ae e eg0 eg \<Longrightarrow> Some (rl_id rule) \<in> K \<Longrightarrow> fresh_id (rd_new_id rd) (eg_mgr eg) \<Longrightarrow>
    evaluate_rule_once e rd active rule eg = Inr (b, eg') \<Longrightarrow> alarm_reach K ae e eg0 eg'"
| request: "alarm_reach K ae e eg0 eg \<Longrightarrow> op_ok K op (eg_mgr eg) \<Longrightarrow>
    alarm_reach K ae e eg0 (eg\<lparr>eg_mgr := alert_step ae op (eg_mgr eg)\<rparr>)"

lemma alarm_reach_inv:
  assumes "alarm_reach K ae e (RuleEngine (fresh_manager ws ttl t0) d age) eg" "finite K" "card K \<le> 1000" "Some [] \<notin> K"
  shows "repo_inv K (mg_repo (eg_mgr eg))"
  using assms(1)
proof (induction rule: alarm_reach.induct)
  case start
  show ?case using fresh_inv [OF assms(4)] by (simp add: RuleEngine_def)
next
  case (query eg clock)
  then show ?case using get_active_inv [OF _ assms(2,3)] by simp
next
  case (expire eg now as clock)
  then show ?case using expire_inv [OF _ assms(2,3)] by simp
next
  case (evaluate eg rule rd active b eg')
  then show ?case using once_inv [OF evaluate(4) _ assms(2,3)] by blast
next
  case (request eg op)
  then show ?case using step_inv [OF _ assms(2,3)] by simp
qed

text \<open>
  C7: the alarm engine as a whole never gives a rule two ongoing alerts, as long as no closed alert is
  resumed: from an empty store, with at most 1000 rules and fresh ids for new alerts, however cycles,
  evaluations on stale snapshots, auto-resolves, expiring ignore windows and operator requests
  interleave, if no request resumes a closed alert and no ignore window is ended on a snapshot older
  than the close of its alert, then every ongoing alert of the store has its own rule, and every alert
  is in exactly one of the two tables, the ongoing ones in the hot table and the closed ones in the
  history.\<close>

theorem alarm_system_one_alert_per_rule:
  assumes "alarm_reach K ae e (RuleEngine (fresh_manager ws ttl t0) d age) eg" "finite K" "card K \<le> 1000" "Some [] \<notin> K"
  shows "distinct (map al_rule (db_alerts (rp_db (mg_repo (eg_mgr eg))))) \<and>
    distinct (map al_id (db_alerts (rp_db (mg_repo (eg_mgr eg))) @ db_history (rp_db (mg_repo (eg_mgr eg))))) \<and>
    (\<forall>r \<in> set (db_alerts (rp_db (mg_repo (eg_mgr eg)))). al_status r \<in> set ONGOING_STATUSES) \<and>
    (\<forall>r \<in> set (db_history (rp_db (mg_repo (eg_mgr eg)))). al_status r = Al_Closed)"
proof -
  have db: "db_inv K (rp_db (mg_repo (eg_mgr eg)))" using alarm_reach_inv [OF assms] by (simp add: repo_inv_def)
  have "ONGOING_STATUSES = LIVE_STATUSES" by (simp add: ONGOING_STATUSES_def LIVE_STATUSES_def)
  then show ?thesis using db_inv_rows [OF db] by auto
qed

section \<open>Alerts are raised\<close>

abbreviation hot_rules :: "alert_manager \<Rightarrow> string option set" where
  "hot_rules m \<equiv> al_rule ` set (db_alerts (rp_db (mg_repo m)))"

lemma get_active_rules:
  assumes "repo_inv K rp" "finite K" "card K \<le> 1000"
  shows "al_rule ` set (fst (get_active clock rp)) = al_rule ` set (db_alerts (rp_db rp))"
proof -
  have eq: "info ` set (fst (get_active clock rp)) = info ` set (db_alerts (rp_db rp))"
    using get_active_inv [OF assms, of clock] by blast
  show ?thesis using arg_cong [OF eq, of "image i_rule"] by (simp add: image_image)
qed

lemma upsert_rules: "al_rule ` set rows \<subseteq> al_rule ` set (upsert a rows)"
proof (cases "al_id a \<in> al_id ` set rows")
  case True
  have "map al_rule (upsert a rows) = map al_rule rows" using True by (simp add: upsert_def)
  then show ?thesis by (metis list.set_map order_refl)
qed (auto simp: upsert_def)

lemma write_live_rules:
  assumes "al_status a \<in> set LIVE_STATUSES"
  shows "al_rule ` set (db_alerts db) \<subseteq> al_rule ` set (db_alerts (write_alert a db))"
  using assms upsert_rules [of "db_alerts db" "alert_cols a"] by (simp add: write_alert_def NON_LIVE_iff Let_def)

lemma write_new_rule:
  assumes "al_status a \<in> set LIVE_STATUSES" "al_id a \<notin> al_id ` set (db_alerts db)" "al_rule a = Some rid" "rid \<noteq> []"
  shows "Some rid \<in> al_rule ` set (db_alerts (write_alert a db))"
  using assms by (simp add: write_alert_def NON_LIVE_iff Let_def upsert_def alert_cols_def or_none_def)

lemma refresh_rules: "al_rule ` set (db_alerts (rp_db (snd (repo_refresh now a v rp)))) = al_rule ` set (db_alerts (rp_db rp))"
proof -
  have "map al_rule (db_alerts (rp_db (snd (repo_refresh now a v rp)))) = map al_rule (db_alerts (rp_db rp))"
    by (simp add: repo_refresh_def bump_refresh_def Let_def)
  then show ?thesis by (metis list.set_map)
qed

text \<open>After \<open>process_alert\<close> the rule of the event has an ongoing alert, new or refreshed.\<close>

lemma process_hot_rule:
  assumes inv: "repo_inv K (mg_repo m)" and K: "finite K" "card K \<le> 1000"
    and c: "cr_rule c = Some rid" "rid \<noteq> []" "rid \<noteq> ''None''" and f: "fresh_id i m"
  shows "Some rid \<in> hot_rules (snd (process_alert show_num co i now clock c m))"
proof -
  obtain born rp1 where b: "born_window now c (mg_repo m) = (born, rp1)" by fastforce
  obtain existing rp2 where g: "get_active clock rp1 = (existing, rp2)" by fastforce
  have rp1: "repo_inv K rp1" "rp_db rp1 = rp_db (mg_repo m)"
    using born_window_inv [OF inv, of now c] born_window_db [of now c "mg_repo m"] b by simp_all
  have db: "rp_db rp2 = rp_db (mg_repo m)" using get_active_db [of clock rp1] g rp1(2) by simp
  have rules: "al_rule ` set existing = al_rule ` set (db_alerts (rp_db rp2))"
    using get_active_rules [OF rp1(1) K, of clock] g rp1(2) db by simp
  show ?thesis
  proof (rule process_cases [OF b g, of show_num co i], goal_cases refresh create)
    case refresh
    then obtain a where "a \<in> set existing" "same_rule (cr_rule c) a" by (auto simp: filter_empty_conv)
    then have "Some rid \<in> al_rule ` set existing"
      using c by (auto simp: same_rule_def rule_text_def split: option.splits intro!: rev_image_eqI)
    then show ?case unfolding rules refresh(2) by (simp add: refresh_rules)
  next
    case (create c' a rp4)
    let ?rp3 = "snd (repo_create i now c' rp2)"
    have h3: "Some rid \<in> al_rule ` set (db_alerts (rp_db ?rp3))"
      using write_new_rule [of "to_alert i now c'" "rp_db rp2" rid] c f db create(2)
      by (simp add: LIVE_iff repo_create_def save_alert_def invalidate_active_cache_def Let_def)
    have "Some rid \<in> al_rule ` set (db_alerts (rp_db rp4))" using create(4)
    proof (cases rule: born_update_repo)
      case (ignored until e)
      have "al_rule ` set (db_alerts (rp_db ?rp3)) \<subseteq> al_rule ` set (db_alerts (rp_db rp4))"
        unfolding ignored(3) using write_live_rules [OF ignored(2)] by (simp add: save_alert_def invalidate_active_cache_def)
      then show ?thesis using h3 by (rule subsetD)
    qed (use h3 in simp)
    then show ?case unfolding create(5) by (simp add: emit_db kept_alerts)
  qed
qed

section \<open>Cycles as sequences of events\<close>

text \<open>
  The system with the snapshot of the current cycle. A cycle is \<open>Ae_Query\<close>, \<open>Ae_Expire\<close> and one
  \<open>Ae_Evaluate\<close> per enabled rule, each on the snapshot of the cycle, with requests at every point where
  the engine awaits (\<open>evaluate_all_run\<close>).
\<close>

record alarm_sys =
  as_engine :: rule_engine
  as_snapshot :: "alert list"

datatype alarm_event =
    Ae_Query secs
  | Ae_Expire secs secs
  | Ae_Evaluate alarm_rule reading
  | Ae_Request alert_op

abbreviation as_mgr :: "alarm_sys \<Rightarrow> alert_manager" where
  "as_mgr s \<equiv> eg_mgr (as_engine s)"

fun sys_step :: "alert_env \<Rightarrow> engine_env \<Rightarrow> alarm_event \<Rightarrow> alarm_sys \<Rightarrow> alarm_sys" where
  "sys_step ae e (Ae_Query clock) s =
     (let (as, rp) = get_active clock (mg_repo (as_mgr s))
      in s\<lparr>as_engine := (as_engine s)\<lparr>eg_mgr := (as_mgr s)\<lparr>mg_repo := rp\<rparr>\<rparr>, as_snapshot := as\<rparr>)"
| "sys_step ae e (Ae_Expire now clock) s =
     (let (as, m) = expire_ignore_windows now clock (as_snapshot s) (as_mgr s)
      in s\<lparr>as_engine := (as_engine s)\<lparr>eg_mgr := m\<rparr>, as_snapshot := as\<rparr>)"
| "sys_step ae e (Ae_Evaluate rule rd) s =
     (case evaluate_rule_once e rd (Some (as_snapshot s)) rule (as_engine s) of
        Inl x \<Rightarrow> s | Inr (b, eg) \<Rightarrow> s\<lparr>as_engine := eg\<rparr>)"
| "sys_step ae e (Ae_Request op) s = s\<lparr>as_engine := (as_engine s)\<lparr>eg_mgr := alert_step ae op (as_mgr s)\<rparr>\<rparr>"

definition sys_run :: "alert_env \<Rightarrow> engine_env \<Rightarrow> alarm_event list \<Rightarrow> alarm_sys \<Rightarrow> alarm_sys" where
  "sys_run ae e evs s = fold (sys_step ae e) evs s"

lemma sys_run_simps [simp]:
  "sys_run ae e [] s = s" "sys_run ae e (ev # evs) s = sys_run ae e evs (sys_step ae e ev s)"
  "sys_run ae e (xs @ ys) s = sys_run ae e ys (sys_run ae e xs s)"
  by (simp_all add: sys_run_def)

fun sys_ok :: "string option set \<Rightarrow> alarm_event \<Rightarrow> alarm_sys \<Rightarrow> bool" where
  "sys_ok K (Ae_Query clock) s \<longleftrightarrow> True"
| "sys_ok K (Ae_Expire now clock) s \<longleftrightarrow> expire_ok now (as_snapshot s) (as_mgr s)"
| "sys_ok K (Ae_Evaluate rule rd) s \<longleftrightarrow> Some (rl_id rule) \<in> K \<and> fresh_id (rd_new_id rd) (as_mgr s)"
| "sys_ok K (Ae_Request op) s \<longleftrightarrow> op_ok K op (as_mgr s)"

fun sys_legal :: "string option set \<Rightarrow> alert_env \<Rightarrow> engine_env \<Rightarrow> alarm_event list \<Rightarrow> alarm_sys \<Rightarrow> bool" where
  "sys_legal K ae e [] s \<longleftrightarrow> True"
| "sys_legal K ae e (ev # evs) s \<longleftrightarrow> sys_ok K ev s \<and> sys_legal K ae e evs (sys_step ae e ev s)"

lemma sys_legal_append [simp]:
  "sys_legal K ae e (xs @ ys) s \<longleftrightarrow> sys_legal K ae e xs s \<and> sys_legal K ae e ys (sys_run ae e xs s)"
  by (induction xs arbitrary: s) simp_all

lemma sys_step_reach:
  "alarm_reach K ae e eg0 (as_engine s) \<Longrightarrow> sys_ok K ev s \<Longrightarrow> alarm_reach K ae e eg0 (as_engine (sys_step ae e ev s))"
  by (cases ev) (auto simp: Let_def case_prod_beta split: sum.splits
      intro: alarm_reach.query alarm_reach.expire alarm_reach.evaluate alarm_reach.request)

lemma sys_run_reach:
  "alarm_reach K ae e eg0 (as_engine s) \<Longrightarrow> sys_legal K ae e evs s \<Longrightarrow> alarm_reach K ae e eg0 (as_engine (sys_run ae e evs s))"
  by (induction evs arbitrary: s) (simp_all add: sys_step_reach)

text \<open>\<open>evaluate_all\<close> is such a sequence, whatever requests are served while it awaits.\<close>

definition serve :: "alert_env \<Rightarrow> alert_op list \<Rightarrow> alert_manager \<Rightarrow> alert_manager" where
  "serve ae ops m = fold (alert_step ae) ops m"

definition rule_events :: "(alarm_rule \<times> reading \<times> alert_op list) list \<Rightarrow> alarm_event list" where
  "rule_events rules = concat (map (\<lambda>(rule, rd, ops). Ae_Evaluate rule rd # map Ae_Request ops) rules)"

lemma serve_run: "sys_run ae e (map Ae_Request ops) s = s\<lparr>as_engine := (as_engine s)\<lparr>eg_mgr := serve ae ops (as_mgr s)\<rparr>\<rparr>"
  by (induction ops arbitrary: s) (simp_all add: serve_def)

lemma evaluate_each_run:
  "sys_run ae e (rule_events rules) s =
     s\<lparr>as_engine := snd (evaluate_each e (as_snapshot s) (map (\<lambda>(rule, rd, ops). (rule, rd, serve ae ops)) rules) (as_engine s))\<rparr>"
proof (induction rules arbitrary: s)
  case (Cons x rules)
  obtain rule rd ops where x: "x = (rule, rd, ops)" by (cases x)
  have "rule_events (x # rules) = Ae_Evaluate rule rd # map Ae_Request ops @ rule_events rules"
    by (simp add: rule_events_def x)
  then show ?case using Cons.IH
    by (cases "evaluate_rule_once e rd (Some (as_snapshot s)) rule (as_engine s)")
      (simp_all add: x serve_run case_prod_beta Let_def)
qed (simp add: rule_events_def)

lemma evaluate_all_run:
  "snd (evaluate_all e clock (serve ae ops) now clock' (map (\<lambda>(rule, rd, ops). (rule, rd, serve ae ops)) rules) (as_engine s)) =
     as_engine (sys_run ae e (Ae_Query clock # map Ae_Request ops @ Ae_Expire now clock' #
       rule_events (filter (\<lambda>(rule, rd, ops). rl_enabled rule) rules)) s)"
proof -
  have f: "filter (\<lambda>(rule, rd, between). rl_enabled rule) (map (\<lambda>(rule, rd, ops). (rule, rd, serve ae ops)) rules) =
      map (\<lambda>(rule, rd, ops). (rule, rd, serve ae ops)) (filter (\<lambda>(rule, rd, ops). rl_enabled rule) rules)"
    by (induction rules) auto
  show ?thesis
    by (simp add: evaluate_all_def f evaluate_each_run serve_run case_prod_beta Let_def)
qed

section \<open>Sustained breaches raise alerts\<close>

lemma get_active_quiet:
  assumes "repo_inv K rp" "finite K" "card K \<le> 1000" "rid \<noteq> ''None''" "Some rid \<notin> al_rule ` set (db_alerts (rp_db rp))"
  shows "ongoing_of rid (fst (get_active clock rp)) = []"
proof (rule ccontr)
  assume "ongoing_of rid (fst (get_active clock rp)) \<noteq> []"
  then obtain a where "a \<in> set (fst (get_active clock rp))" "rule_text (al_rule a) = rid"
    by (auto simp: ongoing_of_def filter_empty_conv)
  then have "Some rid \<in> al_rule ` set (fst (get_active clock rp))"
    using assms(4) by (auto simp: rule_text_def split: option.splits intro!: rev_image_eqI)
  then show False using assms(5) unfolding get_active_rules [OF assms(1-3)] by blast
qed

lemma expire_snapshot:
  obtains "fst (expire_ignore_windows now clock as m) = as"
  | "fst (expire_ignore_windows now clock as m) = fst (get_active clock (mg_repo (snd (expire_each now clock as m))))"
    "rp_db (mg_repo (snd (expire_ignore_windows now clock as m))) = rp_db (mg_repo (snd (expire_each now clock as m)))"
  using get_active_db [of clock "mg_repo (snd (expire_each now clock as m))"]
  by (cases "as = [] \<or> \<not> fst (expire_each now clock as m)") (auto simp: expire_ignore_windows_def case_prod_beta)

text \<open>On a snapshot without an alert of the rule, a breach raises one or lengthens the rule's streak.\<close>

lemma breach_progress:
  assumes inv: "repo_inv K (mg_repo (eg_mgr eg))" and K: "finite K" "card K \<le> 1000" "Some [] \<notin> K"
    and r: "Some (rl_id rule) \<in> K" "rl_id rule \<noteq> ''None''" and f: "fresh_id (rd_new_id rd) (eg_mgr eg)"
    and q: "ongoing_of (rl_id rule) as = []" and vd: "verdict (eg_max_age eg) rule rd = V_Breach"
    and once: "evaluate_rule_once e rd (Some as) rule eg = Inr (b, eg')"
  shows "Some (rl_id rule) \<in> hot_rules (eg_mgr eg') \<or>
    breach_of eg' (rl_id rule) = breach_of eg (rl_id rule) + 1 \<and> breach_of eg' (rl_id rule) < max 1 (rl_min_trigger rule)"
  using once
proof (cases rule: once_cases)
  case (breach points c v x)
  have "rl_id rule \<noteq> []" using K(3) r(1) by auto
  then have "Some (rl_id rule) \<in> hot_rules (snd (process_alert (ee_num e) (ee_corr e) (rd_new_id rd) (rd_now rd) (rd_clock rd) c (eg_mgr eg)))"
    using evaluate_rule_alert [OF breach(2)] r(2) by (intro process_hot_rule [OF inv K(1,2) _ _ _ f]) auto
  then show ?thesis using breach(3,4) q
    by (auto simp: on_breach_def snapshot_or_query_def Let_def case_prod_beta breach_of_def dict_simps split: if_splits option.splits)
qed (use vd in \<open>auto split: if_splits\<close>)

lemma alarm_reach_streak:
  "alarm_reach K ae e (RuleEngine m d age) eg \<Longrightarrow> 0 \<le> breach_of eg rid \<and> eg_max_age eg = age"
proof (induction rule: alarm_reach.induct)
  case (evaluate eg rule rd active b eg')
  note st = streak_step [OF evaluate.hyps(4), of rid]
  show ?case
  proof (cases "rid = rl_id rule")
    case True
    then show ?thesis using st evaluate.IH by (cases "verdict (eg_max_age eg) rule rd") auto
  qed (use st evaluate.IH in simp)
qed (simp_all add: RuleEngine_def breach_of_def dict_get_or_def)

definition evaluates :: "string \<Rightarrow> alarm_event \<Rightarrow> bool" where
  "evaluates rid ev = (case ev of Ae_Evaluate rule rd \<Rightarrow> rl_id rule = rid | _ \<Rightarrow> False)"

lemma quiet_step:
  assumes inv: "repo_inv K (mg_repo (as_mgr s))" and K: "finite K" "card K \<le> 1000" and rid: "rid \<noteq> ''None''"
    and q: "ongoing_of rid (as_snapshot s) = []" and ok: "sys_ok K ev s"
    and cold: "Some rid \<notin> hot_rules (as_mgr (sys_step ae e ev s))"
  shows "ongoing_of rid (as_snapshot (sys_step ae e ev s)) = []"
proof (cases ev)
  case (Ae_Query clock)
  then show ?thesis using cold get_active_db [of clock "mg_repo (as_mgr s)"]
    by (auto simp: case_prod_beta Let_def intro!: get_active_quiet [OF inv K rid])
next
  case (Ae_Expire now clock)
  have inv': "repo_inv K (mg_repo (snd (expire_each now clock (as_snapshot s) (as_mgr s))))"
    using expire_each_inv [OF K inv] ok Ae_Expire by simp
  show ?thesis
    by (rule expire_snapshot [of now clock "as_snapshot s" "as_mgr s"])
      (use cold q Ae_Expire in \<open>auto simp: case_prod_beta Let_def intro!: get_active_quiet [OF inv' K rid]\<close>)
qed (use q in \<open>auto split: sum.splits\<close>)

lemma cold_step:
  assumes inv: "repo_inv K (mg_repo (as_mgr s))" and K: "finite K" "card K \<le> 1000" "Some [] \<notin> K"
    and r: "rl_id rule \<noteq> ''None''" and q: "ongoing_of (rl_id rule) (as_snapshot s) = []" and ok: "sys_ok K ev s"
    and br: "\<forall>rule' rd. ev = Ae_Evaluate rule' rd \<and> rl_id rule' = rl_id rule \<longrightarrow>
      rule' = rule \<and> verdict (eg_max_age (as_engine s)) rule rd = V_Breach"
    and cold: "Some (rl_id rule) \<notin> hot_rules (as_mgr (sys_step ae e ev s))"
  defines "b \<equiv> breach_of (as_engine s) (rl_id rule)" and "b' \<equiv> breach_of (as_engine (sys_step ae e ev s)) (rl_id rule)"
  shows "if evaluates (rl_id rule) ev then b' = b + 1 \<and> b' < max 1 (rl_min_trigger rule) else b' = b"
proof (cases ev)
  case (Ae_Evaluate rule' rd)
  show ?thesis
  proof (cases "evaluate_rule_once e rd (Some (as_snapshot s)) rule' (as_engine s)")
    case (Inl x)
    then show ?thesis using once_error [OF Inl] br Ae_Evaluate by (auto simp: evaluates_def b_def b'_def)
  next
    case (Inr y)
    obtain c eg' where y: "y = (c, eg')" by (cases y)
    note once = Inr [unfolded y]
    have s': "as_engine (sys_step ae e ev s) = eg'" using Ae_Evaluate once by simp
    show ?thesis
    proof (cases "rl_id rule' = rl_id rule")
      case True
      then have [simp]: "rule' = rule" and vd: "verdict (eg_max_age (as_engine s)) rule rd = V_Breach" using br Ae_Evaluate by auto
      have "Some (rl_id rule) \<in> K" "fresh_id (rd_new_id rd) (as_mgr s)" using ok Ae_Evaluate by auto
      then show ?thesis using breach_progress [OF inv K _ r _ q vd once [simplified]] cold Ae_Evaluate
        unfolding b_def b'_def s' by (auto simp: evaluates_def)
    next
      case False
      then show ?thesis using streak_step [OF once, of "rl_id rule"] Ae_Evaluate
        unfolding b_def b'_def s' by (auto simp: evaluates_def)
    qed
  qed
qed (auto simp: evaluates_def b_def b'_def breach_of_def Let_def case_prod_beta)

lemma cold_run:
  assumes reach: "alarm_reach K ae e (RuleEngine (fresh_manager ws ttl t0) d age) (as_engine s)"
    and K: "finite K" "card K \<le> 1000" "Some [] \<notin> K" and r: "rl_id rule \<noteq> ''None''"
    and q: "ongoing_of (rl_id rule) (as_snapshot s) = []" and "sys_legal K ae e evs s"
    and "\<forall>rule' rd. Ae_Evaluate rule' rd \<in> set evs \<longrightarrow> rl_id rule' = rl_id rule \<longrightarrow>
      rule' = rule \<and> verdict age rule rd = V_Breach"
    and "\<forall>xs ys. evs = xs @ ys \<longrightarrow> Some (rl_id rule) \<notin> hot_rules (as_mgr (sys_run ae e xs s))"
  defines "n \<equiv> \<lambda>evs. int (length (filter (evaluates (rl_id rule)) evs))"
    and "b \<equiv> \<lambda>evs. breach_of (as_engine (sys_run ae e evs s)) (rl_id rule)"
  shows "ongoing_of (rl_id rule) (as_snapshot (sys_run ae e evs s)) = [] \<and> n evs \<le> b evs \<and>
    (n evs = 0 \<or> b evs < max 1 (rl_min_trigger rule))"
  using assms(7-9)
proof (induction evs rule: rev_induct)
  case Nil
  show ?case using q alarm_reach_streak [OF reach] by (simp add: n_def b_def)
next
  case (snoc ev evs)
  let ?s = "sys_run ae e evs s"
  have "Some (rl_id rule) \<notin> hot_rules (as_mgr (sys_run ae e xs s))" if "evs = xs @ ys" for xs ys
    using snoc.prems(3) [rule_format, of xs "ys @ [ev]"] that by simp
  then have ih: "ongoing_of (rl_id rule) (as_snapshot ?s) = []" "n evs \<le> b evs" "n evs = 0 \<or> b evs < max 1 (rl_min_trigger rule)"
    using snoc.IH snoc.prems(1,2) by auto
  have reach': "alarm_reach K ae e (RuleEngine (fresh_manager ws ttl t0) d age) (as_engine ?s)"
    using sys_run_reach [OF reach] snoc.prems(1) by simp
  note inv = alarm_reach_inv [OF reach' K]
  have ok: "sys_ok K ev ?s" using snoc.prems(1) by simp
  have cold: "Some (rl_id rule) \<notin> hot_rules (as_mgr (sys_step ae e ev ?s))"
    using snoc.prems(3) [rule_format, of "evs @ [ev]" "[]"] by simp
  have "eg_max_age (as_engine ?s) = age" using alarm_reach_streak [OF reach'] by blast
  then have br: "\<forall>rule' rd. ev = Ae_Evaluate rule' rd \<and> rl_id rule' = rl_id rule \<longrightarrow>
      rule' = rule \<and> verdict (eg_max_age (as_engine ?s)) rule rd = V_Breach" using snoc.prems(2) by auto
  show ?case using quiet_step [OF inv K(1,2) r ih(1) ok cold] cold_step [OF inv K r ih(1) ok br cold] ih(2,3)
    by (auto simp: n_def b_def split: if_splits)
qed

text \<open>
  C11: a sustained breach raises an alert: in every state the alarm engine can reach from an empty store,
  with at most 1000 rules, take any sequence of events that begins with the read of a cycle's snapshot and
  goes on over any number of cycles, with requests and other rules in between, in which new alerts get
  fresh ids and no closed alert is resumed. If every evaluation of a rule in it breaches, and there are as
  many of them as the rule asks for, then at some point of the sequence the rule has an ongoing alert in
  the store: one that was there when the snapshot was read or one that was raised on the way. An
  operator may close it again afterwards.\<close>

theorem sustained_breach_raises_alert:
  assumes "alarm_reach K ae e (RuleEngine (fresh_manager ws ttl t0) d age) (as_engine s)" "finite K" "card K \<le> 1000" "Some [] \<notin> K"
    and "rl_id rule \<noteq> ''None''" "sys_legal K ae e (Ae_Query clock # evs) s"
    and "\<forall>rule' rd. Ae_Evaluate rule' rd \<in> set evs \<longrightarrow> rl_id rule' = rl_id rule \<longrightarrow>
      rule' = rule \<and> verdict age rule rd = V_Breach"
    and "max 1 (rl_min_trigger rule) \<le> int (length (filter (evaluates (rl_id rule)) evs))"
  shows "\<exists>xs ys. evs = xs @ ys \<and>
    Some (rl_id rule) \<in> al_rule ` set (db_alerts (rp_db (mg_repo (as_mgr (sys_run ae e (Ae_Query clock # xs) s)))))"
proof (rule ccontr)
  let ?s = "sys_step ae e (Ae_Query clock) s"
  assume "\<not> ?thesis"
  then have cold: "Some (rl_id rule) \<notin> hot_rules (as_mgr (sys_run ae e xs ?s))" if "evs = xs @ ys" for xs ys
    using that unfolding sys_run_simps(2) by blast
  have reach: "alarm_reach K ae e (RuleEngine (fresh_manager ws ttl t0) d age) (as_engine ?s)"
    by (rule sys_step_reach [OF assms(1)]) simp
  have "Some (rl_id rule) \<notin> hot_rules (as_mgr s)"
    using cold [of "[]" evs] get_active_db [of clock "mg_repo (as_mgr s)"] by (simp add: case_prod_beta Let_def)
  then have "ongoing_of (rl_id rule) (as_snapshot ?s) = []"
    using get_active_quiet [OF alarm_reach_inv [OF assms(1-4)] assms(2,3,5), of clock] by (simp add: case_prod_beta Let_def)
  from cold_run [OF reach assms(2-5) this, of evs] show False
    using assms(6-8) cold by (auto simp del: sys_step.simps)
qed

section \<open>Example runs\<close>

text \<open>
  In the runs below a rule with the default cycle counts sees readings of 90 and 70 degrees against a
  threshold of 80. Square roots and rendered numbers stay symbolic when the runs are evaluated.
\<close>

declare std_dev_def [code del] fmt_value_def [code del]

definition ex_reading :: "real \<Rightarrow> secs \<Rightarrow> string \<Rightarrow> reading" where
  "ex_reading v now i = \<lparr>rd_points = Some [ex_point v now], rd_now = now, rd_clock = now, rd_tod = 43200, rd_new_id = i\<rparr>"

text \<open>A call of \<open>_evaluate_rule\<close> outside a cycle, which queries the ongoing alerts itself.\<close>

definition ex_turn :: "reading \<Rightarrow> turn" where
  "ex_turn rd = \<lparr>tn_rule = ex_rule, tn_reading = rd, tn_snapshot = None, tn_between = id\<rparr>"

definition ex_engine_env :: engine_env where
  "ex_engine_env = \<lparr>ee_num = (\<lambda>_. []), ee_corr = en_corr ex_env\<rparr>"

definition ex_engine :: "reading list \<Rightarrow> rule_engine" where
  "ex_engine rds = fold (take_turn ex_engine_env) (map (ex_turn) rds) (RuleEngine (fresh_manager False 10 0) True 120)"

definition ex_once :: "reading \<Rightarrow> rule_engine \<Rightarrow> bool \<times> rule_engine" where
  "ex_once rd eg = (case evaluate_rule_once ex_engine_env rd None ex_rule eg of Inl x \<Rightarrow> (False, eg) | Inr r \<Rightarrow> r)"

lemma ex_onceI:
  "verdict (eg_max_age eg) ex_rule rd \<noteq> V_Unchanged \<Longrightarrow>
     evaluate_rule_once ex_engine_env rd None ex_rule eg = Inr (fst (ex_once rd eg), snd (ex_once rd eg))"
  using once_error [of ex_engine_env rd None ex_rule eg]
  by (cases "evaluate_rule_once ex_engine_env rd None ex_rule eg") (auto simp: ex_once_def)

theorem alert_needs_consecutive_breaches_witness:
  "max 1 (nat (rl_min_trigger ex_rule)) \<le> trailing V_Breach
     (verdicts 120 ''r1'' [ex_turn (ex_reading 90 1 ''a1'')] @ [verdict 120 ex_rule (ex_reading 90 2 ''a2'')])"
proof -
  let ?eg = "ex_engine [ex_reading 90 1 ''a1'']"
  have v: "verdict (eg_max_age ?eg) ex_rule (ex_reading 90 2 ''a2'') \<noteq> V_Unchanged" by code_simp
  have b: "fst (ex_once (ex_reading 90 2 ''a2'') ?eg)" by code_simp
  have rid: "rl_id ex_rule = ''r1''" by (simp add: ex_rule_def)
  have "evaluate_rule_once ex_engine_env (ex_reading 90 2 ''a2'') None ex_rule
      (fold (take_turn ex_engine_env) [ex_turn (ex_reading 90 1 ''a1'')] (RuleEngine (fresh_manager False 10 0) True 120)) =
      Inr (True, snd (ex_once (ex_reading 90 2 ''a2'') ?eg))"
    using ex_onceI [OF v] b by (simp add: ex_engine_def prod_eq_iff)
  from alert_needs_consecutive_breaches [OF this] show ?thesis unfolding rid .
qed

theorem auto_resolve_needs_consecutive_ok_witness:
  "nat (rl_auto_resolve ex_rule) \<le> trailing V_Ok
     (verdicts 120 ''r1'' (map (ex_turn) [ex_reading 90 1 ''a1'', ex_reading 90 2 ''a2'', ex_reading 70 3 ''a3'']) @
      [verdict 120 ex_rule (ex_reading 70 4 ''a4'')])"
proof -
  let ?rds = "[ex_reading 90 1 ''a1'', ex_reading 90 2 ''a2'', ex_reading 70 3 ''a3'']" and ?rd = "ex_reading 70 4 ''a4''"
  let ?eg = "ex_engine ?rds"
  have v: "verdict (eg_max_age ?eg) ex_rule ?rd \<noteq> V_Unchanged" by code_simp
  have new: "''a2'' \<in> al_id ` set (db_history (rp_db (mg_repo (eg_mgr (snd (ex_once ?rd ?eg))))))" by code_simp
  have old: "''a2'' \<notin> al_id ` set (db_history (rp_db (mg_repo (eg_mgr ?eg))))" by code_simp
  have rid: "rl_id ex_rule = ''r1''" by (simp add: ex_rule_def)
  from auto_resolve_needs_consecutive_ok [OF ex_onceI [OF v, unfolded ex_engine_def] _ old [unfolded ex_engine_def]]
  show ?thesis using new unfolding rid ex_engine_def by blast
qed

theorem skipped_reading_inert_witness:
  "\<exists>eg'. evaluate_rule_once ex_engine_env (ex_reading 90 1 ''a1'' \<lparr>rd_now := 1000\<rparr>) None ex_rule (ex_engine []) = Inr (False, eg') \<and>
     eg_mgr eg' = eg_mgr (ex_engine [])"
proof -
  have "point_age_s 1000 (ex_point 90 1) > eg_max_age (ex_engine [])" by code_simp
  then show ?thesis
    using skipped_reading_inert [of "ex_reading 90 1 ''a1'' \<lparr>rd_now := 1000\<rparr>" "[ex_point 90 1]" "ex_engine []" ex_rule ex_engine_env None]
    by (auto simp: ex_reading_def)
qed

lemma ex_engine_reach:
  "alarm_reach {Some ''r1''} ex_env ex_engine_env (RuleEngine (fresh_manager False 10 0) True 120)
     (snd (ex_once (ex_reading 90 1 ''a1'') (ex_engine [])))"
proof (rule alarm_reach.evaluate [OF alarm_reach.start])
  have "verdict (eg_max_age (ex_engine [])) ex_rule (ex_reading 90 1 ''a1'') \<noteq> V_Unchanged" by code_simp
  from ex_onceI [OF this] show "evaluate_rule_once ex_engine_env (ex_reading 90 1 ''a1'') None ex_rule
      (RuleEngine (fresh_manager False 10 0) True 120) = Inr (fst (ex_once (ex_reading 90 1 ''a1'') (ex_engine [])), snd (ex_once (ex_reading 90 1 ''a1'') (ex_engine [])))"
    by (simp only: ex_engine_def list.map fold.simps id_apply)
qed (simp_all add: ex_rule_def RuleEngine_def fresh_manager_def AlertRepository_def)

theorem alarm_system_one_alert_per_rule_witness:
  "distinct (map al_rule (db_alerts (rp_db (mg_repo (eg_mgr (snd (ex_once (ex_reading 90 1 ''a1'') (ex_engine []))))))))"
  using alarm_system_one_alert_per_rule [OF ex_engine_reach] by simp

text \<open>Two cycles with a breaching reading each.\<close>

definition ex_sys :: alarm_sys where
  "ex_sys = \<lparr>as_engine = RuleEngine (fresh_manager False 10 0) True 120, as_snapshot = []\<rparr>"

definition ex_cycles :: "alarm_event list" where
  "ex_cycles = [Ae_Expire 1 1, Ae_Evaluate ex_rule (ex_reading 90 1 ''a1''),
     Ae_Query 2, Ae_Expire 2 2, Ae_Evaluate ex_rule (ex_reading 90 2 ''a2'')]"

lemma ex_sys_reach: "alarm_reach {Some ''r1''} ex_env ex_engine_env (RuleEngine (fresh_manager False 10 0) True 120) (as_engine ex_sys)"
  by (simp add: ex_sys_def alarm_reach.start)

theorem sustained_breach_raises_alert_witness:
  "db_alerts (rp_db (mg_repo (as_mgr ex_sys))) = [] \<and>
   (\<exists>xs ys. ex_cycles = xs @ ys \<and>
     Some ''r1'' \<in> al_rule ` set (db_alerts (rp_db (mg_repo (as_mgr (sys_run ex_env ex_engine_env (Ae_Query 1 # xs) ex_sys))))))"
proof -
  have legal: "sys_legal {Some ''r1''} ex_env ex_engine_env (Ae_Query 1 # ex_cycles) ex_sys" by code_simp
  have "verdict 120 ex_rule (ex_reading 90 1 ''a1'') = V_Breach" "verdict 120 ex_rule (ex_reading 90 2 ''a2'') = V_Breach"
    by code_simp+
  then have br: "\<forall>rule' rd. Ae_Evaluate rule' rd \<in> set ex_cycles \<longrightarrow> rl_id rule' = rl_id ex_rule \<longrightarrow>
      rule' = ex_rule \<and> verdict 120 ex_rule rd = V_Breach" by (auto simp: ex_cycles_def)
  have n: "max 1 (rl_min_trigger ex_rule) \<le> int (length (filter (evaluates (rl_id ex_rule)) ex_cycles))" by code_simp
  have rid: "rl_id ex_rule = ''r1''" by (simp add: ex_rule_def)
  have "db_alerts (rp_db (mg_repo (as_mgr ex_sys))) = []"
    by (simp add: ex_sys_def RuleEngine_def fresh_manager_def AlertRepository_def)
  then show ?thesis using sustained_breach_raises_alert [OF ex_sys_reach _ _ _ _ legal br n] unfolding rid by simp
qed

end
