(* ===== verification/DispatchProps.thy ===== *)
theory DispatchProps
  imports NotificationDispatcher AlarmSystem
begin

text \<open>
  What the dispatcher guarantees over any interleaving of dispatch tasks: repeats keep their distance,
  a clear is announced only to those who heard the alarm, and together with the rule engine an alert
  an operator has handled makes no more noise.
\<close>

section \<open>Runs of the dispatcher\<close>

datatype nd_op =
    Op_Begin secs secs bool "alert list" "channel list" "policy list" alert notify_event
  | Op_Sent bool string secs task channel "string option"
  | Op_End task

fun nd_step :: "nd_op \<Rightarrow> dispatcher \<Rightarrow> dispatcher" where
  "nd_step (Op_Begin clock tick per_incident active channels policies a ev) d =
     snd (dispatch_begin clock tick per_incident active channels policies a ev d)"
| "nd_step (Op_Sent ws url tick tk c err) d = send_channel ws url tick tk c err d"
| "nd_step (Op_End tk) d = dispatch_end tk d"

text \<open>
  The log of a run, read off what the dispatcher does: \<open>L_Sent p a t\<close> when a firing task for alert \<open>a\<close>
  at time \<open>t\<close> stamps the trigger counter of policy \<open>p\<close>, and \<open>L_Clear a\<close> when the dispatcher is told that
  the alert is over.
\<close>

datatype nd_log = L_Sent string string secs | L_Clear string

definition newly_bumped :: "dispatcher \<Rightarrow> dispatcher \<Rightarrow> string list" where
  "newly_bumped d d' = drop (length (nd_bumped d)) (nd_bumped d')"

fun log_of :: "nd_op \<Rightarrow> dispatcher \<Rightarrow> nd_log list" where
  "log_of (Op_Begin clock tick per_incident active channels policies a ev) d =
     (case ev of
        Acked \<Rightarrow> []
      | Cleared \<Rightarrow> [L_Clear (al_id a)]
      | Firing \<Rightarrow> map (\<lambda>q. L_Sent q (al_id a) clock)
          (newly_bumped d (snd (dispatch_begin clock tick per_incident active channels policies a Firing d))))"
| "log_of _ d = []"

fun nd_run :: "nd_op list \<Rightarrow> dispatcher \<times> nd_log list \<Rightarrow> dispatcher \<times> nd_log list" where
  "nd_run [] s = s"
| "nd_run (op # ops) (d, L) = nd_run ops (nd_step op d, L @ log_of op d)"

lemma nd_run_snoc: "nd_run (ops @ [op]) s = (nd_step op (fst (nd_run ops s)), snd (nd_run ops s) @ log_of op (fst (nd_run ops s)))"
  by (induction ops s rule: nd_run.induct) auto

text \<open>The time policy \<open>p\<close> last sent for alert \<open>a\<close> since the alert was last cleared.\<close>

fun note_sent :: "string \<Rightarrow> string \<Rightarrow> nd_log \<Rightarrow> secs option \<Rightarrow> secs option" where
  "note_sent p a (L_Sent q b t) s = (if q = p \<and> b = a then Some t else s)"
| "note_sent p a (L_Clear b) s = (if b = a then None else s)"

definition last_sent :: "string \<Rightarrow> string \<Rightarrow> nd_log list \<Rightarrow> secs option" where
  "last_sent p a L = fold (note_sent p a) L None"

lemma last_sent_snoc: "last_sent p a (L @ [x]) = note_sent p a x (last_sent p a L)"
  by (simp add: last_sent_def)

section \<open>What a firing changes\<close>

lemma bump_sel [simp]: "nd_last (bump_policy_trigger p d) = nd_last d" "nd_first (bump_policy_trigger p d) = nd_first d"
  "nd_breach (bump_policy_trigger p d) = nd_breach d" "nd_incident (bump_policy_trigger p d) = nd_incident d"
  by (simp_all add: bump_policy_trigger_def)

lemma due_other:
  "po_id p \<noteq> q \<Longrightarrow> due a b now p (bump_policy_trigger r (d\<lparr>nd_last := dict_set (q, al_id a) now (nd_last d),
     nd_first := List.insert (q, al_id a) (nd_first d)\<rparr>)) = due a b now p d"
  by (auto simp: due_def Let_def dict_simps)

lemma set_add_all: "set (add_all xs m) = set xs \<union> set m"
  unfolding add_all_def by (induction xs arbitrary: m) auto

lemma due_later:
  assumes "distinct (map po_id (p # ps))"
  shows "filter (\<lambda>q. due a b now q (bump_policy_trigger p (d\<lparr>nd_last := dict_set (po_id p, al_id a) now (nd_last d),
      nd_first := List.insert (po_id p, al_id a) (nd_first d)\<rparr>))) ps = filter (\<lambda>q. due a b now q d) ps"
proof (intro filter_cong refl due_other)
  fix q assume "q \<in> set ps"
  from imageI [OF this, of po_id] show "po_id q \<noteq> po_id p" using assms by auto
qed

lemma fire_policies_effect:
  fixes a :: alert and b :: int and now :: secs
  assumes "distinct (map po_id ps)"
  defines "hits \<equiv> \<lambda>d. filter (\<lambda>p. due a b now p d) ps"
  shows "set (nd_first (snd (fire_policies a b now ps (m, d)))) = set (nd_first d) \<union> {(pid, al_id a) |pid. pid \<in> po_id ` set (hits d)} \<and>
    dict_get (nd_last (snd (fire_policies a b now ps (m, d)))) (pid, aid) =
      (if aid = al_id a \<and> pid \<in> po_id ` set (hits d) then Some now else dict_get (nd_last d) (pid, aid))"
  using assms(1) unfolding hits_def
proof (induction ps arbitrary: m d)
  case (Cons p ps)
  let ?d = "bump_policy_trigger p (d\<lparr>nd_last := dict_set (po_id p, al_id a) now (nd_last d),
      nd_first := List.insert (po_id p, al_id a) (nd_first d)\<rparr>)"
  note eq = due_later [OF Cons.prems, of a b now d]
  show ?case
  proof (cases "due a b now p d")
    case True
    have "po_id p \<notin> po_id ` set (filter (\<lambda>q. due a b now q d) ps)" using Cons.prems by auto
    then show ?thesis using Cons.IH [of "add_all (po_channels p) m" ?d] Cons.prems True by (auto simp: eq dict_simps)
  next
    case False
    then show ?thesis using Cons.IH Cons.prems by auto
  qed
qed simp

lemma fire_policies_selection:
  fixes a :: alert and b :: int and now :: secs
  assumes "distinct (map po_id ps)"
  defines "hits \<equiv> \<lambda>d. filter (\<lambda>p. due a b now p d) ps"
  shows "nd_bumped (snd (fire_policies a b now ps (m, d))) = nd_bumped d @ map po_id (hits d)"
    and "set (fst (fire_policies a b now ps (m, d))) = set m \<union> (\<Union>p \<in> set (hits d). set (po_channels p))"
proof -
  have "nd_bumped (snd (fire_policies a b now ps (m, d))) = nd_bumped d @ map po_id (filter (\<lambda>p. due a b now p d) ps) \<and>
      set (fst (fire_policies a b now ps (m, d))) = set m \<union> (\<Union>p \<in> set (filter (\<lambda>p. due a b now p d) ps). set (po_channels p))"
    using assms(1)
  proof (induction ps arbitrary: m d)
    case (Cons p ps)
    note eq = due_later [OF Cons.prems, of a b now d]
    have dist: "distinct (map po_id ps)" using Cons.prems by simp
    show ?case
    proof (cases "due a b now p d")
      case True
      let ?d = "bump_policy_trigger p (d\<lparr>nd_last := dict_set (po_id p, al_id a) now (nd_last d),
        nd_first := List.insert (po_id p, al_id a) (nd_first d)\<rparr>)"
      have "nd_bumped ?d = nd_bumped d @ [po_id p]" by (simp add: bump_policy_trigger_def)
      then show ?thesis using True Cons.IH [OF dist, of "add_all (po_channels p) m" ?d]
        by (simp only: eq fire_policies.simps if_True filter.simps list.map set_add_all list.set UN_insert) (simp add: Un_ac)
    next
      case False
      then show ?thesis using Cons.IH [OF dist, of m d] by (simp only: fire_policies.simps filter.simps if_False)
    qed
  qed simp
  then show "nd_bumped (snd (fire_policies a b now ps (m, d))) = nd_bumped d @ map po_id (hits d)"
    "set (fst (fire_policies a b now ps (m, d))) = set m \<union> (\<Union>p \<in> set (hits d). set (po_channels p))"
    unfolding hits_def by blast+
qed

lemma clear_policies_sel:
  "nd_first (snd (clear_policies a ps (m, d))) = nd_first d" "nd_last (snd (clear_policies a ps (m, d))) = nd_last d"
  "nd_incident (snd (clear_policies a ps (m, d))) = nd_incident d"
  by (induction ps arbitrary: m d) auto

lemma sweep_sel [simp]: "nd_last (sweep_incident_dispatched t as d) = nd_last d" "nd_first (sweep_incident_dispatched t as d) = nd_first d"
  "nd_bumped (sweep_incident_dispatched t as d) = nd_bumped d"
  by (simp_all add: sweep_incident_dispatched_def)

lemma incident_sel [simp]: "nd_last (record_incident_dispatch t a d) = nd_last d" "nd_first (record_incident_dispatch t a d) = nd_first d"
  "nd_bumped (record_incident_dispatch t a d) = nd_bumped d"
  by (simp_all add: record_incident_dispatch_def split: option.splits)

lemma send_channel_sel [simp]: "nd_last (send_channel ws url t tk c err d) = nd_last d" "nd_first (send_channel ws url t tk c err d) = nd_first d"
  by (auto simp: send_channel_def record_delivery_def Let_def split: option.splits)

lemma dispatch_end_sel [simp]: "nd_last (dispatch_end tk d) = nd_last d" "nd_first (dispatch_end tk d) = nd_first d"
  by (auto simp: dispatch_end_def Let_def split: option.splits)

lemma begin_sel:
  "nd_last (snd (dispatch_begin clock t pin as chs ps a ev d)) =
     nd_last (snd (policies_that_should_dispatch clock a ev (enabled_policies ps) d))"
  "nd_first (snd (dispatch_begin clock t pin as chs ps a ev d)) =
     nd_first (snd (policies_that_should_dispatch clock a ev (enabled_policies ps) d))"
  "nd_bumped (snd (dispatch_begin clock t pin as chs ps a ev d)) =
     nd_bumped (snd (policies_that_should_dispatch clock a ev (enabled_policies ps) d))"
  by (simp_all add: dispatch_begin_def Let_def case_prod_beta)

text \<open>The policies a firing task triggers: those that are due in the state the task starts in.\<close>

definition due_policies :: "secs \<Rightarrow> policy list \<Rightarrow> alert \<Rightarrow> dispatcher \<Rightarrow> policy list" where
  "due_policies clock ps a d =
     (if al_status a \<in> set HANDLED_STATUSES then []
      else filter (\<lambda>p. due a (dict_get_or (nd_breach d) (al_id a) 0 + 1) clock p d) (enabled_policies ps))"

lemma firing_effect:
  fixes clock tick :: secs and pin :: bool and as :: "alert list" and chs :: "channel list" and a :: alert and d :: dispatcher
  assumes "distinct (map po_id ps)"
  defines "res \<equiv> dispatch_begin clock tick pin as chs ps a Firing d" and "hits \<equiv> due_policies clock ps a d"
  shows "set (nd_first (snd res)) = set (nd_first d) \<union> {(pid, al_id a) |pid. pid \<in> po_id ` set hits}"
    and "dict_get (nd_last (snd res)) (pid, aid) =
      (if aid = al_id a \<and> pid \<in> po_id ` set hits then Some clock else dict_get (nd_last d) (pid, aid))"
    and "newly_bumped d (snd res) = map po_id hits"
    and "ch_id ` set (tk_channels (fst res)) \<subseteq> (\<Union>p \<in> set hits. set (po_channels p))"
proof -
  let ?ps = "enabled_policies ps" and ?b = "dict_get_or (nd_breach d) (al_id a) 0 + 1"
  let ?d = "d\<lparr>nd_breach := dict_set (al_id a) ?b (nd_breach d)\<rparr>"
  have dist: "distinct (map po_id ?ps)" using assms(1) by (simp add: enabled_policies_def distinct_map_filter)
  have "due a ?b clock p ?d = due a ?b clock p d" for p by (simp add: due_def)
  note f = fire_policies_effect [OF dist, of a ?b clock "[]" ?d, unfolded this]
    fire_policies_selection [OF dist, of a ?b clock "[]" ?d, unfolded this]
  let ?sel = "policies_that_should_dispatch clock a Firing ?ps d"
  have ch: "ch_id ` set (tk_channels (fst res)) \<subseteq> set (fst ?sel)"
    by (auto simp: res_def dispatch_begin_def Let_def case_prod_beta split: if_splits)
  note sel = begin_sel [where clock = clock and t = tick and pin = pin and as = as and chs = chs and ps = ps and a = a and
    ev = Firing and d = d, folded res_def]
  have handled: "?sel = ([], forget_breaches (al_id a) d)" "hits = []" if "al_status a \<in> set HANDLED_STATUSES"
    using that by (simp_all add: policies_that_should_dispatch_def hits_def due_policies_def)
  have fires: "?sel = fire_policies a ?b clock ?ps ([], ?d)" "hits = filter (\<lambda>p. due a ?b clock p d) ?ps"
    if "al_status a \<notin> set HANDLED_STATUSES"
    using that by (simp_all add: policies_that_should_dispatch_def hits_def due_policies_def Let_def)
  show "set (nd_first (snd res)) = set (nd_first d) \<union> {(pid, al_id a) |pid. pid \<in> po_id ` set hits}"
    "newly_bumped d (snd res) = map po_id hits"
    "dict_get (nd_last (snd res)) (pid, aid) =
      (if aid = al_id a \<and> pid \<in> po_id ` set hits then Some clock else dict_get (nd_last d) (pid, aid))"
    unfolding sel newly_bumped_def using f
    by (cases "al_status a \<in> set HANDLED_STATUSES"; simp add: handled fires forget_breaches_def)+
  show "ch_id ` set (tk_channels (fst res)) \<subseteq> (\<Union>p \<in> set hits. set (po_channels p))"
  proof (cases "al_status a \<in> set HANDLED_STATUSES")
    case True
    then show ?thesis using ch handled by simp
  next
    case False
    show ?thesis using ch f unfolding fires [OF False] by simp
  qed
qed

section \<open>The log and the state agree\<close>

definition op_distinct :: "nd_op \<Rightarrow> bool" where
  "op_distinct op = (case op of Op_Begin clock t pin as chs ps a ev \<Rightarrow> distinct (map po_id ps) | _ \<Rightarrow> True)"

definition sent_state :: "string \<Rightarrow> string \<Rightarrow> dispatcher \<times> nd_log list \<Rightarrow> bool" where
  "sent_state p a s \<longleftrightarrow>
     ((p, a) \<in> set (nd_first (fst s)) \<longleftrightarrow> last_sent p a (snd s) \<noteq> None) \<and>
     (\<forall>t. last_sent p a (snd s) = Some t \<longrightarrow> dict_get (nd_last (fst s)) (p, a) = Some t)"

lemma last_sent_map:
  "last_sent p a (L @ map (\<lambda>q. L_Sent q b t) qs) = (if b = a \<and> p \<in> set qs then Some t else last_sent p a L)"
proof (induction qs rule: rev_induct)
  case (snoc q qs)
  have "L @ map (\<lambda>q. L_Sent q b t) (qs @ [q]) = (L @ map (\<lambda>q. L_Sent q b t) qs) @ [L_Sent q b t]" by simp
  then show ?case using snoc by (auto simp only: last_sent_snoc note_sent.simps) auto
qed simp

lemma filter_get: "dict_get (filter (\<lambda>e. P (fst e)) d) k = (if P k then dict_get d k else None)"
  by (induction d) auto

lemma sent_state_step:
  assumes "sent_state p a (d, L)" "op_distinct op"
  shows "sent_state p a (nd_step op d, L @ log_of op d)"
proof (cases op)
  case (Op_Begin clock tick pin as chs ps al ev)
  have dist: "distinct (map po_id ps)" using assms(2) Op_Begin by (simp add: op_distinct_def)
  show ?thesis
  proof (cases ev)
    case Acked
    then show ?thesis using assms(1) Op_Begin
      by (simp add: sent_state_def begin_sel policies_that_should_dispatch_def forget_breaches_def)
  next
    case Cleared
    have *: "nd_first (nd_step op d) = filter (\<lambda>k. snd k \<noteq> al_id al) (nd_first d)"
      "nd_last (nd_step op d) = filter (\<lambda>e. snd (fst e) \<noteq> al_id al) (nd_last d)"
      using Op_Begin Cleared
      by (simp_all add: begin_sel policies_that_should_dispatch_def forget_alert_def forget_breaches_def
          clear_policies_sel case_prod_beta)
    show ?thesis using assms(1) Op_Begin Cleared unfolding sent_state_def fst_conv snd_conv *
      by (auto simp: last_sent_snoc filter_get [where P = "\<lambda>k. snd k \<noteq> al_id al"])
  next
    case Firing
    note f = firing_effect [OF dist, where clock = clock and tick = tick and pin = pin and as = as and chs = chs and a = al and d = d]
    show ?thesis using assms(1) Op_Begin Firing
      by (auto simp: sent_state_def f(1-3) last_sent_map simp del: map_map)
  qed
qed (use assms(1) in \<open>simp_all add: sent_state_def\<close>)

lemma sent_state_run:
  "\<forall>op \<in> set ops. op_distinct op \<Longrightarrow> sent_state p a (nd_run ops (NotificationDispatcher, []))"
proof (induction ops rule: rev_induct)
  case Nil
  show ?case by (simp add: sent_state_def NotificationDispatcher_def last_sent_def)
next
  case (snoc op ops)
  then show ?case unfolding nd_run_snoc by (intro sent_state_step) auto
qed

section \<open>Repeats keep their distance\<close>

lemma due_distance:
  assumes "due a b now p d" "(po_id p, al_id a) \<in> set (nd_first d)" "dict_get (nd_last d) (po_id p, al_id a) = Some t" "0 < window_s p"
  shows "window_s p \<le> now - t"
  using assms by (auto simp: due_def Let_def dict_get_or_def)

text \<open>
  C37: a policy repeats itself no faster than it is configured to: after any interleaving of dispatch
  tasks, sends and their outcomes, when a firing task selects a channel for an alert, then the channel
  belongs to an enabled policy that matches the alert and whose trigger counter this task stamps, and if
  a firing task has stamped that policy for the alert before, since it was last cleared, then at least
  the policy's repeat interval has passed since the last time.\<close>

theorem repeats_keep_distance:
  assumes "\<forall>op \<in> set ops. op_distinct op" "nd_run ops (NotificationDispatcher, []) = (d, L)" "distinct (map po_id ps)"
    and "dispatch_begin clock tick pin as chs ps a Firing d = (tk, d')" "c \<in> set (tk_channels tk)"
  shows "\<exists>p \<in> set ps. po_enabled p \<and> matches_alert a p \<and> ch_id c \<in> set (po_channels p) \<and>
    po_id p \<in> set (drop (length (nd_bumped d)) (nd_bumped d')) \<and>
    (\<forall>t0. last_sent (po_id p) (al_id a) L = Some t0 \<longrightarrow> 0 < window_s p \<longrightarrow> window_s p \<le> clock - t0)"
proof -
  note f = firing_effect [OF assms(3), where clock = clock and tick = tick and pin = pin and as = as and chs = chs and
    a = a and d = d, unfolded assms(4) fst_conv snd_conv]
  obtain p where p: "p \<in> set (due_policies clock ps a d)" "ch_id c \<in> set (po_channels p)" using f(4) assms(5) by blast
  have due: "due a (dict_get_or (nd_breach d) (al_id a) 0 + 1) clock p d" and ps: "p \<in> set ps" "po_enabled p"
    using p(1) by (auto simp: due_policies_def enabled_policies_def split: if_splits)
  have "sent_state (po_id p) (al_id a) (d, L)" using sent_state_run [OF assms(1)] unfolding assms(2) .
  then have "window_s p \<le> clock - t0" if "last_sent (po_id p) (al_id a) L = Some t0" "0 < window_s p" for t0
    using that by (intro due_distance [OF due]) (auto simp: sent_state_def)
  moreover have "po_id p \<in> set (drop (length (nd_bumped d)) (nd_bumped d'))" using f(3) p(1) by (simp add: newly_bumped_def)
  moreover have "matches_alert a p" using due by (simp add: due_def Let_def)
  ultimately show ?thesis using ps p(2) by blast
qed

section \<open>Clears follow alarms\<close>

lemma clear_policies_heard:
  assumes "c \<in> set (fst (clear_policies a ps (m, d)))" "c \<notin> set m"
  shows "\<exists>p \<in> set ps. c \<in> set (po_channels p) \<and> po_on_clear p \<and> matches_alert a p \<and> (po_id p, al_id a) \<in> set (nd_first d)"
  using assms
proof (induction ps arbitrary: m d)
  case (Cons p ps)
  show ?case
  proof (cases "\<not> matches_alert a p \<or> \<not> po_on_clear p \<or> (po_id p, al_id a) \<notin> set (nd_first d) \<or> po_channels p = []")
    case True
    then have "\<exists>q \<in> set ps. c \<in> set (po_channels q) \<and> po_on_clear q \<and> matches_alert a q \<and> (po_id q, al_id a) \<in> set (nd_first d)"
      using Cons.prems by (intro Cons.IH [of m d]) simp_all
    then show ?thesis by auto
  next
    case hit: False
    show ?thesis
    proof (cases "c \<in> set (po_channels p)")
      case True
      then show ?thesis using hit by simp
    next
      case False
      have "\<exists>q \<in> set ps. c \<in> set (po_channels q) \<and> po_on_clear q \<and> matches_alert a q \<and>
          (po_id q, al_id a) \<in> set (nd_first (bump_policy_trigger p d))"
        using Cons.prems hit False by (intro Cons.IH [of "add_all (po_channels p) m"]) (simp_all add: set_add_all)
      then show ?thesis by auto
    qed
  qed
qed simp

text \<open>
  a clear is announced only where the alarm was: a channel that a dispatch task selects for a
  resolved alert belongs to an enabled policy with \<^verbatim>\<open>notify_on_clear\<close> that has notified for this alert
  since it was last cleared.\<close>

theorem clear_only_after_alarm:
  assumes "\<forall>op \<in> set ops. op_distinct op"
    and "c \<in> set (tk_channels (fst (dispatch_begin clock tick pin as chs ps a Cleared (fst (nd_run ops (NotificationDispatcher, []))))))"
  shows "\<exists>p \<in> set ps. po_enabled p \<and> po_on_clear p \<and> ch_id c \<in> set (po_channels p) \<and>
    last_sent (po_id p) (al_id a) (snd (nd_run ops (NotificationDispatcher, []))) \<noteq> None"
proof -
  let ?d = "fst (nd_run ops (NotificationDispatcher, []))"
  have "ch_id c \<in> set (fst (clear_policies a (enabled_policies ps) ([], ?d)))"
    using assms(2)
    by (auto simp: dispatch_begin_def policies_that_should_dispatch_def incident_channel_suppressed_def Let_def case_prod_beta)
  from clear_policies_heard [OF this] obtain p where p: "p \<in> set (enabled_policies ps)" "ch_id c \<in> set (po_channels p)"
    "po_on_clear p" "(po_id p, al_id a) \<in> set (nd_first ?d)" by auto
  moreover have "sent_state (po_id p) (al_id a) (nd_run ops (NotificationDispatcher, []))" by (rule sent_state_run [OF assms(1)])
  ultimately show ?thesis by (auto simp: sent_state_def enabled_policies_def)
qed

section \<open>Handled alerts stay silent\<close>

lemma begin_handled:
  assumes "al_status a \<in> set HANDLED_STATUSES"
  shows "tk_channels (fst (dispatch_begin clock tick pin as chs ps a Firing d)) = []"
  using assms by (simp add: dispatch_begin_def policies_that_should_dispatch_def Let_def case_prod_beta)

text \<open>The notices a step of the rule engine hands to the dispatcher all satisfy \<open>P\<close>.\<close>

definition hands_over :: "(notice \<Rightarrow> bool) \<Rightarrow> rule_engine \<Rightarrow> rule_engine \<Rightarrow> bool" where
  "hands_over P eg eg' \<longleftrightarrow> (\<exists>ns. eg_notices eg' = eg_notices eg @ ns \<and> list_all P ns)"

lemma hands_over_same: "eg_notices eg' = eg_notices eg \<Longrightarrow> hands_over P eg eg'"
  by (simp add: hands_over_def)

lemma hands_over_trans: "hands_over P eg1 eg2 \<Longrightarrow> hands_over P eg2 eg3 \<Longrightarrow> hands_over P eg1 eg3"
  by (auto simp: hands_over_def)

lemma hands_over_notify: "P n \<Longrightarrow> eg_notices eg' = eg_notices eg \<Longrightarrow> hands_over P eg (notify n eg')"
  by (auto simp: hands_over_def notify_def)

lemma auto_close_notices:
  assumes "\<And>b. P (Resolved b)"
  shows "hands_over P eg (auto_close e now clock v as eg)"
proof (induction as arbitrary: eg)
  case (Cons a as)
  obtain c m where cl: "close_alert (ee_num e) now clock (Some (al_id a)) (Some ''auto'') (Some v) (eg_mgr eg) = (c, m)" by fastforce
  let ?eg = "case c of None \<Rightarrow> eg\<lparr>eg_mgr := m\<rparr> | Some b \<Rightarrow> notify (Resolved b) (eg\<lparr>eg_mgr := m\<rparr>)"
  have "hands_over P eg ?eg"
    by (cases c) (simp_all add: hands_over_same hands_over_notify assms)
  then have "hands_over P eg (auto_close e now clock v as ?eg)" using Cons.IH by (rule hands_over_trans)
  then show ?case by (simp add: cl Let_def)
qed (simp add: hands_over_same)

lemma on_recovery_notices:
  assumes "\<And>b. P (Resolved b)"
  shows "hands_over P eg (on_recovery e rd (Some as) rule v rec eg)"
proof -
  have "hands_over P eg (auto_close e now clock v as' (eg\<lparr>eg_breach := x, eg_ok := y\<rparr>))" for now clock as' x y
    by (rule hands_over_trans [OF hands_over_same auto_close_notices [of P, OF assms]]) simp
  then show ?thesis unfolding on_recovery_def snapshot_or_query_def Let_def
    by (auto simp: hands_over_same)
qed

text \<open>The rule has an ongoing alert, and an operator has acknowledged or ignored it.\<close>

definition handled_rule :: "string \<Rightarrow> alert_manager \<Rightarrow> bool" where
  "handled_rule rid m \<longleftrightarrow>
     (\<exists>r \<in> set (db_alerts (rp_db (mg_repo m))). al_rule r = Some rid \<and> al_status r \<in> {Al_Acknowledged, Al_Ignored})"

definition snap_handled :: "string \<Rightarrow> alert list \<Rightarrow> bool" where
  "snap_handled rid as \<longleftrightarrow>
     ongoing_of rid as \<noteq> [] \<and> list_all (\<lambda>a. al_status a \<in> {Al_Acknowledged, Al_Ignored}) (ongoing_of rid as)"

lemma same_rule_same_status:
  assumes "repo_inv K rp" "finite K" "card K \<le> 1000" "a \<in> set (fst (get_active clock rp))"
    and "r \<in> set (db_alerts (rp_db rp))" "al_rule a = al_rule r"
  shows "al_status a = al_status r"
proof -
  have db: "db_inv K (rp_db rp)" using assms(1) by (simp add: repo_inv_def)
  have "info a \<in> info ` set (db_alerts (rp_db rp))" using get_active_inv [OF assms(1-3), of clock] assms(4) by blast
  then obtain r' where r': "r' \<in> set (db_alerts (rp_db rp))" "info a = info r'" by blast
  have "al_rule r' = al_rule r" using arg_cong [OF r'(2), of i_rule] assms(6) by simp
  moreover have "inj_on al_rule (set (db_alerts (rp_db rp)))" using db_inv_rows(6) [OF db] by (simp add: distinct_map)
  ultimately have "r' = r" using r'(1) assms(5) by (blast dest: inj_onD)
  then show ?thesis using arg_cong [OF r'(2), of i_status] by simp
qed

lemma get_active_handled:
  assumes inv: "repo_inv K (mg_repo m)" and K: "finite K" "card K \<le> 1000" and rid: "rid \<noteq> ''None''" and h: "handled_rule rid m"
  shows "snap_handled rid (fst (get_active clock (mg_repo m)))"
proof -
  let ?as = "fst (get_active clock (mg_repo m))"
  from h obtain r where r: "r \<in> set (db_alerts (rp_db (mg_repo m)))" "al_rule r = Some rid" "al_status r \<in> {Al_Acknowledged, Al_Ignored}"
    by (auto simp: handled_rule_def)
  have "info r \<in> info ` set ?as" using get_active_inv [OF inv K, of clock] r(1) by simp
  then obtain a where a: "a \<in> set ?as" "info r = info a" by blast
  have "al_rule a = Some rid" "al_status a = al_status r"
    using arg_cong [OF a(2), of i_rule] arg_cong [OF a(2), of i_status] r(2) by simp_all
  then have "a \<in> set (ongoing_of rid ?as)" using a(1) r(3) by (auto simp: ongoing_of_def rule_text_def ONGOING_STATUSES_def)
  moreover have "al_status x \<in> {Al_Acknowledged, Al_Ignored}" if x: "x \<in> set (ongoing_of rid ?as)" for x
  proof -
    have "x \<in> set ?as" "al_rule x = al_rule r"
      using x r(2) rid by (auto simp: ongoing_of_def rule_text_def split: option.splits)
    from same_rule_same_status [OF inv K this(1) r(1) this(2)] show ?thesis using r(3) by simp
  qed
  ultimately show ?thesis by (auto simp: snap_handled_def list_all_iff)
qed

lemma handled_step:
  assumes inv: "repo_inv K (mg_repo (as_mgr s))" and K: "finite K" "card K \<le> 1000" and rid: "rid \<noteq> ''None''"
    and q: "snap_handled rid (as_snapshot s)" and ok: "sys_ok K ev s"
    and h: "handled_rule rid (as_mgr (sys_step ae e ev s))"
  shows "snap_handled rid (as_snapshot (sys_step ae e ev s))"
proof (cases ev)
  case (Ae_Query clock)
  then have "handled_rule rid (as_mgr s)" using h get_active_db [of clock "mg_repo (as_mgr s)"]
    by (simp add: handled_rule_def case_prod_beta Let_def)
  then show ?thesis using get_active_handled [OF inv K rid] Ae_Query by (simp add: case_prod_beta Let_def)
next
  case (Ae_Expire now clock)
  let ?m = "snd (expire_each now clock (as_snapshot s) (as_mgr s))"
  have inv': "repo_inv K (mg_repo ?m)" using expire_each_inv [OF K inv] ok Ae_Expire by simp
  show ?thesis
  proof (rule expire_snapshot [of now clock "as_snapshot s" "as_mgr s"])
    assume f: "fst (expire_ignore_windows now clock (as_snapshot s) (as_mgr s)) = fst (get_active clock (mg_repo ?m))"
      and db: "rp_db (mg_repo (snd (expire_ignore_windows now clock (as_snapshot s) (as_mgr s)))) = rp_db (mg_repo ?m)"
    have "handled_rule rid ?m" using h Ae_Expire db by (simp add: handled_rule_def case_prod_beta Let_def)
    then show ?thesis using get_active_handled [OF inv' K rid] Ae_Expire f by (simp add: case_prod_beta Let_def)
  qed (use q Ae_Expire in \<open>simp add: case_prod_beta Let_def\<close>)
qed (use q in \<open>auto split: sum.splits\<close>)

lemma handled_run:
  assumes reach: "alarm_reach K ae e (RuleEngine (fresh_manager ws ttl t0) d age) (as_engine s)"
    and K: "finite K" "card K \<le> 1000" "Some [] \<notin> K" and rid: "rid \<noteq> ''None''"
    and q: "snap_handled rid (as_snapshot s)" and "sys_legal K ae e evs s"
    and "\<forall>xs ys. evs = xs @ ys \<longrightarrow> handled_rule rid (as_mgr (sys_run ae e xs s))"
  shows "snap_handled rid (as_snapshot (sys_run ae e evs s))"
  using assms(7,8)
proof (induction evs rule: rev_induct)
  case (snoc ev evs)
  let ?s = "sys_run ae e evs s"
  have "handled_rule rid (as_mgr (sys_run ae e xs s))" if "evs = xs @ ys" for xs ys
    using snoc.prems(2) [rule_format, of xs "ys @ [ev]"] that by simp
  then have ih: "snap_handled rid (as_snapshot ?s)" using snoc.IH snoc.prems(1) by simp
  have "alarm_reach K ae e (RuleEngine (fresh_manager ws ttl t0) d age) (as_engine ?s)"
    using sys_run_reach [OF reach] snoc.prems(1) by simp
  note inv = alarm_reach_inv [OF this K]
  have "handled_rule rid (as_mgr (sys_step ae e ev ?s))" using snoc.prems(2) [rule_format, of "evs @ [ev]" "[]"] by simp
  then show ?case using handled_step [OF inv K(1,2) rid ih] snoc.prems(1) by simp
qed (use q in simp)

lemma on_breach_handled:
  assumes "snap_handled (rl_id rule) as" "\<And>a. al_status a \<in> {Al_Acknowledged, Al_Ignored} \<Longrightarrow> P (Send a)"
  shows "hands_over P eg (snd (on_breach e rd (Some as) rule v ac eg))"
proof -
  let ?h = "hd (ongoing_of (rl_id rule) as)"
  have ne: "ongoing_of (rl_id rule) as \<noteq> []" using assms(1) by (simp add: snap_handled_def)
  then have "?h \<in> set (ongoing_of (rl_id rule) as)" by simp
  then have "al_status ?h \<in> {Al_Acknowledged, Al_Ignored}" using assms(1) unfolding snap_handled_def list_all_iff by blast
  then have "P (Send (fst (repo_refresh now ?h v rp)))" for now rp
    by (intro assms(2)) (simp add: repo_refresh_def refreshed_def Let_def)
  then show ?thesis using ne by (simp add: on_breach_def snapshot_or_query_def Let_def case_prod_beta hands_over_notify)
qed

lemma evaluate_handled:
  assumes "snap_handled (rl_id rule) (as_snapshot s)" "\<And>a. al_status a \<in> {Al_Acknowledged, Al_Ignored} \<Longrightarrow> P (Send a)" "\<And>b. P (Resolved b)"
  shows "hands_over P (as_engine s) (as_engine (sys_step ae e (Ae_Evaluate rule rd) s))"
proof (cases "evaluate_rule_once e rd (Some (as_snapshot s)) rule (as_engine s)")
  case (Inr y)
  obtain b eg' where once: "evaluate_rule_once e rd (Some (as_snapshot s)) rule (as_engine s) = Inr (b, eg')" using Inr by (cases y) auto
  have notices: "eg_notices (persist_rule rd rule b eg) = eg_notices eg" for b eg by (simp add: persist_rule_def Let_def)
  have "hands_over P (as_engine s) eg'"
    using once
  proof (cases rule: once_cases)
    case (breach points c v x)
    then show ?thesis
      using on_breach_handled [of rule "as_snapshot s" P "log_evaluation (rd_now rd) rule v ''violation'' True (as_engine s)" e rd v c] assms(1,2)
      by (simp add: hands_over_def notices)
  next
    case (recovery r v)
    then show ?thesis
      using on_recovery_notices [of P "log_evaluation (rd_now rd) rule v ''ok'' False (as_engine s)" e rd "as_snapshot s" rule v r] assms(3)
      by (simp add: hands_over_def notices)
  qed (simp_all add: hands_over_same)
  then show ?thesis using once by simp
qed (simp add: hands_over_same)

text \<open>
  C36: after an alert has been acknowledged or ignored, evaluations of its rule announce at most an
  all-clear: in every state the alarm engine can reach from an empty store, with at most 1000 rules, take
  any sequence of events that begins with the read of a cycle's snapshot, in which new alerts get fresh ids
  and no closed alert is resumed, and throughout which the rule has an ongoing alert that is acknowledged
  or ignored. When the rule is evaluated next, on the snapshot of its cycle, everything the evaluation hands
  to the dispatcher is either the resolution of an alert or an alert that, dispatched as firing, is sent
  to no channel, whatever policies and channels are configured and whatever the dispatcher has seen
  before. An operator's action in the middle of a cycle thus counts from the next snapshot on.\<close>

theorem handled_alert_stays_silent:
  assumes "alarm_reach K ae e (RuleEngine (fresh_manager ws ttl t0) dis age) (as_engine s)" "finite K" "card K \<le> 1000" "Some [] \<notin> K"
    and "rl_id rule \<noteq> ''None''" "sys_legal K ae e (Ae_Query clock # evs) s"
    and "\<forall>xs ys. evs = xs @ ys \<longrightarrow> handled_rule (rl_id rule) (as_mgr (sys_run ae e (Ae_Query clock # xs) s))"
    and "sys_run ae e (Ae_Query clock # evs) s = s1"
  shows "\<exists>ns. eg_notices (as_engine (sys_step ae e (Ae_Evaluate rule rd) s1)) = eg_notices (as_engine s1) @ ns \<and>
    (\<forall>n \<in> set ns. case n of
       Resolved a \<Rightarrow> True
     | Send a \<Rightarrow> tk_channels (fst (dispatch_begin clock' tick pin as chs ps a Firing d)) = [])"
proof -
  let ?s = "sys_step ae e (Ae_Query clock) s"
  let ?P = "\<lambda>n. case n of Resolved a \<Rightarrow> True | Send a \<Rightarrow> tk_channels (fst (dispatch_begin clock' tick pin as chs ps a Firing d)) = []"
  have reach: "alarm_reach K ae e (RuleEngine (fresh_manager ws ttl t0) dis age) (as_engine ?s)"
    by (rule sys_step_reach [OF assms(1)]) simp
  have h: "handled_rule (rl_id rule) (as_mgr (sys_run ae e xs ?s))" if "evs = xs @ ys" for xs ys
    using assms(7) that unfolding sys_run_simps(2) by blast
  have "handled_rule (rl_id rule) (as_mgr s)"
    using h [of "[]" evs] get_active_db [of clock "mg_repo (as_mgr s)"] by (simp add: handled_rule_def case_prod_beta Let_def)
  then have "snap_handled (rl_id rule) (as_snapshot ?s)"
    using get_active_handled [OF alarm_reach_inv [OF assms(1-4)] assms(2,3,5), of clock] by (simp add: case_prod_beta Let_def)
  from handled_run [OF reach assms(2-5) this] have "snap_handled (rl_id rule) (as_snapshot s1)"
    using assms(6,8) h by (auto simp del: sys_step.simps)
  then have "hands_over ?P (as_engine s1) (as_engine (sys_step ae e (Ae_Evaluate rule rd) s1))"
    by (rule evaluate_handled) (auto intro: begin_handled simp: HANDLED_STATUSES_def)
  then show ?thesis by (simp only: hands_over_def list_all_iff)
qed

section \<open>Example runs\<close>

definition ex_channel :: channel where
  "ex_channel = \<lparr>ch_id = ''c1'', ch_name = ''hook'', ch_description = None, ch_type = Ch_Webhook, ch_config = ex_webhook,
     ch_enabled = True, ch_rules = [], ch_created = 0, ch_last_sent = None, ch_sends = 0, ch_fails = 0\<rparr>"

definition ex_policy :: policy where
  "ex_policy = \<lparr>po_id = ''p1'', po_name = ''all'', po_channels = [''c1''], po_enabled = True, po_auto_dismiss = True,
     po_dismiss_s = 10, po_min_severity = None, po_sources = [], po_metrics = [], po_hosts = [], po_rules = [],
     po_repeat_min = 30, po_on_clear = True, po_min_count = 1\<rparr>"

definition ex_begin :: "secs \<Rightarrow> notify_event \<Rightarrow> nd_op" where
  "ex_begin t ev = Op_Begin t t True [] [ex_channel] [ex_policy] (to_alert ''a1'' 0 ex_create) ev"

theorem repeats_keep_distance_witness:
  "last_sent ''p1'' ''a1'' (snd (nd_run [ex_begin 1 Firing, ex_begin 900 Firing] (NotificationDispatcher, []))) = Some 1 \<and>
   window_s ex_policy \<le> 2000 - 1"
proof -
  let ?ops = "[ex_begin 1 Firing, ex_begin 900 Firing]"
  let ?s = "nd_run ?ops (NotificationDispatcher, [])"
  let ?t = "dispatch_begin 2000 2000 True [] [ex_channel] [ex_policy] (to_alert ''a1'' 0 ex_create) Firing (fst ?s)"
  have l: "last_sent ''p1'' ''a1'' (snd ?s) = Some 1" by code_simp
  have ops: "\<forall>op \<in> set ?ops. op_distinct op" by (simp add: ex_begin_def op_distinct_def)
  have "map ch_id (tk_channels (fst ?t)) = [''c1'']" by code_simp
  then obtain c where c: "c \<in> set (tk_channels (fst ?t))" by auto
  have w: "0 < window_s ex_policy" "po_id ex_policy = ''p1''" "al_id (to_alert ''a1'' 0 ex_create) = ''a1''"
    by (simp_all add: window_s_def ex_policy_def to_alert_def)
  have "window_s ex_policy \<le> 2000 - 1"
    using repeats_keep_distance [OF ops surjective_pairing _ surjective_pairing c] l w by simp
  with l show ?thesis by blast
qed

theorem clear_only_after_alarm_witness:
  "last_sent ''p1'' ''a1'' (snd (nd_run [ex_begin 1 Firing] (NotificationDispatcher, []))) \<noteq> None"
proof -
  have ops: "\<forall>op \<in> set [ex_begin 1 Firing]. op_distinct op" by (simp add: ex_begin_def op_distinct_def)
  have "map ch_id (tk_channels (fst (dispatch_begin 9 9 True [] [ex_channel] [ex_policy] (to_alert ''a1'' 0 ex_create) Cleared
      (fst (nd_run [ex_begin 1 Firing] (NotificationDispatcher, [])))))) = [''c1'']" by code_simp
  then obtain c where c: "c \<in> set (tk_channels (fst (dispatch_begin 9 9 True [] [ex_channel] [ex_policy] (to_alert ''a1'' 0 ex_create) Cleared
      (fst (nd_run [ex_begin 1 Firing] (NotificationDispatcher, []))))))" by auto
  from clear_only_after_alarm [OF ops c] show ?thesis by (auto simp: ex_policy_def)
qed

text \<open>The alert of two breaching cycles is acknowledged, then a third cycle sees another breach.\<close>

definition ex_acked :: alarm_sys where
  "ex_acked = sys_run ex_env ex_engine_env (Ae_Query 1 # ex_cycles @ [Ae_Request (Op_Acknowledge 3 3 (Some ''a2''))]) ex_sys"

lemma ex_acked_reach: "alarm_reach {Some ''r1''} ex_env ex_engine_env (RuleEngine (fresh_manager False 10 0) True 120) (as_engine ex_acked)"
proof -
  have "sys_legal {Some ''r1''} ex_env ex_engine_env (Ae_Query 1 # ex_cycles @ [Ae_Request (Op_Acknowledge 3 3 (Some ''a2''))]) ex_sys"
    by code_simp
  from sys_run_reach [OF ex_sys_reach this] show ?thesis unfolding ex_acked_def .
qed

theorem handled_alert_stays_silent_witness:
  "\<exists>a. Send a \<in> set (eg_notices (as_engine (sys_run ex_env ex_engine_env
       [Ae_Query 4, Ae_Expire 4 4, Ae_Evaluate ex_rule (ex_reading 95 4 ''a3'')] ex_acked))) \<and>
     tk_channels (fst (dispatch_begin 5 5 True [] [ex_channel] [ex_policy] a Firing NotificationDispatcher)) = []"
proof -
  let ?evs = "[Ae_Expire 4 4]" and ?rd = "ex_reading 95 4 ''a3''"
  let ?s = "sys_run ex_env ex_engine_env (Ae_Query 4 # ?evs) ex_acked"
  have rid: "rl_id ex_rule = ''r1''" by (simp add: ex_rule_def)
  have "handled_rule ''r1'' (as_mgr (sys_run ex_env ex_engine_env [Ae_Query 4] ex_acked))" "handled_rule ''r1'' (as_mgr ?s)"
    by code_simp+
  then have h: "\<forall>xs ys. ?evs = xs @ ys \<longrightarrow> handled_rule (rl_id ex_rule) (as_mgr (sys_run ex_env ex_engine_env (Ae_Query 4 # xs) ex_acked))"
    unfolding rid by (auto simp: Cons_eq_append_conv simp del: sys_run_simps)
  have legal: "sys_legal {Some ''r1''} ex_env ex_engine_env (Ae_Query 4 # ?evs) ex_acked" by code_simp
  let ?s' = "sys_step ex_env ex_engine_env (Ae_Evaluate ex_rule ?rd) ?s"
  have new: "length (eg_notices (as_engine ?s')) = length (eg_notices (as_engine ?s)) + 1" by code_simp
  have send: "case last (eg_notices (as_engine ?s')) of Send a \<Rightarrow> True | Resolved a \<Rightarrow> False" by code_simp
  have K: "finite {Some ''r1''}" "card {Some ''r1''} \<le> 1000" "Some [] \<notin> {Some ''r1''}" "rl_id ex_rule \<noteq> ''None''"
    by (simp_all add: rid)
  from handled_alert_stays_silent [OF ex_acked_reach K legal h refl]
  obtain ns where ns: "eg_notices (as_engine ?s') = eg_notices (as_engine ?s) @ ns"
    "\<forall>n \<in> set ns. case n of Resolved a \<Rightarrow> True
       | Send a \<Rightarrow> tk_channels (fst (dispatch_begin 5 5 True [] [ex_channel] [ex_policy] a Firing NotificationDispatcher)) = []"
    by blast
  have "length ns = 1" using new unfolding ns(1) by (simp only: length_append add_left_cancel)
  then obtain n where n: "ns = [n]" by (auto simp: length_Suc_conv)
  have "last (eg_notices (as_engine ?s')) = n" unfolding ns(1) n by (rule last_snoc)
  then obtain a where a: "n = Send a" using send by (cases n) (simp_all only: notice.case)
  have "sys_run ex_env ex_engine_env [Ae_Query 4, Ae_Expire 4 4, Ae_Evaluate ex_rule ?rd] ex_acked = ?s'"
    by (simp only: sys_run_simps)
  moreover have "Send a \<in> set (eg_notices (as_engine ?s'))" unfolding ns(1) n a by (rule in_set_conv_decomp [THEN iffD2]) blast
  moreover have "tk_channels (fst (dispatch_begin 5 5 True [] [ex_channel] [ex_policy] a Firing NotificationDispatcher)) = []"
    using ns(2) unfolding n a by simp
  ultimately show ?thesis by (metis (no_types))
qed

end
