(* ===== verification/ToolQueue.thy ===== *)
theory ToolQueue
  imports JobProps
begin

text \<open>
  The tool queue of the manager (\<^verbatim>\<open>src/llm-systems-manager/backend/tool_queue.py\<close>): Tools runs that wait
  for a busy host, as \<^verbatim>\<open>tool_run\<close> and \<^verbatim>\<open>report_card\<close> jobs of the job service, and the start routes of
  \<^verbatim>\<open>llm-systems-manager.py\<close> that choose between starting a run at once and queueing it.

  A handler is a function of the job's row and of what its environment answers while it runs: the replies
  of the agent, the clock readings and the cancel flag, in the order the handler asks for them. It returns
  the calls it makes, in order, and its outcome; the outcome is \<open>None\<close> while the handler is still
  following the run at the end of the recorded polls.
\<close>

section \<open>Constants and data\<close>

definition KIND :: string where "KIND = ''tool_run''"
definition CARD_KIND :: string where "CARD_KIND = ''report_card''"
definition CARD_TOOL :: string where "CARD_TOOL = ''reportcard''"

definition KINDS :: "string list" where
  "KINDS = [KIND, CARD_KIND]"

definition TOOLS :: "string list" where
  "TOOLS = [''benchmark'', ''autotune'', ''quality'']"

definition FLAG :: "(string, string) dict" where
  "FLAG = [(''benchmark'', ''bench_active''), (''autotune'', ''autotune_active''), (''quality'', ''quality_active'')]"

definition TOOL_LABEL :: "(string, string) dict" where
  "TOOL_LABEL = [(''benchmark'', ''Benchmark''), (''autotune'', ''Autotune''), (''quality'', ''Quality guard''),
     (''reportcard'', ''Report Card'')]"

definition POLL_S :: secs where "POLL_S = 3"
definition SLICE_S :: secs where "SLICE_S = 1 / 2"
definition START_GRACE_S :: secs where "START_GRACE_S = 10"
definition UNREACHABLE_MAX_S :: secs where "UNREACHABLE_MAX_S = 60"
definition MAX_RUN_S :: secs where "MAX_RUN_S = 3 * 3600"
definition MAX_RUN_CEIL_S :: secs where "MAX_RUN_CEIL_S = 12 * 3600"

text \<open>\<^verbatim>\<open>REFUSAL.search(err)\<close>, without regard to case.\<close>

definition REFUSAL :: "string \<Rightarrow> bool" where
  "REFUSAL err \<longleftrightarrow> contains ''in progress'' (lower err) \<or> contains ''already running'' (lower err)"

text \<open>
  What the code reads of a tool's start body and of a Report Card request. A missing or falsy text is
  empty; \<open>tb_model_ids\<close> is \<open>None\<close> when the key holds no list, \<open>tb_budget_min\<close> when it holds no number.
\<close>

record tool_body =
  tb_model_ids :: "string list option"
  tb_model_id :: string
  tb_model :: string
  tb_budget_min :: "secs option"
  tb_builds :: bool

record card_req =
  cr_model :: string
  cr_model_key :: string

text \<open>
  What the code reads of an agent's reply: the status, the texts \<^verbatim>\<open>error\<close>, \<^verbatim>\<open>detail\<close> and \<^verbatim>\<open>run_id\<close>,
  whether \<^verbatim>\<open>ok\<close> is \<^verbatim>\<open>False\<close>, and the flags that are set. A body that is no JSON object has none of them
  (\<^verbatim>\<open>_json\<close>). A call raises, gives no response, or is answered.
\<close>

record tool_reply =
  rp_status :: int
  rp_error :: string
  rp_detail :: string
  rp_refused :: bool
  rp_run_id :: string
  rp_active :: "string list"

datatype answer = Raises string | Unreachable | Answer tool_reply

text \<open>
  The collaborators of the queue. \<open>dp_body\<close> and \<open>dp_req\<close> decode the JSON text kept in a spec
  (\<open>dp_req\<close> gives \<open>None\<close> for a text that is no object), \<open>dp_num\<close> and \<open>dp_json\<close> write a number and an
  object as JSON text; \<open>dp_cards\<close> and \<open>dp_quiet\<close> say whether the optional hooks are set.
\<close>

record tool_deps =
  dp_agent_for :: "string \<Rightarrow> bool"
  dp_hostname :: "string \<Rightarrow> string"
  dp_held_agents :: "string list"
  dp_holder_tool :: "string \<Rightarrow> string option"
  dp_max_queued :: int
  dp_cards :: bool
  dp_quiet :: bool
  dp_body :: "string \<Rightarrow> tool_body"
  dp_req :: "string \<Rightarrow> card_req option"
  dp_num :: "secs \<Rightarrow> string"
  dp_json :: "json_obj \<Rightarrow> string"

definition spec_text :: "json_obj \<Rightarrow> string \<Rightarrow> string" where
  "spec_text spec k = dict_get_or spec k []"

definition tq_max_run_s :: "tool_deps \<Rightarrow> json_obj \<Rightarrow> secs" where
  "tq_max_run_s dp spec =
     (let body = dp_body dp (spec_text spec ''body'');
          minutes = or_num (tb_budget_min body) 0;
          models = (case tb_model_ids body of Some ms \<Rightarrow> length ms | None \<Rightarrow> 1);
          budget = 60 * minutes * of_nat (max 1 models)
      in min MAX_RUN_CEIL_S (max MAX_RUN_S (budget + 1800)))"

definition model_of :: "tool_body \<Rightarrow> string" where
  "model_of b =
     take 200 (if tb_model_id b \<noteq> [] then tb_model_id b
               else (case tb_model_ids b of Some (m # _) \<Rightarrow> if m \<noteq> [] then m else tb_model b | _ \<Rightarrow> tb_model b))"

definition short_model :: "string \<Rightarrow> string" where
  "short_model m =
     (let s = takeWhile (\<lambda>c. c \<noteq> CHR '':'') (rev (takeWhile (\<lambda>c. c \<noteq> CHR ''/'') (rev m)))
      in if s = [] then ''model'' else s)"

section \<open>Validation and labels\<close>

text \<open>A key whose value is \<^verbatim>\<open>None\<close> is absent from the checked spec.\<close>

definition copy_keys :: "string list \<Rightarrow> json_obj \<Rightarrow> json_obj" where
  "copy_keys ks spec = [(k, v). k \<leftarrow> ks, Some v \<leftarrow> [dict_get spec k]]"

definition validate_tool :: "tool_deps \<Rightarrow> json_obj \<Rightarrow> string \<Rightarrow> string \<Rightarrow> json_obj \<times> string option" where
  "validate_tool dp spec user role =
     (let tool = spec_text spec ''tool''; provider = spec_text spec ''provider''
      in if tool \<notin> set TOOLS then ([], Some ''unknown tool'')
         else if spec_text spec ''agent_id'' = [] \<or> provider = [] \<or> spec_text spec ''path'' = []
         then ([], Some ''agent, provider and path are required'')
         else if tool = ''quality'' \<and> provider \<noteq> ''llama''
         then ([], Some ''the quality guard runs on llama hosts only'')
         else (let out = copy_keys [''provider'', ''agent_id'', ''tool'', ''path'', ''cancel'', ''model_id''] spec;
                   out1 = (if spec_text spec ''pre'' \<noteq> [] then dict_set ''pre'' (spec_text spec ''pre'') out else out);
                   body = spec_text spec ''body'';
                   out2 = dict_set ''body'' body out1
               in (dict_set ''model_id''
                     (if spec_text out2 ''model_id'' \<noteq> [] then spec_text out2 ''model_id''
                      else model_of (dp_body dp body)) out2, None)))"

definition validate_card :: "tool_deps \<Rightarrow> json_obj \<Rightarrow> string \<Rightarrow> string \<Rightarrow> json_obj \<times> string option" where
  "validate_card dp spec user role =
     (case dp_req dp (spec_text spec ''req'') of
        None \<Rightarrow> ([], Some ''agent, provider and req are required'')
      | Some req \<Rightarrow>
          (if spec_text spec ''agent_id'' = [] \<or> spec_text spec ''provider'' = []
           then ([], Some ''agent, provider and req are required'')
           else ([(''provider'', spec_text spec ''provider''), (''agent_id'', spec_text spec ''agent_id''),
                  (''tool'', CARD_TOOL),
                  (''model_id'', take 200 (if cr_model req \<noteq> [] then cr_model req else cr_model_key req)),
                  (''req'', spec_text spec ''req'')], None)))"

definition tool_label :: "tool_deps \<Rightarrow> json_obj \<Rightarrow> string" where
  "tool_label dp spec =
     (let host = dp_hostname dp (spec_text spec ''agent_id''); dot = [CHR '' '', CHR 0xB7, CHR '' '']
      in dict_get_or TOOL_LABEL (spec_text spec ''tool'') ''Tool'' @ dot @ short_model (spec_text spec ''model_id'') @ dot @
         (if host \<noteq> [] then host else ''host''))"

definition perf_key :: "string \<Rightarrow> string" where
  "perf_key aid = ''perf:'' @ aid"

section \<open>Following a tool run\<close>

datatype tool_effect =
    Pre_Step string
  | Quiet_Builds string
  | Start_Run string string
  | Stop_Run string
  | Note_Start string string string
  | Save_State json_obj
  | Start_Card string
  | Cancel_Card string

text \<open>One turn of a polling loop: the cancel flag at its head, the answer of the probe, the clock after it.\<close>

record poll =
  po_cancelled :: bool
  po_answer :: answer
  po_now :: secs

text \<open>
  What one execution of the handler meets: the probe before the start, the pre-step, the start itself,
  the clock reading stored as \<^verbatim>\<open>started\<close>, the cancel flag after the start, the first \<^verbatim>\<open>last_ok\<close> and the
  polls.
\<close>

record run_world =
  rw_busy :: answer
  rw_pre :: answer
  rw_start :: answer
  rw_started :: secs
  rw_cancelled :: bool
  rw_entered :: secs
  rw_polls :: "poll list"

definition fail_cancelled :: job_outcome where
  "fail_cancelled = job_fail ''cancelled'' None False"

definition waiting :: "json_obj option \<Rightarrow> job_outcome" where
  "waiting st = job_again POLL_S st (Some ''waiting for the host'')"

definition agent_busy :: "answer \<Rightarrow> bool" where
  "agent_busy a =
     (case a of Answer r \<Rightarrow> rp_status r = 200 \<and> list_ex (\<lambda>f. f \<in> set (rp_active r)) (dict_values FLAG) | _ \<Rightarrow> False)"

text \<open>\<^verbatim>\<open>_nap\<close>: the number of slices slept; \<open>cancelled k\<close> is the flag after \<open>k\<close> slices.\<close>

function nap_from :: "(nat \<Rightarrow> bool) \<Rightarrow> nat \<Rightarrow> secs \<Rightarrow> nat" where
  "nap_from cancelled k waited =
     (if waited < POLL_S \<and> \<not> cancelled k then nap_from cancelled (Suc k) (waited + SLICE_S) else k)"
  by auto
termination
  by (relation "measure (\<lambda>(c, k, w). nat \<lceil>(POLL_S - w) / SLICE_S\<rceil>)")
     (auto simp: POLL_S_def SLICE_S_def algebra_simps ceiling_less_iff intro!: nat_mono_iff [THEN iffD2])

definition nap :: "(nat \<Rightarrow> bool) \<Rightarrow> nat" where
  "nap cancelled = nap_from cancelled 0 0"

definition post_cancel :: "json_obj \<Rightarrow> tool_effect list" where
  "post_cancel spec = (if spec_text spec ''cancel'' = [] then [] else [Stop_Run (spec_text spec ''cancel'')])"

text \<open>What a turn shows: a cancelled job, an exception, no usable answer, or the tool's flag.\<close>

datatype poll_view = PV_Cancelled | PV_Raised string | PV_Silent | PV_Active | PV_Idle

definition view_poll :: "string \<Rightarrow> poll \<Rightarrow> poll_view" where
  "view_poll flag p =
     (if po_cancelled p then PV_Cancelled
      else (case po_answer p of
              Raises e \<Rightarrow> PV_Raised e
            | Unreachable \<Rightarrow> PV_Silent
            | Answer r \<Rightarrow>
                (if rp_status r \<noteq> 200 then PV_Silent else if flag \<in> set (rp_active r) then PV_Active else PV_Idle)))"

fun follow ::
  "tool_deps \<Rightarrow> string \<Rightarrow> secs \<Rightarrow> poll list \<Rightarrow> json_obj \<Rightarrow> bool \<Rightarrow> secs \<Rightarrow> tool_effect list \<times> job_outcome option" where
  "follow dp flag started [] state seen last_ok = ([], None)"
| "follow dp flag started (p # ps) state seen last_ok =
     (case view_poll flag p of
        PV_Cancelled \<Rightarrow> ([], Some fail_cancelled)
      | PV_Raised e \<Rightarrow> ([], Some (job_fail e None True))
      | PV_Silent \<Rightarrow>
          (if po_now p - last_ok > UNREACHABLE_MAX_S then ([], Some (job_fail ''agent unreachable'' None True))
           else follow dp flag started ps state seen last_ok)
      | PV_Active \<Rightarrow>
          (if seen then follow dp flag started ps state seen (po_now p)
           else (let st = dict_set ''seen'' ''true'' state;
                     (es, oc) = follow dp flag started ps st True (po_now p)
                 in (Save_State st # es, oc)))
      | PV_Idle \<Rightarrow>
          (if seen
           then ([], Some (job_finish (Some (dp_json dp [(''run_id'', spec_text state ''run_id'')])) ''done'' None))
           else if po_now p - started > START_GRACE_S
           then ([], Some (job_fail ''run did not start'' None False))
           else follow dp flag started ps state seen (po_now p)))"

definition run_follow ::
  "tool_deps \<Rightarrow> json_obj \<Rightarrow> run_world \<Rightarrow> json_obj \<Rightarrow> tool_effect list \<times> job_outcome option" where
  "run_follow dp spec w state =
     (let (es, oc) = follow dp (spec_text FLAG (spec_text spec ''tool'')) (rw_started w) (rw_polls w) state
                       (spec_text state ''seen'' = ''true'') (rw_entered w)
      in (Note_Start (spec_text spec ''agent_id'') (spec_text spec ''provider'') (spec_text spec ''tool'') # es, oc))"

section \<open>Starting a tool run\<close>

definition reply_error :: "tool_reply \<Rightarrow> string" where
  "reply_error r = (if rp_error r \<noteq> [] then rp_error r else rp_detail r)"

definition ends_with :: "string \<Rightarrow> string \<Rightarrow> bool" where
  "ends_with suf s \<longleftrightarrow> suffix suf s"

definition run_pre :: "json_obj \<Rightarrow> json_obj \<Rightarrow> tool_effect list \<times> json_obj" where
  "run_pre spec state =
     (if spec_text spec ''pre'' \<noteq> [] \<and> spec_text state ''pre_done'' \<noteq> ''true''
      then (let st = dict_set ''pre_done'' ''true'' state in ([Pre_Step (spec_text spec ''pre''), Save_State st], st))
      else ([], state))"

definition run_quiet :: "tool_deps \<Rightarrow> json_obj \<Rightarrow> tool_effect list" where
  "run_quiet dp spec =
     (if dp_quiet dp \<and> ends_with ''/bench/live/run'' (spec_text spec ''path'') \<and>
         tb_builds (dp_body dp (spec_text spec ''body''))
      then [Quiet_Builds (spec_text spec ''agent_id'')] else [])"

definition started_state :: "tool_deps \<Rightarrow> secs \<Rightarrow> tool_reply \<Rightarrow> json_obj" where
  "started_state dp t r =
     [(''run_id'', if rp_run_id r \<noteq> [] then rp_run_id r else ''started''), (''started'', dp_num dp t), (''seen'', ''false'')]"

definition run_start ::
  "tool_deps \<Rightarrow> json_obj \<Rightarrow> run_world \<Rightarrow> json_obj \<Rightarrow> tool_effect list \<times> job_outcome option" where
  "run_start dp spec w state0 =
     (let (es, state) = run_pre spec state0;
          es1 = es @ run_quiet dp spec @ [Start_Run (spec_text spec ''path'') (spec_text spec ''body'')]
      in case rw_start w of
           Raises e \<Rightarrow> (es1, Some (job_fail e None True))
         | Unreachable \<Rightarrow> (es1, Some (job_fail ''agent unreachable'' None True))
         | Answer r \<Rightarrow>
             (if rp_status r \<noteq> 200 \<or> rp_refused r
              then (if REFUSAL (reply_error r) then (es1, Some (waiting (Some state)))
                    else (es1, Some (job_fail (if reply_error r \<noteq> [] then reply_error r
                                               else ''HTTP '' @ show_int (rp_status r)) None True)))
              else (let st = started_state dp (rw_started w) r; es2 = es1 @ [Save_State st]
                    in if rw_cancelled w then (es2 @ post_cancel spec, Some fail_cancelled)
                       else (let (fs, oc) = run_follow dp spec w st in (es2 @ fs, oc)))))"

definition run ::
  "tool_deps \<Rightarrow> job \<Rightarrow> run_world \<Rightarrow> tool_effect list \<times> job_outcome option" where
  "run dp job w =
     (let spec = jb_spec job; state = jb_state job; aid = spec_text spec ''agent_id''
      in if \<not> dp_agent_for dp aid then ([], Some (job_fail ''unknown agent'' None True))
         else if spec_text state ''run_id'' = []
         then (if aid \<in> set (dp_held_agents dp) then ([], Some (waiting None))
               else if agent_busy (rw_busy w) then ([], Some (waiting (Some state)))
               else run_start dp spec w state)
         else run_follow dp spec w (dict_set ''started'' (dp_num dp (rw_started w)) state))"

definition on_cancel :: "tool_deps \<Rightarrow> job \<Rightarrow> tool_effect list" where
  "on_cancel dp job =
     (if spec_text (jb_state job) ''run_id'' = [] \<or> spec_text (jb_spec job) ''cancel'' = [] then []
      else if dp_agent_for dp (spec_text (jb_spec job) ''agent_id'') then post_cancel (jb_spec job) else [])"

section \<open>Report Card runs\<close>

text \<open>
  An event of the Report Card runner; the empty texts stand for missing values. \<open>None\<close> is what
  \<^verbatim>\<open>card_status\<close> gives while the run goes on.
\<close>

record card_event =
  ce_event :: string
  ce_model :: string
  ce_gen_tps :: string
  ce_error :: string

record card_world =
  cw_status :: "card_event option"
  cw_busy :: answer
  cw_start :: "string option"
  cw_started :: secs
  cw_cancelled :: bool
  cw_polls :: "(bool \<times> card_event option) list"

fun follow_card :: "tool_deps \<Rightarrow> string \<Rightarrow> (bool \<times> card_event option) list \<Rightarrow> job_outcome option" where
  "follow_card dp run_id [] = None"
| "follow_card dp run_id ((cancelled, ev) # ps) =
     (if cancelled then Some fail_cancelled
      else (case ev of
              None \<Rightarrow> follow_card dp run_id ps
            | Some e \<Rightarrow>
                Some (if ce_event e = ''done''
                      then job_finish (Some (dp_json dp [(''run_id'', run_id), (''model'', ce_model e),
                                                         (''gen_tps'', ce_gen_tps e)])) ''done'' None
                      else if ce_event e = ''cancelled'' then fail_cancelled
                      else if ce_event e = ''lost'' then job_fail ''report card run lost'' None True
                      else job_fail (take 300 (if ce_error e \<noteq> [] then ce_error e else ''report card failed'')) None True)))"

definition run_card ::
  "tool_deps \<Rightarrow> job \<Rightarrow> card_world \<Rightarrow> tool_effect list \<times> job_outcome option" where
  "run_card dp job w =
     (let spec = jb_spec job; aid = spec_text spec ''agent_id'';
          run_id0 = spec_text (jb_state job) ''run_id'';
          lost = (run_id0 \<noteq> [] \<and> (case cw_status w of Some e \<Rightarrow> ce_event e = ''lost'' | None \<Rightarrow> False));
          run_id = (if lost then [] else run_id0);
          state = (if lost then [] else jb_state job)
      in if \<not> dp_agent_for dp aid then ([], Some (job_fail ''unknown agent'' None True))
         else if run_id \<noteq> [] then ([], follow_card dp run_id (cw_polls w))
         else if aid \<in> set (dp_held_agents dp) \<or> agent_busy (cw_busy w) then ([], Some (waiting (Some state)))
         else (case cw_start w of
                 None \<Rightarrow> ([Start_Card (spec_text spec ''req'')], Some (waiting (Some state)))
               | Some rid \<Rightarrow>
                   (if rid = [] then ([Start_Card (spec_text spec ''req'')], Some (waiting (Some state)))
                    else (let st = [(''run_id'', rid), (''started'', dp_num dp (cw_started w))];
                              es = [Start_Card (spec_text spec ''req''), Save_State st]
                          in if cw_cancelled w then (es @ [Cancel_Card rid], Some fail_cancelled)
                             else (es, follow_card dp rid (cw_polls w))))))"

definition on_cancel_card :: "tool_deps \<Rightarrow> job \<Rightarrow> tool_effect list" where
  "on_cancel_card dp job =
     (let rid = spec_text (jb_state job) ''run_id'' in if rid \<noteq> [] \<and> dp_cards dp then [Cancel_Card rid] else [])"

section \<open>The kinds\<close>

text \<open>\<open>w\<close> and \<open>cw\<close> give what an execution meets when the service runs its handlers inline.\<close>

definition tool_kind :: "tool_deps \<Rightarrow> (job \<Rightarrow> run_world) \<Rightarrow> job_kind" where
  "tool_kind dp w = \<lparr>ki_name = KIND, ki_title = ''Tool run'', ki_run = (\<lambda>job. snd (run dp job (w job))),
     ki_validate = Some (validate_tool dp), ki_label = Some (tool_label dp),
     ki_exclusive = Some (\<lambda>spec. [perf_key (spec_text spec ''agent_id'')]), ki_on_finish = False,
     ki_on_cancel = True, ki_resume = ''requeue'', ki_max_run = tq_max_run_s dp, ki_api = False\<rparr>"

definition card_kind :: "tool_deps \<Rightarrow> (job \<Rightarrow> card_world) \<Rightarrow> job_kind" where
  "card_kind dp cw = \<lparr>ki_name = CARD_KIND, ki_title = ''Report Card'', ki_run = (\<lambda>job. snd (run_card dp job (cw job))),
     ki_validate = Some (validate_card dp), ki_label = Some (tool_label dp),
     ki_exclusive = Some (\<lambda>spec. [perf_key (spec_text spec ''agent_id'')]), ki_on_finish = False,
     ki_on_cancel = True, ki_resume = ''requeue'', ki_max_run = (\<lambda>_. MAX_RUN_S), ki_api = False\<rparr>"

definition queue_init :: "tool_deps \<Rightarrow> (job \<Rightarrow> run_world) \<Rightarrow> (job \<Rightarrow> card_world) \<Rightarrow> service \<Rightarrow> service" where
  "queue_init dp w cw sv =
     (let sv1 = register (tool_kind dp w) sv in if dp_cards dp then register (card_kind dp cw) sv1 else sv1)"

section \<open>Start or queue\<close>

definition live_key :: "job \<Rightarrow> nat \<times> secs \<times> string" where
  "live_key r = (if jb_status r = Running then 0 else 1, jb_created r, jb_id r)"

definition live_rows :: "service \<Rightarrow> job list" where
  "live_rows sv =
     sort_key live_key (concat (map (\<lambda>k. list_jobs ''live'' (Some k) None None None LIST_MAX 0 sv) KINDS))"

definition row_agent :: "job \<Rightarrow> string" where
  "row_agent r = spec_text (jb_spec r) ''agent_id''"

definition rows_for :: "service \<Rightarrow> string \<Rightarrow> job list" where
  "rows_for sv aid = filter (\<lambda>r. dict_get (jb_spec r) ''agent_id'' = Some aid) (live_rows sv)"

definition batch_holds :: "service \<Rightarrow> string \<Rightarrow> bool" where
  "batch_holds sv aid =
     list_ex (\<lambda>r. perf_key aid \<in> set (jb_exclusive r))
       (list_jobs ''running'' (Some ''autotune_batch'') None None None LIST_MAX 0 sv)"

definition held :: "tool_deps \<Rightarrow> service \<Rightarrow> string \<Rightarrow> bool" where
  "held dp sv aid \<longleftrightarrow> aid \<in> set (dp_held_agents dp) \<or> rows_for sv aid \<noteq> [] \<or> batch_holds sv aid"

definition can_wait :: "answer \<Rightarrow> bool" where
  "can_wait a = (case a of Answer r \<Rightarrow> rp_status r = 200 | _ \<Rightarrow> False)"

definition running_tool :: "service \<Rightarrow> string \<Rightarrow> string" where
  "running_tool sv aid =
     (case filter (\<lambda>r. jb_status r = Running) (rows_for sv aid) of
        r # _ \<Rightarrow> spec_text (jb_spec r) ''tool'' | [] \<Rightarrow> if batch_holds sv aid then ''batch'' else [])"

definition wait_for :: "tool_deps \<Rightarrow> service \<Rightarrow> string \<Rightarrow> string" where
  "wait_for dp sv aid =
     (let host = dp_hostname dp aid;
          holder = or_list (dp_holder_tool dp aid) [];
          tool = (if holder \<noteq> [] then holder else running_tool sv aid)
      in if tool = [] then ''the run in progress''
         else (let name = (if tool = ''batch'' then ''Autotune batch'' else dict_get_or TOOL_LABEL tool tool)
               in if host \<noteq> [] then name @ '' on '' @ host else name))"

text \<open>The errors of a queue submission: \<^verbatim>\<open>QueueFull\<close>, or the \<^verbatim>\<open>JobError\<close> of the job service.\<close>

datatype queue_error = Queue_Full string | Job_Error job_error

record queue_info =
  qi_job_id :: string
  qi_position :: nat
  qi_wait_for :: string

definition queue_cap :: "tool_deps \<Rightarrow> int" where
  "queue_cap dp = (if dp_max_queued dp = 0 then 5 else dp_max_queued dp)"

definition queued_or_full :: "tool_deps \<Rightarrow> service \<Rightarrow> string \<Rightarrow> string + job list" where
  "queued_or_full dp sv aid =
     (let queued = filter (\<lambda>r. jb_status r = Queued) (rows_for sv aid); cap = queue_cap dp; host = dp_hostname dp aid
      in if int (length queued) \<ge> cap
         then Inl (show_int cap @ '' run'' @ (if cap \<noteq> 1 then ''s'' else []) @ '' already queued on '' @
                   (if host \<noteq> [] then host else ''this host''))
         else Inr queued)"

definition queue_submission :: "string \<Rightarrow> json_obj \<Rightarrow> string \<Rightarrow> string \<Rightarrow> submission" where
  "queue_submission kind spec user role = \<lparr>sm_kind = kind, sm_spec = spec, sm_user = user, sm_role = role,
     sm_source = ''ui'', sm_label = None, sm_not_before = None, sm_period = None, sm_runs_left = None,
     sm_thread = None\<rparr>"

definition enqueue ::
  "tool_deps \<Rightarrow> string \<Rightarrow> secs \<Rightarrow> string \<Rightarrow> submission \<Rightarrow> service \<Rightarrow> queue_error + queue_info \<times> service" where
  "enqueue dp jid now aid sm sv =
     (case queued_or_full dp sv aid of
        Inl msg \<Rightarrow> Inl (Queue_Full msg)
      | Inr queued \<Rightarrow>
          (case submit jid now sm sv of
             Inl e \<Rightarrow> Inl (Job_Error e)
           | Inr (row, sv') \<Rightarrow>
               Inr (\<lparr>qi_job_id = jb_id row, qi_position = length queued + 1, qi_wait_for = wait_for dp sv' aid\<rparr>, sv')))"

record run_request =
  rq_provider :: string
  rq_agent :: string
  rq_tool :: string
  rq_path :: string
  rq_cancel :: string
  rq_body :: string
  rq_user :: string
  rq_role :: string
  rq_pre :: "string option"

definition request_spec :: "tool_deps \<Rightarrow> run_request \<Rightarrow> json_obj" where
  "request_spec dp rq =
     [(''provider'', rq_provider rq), (''agent_id'', rq_agent rq), (''tool'', rq_tool rq), (''path'', rq_path rq),
      (''cancel'', rq_cancel rq), (''body'', rq_body rq), (''model_id'', model_of (dp_body dp (rq_body rq)))] @
     (if or_list (rq_pre rq) [] \<noteq> [] then [(''pre'', or_list (rq_pre rq) [])] else [])"

definition queue_submit ::
  "tool_deps \<Rightarrow> string \<Rightarrow> secs \<Rightarrow> run_request \<Rightarrow> service \<Rightarrow> queue_error + queue_info \<times> service" where
  "queue_submit dp jid now rq sv =
     enqueue dp jid now (rq_agent rq)
       (queue_submission KIND (request_spec dp rq) (rq_user rq) (rq_role rq)) sv"

definition submit_card ::
  "tool_deps \<Rightarrow> string \<Rightarrow> secs \<Rightarrow> string \<Rightarrow> string \<Rightarrow> string \<Rightarrow> string \<Rightarrow> string \<Rightarrow> service \<Rightarrow>
   queue_error + queue_info \<times> service" where
  "submit_card dp jid now provider aid req user role sv =
     enqueue dp jid now aid
       (queue_submission CARD_KIND [(''provider'', provider), (''agent_id'', aid), (''req'', req)] user role) sv"

record run_entry =
  re_job_id :: string
  re_tool :: string
  re_provider :: string
  re_model_id :: string
  re_user :: string
  re_status :: job_status
  re_created :: secs
  re_path :: string
  re_run_id :: string

definition run_entry_of :: "job \<Rightarrow> run_entry" where
  "run_entry_of r =
     \<lparr>re_job_id = jb_id r, re_tool = spec_text (jb_spec r) ''tool'', re_provider = spec_text (jb_spec r) ''provider'',
      re_model_id = spec_text (jb_spec r) ''model_id'', re_user = jb_user r, re_status = jb_status r,
      re_created = jb_created r, re_path = spec_text (jb_spec r) ''path'', re_run_id = spec_text (jb_state r) ''run_id''\<rparr>"

definition snapshot_add :: "job \<Rightarrow> (string, run_entry list) dict \<Rightarrow> (string, run_entry list) dict" where
  "snapshot_add r out = dict_set (row_agent r) (dict_get_or out (row_agent r) [] @ [run_entry_of r]) out"

definition snapshot :: "service \<Rightarrow> (string, run_entry list) dict" where
  "snapshot sv = fold snapshot_add (live_rows sv) []"

section \<open>The start routes\<close>

datatype start_answer =
    Proxied tool_reply
  | Queued_202 queue_info
  | Refused_409 string
  | Refused_400 job_error
  | Not_Queued

definition tool_refused :: "tool_reply \<Rightarrow> bool" where
  "tool_refused r \<longleftrightarrow> rp_status r = 200 \<and> rp_refused r \<and> REFUSAL (reply_error r)"

definition queue_answer :: "queue_error + queue_info \<times> service \<Rightarrow> service \<Rightarrow> start_answer \<times> service" where
  "queue_answer res sv =
     (case res of
        Inl (Queue_Full m) \<Rightarrow> (Refused_409 m, sv)
      | Inl (Job_Error e) \<Rightarrow> (Refused_400 e, sv)
      | Inr (info, sv') \<Rightarrow> (Queued_202 info, sv'))"

text \<open>
  \<^verbatim>\<open>_tool_start\<close>: \<open>agent\<close> says whether the request names an agent the manager knows, \<open>reply\<close> is what the
  proxied start would answer and \<open>probe\<close> the answer of \<^verbatim>\<open>can_wait\<close>. The flag of the result says whether
  the start was proxied to the host.
\<close>

definition tool_start ::
  "tool_deps \<Rightarrow> string \<Rightarrow> secs \<Rightarrow> bool \<Rightarrow> tool_reply \<Rightarrow> answer \<Rightarrow> run_request \<Rightarrow> service \<Rightarrow>
   bool \<times> start_answer \<times> service" where
  "tool_start dp jid now agent reply probe rq sv =
     (if \<not> agent then (True, Proxied reply, sv)
      else if held dp sv (rq_agent rq) \<and> can_wait probe
      then (False, queue_answer (queue_submit dp jid now rq sv) sv)
      else if tool_refused reply \<and> can_wait probe
      then (True, queue_answer (queue_submit dp jid now rq sv) sv)
      else (True, Proxied reply, sv))"

definition reportcard_queue_start ::
  "tool_deps \<Rightarrow> string \<Rightarrow> secs \<Rightarrow> answer \<Rightarrow> string \<Rightarrow> string \<Rightarrow> string \<Rightarrow> string \<Rightarrow> string \<Rightarrow> service \<Rightarrow>
   start_answer \<times> service" where
  "reportcard_queue_start dp jid now probe aid provider req user role sv =
     (if \<not> dp_agent_for dp aid \<or> \<not> held dp sv aid \<or> \<not> can_wait probe then (Not_Queued, sv)
      else queue_answer (submit_card dp jid now provider aid req user role sv) sv)"

end
