(* ===== verification/ToolQueueProps.thy ===== *)
theory ToolQueueProps
  imports ToolQueue JobTheorems
begin

text \<open>
  Properties of the tool queue on top of the job service: the bound on the runs of a host, the snapshot,
  the start routes, and the handler of a tool run (one start per job, no finish without a sighting, the
  end of every run).
\<close>

section \<open>Listing the live runs\<close>

definition live_run :: "job \<Rightarrow> bool" where
  "live_run r \<longleftrightarrow> jb_kind r \<in> set KINDS \<and> jb_status r \<in> set LIVE"

definition run_of :: "string \<Rightarrow> job \<Rightarrow> bool" where
  "run_of aid r \<longleftrightarrow> live_run r \<and> dict_get (jb_spec r) ''agent_id'' = Some aid"

definition live_runs :: "service \<Rightarrow> string \<Rightarrow> job list" where
  "live_runs sv aid = filter (run_of aid) (sv_rows sv)"

lemma where_live: "where_pred ''live'' (Some k) None None None = (\<lambda>r. jb_status r \<in> set LIVE \<and> jb_kind r = k)"
  by (auto simp: where_pred_def)

lemma list_live:
  assumes "length (filter (\<lambda>r. jb_status r \<in> set LIVE \<and> jb_kind r = k) (sv_rows sv)) \<le> 100"
  shows "list_jobs ''live'' (Some k) None None None LIST_MAX 0 sv =
    sort_key (\<lambda>r. (- jb_created r, jb_id r)) (filter (\<lambda>r. jb_status r \<in> set LIVE \<and> jb_kind r = k) (sv_rows sv))"
  using assms by (simp add: list_jobs_def where_live LIST_MAX_def)

lemma filter_split_length:
  "k \<noteq> k' \<Longrightarrow> length (filter (\<lambda>x. P x \<and> f x = k) xs) + length (filter (\<lambda>x. P x \<and> f x = k') xs) =
     length (filter (\<lambda>x. P x \<and> (f x = k \<or> f x = k')) xs)"
  by (induction xs) auto

lemma filter_twice: "filter P (filter Q xs) = filter (\<lambda>x. Q x \<and> P x) xs"
  by (simp add: conj_commute)

text \<open>The listing is complete as long as it is not cut at its limit.\<close>

lemma rows_for_length:
  assumes "length (filter live_run (sv_rows sv)) \<le> 100"
  shows "length (filter P (rows_for sv aid)) = length (filter (\<lambda>r. run_of aid r \<and> P r) (sv_rows sv))"
proof -
  let ?L = "\<lambda>k r. jb_status r \<in> set LIVE \<and> jb_kind r = k"
  let ?Q = "\<lambda>r. dict_get (jb_spec r) ''agent_id'' = Some aid \<and> P r"
  have ne: "KIND \<noteq> CARD_KIND" by (simp add: KIND_def CARD_KIND_def)
  have le: "length (filter (?L k) (sv_rows sv)) \<le> 100" if "k \<in> set KINDS" for k
    using assms that filter_length_mono [of "?L k" live_run "sv_rows sv"] by (auto simp: live_run_def)
  have "length (filter P (rows_for sv aid)) =
      length (filter ?Q (concat (map (\<lambda>k. list_jobs ''live'' (Some k) None None None LIST_MAX 0 sv) KINDS)))"
    by (simp add: rows_for_def live_rows_def filter_twice filter_sort)
  also have "\<dots> = length (filter ?Q (filter (?L KIND) (sv_rows sv))) + length (filter ?Q (filter (?L CARD_KIND) (sv_rows sv)))"
    using le [of KIND] le [of CARD_KIND] by (simp add: KINDS_def list_live filter_sort)
  also have "\<dots> = length (filter (\<lambda>r. (jb_status r \<in> set LIVE \<and> ?Q r) \<and> jb_kind r = KIND) (sv_rows sv)) +
      length (filter (\<lambda>r. (jb_status r \<in> set LIVE \<and> ?Q r) \<and> jb_kind r = CARD_KIND) (sv_rows sv))"
    unfolding filter_twice by (intro arg_cong2 [of _ _ _ _ plus] arg_cong [of _ _ length] filter_cong) auto
  also have "\<dots> = length (filter (\<lambda>r. run_of aid r \<and> P r) (sv_rows sv))"
    unfolding filter_split_length [OF ne] run_of_def live_run_def KINDS_def
    by (intro arg_cong [of _ _ length] filter_cong) auto
  finally show ?thesis .
qed

lemma filter_length_by_key:
  "(\<And>x. x \<in> set xs \<Longrightarrow> P x \<Longrightarrow> \<exists>a \<in> set as. g x = Some a) \<Longrightarrow>
     length (filter P xs) \<le> (\<Sum>a\<leftarrow>as. length (filter (\<lambda>x. P x \<and> g x = Some a) xs))"
proof (induction xs)
  case (Cons x xs)
  let ?n = "\<lambda>xs a. length (filter (\<lambda>x. P x \<and> g x = Some a) xs)"
  have IH: "length (filter P xs) \<le> sum_list (map (?n xs) as)" using Cons by auto
  show ?case
  proof (cases "P x")
    case True
    then obtain a where a: "a \<in> set as" "g x = Some a" using Cons.prems [of x] by auto
    have "sum_list (map (?n xs) bs) + (if a \<in> set bs then 1 else 0) \<le> sum_list (map (?n (x # xs)) bs)" for bs
      by (induction bs) (use True a in auto)
    from this [of as] a IH True show ?thesis by auto
  qed (use IH in simp)
qed simp

section \<open>The bound on the runs of a host\<close>

text \<open>
  The queue beside the job service: its own submissions, and every event of the service other than a
  direct submission of the queue's kinds (they are not submittable through the API). \<open>hosts\<close> are the
  agents of the fleet and \<open>cap\<close> is a bound on the configured queue length.
\<close>

datatype queue_event =
    Qe_Run tool_deps string secs run_request
  | Qe_Card tool_deps string secs string string string string string
  | Qe_Job job_event

definition queue_result :: "string \<Rightarrow> ledger_state \<Rightarrow> queue_error + queue_info \<times> service \<Rightarrow> ledger_state" where
  "queue_result jid us res = (case res of Inl _ \<Rightarrow> us | Inr (info, sv') \<Rightarrow> (jid # fst us, sv'))"

fun foreign :: "job_event \<Rightarrow> bool" where
  "foreign (Ev_Submit jid now sm) = (sm_kind sm \<notin> set KINDS)"
| "foreign _ = True"

definition admissible :: "nat \<Rightarrow> string list \<Rightarrow> tool_deps \<Rightarrow> string \<Rightarrow> string \<Rightarrow> ledger_state \<Rightarrow> bool" where
  "admissible cap hosts dp jid aid us \<longleftrightarrow> jid \<notin> set (fst us) \<and> aid \<in> set hosts \<and> queue_cap dp \<le> int cap"

fun queue_step :: "job_config \<Rightarrow> nat \<Rightarrow> string list \<Rightarrow> queue_event \<Rightarrow> ledger_state \<Rightarrow> ledger_state" where
  "queue_step cfg cap hosts (Qe_Run dp jid now rq) us =
     (if admissible cap hosts dp jid (rq_agent rq) us
      then queue_result jid us (queue_submit dp jid now rq (snd us)) else us)"
| "queue_step cfg cap hosts (Qe_Card dp jid now provider aid req user role) us =
     (if admissible cap hosts dp jid aid us
      then queue_result jid us (submit_card dp jid now provider aid req user role (snd us)) else us)"
| "queue_step cfg cap hosts (Qe_Job ev) us = (if foreign ev then job_step cfg ev us else us)"

text \<open>The kinds of the queue are registered with its validators and its exclusive key.\<close>

definition queue_kinds :: "service \<Rightarrow> bool" where
  "queue_kinds sv \<longleftrightarrow>
     (\<forall>k. kind_of sv KIND = Some k \<longrightarrow> (\<exists>dp w. k = tool_kind dp w)) \<and>
     (\<forall>k. kind_of sv CARD_KIND = Some k \<longrightarrow> (\<exists>dp cw. k = card_kind dp cw))"

definition run_row_ok :: "string list \<Rightarrow> job \<Rightarrow> bool" where
  "run_row_ok hosts r \<longleftrightarrow> jb_kind r \<in> set KINDS \<longrightarrow>
     (\<exists>aid \<in> set hosts. dict_get (jb_spec r) ''agent_id'' = Some aid \<and> jb_exclusive r = [perf_key aid])"

definition queue_inv :: "job_config \<Rightarrow> nat \<Rightarrow> string list \<Rightarrow> ledger_state \<Rightarrow> bool" where
  "queue_inv cfg cap hosts us \<longleftrightarrow>
     job_inv cfg us \<and> queue_kinds (snd us) \<and> (\<forall>r \<in> set (sv_rows (snd us)). run_row_ok hosts r) \<and>
     (\<forall>aid. length (live_runs (snd us) aid) \<le> cap + 1)"

lemma queue_listing:
  assumes "queue_inv cfg cap hosts (used, sv)" "length hosts * (cap + 1) \<le> 100"
  shows "length (filter live_run (sv_rows sv)) \<le> 100"
proof -
  let ?g = "\<lambda>r. dict_get (jb_spec r) ''agent_id''"
  have "\<exists>a \<in> set hosts. ?g r = Some a" if "r \<in> set (sv_rows sv)" "live_run r" for r
    using assms(1) that unfolding queue_inv_def run_row_ok_def live_run_def by fastforce
  then have "length (filter live_run (sv_rows sv)) \<le>
      (\<Sum>a\<leftarrow>hosts. length (filter (\<lambda>r. live_run r \<and> ?g r = Some a) (sv_rows sv)))"
    by (rule filter_length_by_key)
  also have "\<dots> \<le> (\<Sum>a\<leftarrow>hosts. cap + 1)"
    using assms(1) by (intro sum_list_mono) (simp add: queue_inv_def live_runs_def run_of_def [abs_def])
  also have "\<dots> = length hosts * (cap + 1)" by (simp add: sum_list_triv)
  finally show ?thesis using assms(2) by simp
qed

lemma filter_at_most_one:
  assumes "distinct (map f xs)" "\<And>x y. x \<in> set xs \<Longrightarrow> y \<in> set xs \<Longrightarrow> P x \<Longrightarrow> P y \<Longrightarrow> f x = f y"
  shows "length (filter P xs) \<le> 1"
proof (cases "filter P xs")
  case (Cons x ys)
  then have "x \<in> set (filter P xs)" by simp
  then have "\<forall>y \<in> set (filter P xs). f y = f x" using assms(2) by auto
  then have "length (filter P xs) \<le> length (filter (\<lambda>y. f y = f x) (filter P xs))" by (simp only: filter_True)
  also have "\<dots> \<le> 1" using assms(1) by (intro distinct_key_filter) (simp add: distinct_map_filter)
  finally show ?thesis .
qed simp

lemma one_running:
  assumes "queue_inv cfg cap hosts (used, sv)"
  shows "length (filter (\<lambda>r. run_of aid r \<and> jb_status r = Running) (sv_rows sv)) \<le> 1"
proof (rule filter_at_most_one)
  show "distinct (map jb_id (sv_rows sv))"
    using assms by (simp add: queue_inv_def job_inv_def store_wf_def)
  fix x y assume xy: "x \<in> set (sv_rows sv)" "y \<in> set (sv_rows sv)"
    "run_of aid x \<and> jb_status x = Running" "run_of aid y \<and> jb_status y = Running"
  have key: "jb_exclusive r = [perf_key aid]" if "r \<in> set (sv_rows sv)" "run_of aid r" for r
    using assms that by (auto simp: queue_inv_def run_row_ok_def run_of_def live_run_def)
  have "exclusion sv" using assms by (simp add: queue_inv_def job_inv_def)
  then have "jb_id x \<noteq> jb_id y \<Longrightarrow> set (jb_exclusive x) \<inter> set (jb_exclusive y) = {}"
    using xy unfolding exclusion_def active_def by metis
  then show "jb_id x = jb_id y" using key [of x] key [of y] xy by auto
qed

lemma map_of_copy_keys: "map_of (copy_keys ks spec) k = (if k \<in> set ks then map_of spec k else None)"
  by (induction ks) (auto simp: copy_keys_def split: option.splits)

lemma validate_tool_agent:
  assumes "validate_tool dp spec user role = (out, err)" "or_list err [] = []"
  shows "dict_get out ''agent_id'' = dict_get spec ''agent_id''"
  using assms unfolding validate_tool_def Let_def
  by (auto simp: update_conv' map_of_copy_keys split: if_splits)

lemma validate_card_agent:
  assumes "validate_card dp spec user role = (out, err)" "or_list err [] = []"
    "dict_get spec ''agent_id'' = Some aid"
  shows "dict_get out ''agent_id'' = Some aid"
  using assms unfolding validate_card_def
  by (auto simp: spec_text_def dict_get_or_def split: option.splits if_splits)

lemma new_row_spec [simp]:
  "jb_spec (new_row jid now k spec sm) = spec"
  "jb_exclusive (new_row jid now k spec sm) = (case ki_exclusive k of Some f \<Rightarrow> f spec | None \<Rightarrow> [])"
  by (simp_all add: new_row_def Let_def)

lemma submit_run_row:
  assumes "queue_kinds sv" "sm_kind sm \<in> set KINDS" "dict_get (sm_spec sm) ''agent_id'' = Some aid"
    and sub: "submit jid now sm sv = Inr (row, sv')"
  shows "dict_get (jb_spec row) ''agent_id'' = Some aid" "jb_exclusive row = [perf_key aid]" "jb_kind row = sm_kind sm"
proof -
  obtain k where k: "kind_of sv (sm_kind sm) = Some k"
    using sub by (auto simp: submit_def split: option.splits)
  have ne: "KIND \<noteq> CARD_KIND" by (simp add: KIND_def CARD_KIND_def)
  consider (tool) dp w where "k = tool_kind dp w" | (card) dp cw where "k = card_kind dp cw"
    using assms(1,2) k unfolding queue_kinds_def KINDS_def by auto
  then obtain f where f: "ki_validate k = Some f" and ex: "ki_exclusive k = Some (\<lambda>spec. [perf_key (spec_text spec ''agent_id'')])"
    and agent: "\<And>out err. f (sm_spec sm) (sm_user sm) (sm_role sm) = (out, err) \<Longrightarrow> or_list err [] = [] \<Longrightarrow>
       dict_get out ''agent_id'' = Some aid"
  proof cases
    case tool
    then show ?thesis using that assms(3) validate_tool_agent by (simp add: tool_kind_def)
  next
    case card
    then show ?thesis using that validate_card_agent [OF _ _ assms(3)] by (simp add: card_kind_def)
  qed
  obtain out err where out: "f (sm_spec sm) (sm_user sm) (sm_role sm) = (out, err)" by fastforce
  have row: "row = new_row jid now k out sm" "or_list err [] = []"
    using sub unfolding submit_def k by (auto simp: f out Let_def split: if_splits)
  from agent [OF out row(2)] show "dict_get (jb_spec row) ''agent_id'' = Some aid" by (simp add: row(1))
  then show "jb_exclusive row = [perf_key aid]" by (simp add: row(1) ex spec_text_def dict_get_or_def)
  show "jb_kind row = sm_kind sm" by (simp add: row(1))
qed

lemma job_step_kinds:
  assumes "job_inv cfg (used, sv)" "job_step cfg ev (used, sv) = (used', sv')"
  shows "sv_kinds sv' = sv_kinds sv"
proof -
  have ok: "ids_ok sv" using assms(1) by (simp add: job_inv_def store_wf_def)
  have fin: "fin_step sv s \<Longrightarrow> sv_kinds s = sv_kinds sv" for s by (simp add: fin_step_def)
  have sub: "submit jid now sm sv = Inr (row, s) \<Longrightarrow> sv_kinds s = sv_kinds sv" for jid now sm row s
    by (elim submit_Inr) simp
  have "sv_kinds (snd (job_step cfg ev (used, sv))) = sv_kinds sv"
  proof (cases ev)
    case (Ev_Submit jid now sm)
    then show ?thesis using sub by (auto split: sum.splits)
  qed
       (auto simp: annotate_def set_state_def ack_def worker_done_def sweep_daily_def split_beta Let_def
         split: option.splits
         intro!: fin fin_cancel fin_cancel_where fin_reap fin_timeouts fin_leases fin_start_due fin_restart ok)
  then show ?thesis by (simp add: assms(2))
qed

lemma queue_inv_job:
  assumes inv: "queue_inv cfg cap hosts (used, sv)" and "foreign ev"
    and step: "job_step cfg ev (used, sv) = (used', sv')"
  shows "queue_inv cfg cap hosts (used', sv')"
proof -
  have jinv: "job_inv cfg (used, sv)" using inv by (simp add: queue_inv_def)
  have kinds: "queue_kinds sv'"
    using inv job_step_kinds [OF jinv step] by (simp add: queue_inv_def queue_kinds_def kind_of_def)
  have fewer: "\<forall>aid. length (live_runs sv' aid) \<le> cap + 1"
    if "\<And>aid. length (live_runs sv' aid) \<le> length (live_runs sv aid)"
    using that inv unfolding queue_inv_def snd_conv by (meson order_trans)
  have "job_inv cfg (used', sv')" using job_inv_step [OF jinv, of ev] by (simp add: step)
  moreover have "(\<forall>r \<in> set (sv_rows sv'). run_row_ok hosts r) \<and> (\<forall>aid. length (live_runs sv' aid) \<le> cap + 1)"
    using jinv step
  proof (cases rule: job_step_cases)
    case edit
    have same: "run_row_ok hosts r' = run_row_ok hosts r" if "keeps r r'" for r r'
      using that by (simp add: keeps_def same_job_def run_row_ok_def)
    have "\<forall>r \<in> set (sv_rows sv'). run_row_ok hosts r"
    proof
      fix r' assume "r' \<in> set (sv_rows sv')"
      with edit(2) obtain r where "r \<in> set (sv_rows sv)" "keeps r r'"
        by (induction rule: list_all2_induct) auto
      then show "run_row_ok hosts r'" using inv same by (simp add: queue_inv_def)
    qed
    moreover have "length (live_runs sv' aid) \<le> length (live_runs sv aid)" for aid
      unfolding live_runs_def using edit(2)
      by (rule list_all2_filter_length) (auto simp: run_of_def live_run_def keeps_def same_job_def terminal_iff)
    ultimately show ?thesis using fewer by simp
  next
    case (sweep c)
    have "length (live_runs sv' aid) \<le> length (live_runs sv aid)" for aid
      unfolding live_runs_def sweep(2) by (rule filter_filter_length)
    then show ?thesis using fewer inv sweep(2) by (simp add: queue_inv_def)
  next
    case (insert jid now sm row)
    have "jb_kind row = sm_kind sm" using insert(4) by (elim submit_Inr) simp
    then have "jb_kind row \<notin> set KINDS" using assms(2) insert(1) by simp
    then show ?thesis
      using inv by (auto simp: queue_inv_def insert(5) run_row_ok_def live_runs_def run_of_def live_run_def)
  qed
  ultimately show ?thesis using kinds by (simp add: queue_inv_def)
qed

lemma queue_inv_enqueue:
  assumes inv: "queue_inv cfg cap hosts (used, sv)" and bound: "length hosts * (cap + 1) \<le> 100"
    and adm: "admissible cap hosts dp jid aid (used, sv)"
    and sm: "sm_kind sm \<in> set KINDS" "dict_get (sm_spec sm) ''agent_id'' = Some aid"
  shows "queue_inv cfg cap hosts (queue_result jid (used, sv) (enqueue dp jid now aid sm sv))"
proof (cases "enqueue dp jid now aid sm sv")
  case (Inl e)
  then show ?thesis using inv by (simp add: queue_result_def)
next
  case (Inr x)
  then obtain info sv' where x: "enqueue dp jid now aid sm sv = Inr (info, sv')" by (cases x) auto
  then obtain row where few: "int (length (filter (\<lambda>r. jb_status r = Queued) (rows_for sv aid))) < queue_cap dp"
    and sub: "submit jid now sm sv = Inr (row, sv')"
    unfolding enqueue_def queued_or_full_def Let_def by (auto split: if_splits sum.splits)
  have jinv: "job_inv cfg (used, sv)" using inv by (simp add: queue_inv_def)
  have new: "jid \<notin> set used" "aid \<in> set hosts" "queue_cap dp \<le> int cap" using adm by (simp_all add: admissible_def)
  then have "jid \<notin> jb_id ` set (sv_rows sv)" using jinv by (auto simp: job_inv_def store_wf_def)
  note sv' = submit_cases [OF sub this]
  have "queue_kinds sv" using inv by (simp add: queue_inv_def)
  note row = submit_run_row [OF this sm sub]
  have "length (live_runs sv aid) \<le>
      length (filter (\<lambda>r. run_of aid r \<and> jb_status r = Queued) (sv_rows sv)) +
      length (filter (\<lambda>r. run_of aid r \<and> jb_status r = Running) (sv_rows sv))"
    unfolding live_runs_def
    by (rule order_trans [OF filter_length_mono filter_or_length]) (auto simp: run_of_def live_run_def LIVE_def)
  also have "\<dots> \<le> (cap - 1) + 1"
    using few new(3) one_running [OF inv, of aid] rows_for_length [OF queue_listing [OF inv bound], of "\<lambda>r. jb_status r = Queued" aid]
    by linarith
  finally have "length (live_runs sv aid) \<le> cap" using few new(3) by linarith
  then have "length (live_runs sv' a) \<le> cap + 1" for a
    using inv row(1) by (cases "a = aid") (auto simp: queue_inv_def live_runs_def sv'(1) run_of_def)
  moreover have "run_row_ok hosts row" using new(2) row by (auto simp: run_row_ok_def)
  moreover have "queue_kinds sv'" using inv by (simp add: queue_inv_def queue_kinds_def kind_of_def sv'(5))
  ultimately show ?thesis
    using inv inv_submit [OF jinv new(1) sub] by (simp add: queue_inv_def queue_result_def x sv'(1))
qed

definition queue_booted :: "nat \<Rightarrow> string list \<Rightarrow> ledger_state \<Rightarrow> bool" where
  "queue_booted cap hosts us \<longleftrightarrow> length hosts * (cap + 1) \<le> 100 \<and> booted us \<and> queue_kinds (snd us) \<and>
     (\<forall>r \<in> set (sv_rows (snd us)). jb_kind r \<notin> set KINDS)"

interpretation queue: machine "queue_booted cap hosts" "queue_step cfg cap hosts"
  "\<lambda>us. length hosts * (cap + 1) \<le> 100 \<and> queue_inv cfg cap hosts us" for cap hosts cfg
proof unfold_locales
  fix us assume "queue_booted cap hosts us"
  moreover from this have "live_runs (snd us) aid = []" for aid
    by (auto simp: queue_booted_def live_runs_def run_of_def live_run_def filter_empty_conv)
  ultimately show "length hosts * (cap + 1) \<le> 100 \<and> queue_inv cfg cap hosts us"
    by (simp add: queue_booted_def queue_inv_def run_row_ok_def job_inv_boot)
next
  fix us ev assume inv: "length hosts * (cap + 1) \<le> 100 \<and> queue_inv cfg cap hosts us"
  obtain used sv where us: "us = (used, sv)" by fastforce
  note enq = queue_inv_enqueue [OF inv [THEN conjunct2, unfolded us] inv [THEN conjunct1]]
  have "queue_inv cfg cap hosts (queue_step cfg cap hosts ev us)"
  proof (cases ev)
    case (Qe_Run dp jid now rq)
    then show ?thesis
      using inv enq by (simp add: us queue_submit_def KINDS_def queue_submission_def request_spec_def)
  next
    case (Qe_Card dp jid now provider aid req user role)
    then show ?thesis
      using inv enq by (simp add: us submit_card_def KINDS_def queue_submission_def)
  next
    case (Qe_Job e)
    then show ?thesis
      using inv queue_inv_job [of cfg cap hosts used sv e] by (cases "job_step cfg e us") (auto simp: us)
  qed
  with inv show "length hosts * (cap + 1) \<le> 100 \<and> queue_inv cfg cap hosts (queue_step cfg cap hosts ev us)" by simp
qed

lemma queue_init_kinds:
  assumes "kind_of sv CARD_KIND = None"
  shows "queue_kinds (queue_init dp w cw sv)" "sv_rows (queue_init dp w cw sv) = sv_rows sv"
    "sv_workers (queue_init dp w cw sv) = sv_workers sv"
proof -
  have ne: "CARD_KIND \<noteq> KIND" "KIND \<noteq> CARD_KIND" by (simp_all add: KIND_def CARD_KIND_def)
  have names: "ki_name (tool_kind dp w) = KIND" "ki_name (card_kind dp cw) = CARD_KIND"
    by (simp_all add: tool_kind_def card_kind_def)
  show "queue_kinds (queue_init dp w cw sv)"
    using assms ne names by (auto simp: queue_kinds_def queue_init_def kind_of_def register_def update_conv' Let_def
        split: if_splits)
  show "sv_rows (queue_init dp w cw sv) = sv_rows sv" "sv_workers (queue_init dp w cw sv) = sv_workers sv"
    by (simp_all add: queue_init_def register_def Let_def)
qed

lemma queue_init_booted:
  assumes "booted (used, sv)" "kind_of sv CARD_KIND = None" "\<forall>r \<in> set (sv_rows sv). jb_kind r \<notin> set KINDS"
    and "length hosts * (cap + 1) \<le> 100"
  shows "queue_booted cap hosts (used, queue_init dp w cw sv)"
  using assms by (simp add: queue_booted_def booted_def queue_init_kinds)

text \<open>
  C6: from a booted ledger without Tools runs, when the number of hosts times (the queue length + 1) is at
  most the 100 rows that one listing of the ledger returns (\<^verbatim>\<open>jobs.LIST_MAX\<close>), after any sequence of
  queue submissions, job events, dispatcher phases and restarts: a host has at most one run more
  than the queue length allows (a running one), at most one of its runs is running, and the queue
  sees all of them. A submission counts queued runs only, and a running job goes back to the queue when
  its host is busy, so the queue length alone is not the bound.\<close>

theorem runs_per_host_bounded:
  assumes "booted (used0, sv0)" "kind_of sv0 CARD_KIND = None" "\<forall>r \<in> set (sv_rows sv0). jb_kind r \<notin> set KINDS"
    and "length hosts * (cap + 1) \<le> 100"
    and "fold (queue_step cfg cap hosts) es (used0, queue_init dp w cw sv0) = (used, sv)"
  shows "length (live_runs sv aid) \<le> cap + 1 \<and>
         length (filter (\<lambda>r. jb_status r = Running) (rows_for sv aid)) \<le> 1 \<and>
         length (rows_for sv aid) = length (live_runs sv aid)"
proof -
  have inv: "queue_inv cfg cap hosts (used, sv)"
    using queue.inv_run [OF queue_init_booted [OF assms(1-4)], of cfg es dp w cw] by (simp add: assms(5))
  note len = rows_for_length [OF queue_listing [OF inv assms(4)], of _ aid]
  show ?thesis
    using inv one_running [OF inv, of aid] len [of "\<lambda>r. jb_status r = Running"] len [of "\<lambda>r. True"]
    by (simp add: queue_inv_def live_runs_def)
qed

section \<open>The snapshot\<close>

lemma snapshot_fold:
  "dict_get_or (fold snapshot_add rows out) aid [] =
     dict_get_or out aid [] @ map run_entry_of (filter (\<lambda>r. row_agent r = aid) rows)"
  by (induction rows arbitrary: out) (simp_all add: snapshot_add_def dict_get_or_def update_conv')

lemma row_agent_iff: "aid \<noteq> [] \<Longrightarrow> row_agent r = aid \<longleftrightarrow> dict_get (jb_spec r) ''agent_id'' = Some aid"
  by (auto simp: row_agent_def spec_text_def dict_get_or_def split: option.splits)

lemma rows_for_set:
  assumes "length (filter live_run (sv_rows sv)) \<le> 100"
  shows "set (rows_for sv aid) = set (live_runs sv aid)"
proof -
  have "r \<in> set (rows_for sv aid) \<longleftrightarrow> r \<in> set (live_runs sv aid)" for r
  proof -
    have "r \<in> set (rows_for sv aid) \<longleftrightarrow> length (filter (\<lambda>x. x = r) (rows_for sv aid)) \<noteq> 0"
      by (auto simp: filter_empty_conv)
    also have "\<dots> \<longleftrightarrow> r \<in> set (live_runs sv aid)"
      unfolding rows_for_length [OF assms] by (auto simp: filter_empty_conv live_runs_def)
    finally show ?thesis .
  qed
  then show ?thesis by blast
qed

text \<open>
  the snapshot of the Tools view shows for every host exactly its live runs, the running one first and
  the others in the order of their creation, as long as the listing is not cut.\<close>

theorem snapshot_lists_runs:
  assumes "aid \<noteq> []" "length (filter live_run (sv_rows sv)) \<le> 100"
  shows "dict_get_or (snapshot sv) aid [] = map run_entry_of (rows_for sv aid) \<and>
         set (rows_for sv aid) = set (live_runs sv aid) \<and> sorted (map live_key (rows_for sv aid))"
proof -
  have "dict_get_or (snapshot sv) aid [] = map run_entry_of (rows_for sv aid)"
    unfolding snapshot_def snapshot_fold by (simp add: rows_for_def row_agent_iff [OF assms(1)] dict_get_or_def)
  moreover have "sorted (map live_key (rows_for sv aid))"
    unfolding rows_for_def live_rows_def by (simp add: filter_sort)
  ultimately show ?thesis by (simp add: rows_for_set [OF assms(2)])
qed

section \<open>The handler of a tool run\<close>

lemma spec_text_update [simp]: "spec_text (dict_set k v d) k' = (if k' = k then v else spec_text d k')"
  by (simp add: spec_text_def dict_get_or_def update_conv')

lemma nap_from_bound:
  assumes "waited = SLICE_S * of_nat k" "k \<le> 6"
  shows "nap_from c k waited \<le> 6"
  using assms
proof (induction c k waited rule: nap_from.induct)
  case (1 c k waited)
  have more: "Suc k \<le> 6" if "waited < POLL_S"
  proof -
    have "(of_nat k :: rat) < of_nat 6" using that 1(2) by (simp add: POLL_S_def SLICE_S_def)
    then show ?thesis by (simp only: of_nat_less_iff Suc_le_eq)
  qed
  have next_w: "waited + SLICE_S = SLICE_S * of_nat (Suc k)" using 1(2) by (simp add: algebra_simps)
  show ?case
  proof (cases "waited < POLL_S \<and> \<not> c k")
    case True
    have "nap_from c k waited = nap_from c (Suc k) (waited + SLICE_S)"
      using True by (subst nap_from.simps) (simp only: if_True simp_thms)
    then show ?thesis using 1(1) [OF True next_w] more True by simp
  next
    case False
    have "nap_from c k waited = k"
      using False by (subst nap_from.simps) (simp only: if_False)
    then show ?thesis using 1(3) by simp
  qed
qed

text \<open>A nap sleeps six slices at most.\<close>

lemma nap_bound: "nap c \<le> 6"
  unfolding nap_def by (rule nap_from_bound) simp_all

text \<open>Following a run only saves states that name the same run, and its outcome carries no state.\<close>

lemma follow_effects:
  assumes "follow dp flag started ps state seen last_ok = (es, oc)"
  shows "(\<forall>e \<in> set es. \<exists>st. e = Save_State st \<and> spec_text st ''run_id'' = spec_text state ''run_id'') \<and>
         (\<forall>out. oc = Some out \<longrightarrow> oc_state out = None)"
  using assms
proof (induction ps arbitrary: state seen last_ok es oc)
  case (Cons p ps)
  show ?case
  proof (cases "view_poll flag p")
    case PV_Active
    obtain fs oc' where f: "follow dp flag started ps (dict_set ''seen'' ''true'' state) True (po_now p) = (fs, oc')"
      by fastforce
    show ?thesis
      using Cons.prems PV_Active f Cons.IH [OF f] Cons.IH by (cases seen) (auto simp del: follow.simps(1))
  next
    case PV_Silent
    with Cons show ?thesis by (auto simp: job_fail_def split: if_splits)
  next
    case PV_Idle
    with Cons show ?thesis by (auto simp: job_fail_def job_finish_def split: if_splits)
  qed (use Cons.prems in \<open>auto simp: fail_cancelled_def job_fail_def\<close>)
qed simp

text \<open>
  The executions of one job: a job that waits for its host, or whose manager restarts, is run again with
  the state its last execution left in the ledger. What the handler meets may differ every time.
\<close>

definition saved_state :: "json_obj \<Rightarrow> tool_effect list \<Rightarrow> json_obj" where
  "saved_state st es = foldl (\<lambda>s e. case e of Save_State t \<Rightarrow> t | _ \<Rightarrow> s) st es"

definition after_run :: "json_obj \<Rightarrow> tool_effect list \<times> job_outcome option \<Rightarrow> json_obj" where
  "after_run st res =
     (case snd res of
        Some oc \<Rightarrow> (case oc_state oc of Some t \<Rightarrow> t | None \<Rightarrow> saved_state st (fst res))
      | None \<Rightarrow> saved_state st (fst res))"

fun executions :: "job \<Rightarrow> (tool_deps \<times> run_world) list \<Rightarrow> (tool_deps \<times> run_world \<times> tool_effect list) list" where
  "executions job [] = []"
| "executions job ((dp, w) # ws) =
     (dp, w, fst (run dp job w)) # executions (job\<lparr>jb_state := after_run (jb_state job) (run dp job w)\<rparr>) ws"

fun is_start :: "tool_effect \<Rightarrow> bool" where
  "is_start (Start_Run path body) = True"
| "is_start _ = False"

fun is_pre :: "tool_effect \<Rightarrow> bool" where
  "is_pre (Pre_Step path) = True"
| "is_pre _ = False"

definition accepts :: "answer \<Rightarrow> bool" where
  "accepts a = (case a of Answer r \<Rightarrow> rp_status r = 200 \<and> \<not> rp_refused r | _ \<Rightarrow> False)"

definition accepted :: "tool_deps \<times> run_world \<times> tool_effect list \<Rightarrow> bool" where
  "accepted x = (case x of (dp, w, es) \<Rightarrow> list_ex is_start es \<and> accepts (rw_start w))"

text \<open>A start is requested only on a host that nothing holds and whose agent reports no tool.\<close>

definition polite :: "string \<Rightarrow> tool_deps \<times> run_world \<times> tool_effect list \<Rightarrow> bool" where
  "polite aid x = (case x of (dp, w, es) \<Rightarrow>
     list_ex is_start es \<longrightarrow> aid \<notin> set (dp_held_agents dp) \<and> \<not> agent_busy (rw_busy w))"

definition pre_steps :: "(tool_deps \<times> run_world \<times> tool_effect list) list \<Rightarrow> nat" where
  "pre_steps xs = length (filter is_pre (concat (map (snd \<circ> snd) xs)))"

lemma saved_state_append [simp]: "saved_state st (es @ fs) = saved_state (saved_state st es) fs"
  by (simp add: saved_state_def)

lemma saved_run_id:
  assumes "\<forall>e \<in> set es. \<forall>t. e = Save_State t \<longrightarrow> spec_text t ''run_id'' \<noteq> []" "spec_text st ''run_id'' \<noteq> []"
  shows "spec_text (saved_state st es) ''run_id'' \<noteq> []"
  using assms by (induction es arbitrary: st) (auto simp: saved_state_def split: tool_effect.splits)

lemma run_follow_effects:
  assumes "run_follow dp spec w state = (es, oc)" "spec_text state ''run_id'' \<noteq> []"
  shows "\<not> list_ex is_start es" "filter is_pre es = []"
    "spec_text st ''run_id'' \<noteq> [] \<Longrightarrow> spec_text (after_run st (es, oc)) ''run_id'' \<noteq> []"
    "oc = Some out \<Longrightarrow> oc_state out = None"
proof -
  obtain fs where fs: "follow dp (spec_text FLAG (spec_text spec ''tool'')) (rw_started w) (rw_polls w) state
      (spec_text state ''seen'' = ''true'') (rw_entered w) = (fs, oc)"
    and es: "es = Note_Start (spec_text spec ''agent_id'') (spec_text spec ''provider'') (spec_text spec ''tool'') # fs"
    using assms(1) by (auto simp: run_follow_def split: prod.splits)
  note f = follow_effects [OF fs]
  show "\<not> list_ex is_start es" "filter is_pre es = []"
    using f by (auto simp: es list_ex_iff filter_empty_conv)
  show "oc = Some out \<Longrightarrow> oc_state out = None" using f by simp
  assume "spec_text st ''run_id'' \<noteq> []"
  then have "spec_text (saved_state st es) ''run_id'' \<noteq> []"
    using f assms(2) by (intro saved_run_id) (auto simp: es)
  then show "spec_text (after_run st (es, oc)) ''run_id'' \<noteq> []"
    using f by (auto simp: after_run_def split: option.splits)
qed

lemma run_started:
  assumes "spec_text (jb_state job) ''run_id'' \<noteq> []"
  shows "\<not> list_ex is_start (fst (run dp job w))" "filter is_pre (fst (run dp job w)) = []"
    "spec_text (after_run (jb_state job) (run dp job w)) ''run_id'' \<noteq> []"
proof -
  let ?st = "dict_set ''started'' (dp_num dp (rw_started w)) (jb_state job)"
  obtain es oc where f: "run_follow dp (jb_spec job) w ?st = (es, oc)" by fastforce
  have id: "spec_text ?st ''run_id'' \<noteq> []" using assms by simp
  have "run dp job w = (if dp_agent_for dp (spec_text (jb_spec job) ''agent_id'') then (es, oc)
      else ([], Some (job_fail ''unknown agent'' None True)))"
    using assms f by (simp add: run_def Let_def)
  then show "\<not> list_ex is_start (fst (run dp job w))" "filter is_pre (fst (run dp job w)) = []"
    "spec_text (after_run (jb_state job) (run dp job w)) ''run_id'' \<noteq> []"
    using run_follow_effects [OF f id] assms by (auto simp: after_run_def job_fail_def saved_state_def)
qed

text \<open>The calls of a start, up to its request, and the state they leave.\<close>

definition start_calls :: "tool_deps \<Rightarrow> json_obj \<Rightarrow> json_obj \<Rightarrow> tool_effect list" where
  "start_calls dp spec st =
     fst (run_pre spec st) @ run_quiet dp spec @ [Start_Run (spec_text spec ''path'') (spec_text spec ''body'')]"

lemma start_calls_effects:
  "length (filter is_pre (start_calls dp spec st)) \<le> (if spec_text st ''pre_done'' = ''true'' then 0 else 1)"
  "saved_state st (start_calls dp spec st) = snd (run_pre spec st)"
  "filter is_pre (start_calls dp spec st) \<noteq> [] \<or> spec_text st ''pre_done'' = ''true'' \<Longrightarrow>
     spec_text (snd (run_pre spec st)) ''pre_done'' = ''true''"
proof -
  have quiet: "filter is_pre (run_quiet dp spec) = []" "saved_state s (run_quiet dp spec) = s" for s
    by (simp_all add: run_quiet_def saved_state_def)
  have pre: "filter is_pre (start_calls dp spec st) = filter is_pre (fst (run_pre spec st))"
    by (simp add: start_calls_def quiet)
  show "length (filter is_pre (start_calls dp spec st)) \<le> (if spec_text st ''pre_done'' = ''true'' then 0 else 1)"
    unfolding pre by (simp add: run_pre_def Let_def)
  show "saved_state st (start_calls dp spec st) = snd (run_pre spec st)"
    by (simp add: start_calls_def quiet) (simp add: run_pre_def Let_def saved_state_def)
  show "spec_text (snd (run_pre spec st)) ''pre_done'' = ''true''"
    if "filter is_pre (start_calls dp spec st) \<noteq> [] \<or> spec_text st ''pre_done'' = ''true''"
  proof -
    have "filter is_pre (fst (run_pre spec st)) \<noteq> [] \<or> spec_text st ''pre_done'' = ''true''"
      using that unfolding pre .
    then show ?thesis
      by (cases "spec_text spec ''pre'' \<noteq> [] \<and> spec_text st ''pre_done'' \<noteq> ''true''")
         (auto simp: run_pre_def Let_def simp del: not_Cons_self2)
  qed
qed

lemma outcome_states [simp]:
  "oc_state (job_fail m retry alert) = None" "oc_state (waiting st) = st" "oc_state fail_cancelled = None"
  by (simp_all add: job_fail_def waiting_def job_again_def fail_cancelled_def)

lemma run_start_refused:
  assumes s: "run_start dp spec w st = (es, oc)" and "\<not> accepts (rw_start w)"
  shows "es = start_calls dp spec st" "after_run st (es, oc) = snd (run_pre spec st)"
proof -
  obtain ps st1 where pre: "run_pre spec st = (ps, st1)" by fastforce
  note calls = start_calls_def [of dp spec st, unfolded pre fst_conv]
  have "es = start_calls dp spec st \<and> (\<exists>out. oc = Some out \<and> (oc_state out = None \<or> oc_state out = Some st1))"
  proof (cases "rw_start w")
    case (Answer r)
    then have "rp_status r \<noteq> 200 \<or> rp_refused r" using assms(2) by (simp add: accepts_def)
    with s Answer show ?thesis
      unfolding run_start_def Let_def pre prod.case calls [symmetric] answer.case
      by (cases "REFUSAL (reply_error r)") (simp_all only: if_True if_False Pair_inject simp_thms, auto)
  qed (use s in \<open>auto simp: run_start_def Let_def pre calls\<close>)
  then show "es = start_calls dp spec st" "after_run st (es, oc) = snd (run_pre spec st)"
    using start_calls_effects(2) [of st dp spec] by (auto simp: after_run_def pre)
qed

lemma run_start_accepted:
  assumes "run_start dp spec w st = (es, oc)" "accepts (rw_start w)"
  shows "filter is_pre es = filter is_pre (start_calls dp spec st)"
    "spec_text (after_run st (es, oc)) ''run_id'' \<noteq> []"
proof -
  obtain r where r: "rw_start w = Answer r" "rp_status r = 200" "\<not> rp_refused r"
    using assms(2) by (auto simp: accepts_def split: answer.splits)
  define t where "t = started_state dp (rw_started w) r"
  have id: "spec_text t ''run_id'' \<noteq> []" by (simp add: t_def started_state_def spec_text_def dict_get_or_def)
  obtain fs oc' where f: "run_follow dp spec w t = (fs, oc')" by fastforce
  note f' = run_follow_effects [OF f id]
  have sv: "saved_state s [Save_State t] = t" for s by (simp add: saved_state_def)
  have eq: "es = start_calls dp spec st @ [Save_State t] @ (if rw_cancelled w then post_cancel spec else fs)"
    "oc = (if rw_cancelled w then Some fail_cancelled else oc')"
    using assms(1) f by (auto simp: run_start_def r start_calls_def Let_def t_def split: prod.splits if_splits)
  have stop: "filter is_pre (post_cancel spec) = []" "saved_state s (post_cancel spec) = s" for s
    by (simp_all add: post_cancel_def saved_state_def)
  show "filter is_pre es = filter is_pre (start_calls dp spec st)" using f'(2) stop by (simp add: eq(1))
  have "spec_text (after_run st (es, oc)) ''run_id'' \<noteq> []" if "\<not> rw_cancelled w"
  proof -
    have "after_run st (es, oc) = after_run t (fs, oc')"
      using that f'(4) by (auto simp: after_run_def eq sv simp del: append_Cons append_Nil split: option.splits)
    then show ?thesis using f'(3) [OF id] by simp
  qed
  moreover have "after_run st (es, oc) = t" if "rw_cancelled w"
    using that by (simp add: after_run_def eq sv stop fail_cancelled_def job_fail_def del: append_Cons append_Nil)
  ultimately show "spec_text (after_run st (es, oc)) ''run_id'' \<noteq> []" using id by (cases "rw_cancelled w") simp_all
qed

lemma run_fresh_cases:
  assumes "spec_text (jb_state job) ''run_id'' = []"
  obtains (start) "run dp job w = run_start dp (jb_spec job) w (jb_state job)"
      "spec_text (jb_spec job) ''agent_id'' \<notin> set (dp_held_agents dp)" "\<not> agent_busy (rw_busy w)"
    | (wait) out where "run dp job w = ([], Some out)" "oc_state out = None \<or> oc_state out = Some (jb_state job)"
proof -
  let ?aid = "spec_text (jb_spec job) ''agent_id''"
  have st: "oc_state (job_fail m b a) = None" "oc_state (waiting x) = x" for m a b x
    by (simp_all add: job_fail_def waiting_def job_again_def)
  show thesis
  proof (cases "dp_agent_for dp ?aid \<and> ?aid \<notin> set (dp_held_agents dp) \<and> \<not> agent_busy (rw_busy w)")
    case True
    then show thesis using assms by (intro start) (simp_all add: run_def Let_def)
  next
    case False
    then have "\<exists>out. run dp job w = ([], Some out) \<and> (oc_state out = None \<or> oc_state out = Some (jb_state job))"
      using assms by (auto simp: run_def Let_def st)
    then show thesis using wait by blast
  qed
qed

text \<open>One execution of a job that has not started yet.\<close>

lemma run_fresh:
  fixes dp w
  assumes "spec_text (jb_state job) ''run_id'' = []"
  defines "es \<equiv> fst (run dp job w)" and "st \<equiv> jb_state job" and "st' \<equiv> after_run (jb_state job) (run dp job w)"
  shows "length (filter is_pre es) \<le> (if spec_text st ''pre_done'' = ''true'' then 0 else 1) \<and>
    (accepted (dp, w, es) \<longrightarrow> spec_text st' ''run_id'' \<noteq> []) \<and>
    (spec_text st' ''run_id'' = [] \<longrightarrow> filter is_pre es \<noteq> [] \<or> spec_text st ''pre_done'' = ''true'' \<longrightarrow>
       spec_text st' ''pre_done'' = ''true'') \<and>
    (list_ex is_start es \<longrightarrow>
       spec_text (jb_spec job) ''agent_id'' \<notin> set (dp_held_agents dp) \<and> \<not> agent_busy (rw_busy w))"
  using assms(1)
proof (cases rule: run_fresh_cases [where dp = dp and w = w])
  case start
  have s: "run_start dp (jb_spec job) w st = (es, snd (run dp job w))"
    by (simp add: es_def st_def start(1))
  have st': "st' = after_run st (es, snd (run dp job w))" by (simp add: st'_def st_def es_def)
  note calls = start_calls_effects [where dp = dp and spec = "jb_spec job" and st = st]
  show ?thesis
  proof (cases "accepts (rw_start w)")
    case True
    from run_start_accepted [OF s True] show ?thesis using calls(1) start(2,3) by (simp add: st')
  next
    case False
    have na: "\<not> accepted (dp, w, es)" using False by (simp add: accepted_def)
    have r: "es = start_calls dp (jb_spec job) st" "st' = snd (run_pre (jb_spec job) st)"
      using run_start_refused [OF s False] by (simp_all only: st')
    show ?thesis using na start(2,3) calls(1,3) unfolding r by blast
  qed
next
  case (wait out)
  then show ?thesis
    by (auto simp: es_def st_def st'_def after_run_def accepted_def saved_state_def)
qed

lemma executions_started:
  assumes "spec_text (jb_state job) ''run_id'' \<noteq> []"
  shows "filter accepted (executions job ws) = [] \<and> pre_steps (executions job ws) = 0 \<and>
         list_all (polite (spec_text (jb_spec job) ''agent_id'')) (executions job ws)"
  using assms
proof (induction ws arbitrary: job)
  case (Cons x ws)
  obtain dp w where x: "x = (dp, w)" by fastforce
  note r = run_started [OF Cons.prems, of dp w]
  from Cons.IH [of "job\<lparr>jb_state := after_run (jb_state job) (run dp job w)\<rparr>"] r show ?case
    by (simp add: x pre_steps_def accepted_def polite_def)
qed (simp add: pre_steps_def)

lemma executions_fresh:
  "length (filter accepted (executions job ws)) \<le> 1 \<and>
   pre_steps (executions job ws) \<le> (if spec_text (jb_state job) ''pre_done'' = ''true'' then 0 else 1) \<and>
   list_all (polite (spec_text (jb_spec job) ''agent_id'')) (executions job ws)"
proof (induction ws arbitrary: job)
  case Nil
  show ?case by (simp add: pre_steps_def)
next
  case (Cons x ws)
  obtain dp w where x: "x = (dp, w)" by fastforce
  let ?job = "job\<lparr>jb_state := after_run (jb_state job) (run dp job w)\<rparr>"
  have exec: "executions job (x # ws) = (dp, w, fst (run dp job w)) # executions ?job ws" by (simp add: x)
  have pre: "pre_steps (executions job (x # ws)) =
      length (filter is_pre (fst (run dp job w))) + pre_steps (executions ?job ws)"
    by (simp add: exec pre_steps_def)
  show ?case
  proof (cases "spec_text (jb_state job) ''run_id'' = []")
    case False
    from executions_started [OF False, of "x # ws"] show ?thesis by simp
  next
    case True
    note f = run_fresh [OF True, of dp w]
    have polite: "polite (spec_text (jb_spec job) ''agent_id'') (dp, w, fst (run dp job w))"
      using f by (simp add: polite_def)
    show ?thesis
    proof (cases "spec_text (jb_state ?job) ''run_id'' = []")
      case False
      note e = executions_started [OF False, of ws]
      have "length (filter accepted (executions job (x # ws))) \<le> 1" unfolding exec using e by simp
      moreover have "pre_steps (executions job (x # ws)) \<le> (if spec_text (jb_state job) ''pre_done'' = ''true'' then 0 else 1)"
        unfolding pre using f e by simp
      moreover have "list_all (polite (spec_text (jb_spec job) ''agent_id'')) (executions job (x # ws))"
        unfolding exec using polite e by simp
      ultimately show ?thesis by blast
    next
      case again: True
      then have na: "\<not> accepted (dp, w, fst (run dp job w))" using f by auto
      have "length (filter is_pre (fst (run dp job w))) + pre_steps (executions ?job ws) \<le>
          (if spec_text (jb_state job) ''pre_done'' = ''true'' then 0 else 1)"
      proof (cases "filter is_pre (fst (run dp job w)) \<noteq> [] \<or> spec_text (jb_state job) ''pre_done'' = ''true''")
        case True
        then have "spec_text (jb_state ?job) ''pre_done'' = ''true''" using f again by simp
        then have "pre_steps (executions ?job ws) = 0" using Cons.IH [of ?job] by simp
        then show ?thesis using f by simp
      next
        case False
        then show ?thesis using Cons.IH [of ?job] by (auto split: if_splits)
      qed
      then have "pre_steps (executions job (x # ws)) \<le> (if spec_text (jb_state job) ''pre_done'' = ''true'' then 0 else 1)"
        unfolding pre .
      moreover have "length (filter accepted (executions job (x # ws))) \<le> 1"
        unfolding exec using Cons.IH [of ?job] na by simp
      moreover have "list_all (polite (spec_text (jb_spec job) ''agent_id'')) (executions job (x # ws))"
        unfolding exec using polite Cons.IH [of ?job] by simp
      ultimately show ?thesis by blast
    qed
  qed
qed

text \<open>
  C5: however often a tool run is executed, because its host was busy or the manager restarted while it was
  followed: at most one of its start requests is accepted by the agent, its pre-step (the stop of the
  model server) is made at most once, and a start is only ever requested when no other tool holds the
  host and the agent reports none.\<close>

theorem tool_run_starts_once:
  "length (filter accepted (executions job ws)) \<le> 1 \<and> pre_steps (executions job ws) \<le> 1 \<and>
   list_all (polite (spec_text (jb_spec job) ''agent_id'')) (executions job ws)"
  using executions_fresh [of job ws] by (simp split: if_splits)

section \<open>The end of a tool run\<close>

text \<open>An idle answer, after an active one unless the run has been seen before (\<open>b\<close>).\<close>

definition sighted :: "string \<Rightarrow> poll list \<Rightarrow> bool \<Rightarrow> bool" where
  "sighted flag ps b \<longleftrightarrow>
     (\<exists>i < length ps. view_poll flag (ps ! i) = PV_Idle \<and> (b \<or> (\<exists>j < i. view_poll flag (ps ! j) = PV_Active)))"

lemma sighted_later:
  assumes "sighted flag ps b" "b \<longrightarrow> seen \<or> view_poll flag p = PV_Active"
  shows "sighted flag (p # ps) seen"
proof -
  obtain i where i: "i < length ps" "view_poll flag (ps ! i) = PV_Idle"
    "b \<or> (\<exists>j < i. view_poll flag (ps ! j) = PV_Active)"
    using assms(1) unfolding sighted_def by blast
  have "seen \<or> (\<exists>j < Suc i. view_poll flag ((p # ps) ! j) = PV_Active)"
  proof (cases b)
    case True
    then show ?thesis using assms(2) by (auto intro: exI [of _ 0])
  next
    case False
    then obtain j where "j < i" "view_poll flag (ps ! j) = PV_Active" using i(3) by blast
    then show ?thesis by (intro disjI2 exI [of _ "Suc j"]) simp
  qed
  then show ?thesis using i(1,2) unfolding sighted_def by (intro exI [of _ "Suc i"]) simp
qed

lemma not_finish [simp]:
  "oc_verb (job_fail m r a) \<noteq> V_finish" "oc_verb fail_cancelled \<noteq> V_finish" "oc_verb (waiting x) \<noteq> V_finish"
  by (simp_all add: job_fail_def fail_cancelled_def waiting_def job_again_def)

lemma follow_finish:
  assumes "follow dp flag started ps state seen last_ok = (es, Some out)" "oc_verb out = V_finish"
  shows "sighted flag ps seen"
  using assms
proof (induction ps arbitrary: state seen last_ok es)
  case (Cons p ps)
  show ?case
  proof (cases "view_poll flag p")
    case PV_Active
    let ?st = "if seen then state else dict_set ''seen'' ''true'' state"
    obtain fs oc where f: "follow dp flag started ps ?st True (po_now p) = (fs, oc)" by fastforce
    have "oc = Some out" using Cons.prems(1) PV_Active f by (cases seen) simp_all
    then have "sighted flag ps True" using f Cons.prems(2) Cons.IH by blast
    then show ?thesis using PV_Active by (intro sighted_later) simp_all
  next
    case PV_Silent
    then have "follow dp flag started ps state seen last_ok = (es, Some out)"
      using Cons.prems by (auto split: if_splits)
    then have "sighted flag ps seen" using Cons.IH Cons.prems(2) by blast
    then show ?thesis by (rule sighted_later) simp
  next
    case PV_Idle
    show ?thesis
    proof (cases seen)
      case True
      then show ?thesis using PV_Idle unfolding sighted_def by (intro exI [of _ 0]) simp
    next
      case False
      then have "follow dp flag started ps state False (po_now p) = (es, Some out)"
        using PV_Idle Cons.prems by (auto split: if_splits)
      then have "sighted flag ps False" using Cons.IH Cons.prems(2) by blast
      then show ?thesis by (rule sighted_later) simp
    qed
  qed (use Cons.prems in \<open>auto dest: not_finish [THEN notE]\<close>)
qed simp

definition tool_flag :: "job \<Rightarrow> string" where
  "tool_flag job = spec_text FLAG (spec_text (jb_spec job) ''tool'')"

lemma run_follow_sighted:
  assumes "run_follow dp spec w st = (es, Some out)" "oc_verb out = V_finish" "spec = jb_spec job"
  shows "sighted (tool_flag job) (rw_polls w) (spec_text st ''seen'' = ''true'')"
proof -
  obtain fs where "follow dp (tool_flag job) (rw_started w) (rw_polls w) st (spec_text st ''seen'' = ''true'') (rw_entered w) =
      (fs, Some out)"
    using assms(1) by (auto simp: run_follow_def tool_flag_def assms(3) split: prod.splits)
  then show ?thesis using assms(2) by (rule follow_finish)
qed

lemma run_start_sighted:
  assumes s: "run_start dp spec w st = (es, Some out)" and "oc_verb out = V_finish" "spec = jb_spec job"
  shows "sighted (tool_flag job) (rw_polls w) False"
proof -
  obtain ps st1 where pre: "run_pre spec st = (ps, st1)" by fastforce
  have "\<exists>r. rw_start w = Answer r \<and> rp_status r = 200 \<and> \<not> rp_refused r"
    using s assms(2) by (auto simp: run_start_def Let_def pre split: answer.splits if_splits)
  then obtain r where r: "rw_start w = Answer r" "rp_status r = 200" "\<not> rp_refused r" by blast
  obtain fs where "run_follow dp spec w (started_state dp (rw_started w) r) = (fs, Some out)"
    using s assms(2) by (auto simp: run_start_def Let_def pre r split: prod.splits if_splits)
  from run_follow_sighted [OF this assms(2,3)] show ?thesis
    by (simp add: started_state_def spec_text_def dict_get_or_def)
qed

text \<open>
  a tool run is reported as finished only when the agent showed the tool as active and later as idle; a run
  that was seen before a restart of the manager needs the idle answer only.\<close>

theorem finish_needs_sighting:
  assumes "run dp job w = (es, Some out)" "oc_verb out = V_finish"
  shows "\<exists>i < length (rw_polls w). view_poll (tool_flag job) (rw_polls w ! i) = PV_Idle \<and>
     ((spec_text (jb_state job) ''run_id'' \<noteq> [] \<and> spec_text (jb_state job) ''seen'' = ''true'') \<or>
      (\<exists>j < i. view_poll (tool_flag job) (rw_polls w ! j) = PV_Active))"
proof -
  have "sighted (tool_flag job) (rw_polls w)
      (spec_text (jb_state job) ''run_id'' \<noteq> [] \<and> spec_text (jb_state job) ''seen'' = ''true'')"
  proof (cases "spec_text (jb_state job) ''run_id'' = []")
    case False
    have "run_follow dp (jb_spec job) w (dict_set ''started'' (dp_num dp (rw_started w)) (jb_state job)) = (es, Some out)"
      using assms False by (auto simp: run_def Let_def split: if_splits)
    from run_follow_sighted [OF this assms(2) refl] show ?thesis using False by simp
  next
    case True
    then have "run_start dp (jb_spec job) w (jb_state job) = (es, Some out)"
      using assms by (auto simp: run_def Let_def split: if_splits)
    from run_start_sighted [OF this assms(2) refl] show ?thesis using True by simp
  qed
  then show ?thesis unfolding sighted_def .
qed

text \<open>Turns that end a run, whatever came before them: a cancelled job, an idle answer after the grace
  period, or more than a minute without a usable answer.\<close>

definition decisive :: "string \<Rightarrow> secs \<Rightarrow> poll list \<Rightarrow> bool" where
  "decisive flag started ps \<longleftrightarrow> ps \<noteq> [] \<and>
     (view_poll flag (hd ps) = PV_Cancelled \<or>
      (view_poll flag (hd ps) = PV_Idle \<and> po_now (hd ps) - started > START_GRACE_S) \<or>
      (list_all (\<lambda>p. view_poll flag p = PV_Silent) ps \<and> po_now (last ps) - po_now (hd ps) > UNREACHABLE_MAX_S))"

lemma silent_ends:
  assumes "ps \<noteq> []" "list_all (\<lambda>p. view_poll flag p = PV_Silent) ps" "po_now (last ps) - last_ok > UNREACHABLE_MAX_S"
  shows "snd (follow dp flag started ps state seen last_ok) \<noteq> None"
  using assms by (induction ps) (auto split: if_splits)

lemma decisive_ends:
  assumes "decisive flag started ps" "last_ok \<le> po_now (hd ps)"
  shows "snd (follow dp flag started ps state seen last_ok) \<noteq> None"
proof -
  obtain p qs where ps: "ps = p # qs" using assms(1) by (cases ps) (auto simp: decisive_def)
  consider "view_poll flag p = PV_Cancelled" | "view_poll flag p = PV_Idle" "po_now p - started > START_GRACE_S"
    | "list_all (\<lambda>p. view_poll flag p = PV_Silent) ps" "po_now (last ps) - po_now p > UNREACHABLE_MAX_S"
    using assms(1) by (auto simp: decisive_def ps)
  then show ?thesis
  proof cases
    case 3
    then show ?thesis using assms(2) by (intro silent_ends) (simp_all add: ps)
  qed (simp_all add: ps)
qed

lemma follow_reaches:
  assumes "\<And>state seen last_ok. last_ok \<le> m \<Longrightarrow> snd (follow dp flag started qs state seen last_ok) \<noteq> None"
    and "list_all (\<lambda>p. po_now p \<le> m) ps" "last_ok \<le> m"
  shows "snd (follow dp flag started (ps @ qs) state seen last_ok) \<noteq> None"
  using assms(2,3)
proof (induction ps arbitrary: state seen last_ok)
  case (Cons p ps)
  then have "po_now p \<le> m" by simp
  then show ?case
    using Cons by (cases "view_poll flag p") (simp_all add: split_beta Let_def)
qed (simp add: assms(1))

text \<open>
  C38: the handler of a tool run always comes to an end: with a clock that does not go back, it has an outcome at
  the latest when the job is cancelled (the dispatcher cancels it at its time limit), when the agent shows
  the tool idle after the grace period, or when the agent has not answered for more than a minute.\<close>

theorem tool_run_ends:
  assumes "rw_polls w = ps @ qs" "list_all (\<lambda>p. po_now p \<le> po_now (hd qs)) ps" "rw_entered w \<le> po_now (hd qs)"
    and "decisive (tool_flag job) (rw_started w) qs"
  shows "\<exists>es out. run dp job w = (es, Some out)"
proof -
  have "snd (follow dp (tool_flag job) (rw_started w) (rw_polls w) st b (rw_entered w)) \<noteq> None" for st b
    unfolding assms(1) by (rule follow_reaches [OF decisive_ends [OF assms(4)] assms(2,3)])
  then have f: "snd (run_follow dp (jb_spec job) w st) \<noteq> None" for st
    by (simp add: run_follow_def tool_flag_def split_beta)
  have "snd (run_start dp (jb_spec job) w st) \<noteq> None" for st
    using f by (auto simp: run_start_def Let_def split_beta split: answer.splits)
  with f have "snd (run dp job w) \<noteq> None" by (simp add: run_def Let_def)
  then show ?thesis by (cases "run dp job w") auto
qed

section \<open>Start or queue\<close>

lemma enqueue_Inr:
  assumes "enqueue dp jid now aid sm sv = Inr (info, sv')"
  shows "qi_position info = length (filter (\<lambda>r. jb_status r = Queued) (rows_for sv aid)) + 1"
    "int (qi_position info) \<le> queue_cap dp"
  using assms unfolding enqueue_def queued_or_full_def Let_def by (auto split: if_splits sum.splits)

text \<open>
  the start route asks the host or the queue, never both with success: it queues only a host that can be
  waited for, and then only without asking the host when something holds it, or after the host refused the
  start as busy. A queued run gets the next position, within the limit; a full queue is refused and
  changes nothing, and only a queued run changes the ledger.\<close>

theorem start_or_queue:
  assumes "tool_start dp jid now agent reply probe rq sv = (asked, ans, sv')"
  shows "case ans of
      Queued_202 info \<Rightarrow> agent \<and> can_wait probe \<and>
        (if asked then tool_refused reply \<and> \<not> held dp sv (rq_agent rq) else held dp sv (rq_agent rq)) \<and>
        qi_position info = length (filter (\<lambda>r. jb_status r = Queued) (rows_for sv (rq_agent rq))) + 1 \<and>
        int (qi_position info) \<le> queue_cap dp
    | Proxied r \<Rightarrow> asked \<and> r = reply \<and> sv' = sv \<and> (agent \<and> can_wait probe \<longrightarrow> \<not> tool_refused reply)
    | Refused_409 m \<Rightarrow> sv' = sv \<and>
        queue_cap dp \<le> int (length (filter (\<lambda>r. jb_status r = Queued) (rows_for sv (rq_agent rq))))
    | Refused_400 e \<Rightarrow> sv' = sv
    | Not_Queued \<Rightarrow> False"
proof -
  let ?q = "queue_submit dp jid now rq sv"
  consider (proxy) "asked" "ans = Proxied reply" "sv' = sv" "agent \<and> can_wait probe \<longrightarrow> \<not> tool_refused reply"
    | (queue) "agent" "can_wait probe" "(ans, sv') = queue_answer ?q sv"
        "if asked then tool_refused reply \<and> \<not> held dp sv (rq_agent rq) else held dp sv (rq_agent rq)"
    using assms unfolding tool_start_def by (auto split: if_splits)
  then show ?thesis
  proof cases
    case queue
    show ?thesis
    proof (cases ?q)
      case (Inl e)
      with queue(3) show ?thesis
        by (cases e)
           (auto simp: queue_answer_def queue_submit_def enqueue_def queued_or_full_def Let_def
             split: if_splits sum.splits)
    next
      case (Inr x)
      then obtain info s where x: "?q = Inr (info, s)" by (cases x) auto
      with queue enqueue_Inr [OF x [unfolded queue_submit_def]] show ?thesis by (simp add: queue_answer_def)
    qed
  qed simp
qed

section \<open>A small fleet\<close>

definition ex_deps :: tool_deps where
  "ex_deps = \<lparr>dp_agent_for = (\<lambda>aid. aid = ''h1''), dp_hostname = (\<lambda>aid. ''gpu-1''), dp_held_agents = [],
     dp_holder_tool = (\<lambda>_. None), dp_max_queued = 1, dp_cards = True, dp_quiet = True,
     dp_body = (\<lambda>_. \<lparr>tb_model_ids = None, tb_model_id = ''m'', tb_model = [], tb_budget_min = None, tb_builds = False\<rparr>),
     dp_req = (\<lambda>_. None), dp_num = (\<lambda>_. ''0''), dp_json = (\<lambda>_. ''{}'')\<rparr>"

definition ex_reply :: "string list \<Rightarrow> tool_reply" where
  "ex_reply flags = \<lparr>rp_status = 200, rp_error = [], rp_detail = [], rp_refused = False, rp_run_id = ''r1'', rp_active = flags\<rparr>"

definition ex_poll :: "secs \<Rightarrow> string list \<Rightarrow> poll" where
  "ex_poll t flags = \<lparr>po_cancelled = False, po_answer = Answer (ex_reply flags), po_now = t\<rparr>"

definition ex_world :: run_world where
  "ex_world = \<lparr>rw_busy = Answer (ex_reply []), rw_pre = Answer (ex_reply []), rw_start = Answer (ex_reply []),
     rw_started = 100, rw_cancelled = False, rw_entered = 100,
     rw_polls = [ex_poll 103 [''bench_active''], ex_poll 120 []]\<rparr>"

definition ex_card_world :: card_world where
  "ex_card_world = \<lparr>cw_status = None, cw_busy = Answer (ex_reply []), cw_start = None, cw_started = 100,
     cw_cancelled = False, cw_polls = []\<rparr>"

definition ex_request :: run_request where
  "ex_request = \<lparr>rq_provider = ''llama'', rq_agent = ''h1'', rq_tool = ''benchmark'', rq_path = ''/llama/bench/run'',
     rq_cancel = ''/llama/bench/cancel'', rq_body = ''{}'', rq_user = ''ann'', rq_role = ''operator'',
     rq_pre = Some ''/llama/server/stop''\<rparr>"

text \<open>Two submissions around a dispatcher phase: the first run is running, the second waits, the third is refused.\<close>

definition ex_queue_events :: "queue_event list" where
  "ex_queue_events = [Qe_Run ex_deps ''t1'' 10 ex_request, Qe_Job (Ev_Start_Due 11 (\<lambda>_. 11)),
     Qe_Run ex_deps ''t2'' 12 ex_request, Qe_Run ex_deps ''t3'' 13 ex_request]"

definition ex_queue_final :: ledger_state where
  "ex_queue_final = fold (queue_step ex_config 1 [''h1'']) ex_queue_events
     ([], queue_init ex_deps (\<lambda>_. ex_world) (\<lambda>_. ex_card_world) ex_service)"

theorem runs_per_host_bounded_witness:
  "map jb_status (live_runs (snd ex_queue_final) ''h1'') = [Running, Queued] \<and>
   length (live_runs (snd ex_queue_final) ''h1'') \<le> 2 \<and>
   length (filter (\<lambda>r. jb_status r = Running) (rows_for (snd ex_queue_final) ''h1'')) \<le> 1"
proof -
  have run: "map jb_status (live_runs (snd ex_queue_final) ''h1'') = [Running, Queued]" by code_simp
  have "booted ([], ex_service)" by (rule ex_booted)
  moreover have "kind_of ex_service CARD_KIND = None" by code_simp
  moreover have "\<forall>r \<in> set (sv_rows ex_service). jb_kind r \<notin> set KINDS" by (simp add: ex_service_def)
  moreover have "length [''h1''] * (1 + 1) \<le> (100 :: nat)" by simp
  moreover have "fold (queue_step ex_config 1 [''h1'']) ex_queue_events
      ([], queue_init ex_deps (\<lambda>_. ex_world) (\<lambda>_. ex_card_world) ex_service) = (fst ex_queue_final, snd ex_queue_final)"
    by (simp add: ex_queue_final_def)
  ultimately have "length (live_runs (snd ex_queue_final) ''h1'') \<le> 1 + 1 \<and>
      length (filter (\<lambda>r. jb_status r = Running) (rows_for (snd ex_queue_final) ''h1'')) \<le> 1 \<and>
      length (rows_for (snd ex_queue_final) ''h1'') = length (live_runs (snd ex_queue_final) ''h1'')"
    by (rule runs_per_host_bounded)
  with run show ?thesis by simp
qed

theorem snapshot_lists_runs_witness:
  "map re_job_id (dict_get_or (snapshot (snd ex_queue_final)) ''h1'' []) = [''t1'', ''t2''] \<and>
   dict_get_or (snapshot (snd ex_queue_final)) ''h1'' [] = map run_entry_of (rows_for (snd ex_queue_final) ''h1'')"
proof -
  have "length (filter live_run (sv_rows (snd ex_queue_final))) \<le> 100" by code_simp
  from snapshot_lists_runs [OF _ this, of "''h1''"]
  have "dict_get_or (snapshot (snd ex_queue_final)) ''h1'' [] = map run_entry_of (rows_for (snd ex_queue_final) ''h1'')"
    by simp
  moreover have "map re_job_id (dict_get_or (snapshot (snd ex_queue_final)) ''h1'' []) = [''t1'', ''t2'']" by code_simp
  ultimately show ?thesis by simp
qed

definition ex_run_job :: job where
  "ex_run_job = hd (sv_rows (snd ex_queue_final))"

definition ex_busy_world :: run_world where
  "ex_busy_world = ex_world\<lparr>rw_busy := Answer (ex_reply [''quality_active''])\<rparr>"

text \<open>A busy host, a start, and a second execution after a restart of the manager.\<close>

theorem tool_run_starts_once_witness:
  "map accepted (executions ex_run_job [(ex_deps, ex_busy_world), (ex_deps, ex_world), (ex_deps, ex_world)]) =
     [False, True, False] \<and>
   pre_steps (executions ex_run_job [(ex_deps, ex_busy_world), (ex_deps, ex_world), (ex_deps, ex_world)]) \<le> 1"
proof -
  have "map accepted (executions ex_run_job [(ex_deps, ex_busy_world), (ex_deps, ex_world), (ex_deps, ex_world)]) =
     [False, True, False]" by code_simp
  then show ?thesis
    using tool_run_starts_once [of ex_run_job "[(ex_deps, ex_busy_world), (ex_deps, ex_world), (ex_deps, ex_world)]"]
    by simp
qed

theorem finish_needs_sighting_witness:
  "\<exists>i < 2. view_poll ''bench_active'' (rw_polls ex_world ! i) = PV_Idle \<and>
     (\<exists>j < i. view_poll ''bench_active'' (rw_polls ex_world ! j) = PV_Active)"
proof -
  let ?r = "run ex_deps ex_run_job ex_world"
  have fin: "map_option oc_verb (snd ?r) = Some V_finish" by code_simp
  then obtain out where out: "?r = (fst ?r, Some out)" "oc_verb out = V_finish" by (cases ?r) auto
  have "tool_flag ex_run_job = ''bench_active''" "length (rw_polls ex_world) = 2"
    "spec_text (jb_state ex_run_job) ''run_id'' = []" by code_simp+
  with finish_needs_sighting [OF out] show ?thesis by simp
qed

theorem tool_run_ends_witness:
  "\<exists>es out. run ex_deps ex_run_job ex_world = (es, Some out)"
proof (rule tool_run_ends)
  show "rw_polls ex_world = [ex_poll 103 [''bench_active'']] @ [ex_poll 120 []]" by (simp add: ex_world_def)
  show "list_all (\<lambda>p. po_now p \<le> po_now (hd [ex_poll 120 []])) [ex_poll 103 [''bench_active'']]"
    "rw_entered ex_world \<le> po_now (hd [ex_poll 120 []])"
    by (simp_all add: ex_poll_def ex_world_def)
  show "decisive (tool_flag ex_run_job) (rw_started ex_world) [ex_poll 120 []]" by code_simp
qed

definition ex_start :: "bool \<times> start_answer \<times> service" where
  "ex_start = tool_start ex_deps ''t2'' 12 True (ex_reply []) (Answer (ex_reply [])) ex_request
     (snd (fold (queue_step ex_config 1 [''h1'']) (take 2 ex_queue_events)
        ([], queue_init ex_deps (\<lambda>_. ex_world) (\<lambda>_. ex_card_world) ex_service)))"

theorem start_or_queue_witness:
  "\<exists>info. fst (snd ex_start) = Queued_202 info \<and> int (qi_position info) \<le> queue_cap ex_deps \<and> queue_cap ex_deps = 1"
proof -
  have "(case fst (snd ex_start) of Queued_202 info \<Rightarrow> True | _ \<Rightarrow> False)" by code_simp
  then obtain info where info: "fst (snd ex_start) = Queued_202 info" by (cases "fst (snd ex_start)") simp_all
  have "ex_start = (fst ex_start, fst (snd ex_start), snd (snd ex_start))" by simp
  from start_or_queue [OF this [unfolded ex_start_def], folded ex_start_def]
  have "int (qi_position info) \<le> queue_cap ex_deps" unfolding info start_answer.case by (elim conjE)
  moreover have "queue_cap ex_deps = 1" by code_simp
  ultimately show ?thesis using info by simp
qed

text \<open>
  With a limit of one waiting run, two wait after the running one has found its host busy and gone back to
  the queue: the limit holds for submissions only.\<close>

definition ex_requeued :: ledger_state where
  "ex_requeued = fold (job_step ex_config) [Ev_Worker_Done ''t1'' (Some (waiting None)), Ev_Reap (\<lambda>_. 14)] ex_queue_final"

theorem requeued_run_exceeds_limit:
  "length (filter (\<lambda>r. jb_status r = Queued) (rows_for (snd ex_requeued) ''h1'')) = 2 \<and> queue_cap ex_deps = 1"
  by code_simp

end
