(* ===== verification/ToolActivity.thy ===== *)
theory ToolActivity
  imports ToolQueue
begin

text \<open>
  The activity tracker of the manager (\<^verbatim>\<open>src/llm-systems-manager/backend/tool_activity.py\<close>): which agents
  run a Tools job. A started run is recorded, then confirmed or expired from cached answers of the agent's
  \<^verbatim>\<open>tools/state\<close>; a stale answer is refreshed by a thread, whose answer arrives as an event of its own.
  Its busy agents are the hosts the tool queue and the autopilot treat as held.
\<close>

section \<open>State\<close>

definition PROBE_TTL_S :: secs where "PROBE_TTL_S = 5"
definition RUN_GRACE_S :: secs where "RUN_GRACE_S = 5"
definition UNCONFIRMED_MAX_S :: secs where "UNCONFIRMED_MAX_S = 60"

record run_record =
  ra_provider :: string
  ra_at :: secs

text \<open>An answer of a probe: \<open>None\<close> when the agent cannot answer, otherwise the tools it reports active.\<close>

type_synonym tools_state = "string list option"

record probe =
  pr_at :: secs
  pr_state :: tools_state

record activity =
  ac_runs :: "(string \<times> string, run_record) dict"
  ac_probe :: "(string \<times> string, probe) dict"
  ac_inflight :: "(string \<times> string) list"

definition activity_reset :: activity where
  "activity_reset = \<lparr>ac_runs = [], ac_probe = [], ac_inflight = []\<rparr>"

definition note_start :: "string \<Rightarrow> string \<Rightarrow> string \<Rightarrow> secs \<Rightarrow> activity \<Rightarrow> activity" where
  "note_start aid provider tool now ac =
     (if aid = [] \<or> tool \<notin> set TOOLS then ac
      else ac\<lparr>ac_runs := dict_set (aid, tool)
                \<lparr>ra_provider = (if provider \<noteq> [] then provider else ''llama''), ra_at = now\<rparr> (ac_runs ac)\<rparr>)"

definition note_end :: "string \<Rightarrow> string \<Rightarrow> activity \<Rightarrow> activity" where
  "note_end aid tool ac = ac\<lparr>ac_runs := dict_pop (aid, tool) (ac_runs ac)\<rparr>"

section \<open>Probes\<close>

text \<open>The body of a \<^verbatim>\<open>tools/state\<close> answer; \<open>ts_quality\<close> is \<open>None\<close> when the key is absent.\<close>

record tools_body =
  ts_bench :: bool
  ts_autotune :: bool
  ts_quality :: "bool option"

definition fetch_state :: "tools_body option \<Rightarrow> tools_state" where
  "fetch_state resp =
     (case resp of
        None \<Rightarrow> None
      | Some b \<Rightarrow>
          (let tuning = ts_autotune b; q = (case ts_quality b of Some x \<Rightarrow> x | None \<Rightarrow> tuning)
           in Some ((if ts_bench b then [''benchmark''] else []) @
                    (if tuning \<and> ts_quality b \<noteq> Some True then [''autotune''] else []) @
                    (if q then [''quality''] else []))))"

definition refresh :: "string \<times> string \<Rightarrow> secs \<Rightarrow> tools_body option \<Rightarrow> activity \<Rightarrow> activity" where
  "refresh key now resp ac =
     ac\<lparr>ac_probe := dict_set key \<lparr>pr_at = now, pr_state = fetch_state resp\<rparr> (ac_probe ac),
        ac_inflight := filter (\<lambda>k. k \<noteq> key) (ac_inflight ac)\<rparr>"

text \<open>
  \<^verbatim>\<open>_probe\<close>: the outer \<open>None\<close> is an agent that never answered. \<open>sync\<close> is the answer of a synchronous
  refresh; without it a thread is started, and the cached answer is returned as it is.
\<close>

definition probe_stale :: "secs \<Rightarrow> probe option \<Rightarrow> bool" where
  "probe_stale now hit = (case hit of None \<Rightarrow> True | Some p \<Rightarrow> now - pr_at p \<ge> PROBE_TTL_S)"

definition probe_agent ::
  "string \<Rightarrow> string \<Rightarrow> secs \<Rightarrow> tools_body option option \<Rightarrow> activity \<Rightarrow> tools_state option \<times> activity" where
  "probe_agent aid provider now sync ac =
     (let key = (aid, provider);
          start = (probe_stale now (dict_get (ac_probe ac) key) \<and> key \<notin> set (ac_inflight ac));
          ac1 = (if start then ac\<lparr>ac_inflight := key # ac_inflight ac\<rparr> else ac);
          ac2 = (if start then (case sync of Some resp \<Rightarrow> refresh key now resp ac1 | None \<Rightarrow> ac1) else ac1)
      in (map_option pr_state (dict_get (ac_probe ac2) key), ac2))"

section \<open>Confirming and expiring runs\<close>

definition unconfirmed :: "secs \<Rightarrow> string \<Rightarrow> tools_state option \<Rightarrow> secs \<Rightarrow> bool" where
  "unconfirmed age tool state unconfirmed_max =
     (case state of Some (Some tools) \<Rightarrow> tool \<notin> set tools | _ \<Rightarrow> age > unconfirmed_max)"

definition sweep_one ::
  "secs \<Rightarrow> (string \<Rightarrow> string \<Rightarrow> tools_body option option) \<Rightarrow> (string \<times> string) \<times> run_record \<Rightarrow> activity \<Rightarrow> activity" where
  "sweep_one now sync x ac =
     (case x of ((aid, tool), rec) \<Rightarrow>
        (if now - ra_at rec < RUN_GRACE_S then ac
         else (case probe_agent aid (ra_provider rec) now (sync aid (ra_provider rec)) ac of
                 (state, ac1) \<Rightarrow>
                   (if unconfirmed (now - ra_at rec) tool state UNCONFIRMED_MAX_S then note_end aid tool ac1 else ac1))))"

definition activity_sweep ::
  "secs \<Rightarrow> (string \<Rightarrow> string \<Rightarrow> tools_body option option) \<Rightarrow> activity \<Rightarrow> activity" where
  "activity_sweep now sync ac = fold (sweep_one now sync) (ac_runs ac) ac"

definition cannot_answer :: "string \<Rightarrow> activity \<Rightarrow> bool" where
  "cannot_answer aid ac =
     (let states = [pr_state p. ((a, _), p) \<leftarrow> ac_probe ac, a = aid]
      in states \<noteq> [] \<and> list_all (\<lambda>st. st = None) states)"

record activity_view =
  av_tools :: "(string, bool) dict"
  av_reportcard :: bool
  av_agents :: "(string, string list) dict"
  av_unqueueable :: "string list"

definition agent_add :: "string \<times> string \<Rightarrow> (string, string list) dict \<Rightarrow> (string, string list) dict" where
  "agent_add x agents = (case x of (aid, tool) \<Rightarrow> dict_set aid (dict_get_or agents aid [] @ [tool]) agents)"

definition activity_snapshot ::
  "secs \<Rightarrow> (string \<Rightarrow> string \<Rightarrow> tools_body option option) \<Rightarrow> string list \<Rightarrow> activity \<Rightarrow> activity_view \<times> activity" where
  "activity_snapshot now sync rc_agents ac =
     (let ac1 = activity_sweep now sync ac;
          runs = dict_keys (ac_runs ac1);
          tools = fold (\<lambda>(aid, tool). dict_set tool True) runs (map (\<lambda>t. (t, False)) TOOLS);
          agents = fold agent_add (runs @ map (\<lambda>aid. (aid, ''reportcard'')) rc_agents) []
      in (\<lparr>av_tools = tools, av_reportcard = (rc_agents \<noteq> []),
           av_agents = map (\<lambda>(a, ts). (a, sort (remdups ts))) agents,
           av_unqueueable = sort (filter (\<lambda>a. cannot_answer a ac1) (dict_keys agents))\<rparr>, ac1))"

definition busy_agents :: "secs \<Rightarrow> string list \<Rightarrow> activity \<Rightarrow> string list \<times> activity" where
  "busy_agents now rc_agents ac =
     (case activity_snapshot now (\<lambda>_ _. None) rc_agents ac of (v, ac1) \<Rightarrow> (dict_keys (av_agents v), ac1))"

section \<open>The sweep\<close>

text \<open>Without a synchronous refresh a sweep decides every run from the cache it starts with.\<close>

definition run_kept :: "secs \<Rightarrow> (string \<times> string, probe) dict \<Rightarrow> (string \<times> string) \<times> run_record \<Rightarrow> bool" where
  "run_kept now probes x = (case x of ((aid, tool), rec) \<Rightarrow>
     now - ra_at rec < RUN_GRACE_S \<or>
     \<not> unconfirmed (now - ra_at rec) tool (map_option pr_state (dict_get probes (aid, ra_provider rec))) UNCONFIRMED_MAX_S)"

lemma probe_async [simp]:
  "fst (probe_agent aid provider now None ac) = map_option pr_state (dict_get (ac_probe ac) (aid, provider))"
  "ac_probe (snd (probe_agent aid provider now None ac)) = ac_probe ac"
  "ac_runs (snd (probe_agent aid provider now None ac)) = ac_runs ac"
  by (simp_all add: probe_agent_def Let_def)

lemma sweep_one_async:
  "ac_probe (sweep_one now (\<lambda>_ _. None) x ac) = ac_probe ac"
  "ac_runs (sweep_one now (\<lambda>_ _. None) x ac) =
     (if run_kept now (ac_probe ac) x then ac_runs ac else dict_pop (fst x) (ac_runs ac))"
  by (cases x; cases "fst x"; simp add: sweep_one_def run_kept_def split_beta note_end_def)+

lemma sweep_fold:
  "ac_runs (fold (sweep_one now (\<lambda>_ _. None)) rs ac) =
     filter (\<lambda>x. fst x \<notin> fst ` set (filter (\<lambda>r. \<not> run_kept now (ac_probe ac) r) rs)) (ac_runs ac)"
proof (induction rs arbitrary: ac)
  case (Cons r rs)
  show ?case
    by (auto simp: Cons.IH sweep_one_async AList.delete_eq case_prod_unfold intro!: filter_cong)
qed simp

lemma sweep_runs:
  assumes "dict_ok (ac_runs ac)"
  shows "ac_runs (activity_sweep now (\<lambda>_ _. None) ac) = filter (run_kept now (ac_probe ac)) (ac_runs ac)"
proof -
  have "fst x \<in> fst ` set (filter (\<lambda>r. \<not> run_kept now (ac_probe ac) r) (ac_runs ac)) \<longleftrightarrow> \<not> run_kept now (ac_probe ac) x"
    if "x \<in> set (ac_runs ac)" for x
  proof -
    have "inj_on fst (set (ac_runs ac))" using assms by (simp add: distinct_map)
    from inj_on_image_mem_iff [OF this that, of "set (filter (\<lambda>r. \<not> run_kept now (ac_probe ac) r) (ac_runs ac))"]
    show ?thesis using that by simp
  qed
  then show ?thesis unfolding activity_sweep_def sweep_fold by (intro filter_cong refl) blast
qed

section \<open>Reachable states\<close>

text \<open>The tracker's critical sections in any order; \<open>Ac_Refresh\<close> is the thread of a probe storing its answer.\<close>

datatype activity_event =
    Ac_Start string string string secs
  | Ac_End string string
  | Ac_Refresh "string \<times> string" secs "tools_body option"
  | Ac_Snapshot secs "string list"

fun activity_step :: "activity_event \<Rightarrow> activity \<Rightarrow> activity" where
  "activity_step (Ac_Start aid provider tool now) ac = note_start aid provider tool now ac"
| "activity_step (Ac_End aid tool) ac = note_end aid tool ac"
| "activity_step (Ac_Refresh key now resp) ac = refresh key now resp ac"
| "activity_step (Ac_Snapshot now rc) ac = snd (activity_snapshot now (\<lambda>_ _. None) rc ac)"

definition tools_ok :: "tools_state \<Rightarrow> bool" where
  "tools_ok st = (case st of None \<Rightarrow> True | Some ts \<Rightarrow> set ts \<subseteq> set TOOLS)"

definition run_keys_ok :: "(string \<times> string) set \<Rightarrow> bool" where
  "run_keys_ok ks \<longleftrightarrow> (\<forall>(aid, tool) \<in> ks. aid \<noteq> [] \<and> tool \<in> set TOOLS)"

definition activity_ok :: "activity \<Rightarrow> bool" where
  "activity_ok ac \<longleftrightarrow> dict_ok (ac_runs ac) \<and> dict_ok (ac_probe ac) \<and> run_keys_ok (fst ` set (ac_runs ac)) \<and>
     (\<forall>p \<in> snd ` set (ac_probe ac). tools_ok (pr_state p))"

lemma run_keys_ok_simps [simp]:
  "run_keys_ok {}" "run_keys_ok (insert (aid, tool) ks) \<longleftrightarrow> aid \<noteq> [] \<and> tool \<in> set TOOLS \<and> run_keys_ok ks"
  by (auto simp: run_keys_ok_def)

lemma run_keys_ok_subset: "run_keys_ok ks \<Longrightarrow> ks' \<subseteq> ks \<Longrightarrow> run_keys_ok ks'"
  by (auto simp: run_keys_ok_def)

lemma dict_set_values: "p \<in> snd ` set (dict_set k v d) \<Longrightarrow> p = v \<or> p \<in> snd ` set d"
  by (induction d) (auto split: if_splits)

lemma fetch_ok: "tools_ok (fetch_state resp)"
  by (auto simp: tools_ok_def fetch_state_def TOOLS_def Let_def split: option.splits)

lemma activity_ok_start: "activity_ok ac \<Longrightarrow> activity_ok (note_start aid provider tool now ac)"
  by (simp add: activity_ok_def note_start_def distinct_update dom_update)

lemma activity_ok_end:
  assumes "activity_ok ac"
  shows "activity_ok (note_end aid tool ac)"
proof -
  have "fst ` set (dict_pop (aid, tool) (ac_runs ac)) \<subseteq> fst ` set (ac_runs ac)"
    by (auto simp: AList.delete_eq)
  moreover have "run_keys_ok (fst ` set (ac_runs ac))" using assms by (simp add: activity_ok_def)
  ultimately have "run_keys_ok (fst ` set (dict_pop (aid, tool) (ac_runs ac)))" by (rule run_keys_ok_subset [rotated])
  with assms show ?thesis by (simp add: activity_ok_def note_end_def dict_ok_pop)
qed

lemma activity_ok_refresh:
  assumes "activity_ok ac"
  shows "activity_ok (refresh key now resp ac)"
proof -
  have "\<forall>p \<in> snd ` set (dict_set key \<lparr>pr_at = now, pr_state = fetch_state resp\<rparr> (ac_probe ac)). tools_ok (pr_state p)"
  proof
    fix p assume "p \<in> snd ` set (dict_set key \<lparr>pr_at = now, pr_state = fetch_state resp\<rparr> (ac_probe ac))"
    then have "p = \<lparr>pr_at = now, pr_state = fetch_state resp\<rparr> \<or> p \<in> snd ` set (ac_probe ac)"
      by (rule dict_set_values)
    then show "tools_ok (pr_state p)" using assms fetch_ok by (auto simp: activity_ok_def)
  qed
  then show ?thesis using assms by (simp add: activity_ok_def refresh_def distinct_update)
qed

lemma sweep_probe: "ac_probe (activity_sweep now (\<lambda>_ _. None) ac) = ac_probe ac"
proof -
  have "ac_probe (fold (sweep_one now (\<lambda>_ _. None)) xs a) = ac_probe a" for xs a
    by (induction xs arbitrary: a) (simp_all add: sweep_one_async)
  then show ?thesis by (simp add: activity_sweep_def)
qed

lemma activity_ok_sweep:
  assumes "activity_ok ac"
  shows "activity_ok (activity_sweep now (\<lambda>_ _. None) ac)"
proof -
  have ok: "dict_ok (ac_runs ac)" using assms by (simp add: activity_ok_def)
  have keys: "run_keys_ok (fst ` set (ac_runs ac))" using assms by (simp add: activity_ok_def)
  have "run_keys_ok (fst ` set (filter P (ac_runs ac)))" for P
    by (rule run_keys_ok_subset [OF keys]) auto
  with ok assms show ?thesis
    unfolding activity_ok_def sweep_probe sweep_runs [OF ok] by (intro conjI distinct_map_filter) simp_all
qed

interpretation tracker: machine "\<lambda>ac. ac = activity_reset" activity_step activity_ok
proof unfold_locales
  show "activity_ok ac" if "ac = activity_reset" for ac
    using that by (simp add: activity_ok_def activity_reset_def)
  show "activity_ok (activity_step ev ac)" if "activity_ok ac" for ac ev
    using that
    by (cases ev) (simp_all add: activity_ok_start activity_ok_end activity_ok_refresh activity_snapshot_def
        activity_ok_sweep Let_def)
qed

lemma agent_add_keys: "set (dict_keys (fold agent_add xs agents)) = fst ` set xs \<union> set (dict_keys agents)"
proof (induction xs arbitrary: agents)
  case (Cons x xs)
  have "set (dict_keys (agent_add x agents)) = insert (fst x) (set (dict_keys agents))"
    by (cases x) (simp only: agent_add_def prod.case fst_conv set_map dom_update Un_insert_left Un_empty_left)
  then show ?case unfolding fold_simps Cons.IH by simp
qed simp

lemma busy_agents_set:
  assumes "dict_ok (ac_runs ac)"
  shows "set (fst (busy_agents now rc ac)) =
     set rc \<union> (fst \<circ> fst) ` set (filter (run_kept now (ac_probe ac)) (ac_runs ac))"
proof -
  let ?ks = "dict_keys (filter (run_kept now (ac_probe ac)) (ac_runs ac)) @ map (\<lambda>a. (a, ''reportcard'')) rc"
  have "fst (busy_agents now rc ac) = dict_keys (fold agent_add ?ks [])"
    unfolding busy_agents_def activity_snapshot_def Let_def sweep_runs [OF assms]
    by (simp add: case_prod_unfold comp_def)
  then have "set (fst (busy_agents now rc ac)) = fst ` set ?ks" using agent_add_keys [of ?ks "[]"] by simp
  also have "\<dots> = set rc \<union> (fst \<circ> fst) ` set (filter (run_kept now (ac_probe ac)) (ac_runs ac))"
    by (simp only: set_append image_Un set_map image_image comp_def fst_conv image_ident Un_commute)
  finally show ?thesis .
qed

text \<open>
  C39: after any sequence of starts, ends, probe answers and snapshots, the agents reported busy are exactly
  those with a Report Card run and those with a recorded run that is in its first five seconds, or that the
  agent's last answer shows active, or that no answer could confirm for at most a minute.\<close>

theorem busy_agents_exact:
  assumes "fold activity_step es activity_reset = ac"
  shows "aid \<in> set (fst (busy_agents now rc ac)) \<longleftrightarrow>
     aid \<in> set rc \<or>
     (\<exists>tool rec. dict_get (ac_runs ac) (aid, tool) = Some rec \<and>
        (now - ra_at rec < 5 \<or>
         (case map_option pr_state (dict_get (ac_probe ac) (aid, ra_provider rec)) of
            Some (Some tools) \<Rightarrow> tool \<in> set tools
          | _ \<Rightarrow> now - ra_at rec \<le> 60)))"
proof -
  have ok: "dict_ok (ac_runs ac)"
    using tracker.inv_run [of activity_reset es] assms by (simp add: activity_ok_def)
  have kept: "run_kept now (ac_probe ac) ((aid, tool), rec) \<longleftrightarrow>
      now - ra_at rec < 5 \<or>
      (case map_option pr_state (dict_get (ac_probe ac) (aid, ra_provider rec)) of
         Some (Some tools) \<Rightarrow> tool \<in> set tools | _ \<Rightarrow> now - ra_at rec \<le> 60)" for tool rec
    by (auto simp: run_kept_def unconfirmed_def RUN_GRACE_S_def UNCONFIRMED_MAX_S_def not_less split: option.splits)
  have get: "dict_get (ac_runs ac) (aid, tool) = Some rec \<longleftrightarrow> ((aid, tool), rec) \<in> set (ac_runs ac)" for tool rec
    using ok by simp
  show ?thesis
    unfolding busy_agents_set [OF ok] get kept [symmetric] by force
qed

definition ex_answer :: "bool \<Rightarrow> tools_body" where
  "ex_answer bench = \<lparr>ts_bench = bench, ts_autotune = False, ts_quality = Some False\<rparr>"

text \<open>A benchmark starts, is confirmed by a probe, and ends with an idle answer.\<close>

definition ex_first_run :: "activity_event list" where
  "ex_first_run = [Ac_Start ''h1'' ''llama'' ''benchmark'' 100, Ac_Snapshot 106 [], Ac_Refresh (''h1'', ''llama'') 106 (Some (ex_answer True)),
     Ac_Snapshot 112 [], Ac_Refresh (''h1'', ''llama'') 112 (Some (ex_answer False)), Ac_Snapshot 118 []]"

theorem busy_agents_exact_witness:
  "''h1'' \<in> set (fst (busy_agents 112 [] (fold activity_step (take 3 ex_first_run) activity_reset))) \<and>
   ''h1'' \<notin> set (fst (busy_agents 118 [] (fold activity_step ex_first_run activity_reset)))"
proof -
  let ?a = "fold activity_step (take 3 ex_first_run) activity_reset"
  let ?b = "fold activity_step ex_first_run activity_reset"
  have a: "dict_get (ac_runs ?a) (''h1'', ''benchmark'') = Some \<lparr>ra_provider = ''llama'', ra_at = 100\<rparr>"
    "map_option pr_state (dict_get (ac_probe ?a) (''h1'', ''llama'')) = Some (Some [''benchmark''])" by code_simp+
  have b: "ac_runs ?b = []" by code_simp
  have "''h1'' \<in> set (fst (busy_agents 112 [] ?a))"
    unfolding busy_agents_exact [OF refl]
    by (intro disjI2 exI [of _ "''benchmark''"] exI [of _ "\<lparr>ra_provider = ''llama'', ra_at = 100\<rparr>"]) (simp add: a)
  moreover have "''h1'' \<notin> set (fst (busy_agents 118 [] ?b))"
    unfolding busy_agents_exact [OF refl] by (simp add: b)
  ultimately show ?thesis by simp
qed

section \<open>Answers older than the run\<close>

text \<open>Events that neither store an answer for \<open>(aid, prov)\<close> nor record a new run of \<open>tool\<close> on \<open>aid\<close>.\<close>

definition leaves_alone :: "string \<Rightarrow> string \<Rightarrow> string \<Rightarrow> activity_event \<Rightarrow> bool" where
  "leaves_alone aid prov tool ev =
     (case ev of
        Ac_Start a p t now \<Rightarrow> \<not> (a = aid \<and> t = tool)
      | Ac_End a t \<Rightarrow> True
      | Ac_Refresh key now resp \<Rightarrow> key \<noteq> (aid, prov)
      | Ac_Snapshot now rc \<Rightarrow> True)"

lemma sweep_get:
  assumes "activity_ok ac"
  shows "dict_get (ac_runs (activity_sweep now (\<lambda>_ _. None) ac)) k =
    (case dict_get (ac_runs ac) k of
       None \<Rightarrow> None | Some rec \<Rightarrow> if run_kept now (ac_probe ac) (k, rec) then Some rec else None)"
proof -
  have ok: "dict_ok (ac_runs ac)" using assms by (simp add: activity_ok_def)
  have "map_of (filter P (ac_runs ac)) k = (case map_of (ac_runs ac) k of None \<Rightarrow> None | Some v \<Rightarrow> if P (k, v) then Some v else None)"
    for P using ok
  proof (induction "ac_runs ac" arbitrary: ac)
    case (Cons x xs)
    have "map_of (filter P xs) k = (case map_of xs k of None \<Rightarrow> None | Some v \<Rightarrow> if P (k, v) then Some v else None)"
      using Cons.hyps(1) [of "ac\<lparr>ac_runs := xs\<rparr>"] Cons.prems Cons.hyps(2) [symmetric] by simp
    moreover have "fst x = k \<Longrightarrow> map_of xs k = None"
      using Cons.prems Cons.hyps(2) [symmetric] by (auto simp: map_of_eq_None_iff)
    ultimately show ?case unfolding Cons.hyps(2) [symmetric] by (cases x) auto
  qed (simp add: eq_commute)
  then show ?thesis by (simp only: sweep_runs [OF ok])
qed

lemma stale_step:
  assumes "activity_ok ac" "leaves_alone aid prov tool ev"
    and "dict_get (ac_probe ac) (aid, prov) = Some p" "dict_get (ac_runs ac) (aid, tool) \<in> {None, Some rec}"
  shows "dict_get (ac_probe (activity_step ev ac)) (aid, prov) = Some p \<and>
    dict_get (ac_runs (activity_step ev ac)) (aid, tool) \<in> {None, Some rec}"
proof (cases ev)
  case (Ac_Snapshot now rc)
  then show ?thesis using assms(3,4)
    by (auto simp: activity_snapshot_def Let_def sweep_probe sweep_get [OF assms(1)] split: option.splits)
qed (use assms in \<open>auto simp: leaves_alone_def note_start_def note_end_def refresh_def dict_simps\<close>)

text \<open>
  C40: an answer that was cached before a run started decides that run: in every state of the tracker, when the
  cached answer of the agent shows a tool idle and a run of the tool is recorded, then the first snapshot five
  seconds or more after the start drops the record, whatever happens in between, as long as no newer answer of
  the agent has been stored and the tool has not been started again. The answer to the probe that the
  snapshot itself starts comes too late.\<close>

theorem stale_answer_drops_run:
  assumes "fold activity_step es0 activity_reset = ac"
    and "dict_get (ac_probe ac) (aid, prov) = Some p" "pr_state p = Some tools" "tool \<notin> set tools"
    and "list_all (leaves_alone aid prov tool) es" "5 \<le> now - t0" "prov \<noteq> []"
  shows "dict_get (ac_runs (fold activity_step (Ac_Start aid prov tool t0 # es @ [Ac_Snapshot now rc]) ac)) (aid, tool) = None"
proof -
  let ?ac0 = "note_start aid prov tool t0 ac" and ?rec = "\<lparr>ra_provider = prov, ra_at = t0\<rparr>"
  have ok: "activity_ok (fold activity_step xs ac)" for xs
    using tracker.inv_run [of activity_reset "es0 @ xs"] assms(1) by simp
  have "aid = [] \<or> tool \<notin> set TOOLS \<Longrightarrow> dict_get (ac_runs ac) (aid, tool) = None"
    using ok [of "[]"] by (auto simp: activity_ok_def run_keys_ok_def map_of_eq_None_iff)
  then have start: "dict_get (ac_probe ?ac0) (aid, prov) = Some p" "dict_get (ac_runs ?ac0) (aid, tool) \<in> {None, Some ?rec}"
    using assms(2,7) by (auto simp: note_start_def dict_simps)
  have mid: "dict_get (ac_probe (fold activity_step es ?ac0)) (aid, prov) = Some p \<and>
      dict_get (ac_runs (fold activity_step es ?ac0)) (aid, tool) \<in> {None, Some ?rec}"
    using assms(5)
  proof (induction es rule: rev_induct)
    case (snoc ev es)
    have "activity_ok (fold activity_step es ?ac0)" using ok [of "Ac_Start aid prov tool t0 # es"] by simp
    then show ?case using stale_step [of _ aid prov tool ev p ?rec] snoc by simp
  qed (use start in simp)
  have end_ok: "activity_ok (fold activity_step es ?ac0)" using ok [of "Ac_Start aid prov tool t0 # es"] by simp
  have "\<not> run_kept now (ac_probe (fold activity_step es ?ac0)) ((aid, tool), ?rec)"
    using mid assms(3,4,6) by (simp add: run_kept_def unconfirmed_def RUN_GRACE_S_def)
  then show ?thesis using mid
    by (auto simp: activity_snapshot_def Let_def sweep_get [OF end_ok] split: option.splits)
qed

theorem stale_answer_drops_run_witness:
  "dict_get (ac_runs (fold activity_step (ex_first_run @ [Ac_Start ''h1'' ''llama'' ''benchmark'' 1000]) activity_reset))
     (''h1'', ''benchmark'') \<noteq> None \<and>
   dict_get (ac_runs (fold activity_step (Ac_Start ''h1'' ''llama'' ''benchmark'' 1000 # [Ac_Snapshot 1004 []] @ [Ac_Snapshot 1006 []])
     (fold activity_step ex_first_run activity_reset))) (''h1'', ''benchmark'') = None"
proof
  show "dict_get (ac_runs (fold activity_step (ex_first_run @ [Ac_Start ''h1'' ''llama'' ''benchmark'' 1000]) activity_reset))
     (''h1'', ''benchmark'') \<noteq> None" by code_simp
  have "map_option pr_state (dict_get (ac_probe (fold activity_step ex_first_run activity_reset)) (''h1'', ''llama'')) = Some (Some [])"
    by code_simp
  then obtain p where "dict_get (ac_probe (fold activity_step ex_first_run activity_reset)) (''h1'', ''llama'') = Some p"
    "pr_state p = Some []" by auto
  from stale_answer_drops_run [OF refl this, of "''benchmark''" "[Ac_Snapshot 1004 []]" 1006 1000 "[]"]
  show "dict_get (ac_runs (fold activity_step (Ac_Start ''h1'' ''llama'' ''benchmark'' 1000 # [Ac_Snapshot 1004 []] @ [Ac_Snapshot 1006 []])
     (fold activity_step ex_first_run activity_reset))) (''h1'', ''benchmark'') = None"
    by (simp add: leaves_alone_def)
qed

end
