(* ===== verification/MetricBuffer.thy ===== *)
theory MetricBuffer
  imports Interfaces "HOL-Library.Multiset"
begin

text \<open>
  The agent's buffered metric client (\<^verbatim>\<open>src/agent/buffered_metric_client.py\<close>): samples wait in a memory
  queue that overflows into a file of JSON lines; a flush claims the oldest of them, posts them outside the
  lock, and then commits or aborts the claim.

  The cache file is its bytes, or absent. JSON coding is a parameter: \<open>enc\<close> is \<^verbatim>\<open>json.dumps\<close> and \<open>dec\<close> is
  \<^verbatim>\<open>json.loads\<close> (\<open>None\<close>: a decode error). Every access of the file may fail; \<open>io\<close> says which kinds of
  access work during an operation. An append that fails writes nothing. The limits are not negative.
\<close>

section \<open>Samples\<close>

text \<open>
  JSON values; \<open>J_Inf\<close> is a float that is not finite. Python tuples, which \<^verbatim>\<open>_sanitize_non_finite\<close> returns
  as they are, are not values of this type.
\<close>

datatype json = J_Null | J_Bool bool | J_Num rat | J_Inf | J_Str string | J_List "json list" | J_Obj "(string \<times> json) list"

fun sanitize_non_finite :: "json \<Rightarrow> json" where
  "sanitize_non_finite J_Inf = J_Null"
| "sanitize_non_finite (J_Obj kvs) = J_Obj (map (\<lambda>(k, v). (k, sanitize_non_finite v)) kvs)"
| "sanitize_non_finite (J_List vs) = J_List (map sanitize_non_finite vs)"
| "sanitize_non_finite x = x"

section \<open>The store\<close>

definition COMPACT_THRESHOLD_BYTES :: nat where "COMPACT_THRESHOLD_BYTES = 1048576"

record 'a buffer_store =
  bs_file :: "string option"
  bs_max_disk :: nat
  bs_max_mem :: nat
  bs_memory :: "'a list"
  bs_offset :: nat
  bs_disk_count :: nat
  bs_disk_bytes :: nat
  bs_evicted :: nat
  bs_claim_open :: bool
  bs_claimed_mem :: nat
  bs_claim_stale :: bool

record claim =
  cl_disk_lines :: nat
  cl_new_offset :: nat
  cl_mem :: nat

record disk_io =
  io_stat :: bool
  io_read :: bool
  io_append :: bool
  io_rewrite :: bool
  io_unlink :: bool

definition newline :: char where "newline = CHR 0x0A"

text \<open>The lines of a file, each with its line feed; the last one may lack it.\<close>

fun file_lines :: "string \<Rightarrow> string list" where
  "file_lines [] = []"
| "file_lines (c # cs) =
     (if c = newline then [c] # file_lines cs
      else (case file_lines cs of [] \<Rightarrow> [[c]] | l # ls \<Rightarrow> (c # l) # ls))"

definition write_jsonl :: "('a \<Rightarrow> string) \<Rightarrow> 'a list \<Rightarrow> string" where
  "write_jsonl enc samples = concat (map (\<lambda>s. enc s @ [newline]) samples)"

text \<open>\<^verbatim>\<open>bytes.strip()\<close>.\<close>

definition byte_space :: "char \<Rightarrow> bool" where
  "byte_space c = (let n = of_char c :: nat in n = 32 \<or> (9 \<le> n \<and> n \<le> 13))"

definition byte_strip :: "string \<Rightarrow> string" where
  "byte_strip s = rev (dropWhile byte_space (rev (dropWhile byte_space s)))"

definition count_lines_from :: "disk_io \<Rightarrow> nat \<Rightarrow> 'a buffer_store \<Rightarrow> nat" where
  "count_lines_from io offset st =
     (case bs_file st of None \<Rightarrow> 0 | Some c \<Rightarrow> if io_read io then length (file_lines (drop offset c)) else 0)"

definition init_store :: "disk_io \<Rightarrow> string option \<Rightarrow> nat \<Rightarrow> nat \<Rightarrow> 'a buffer_store" where
  "init_store io file max_disk max_mem =
     (let st = \<lparr>bs_file = file, bs_max_disk = max_disk, bs_max_mem = max_mem, bs_memory = [], bs_offset = 0,
                bs_disk_count = 0, bs_disk_bytes = 0, bs_evicted = 0, bs_claim_open = False, bs_claimed_mem = 0,
                bs_claim_stale = False\<rparr>
      in st\<lparr>bs_disk_count := count_lines_from io 0 st,
            bs_disk_bytes := (case file of Some c \<Rightarrow> if io_stat io then length c else 0 | None \<Rightarrow> 0)\<rparr>)"

definition reset_disk_state :: "'a buffer_store \<Rightarrow> 'a buffer_store" where
  "reset_disk_state st =
     st\<lparr>bs_offset := 0, bs_disk_count := 0, bs_disk_bytes := 0,
        bs_claim_stale := (bs_claim_open st \<or> bs_claim_stale st)\<rparr>"

definition resync_if_rotated :: "disk_io \<Rightarrow> 'a buffer_store \<Rightarrow> bool \<times> 'a buffer_store" where
  "resync_if_rotated io st =
     (if \<not> io_stat io then (False, st)
      else (case bs_file st of
              None \<Rightarrow>
                (if bs_disk_count st = 0 \<and> bs_offset st = 0 \<and> bs_disk_bytes st = 0 then (False, st)
                 else (True, reset_disk_state st))
            | Some c \<Rightarrow>
                (let size = length c
                 in if size = bs_disk_bytes st \<and> size \<ge> bs_offset st then (False, st)
                    else (let off = (if size < bs_offset st \<or> size < bs_disk_bytes st then 0 else bs_offset st)
                          in (True, st\<lparr>bs_offset := off, bs_disk_bytes := size,
                                       bs_disk_count := count_lines_from io off st,
                                       bs_claim_stale := (bs_claim_open st \<or> bs_claim_stale st)\<rparr>)))))"

definition unlink_cache :: "disk_io \<Rightarrow> 'a buffer_store \<Rightarrow> 'a buffer_store" where
  "unlink_cache io st = reset_disk_state (if io_unlink io then st\<lparr>bs_file := None\<rparr> else st)"

definition compact :: "disk_io \<Rightarrow> 'a buffer_store \<Rightarrow> 'a buffer_store" where
  "compact io st =
     (if bs_offset st = 0 then st
      else (case bs_file st of
              None \<Rightarrow> st\<lparr>bs_offset := 0, bs_disk_bytes := 0\<rparr>
            | Some c \<Rightarrow>
                (if \<not> io_read io then st
                 else (let rest = drop (bs_offset st) c
                       in if rest = [] then unlink_cache io st
                          else if \<not> io_rewrite io then st
                          else st\<lparr>bs_file := Some rest, bs_offset := 0, bs_disk_bytes := length rest\<rparr>))))"

text \<open>The eviction loop: the lines dropped from the front, and what is left.\<close>

fun evict_lines :: "nat \<Rightarrow> nat \<Rightarrow> string list \<Rightarrow> nat \<times> string list" where
  "evict_lines limit running [] = (0, [])"
| "evict_lines limit running (l # ls) =
     (if running > limit
      then (case evict_lines limit (running - length l) ls of (n, rest) \<Rightarrow> (Suc n, rest)) else (0, l # ls))"

definition enforce_budget :: "disk_io \<Rightarrow> 'a buffer_store \<Rightarrow> 'a buffer_store" where
  "enforce_budget io st0 =
     (if bs_claim_open st0 then st0
      else (let st = compact io st0
            in case bs_file st of
                 None \<Rightarrow> st
               | Some c \<Rightarrow>
                   (if \<not> io_stat io then st
                    else (let size = length c; st1 = st\<lparr>bs_disk_bytes := size\<rparr>
                          in if size \<le> bs_max_disk st then st1
                             else if \<not> io_read io \<or> \<not> io_rewrite io then st1
                             else (let (evicted, rest) = evict_lines (bs_max_disk st) size (file_lines c);
                                       tail = concat rest; st2 = st1\<lparr>bs_file := Some tail\<rparr>
                                   in if evicted = 0 then st2
                                      else st2\<lparr>bs_disk_count := bs_disk_count st2 - evicted, bs_disk_bytes := length tail,
                                               bs_evicted := bs_evicted st2 + evicted\<rparr>)))))"

definition within_budget :: "disk_io \<Rightarrow> 'a buffer_store \<Rightarrow> 'a buffer_store" where
  "within_budget io st = (if bs_disk_bytes st > bs_max_disk st then enforce_budget io st else st)"

definition append_disk :: "disk_io \<Rightarrow> ('a \<Rightarrow> string) \<Rightarrow> 'a list \<Rightarrow> 'a buffer_store \<Rightarrow> 'a buffer_store" where
  "append_disk io enc samples st0 =
     (let st = snd (resync_if_rotated io st0); text = write_jsonl enc samples
      in if \<not> io_append io then st
         else within_budget io
                (st\<lparr>bs_file := Some (case_option [] id (bs_file st) @ text),
                    bs_disk_count := bs_disk_count st + length samples,
                    bs_disk_bytes := bs_disk_bytes st + length text\<rparr>))"

text \<open>What a spill reports: samples spilled, whether the file was created, samples evicted.\<close>

type_synonym spill = "nat \<times> bool \<times> nat"

definition spill_overflow ::
  "disk_io \<Rightarrow> ('a \<Rightarrow> string) \<Rightarrow> nat \<Rightarrow> 'a buffer_store \<Rightarrow> spill \<times> 'a buffer_store" where
  "spill_overflow io enc protect st =
     (let n = length (bs_memory st); k = min (n - bs_max_mem st div 2) (n - protect)
      in if n \<le> bs_max_mem st \<or> k = 0 then ((0, False, 0), st)
         else (let first = (bs_disk_count st = 0 \<and> bs_offset st = 0);
                   head = take protect (bs_memory st);
                   spilled = take k (drop protect (bs_memory st));
                   st1 = append_disk io enc spilled (st\<lparr>bs_memory := head @ drop (protect + k) (bs_memory st)\<rparr>)
               in ((k, first, bs_evicted st1 - bs_evicted st), st1)))"

definition enqueue_store ::
  "disk_io \<Rightarrow> ('a \<Rightarrow> string) \<Rightarrow> 'a \<Rightarrow> 'a buffer_store \<Rightarrow> spill \<times> 'a buffer_store" where
  "enqueue_store io enc sample st0 =
     (let st = st0\<lparr>bs_memory := bs_memory st0 @ [sample]\<rparr>
      in if bs_claim_open st
         then (if length (bs_memory st) \<le> bs_max_mem st * 2 then ((0, False, 0), st)
               else spill_overflow io enc (bs_claimed_mem st) st)
         else spill_overflow io enc 0 st)"

text \<open>Reading lines until \<open>limit\<close> samples are found: the samples, the lines and the bytes read.\<close>

fun read_lines :: "(string \<Rightarrow> 'a option) \<Rightarrow> nat \<Rightarrow> string list \<Rightarrow> 'a list \<times> nat \<times> nat" where
  "read_lines dec limit [] = ([], 0, 0)"
| "read_lines dec limit (raw # ls) =
     (if limit = 0 then ([], 0, 0)
      else (case (if byte_strip raw = [] then None else dec (byte_strip raw)) of
              None \<Rightarrow> (case read_lines dec limit ls of (xs, n, b) \<Rightarrow> (xs, Suc n, length raw + b))
            | Some x \<Rightarrow> (case read_lines dec (limit - 1) ls of (xs, n, b) \<Rightarrow> (x # xs, Suc n, length raw + b))))"

text \<open>
  The disk part of a snapshot. A read that fails with an error other than a missing file raises out of
  \<^verbatim>\<open>snapshot\<close>; it is not modelled.
\<close>

definition snapshot_disk ::
  "(string \<Rightarrow> 'a option) \<Rightarrow> nat \<Rightarrow> 'a buffer_store \<Rightarrow> ('a list \<times> nat \<times> nat) \<times> 'a buffer_store" where
  "snapshot_disk dec limit st =
     (if bs_disk_count st = 0 then (([], 0, bs_offset st), st)
      else (case bs_file st of
              None \<Rightarrow> (([], 0, 0), reset_disk_state st)
            | Some c \<Rightarrow>
                (case read_lines dec limit (file_lines (drop (bs_offset st) c)) of
                   (xs, n, b) \<Rightarrow> ((xs, n, bs_offset st + b), st))))"

definition snapshot_store ::
  "disk_io \<Rightarrow> (string \<Rightarrow> 'a option) \<Rightarrow> nat \<Rightarrow> 'a buffer_store \<Rightarrow> ('a list \<times> claim) \<times> 'a buffer_store" where
  "snapshot_store io dec limit st0 =
     (if limit = 0 \<or> bs_claim_open st0
      then (([], \<lparr>cl_disk_lines = 0, cl_new_offset = bs_offset st0, cl_mem = 0\<rparr>), st0)
      else (let ((xs, n, off), st) = snapshot_disk dec limit (snd (resync_if_rotated io st0));
                m = min (limit - length xs) (length (bs_memory st));
                out = xs @ take m (bs_memory st)
            in ((out, \<lparr>cl_disk_lines = n, cl_new_offset = off, cl_mem = m\<rparr>),
                (if out \<noteq> [] then st\<lparr>bs_claim_open := True, bs_claimed_mem := m\<rparr> else st))))"

definition close_claim :: "disk_io \<Rightarrow> ('a \<Rightarrow> string) \<Rightarrow> 'a buffer_store \<Rightarrow> spill \<times> 'a buffer_store" where
  "close_claim io enc st = (case spill_overflow io enc 0 st of (res, st1) \<Rightarrow> (res, within_budget io st1))"

definition commit_store ::
  "disk_io \<Rightarrow> ('a \<Rightarrow> string) \<Rightarrow> claim \<Rightarrow> 'a buffer_store \<Rightarrow> spill \<times> 'a buffer_store" where
  "commit_store io enc cl st0 =
     (let (rotated, st) = resync_if_rotated io st0;
          stale = (bs_claim_stale st \<or> rotated);
          st1 = st\<lparr>bs_claim_stale := False\<rparr>;
          st2 = (if cl_disk_lines cl \<noteq> 0 \<and> \<not> stale
                 then st1\<lparr>bs_offset := cl_new_offset cl, bs_disk_count := bs_disk_count st1 - cl_disk_lines cl\<rparr> else st1);
          st3 = st2\<lparr>bs_memory := drop (cl_mem cl) (bs_memory st2), bs_claim_open := False, bs_claimed_mem := 0\<rparr>;
          st4 = (if bs_disk_count st3 = 0 then unlink_cache io st3
                 else if bs_offset st3 \<ge> COMPACT_THRESHOLD_BYTES then compact io st3 else st3)
      in close_claim io enc st4)"

definition abort_store :: "disk_io \<Rightarrow> ('a \<Rightarrow> string) \<Rightarrow> 'a buffer_store \<Rightarrow> spill \<times> 'a buffer_store" where
  "abort_store io enc st0 =
     close_claim io enc ((snd (resync_if_rotated io st0))\<lparr>bs_claim_open := False, bs_claimed_mem := 0, bs_claim_stale := False\<rparr>)"

definition total_store :: "disk_io \<Rightarrow> 'a buffer_store \<Rightarrow> nat \<times> 'a buffer_store" where
  "total_store io st0 =
     (let st = snd (resync_if_rotated io st0) in (bs_disk_count st + length (bs_memory st), st))"

section \<open>The client\<close>

record metric_stats =
  ms_enqueued :: nat
  ms_spilled :: nat
  ms_evicted :: nat
  ms_attempts :: nat
  ms_successes :: nat
  ms_failures :: nat
  ms_posted :: nat

record metric_client =
  mc_endpoint :: string
  mc_ingest_path :: string
  mc_store :: "json buffer_store"
  mc_batch_limit :: nat
  mc_failures :: nat
  mc_stats :: metric_stats

definition INGEST_PATH :: string where "INGEST_PATH = ''/api/alarm/metrics/ingest''"

text \<open>\<^verbatim>\<open>s.rstrip("/")\<close>.\<close>

definition rstrip_slash :: "string \<Rightarrow> string" where
  "rstrip_slash s = rev (dropWhile (\<lambda>c. c = CHR ''/'') (rev s))"

definition client_init ::
  "disk_io \<Rightarrow> string option \<Rightarrow> string \<Rightarrow> string \<Rightarrow> nat \<Rightarrow> nat \<Rightarrow> nat \<Rightarrow> metric_client" where
  "client_init io file endpoint_url ingest_path max_disk max_mem batch_limit =
     \<lparr>mc_endpoint = rstrip_slash endpoint_url, mc_ingest_path = (if ingest_path = [] then INGEST_PATH else ingest_path),
      mc_store = init_store io file max_disk max_mem, mc_batch_limit = batch_limit, mc_failures = 0,
      mc_stats = \<lparr>ms_enqueued = 0, ms_spilled = 0, ms_evicted = 0, ms_attempts = 0, ms_successes = 0, ms_failures = 0,
                  ms_posted = 0\<rparr>\<rparr>"

definition update_alarm_engine_url :: "string \<Rightarrow> metric_client \<Rightarrow> metric_client" where
  "update_alarm_engine_url new_ae_url mc =
     (let new_ae = rstrip_slash new_ae_url
      in if new_ae = [] then mc else mc\<lparr>mc_endpoint := new_ae @ mc_ingest_path mc\<rparr>)"

text \<open>The batch and the claim of a flush whose POST is in flight.\<close>

type_synonym flight = "json list \<times> claim"

definition note_spill :: "disk_io \<Rightarrow> spill \<Rightarrow> metric_client \<Rightarrow> metric_client" where
  "note_spill io res mc =
     (case res of (spilled, first, evicted) \<Rightarrow>
        (if spilled = 0 then mc
         else mc\<lparr>mc_stats := (mc_stats mc)\<lparr>ms_spilled := ms_spilled (mc_stats mc) + spilled,
                                             ms_evicted := ms_evicted (mc_stats mc) + evicted\<rparr>,
                 mc_store := snd (resync_if_rotated io (mc_store mc))\<rparr>))"

fun is_dict :: "json \<Rightarrow> bool" where
  "is_dict (J_Obj kvs) = True"
| "is_dict x = False"

text \<open>\<open>None\<close>: the \<^verbatim>\<open>TypeError\<close> for a sample that is not a dict.\<close>

definition client_enqueue :: "disk_io \<Rightarrow> (json \<Rightarrow> string) \<Rightarrow> json \<Rightarrow> metric_client \<Rightarrow> metric_client option" where
  "client_enqueue io enc sample mc =
     (if \<not> is_dict sample then None
      else (case enqueue_store io enc (sanitize_non_finite sample) (mc_store mc) of
              (res, st) \<Rightarrow>
                Some (note_spill io res
                        (mc\<lparr>mc_stats := (mc_stats mc)\<lparr>ms_enqueued := ms_enqueued (mc_stats mc) + 1\<rparr>, mc_store := st\<rparr>))))"

definition flush_begin :: "disk_io \<Rightarrow> (string \<Rightarrow> json option) \<Rightarrow> metric_client \<Rightarrow> flight option \<times> metric_client" where
  "flush_begin io dec mc =
     (case snapshot_store io dec (mc_batch_limit mc) (mc_store mc) of
        ((batch, cl), st) \<Rightarrow>
          (if batch = [] then (None, mc\<lparr>mc_store := st\<rparr>)
           else (Some (batch, cl),
                 mc\<lparr>mc_store := snd (resync_if_rotated io st),
                    mc_stats := (mc_stats mc)\<lparr>ms_attempts := ms_attempts (mc_stats mc) + 1\<rparr>\<rparr>)))"

definition flush_end :: "disk_io \<Rightarrow> (json \<Rightarrow> string) \<Rightarrow> flight \<Rightarrow> bool \<Rightarrow> metric_client \<Rightarrow> metric_client" where
  "flush_end io enc fl posted mc =
     (if posted
      then (let mc1 = mc\<lparr>mc_stats := (mc_stats mc)\<lparr>ms_successes := ms_successes (mc_stats mc) + 1,
                                                    ms_posted := ms_posted (mc_stats mc) + length (fst fl)\<rparr>,
                         mc_failures := 0\<rparr>;
                (res, st) = commit_store io enc (snd fl) (mc_store mc1);
                mc2 = note_spill io res (mc1\<lparr>mc_store := st\<rparr>)
            in mc2\<lparr>mc_store := snd (total_store io (mc_store mc2))\<rparr>)
      else (let mc1 = mc\<lparr>mc_stats := (mc_stats mc)\<lparr>ms_failures := ms_failures (mc_stats mc) + 1\<rparr>,
                         mc_failures := mc_failures mc + 1\<rparr>;
                (res, st) = abort_store io enc (mc_store mc1)
            in note_spill io res (mc1\<lparr>mc_store := st\<rparr>)))"

definition flush_once ::
  "disk_io \<Rightarrow> (json \<Rightarrow> string) \<Rightarrow> (string \<Rightarrow> json option) \<Rightarrow> bool \<Rightarrow> metric_client \<Rightarrow> metric_client" where
  "flush_once io enc dec posted mc =
     (case flush_begin io dec mc of (None, mc1) \<Rightarrow> mc1 | (Some fl, mc1) \<Rightarrow> flush_end io enc fl posted mc1)"

text \<open>
  The draining loop of \<^verbatim>\<open>stop\<close>, turn by turn: \<open>posts k\<close> is whether the POST of turn \<open>k\<close> succeeds. The
  result is \<open>None\<close> when the fuel runs out.
\<close>

fun stop_drain ::
  "disk_io \<Rightarrow> (json \<Rightarrow> string) \<Rightarrow> (string \<Rightarrow> json option) \<Rightarrow> (nat \<Rightarrow> bool) \<Rightarrow> nat \<Rightarrow> nat \<Rightarrow> nat option \<Rightarrow> metric_client \<Rightarrow>
   metric_client option" where
  "stop_drain io enc dec posts 0 k prev mc = None"
| "stop_drain io enc dec posts (Suc fuel) k prev mc =
     (case total_store io (mc_store mc) of
        (remaining, st) \<Rightarrow>
          (let mc1 = mc\<lparr>mc_store := st\<rparr>
           in if remaining = 0 \<or> prev = Some remaining then Some mc1
              else stop_drain io enc dec posts fuel (Suc k) (Some remaining) (flush_once io enc dec (posts k) mc1)))"

end
