(* ===== verification/MetricBufferProps.thy ===== *)
theory MetricBufferProps
  imports MetricBuffer
begin

text \<open>
  Lemmas on the store of the buffered metric client on a disk that may refuse appends but works otherwise: what
  the cache file holds, and what every operation does to the samples on disk, the samples in memory and the open
  claim.
\<close>

section \<open>The cache file\<close>

text \<open>\<open>disk w\<close>: appends work when \<open>w\<close> holds, every other access works.\<close>

definition disk :: "bool \<Rightarrow> disk_io" where
  "disk w = \<lparr>io_stat = True, io_read = True, io_append = w, io_rewrite = True, io_unlink = True\<rparr>"

lemma disk_simps [simp]:
  "io_stat (disk w)" "io_read (disk w)" "io_append (disk w) = w" "io_rewrite (disk w)" "io_unlink (disk w)"
  by (simp_all add: disk_def)

text \<open>The samples of an append that reach the file, and those that are gone.\<close>

abbreviation written :: "bool \<Rightarrow> 'a list \<Rightarrow> 'a list" where
  "written w ys \<equiv> (if w then ys else [])"

abbreviation unwritten :: "bool \<Rightarrow> 'a list \<Rightarrow> 'a list" where
  "unwritten w ys \<equiv> (if w then [] else ys)"

text \<open>What the client relies on of the JSON coding of a sample.\<close>

definition line_ok :: "('a \<Rightarrow> string) \<Rightarrow> (string \<Rightarrow> 'a option) \<Rightarrow> 'a \<Rightarrow> bool" where
  "line_ok enc dec s \<longleftrightarrow> newline \<notin> set (enc s) \<and> byte_strip (enc s @ [newline]) \<noteq> [] \<and>
     dec (byte_strip (enc s @ [newline])) = Some s"

lemma file_lines_line: "newline \<notin> set l \<Longrightarrow> file_lines (l @ newline # rest) = (l @ [newline]) # file_lines rest"
  by (induction l) auto

lemma write_jsonl_simps [simp]:
  "write_jsonl enc [] = []" "write_jsonl enc (s # xs) = enc s @ newline # write_jsonl enc xs"
  "write_jsonl enc (xs @ ys) = write_jsonl enc xs @ write_jsonl enc ys"
  by (simp_all add: write_jsonl_def)

lemma write_jsonl_Nil [simp]: "write_jsonl enc xs = [] \<longleftrightarrow> xs = []" "[] = write_jsonl enc xs \<longleftrightarrow> xs = []"
  by (cases xs; simp)+

lemma concat_file_lines [simp]: "concat (file_lines c) = c"
  by (induction c) (auto split: list.splits)

lemma file_lines_jsonl:
  "list_all (line_ok enc dec) xs \<Longrightarrow> file_lines (write_jsonl enc xs) = map (\<lambda>s. enc s @ [newline]) xs"
  by (induction xs) (simp_all add: file_lines_line line_ok_def)

lemma read_lines_jsonl:
  "list_all (line_ok enc dec) xs \<Longrightarrow>
     read_lines dec limit (map (\<lambda>s. enc s @ [newline]) xs) =
       (take limit xs, min limit (length xs), length (write_jsonl enc (take limit xs)))"
  by (induction xs arbitrary: limit) (auto simp: line_ok_def take_Cons' min_def split: nat.splits)

lemma evict_lines_drop:
  assumes "evict_lines limit running ls = (n, rest)" "running = length (concat ls)"
  shows "rest = drop n ls \<and> n \<le> length ls \<and> length (concat rest) \<le> limit"
  using assms by (induction ls arbitrary: running n rest) (auto split: if_splits prod.splits)

lemma list_all_drop: "list_all P xs \<Longrightarrow> list_all P (drop n xs)"
  by (auto simp: list_all_iff dest: in_set_dropD)

lemma list_all_take: "list_all P xs \<Longrightarrow> list_all P (take n xs)"
  by (auto simp: list_all_iff dest: in_set_takeD)

text \<open>\<open>disk_ok st xs\<close>: the bookkeeping is right and the unread part of the file holds the samples \<open>xs\<close>.\<close>

definition content :: "'a buffer_store \<Rightarrow> string" where
  "content st = case_option [] id (bs_file st)"

definition disk_ok :: "('a \<Rightarrow> string) \<Rightarrow> (string \<Rightarrow> 'a option) \<Rightarrow> 'a buffer_store \<Rightarrow> 'a list \<Rightarrow> bool" where
  "disk_ok enc dec st xs \<longleftrightarrow>
     bs_offset st \<le> length (content st) \<and> drop (bs_offset st) (content st) = write_jsonl enc xs \<and>
     bs_disk_count st = length xs \<and> bs_disk_bytes st = length (content st) \<and> \<not> bs_claim_stale st \<and>
     list_all (line_ok enc dec) xs"

text \<open>What the disk operations leave alone.\<close>

definition same_claim :: "'a buffer_store \<Rightarrow> 'a buffer_store \<Rightarrow> bool" where
  "same_claim st st' \<longleftrightarrow> bs_memory st' = bs_memory st \<and> bs_max_disk st' = bs_max_disk st \<and> bs_max_mem st' = bs_max_mem st \<and>
     bs_claim_open st' = bs_claim_open st \<and> bs_claimed_mem st' = bs_claimed_mem st"

lemma same_claim_refl [simp]: "same_claim st st"
  by (simp add: same_claim_def)

lemma same_claim_trans: "same_claim a b \<Longrightarrow> same_claim b c \<Longrightarrow> same_claim a c"
  by (simp add: same_claim_def)

lemma resync_ok: "disk_ok enc dec st xs \<Longrightarrow> resync_if_rotated (disk w) st = (False, st)"
  by (cases "bs_file st") (auto simp: resync_if_rotated_def disk_ok_def content_def)

lemma unlink_ok:
  "disk_ok enc dec st [] \<Longrightarrow> \<not> bs_claim_open st \<Longrightarrow>
     disk_ok enc dec (unlink_cache (disk w) st) [] \<and> same_claim st (unlink_cache (disk w) st) \<and>
     bs_evicted (unlink_cache (disk w) st) = bs_evicted st"
  by (simp add: unlink_cache_def reset_disk_state_def disk_ok_def content_def same_claim_def)

lemma compact_ok:
  assumes "disk_ok enc dec st xs" "\<not> bs_claim_open st"
  shows "disk_ok enc dec (compact (disk w) st) xs \<and> same_claim st (compact (disk w) st) \<and>
    bs_evicted (compact (disk w) st) = bs_evicted st \<and> bs_offset (compact (disk w) st) = 0"
proof (cases "bs_offset st = 0")
  case True
  then show ?thesis using assms(1) by (simp add: compact_def)
next
  case False
  then obtain c where c: "bs_file st = Some c" using assms(1) by (cases "bs_file st") (auto simp: disk_ok_def content_def)
  have rest: "drop (bs_offset st) c = write_jsonl enc xs" using assms(1) by (simp add: disk_ok_def content_def c)
  show ?thesis
  proof (cases "xs = []")
    case True
    then have "compact (disk w) st = unlink_cache (disk w) st" using False rest by (simp add: compact_def c)
    then show ?thesis
      using unlink_ok [OF assms(1) [unfolded True] assms(2)] True by (simp add: unlink_cache_def reset_disk_state_def)
  next
    case ne: False
    then have "compact (disk w) st =
        st\<lparr>bs_file := Some (write_jsonl enc xs), bs_offset := 0, bs_disk_bytes := length (write_jsonl enc xs)\<rparr>"
      using False rest by (simp add: compact_def c Let_def)
    then show ?thesis using assms(1) by (simp add: disk_ok_def content_def same_claim_def)
  qed
qed

lemma enforce_ok:
  assumes "disk_ok enc dec st xs" "\<not> bs_claim_open st"
  shows "\<exists>e \<le> length xs. disk_ok enc dec (enforce_budget (disk w) st) (drop e xs) \<and> same_claim st (enforce_budget (disk w) st) \<and>
    bs_evicted (enforce_budget (disk w) st) = bs_evicted st + e \<and>
    bs_disk_bytes (enforce_budget (disk w) st) \<le> bs_max_disk st"
proof -
  define s where "s = compact (disk w) st"
  note s = compact_ok [OF assms, of w, folded s_def]
  have max: "bs_max_disk s = bs_max_disk st" using s by (simp add: same_claim_def)
  have ok: "list_all (line_ok enc dec) xs" using assms(1) by (simp add: disk_ok_def)
  have bytes: "content s = write_jsonl enc xs" "bs_disk_bytes s = length (write_jsonl enc xs)" "bs_disk_count s = length xs"
    using s by (auto simp: disk_ok_def)
  show ?thesis
  proof (cases "length (content s) \<le> bs_max_disk st")
    case True
    have "enforce_budget (disk w) st = s"
      using True assms(2) bytes by (cases "bs_file s") (simp_all add: enforce_budget_def s_def [symmetric] Let_def content_def max)
    then show ?thesis using s True bytes by (intro exI [of _ 0]) simp
  next
    case False
    then obtain c where c: "bs_file s = Some c" by (cases "bs_file s") (simp_all add: content_def)
    have cx: "c = write_jsonl enc xs" using bytes c by (simp add: content_def)
    obtain e rest where ev: "evict_lines (bs_max_disk st) (length c) (file_lines c) = (e, rest)" by fastforce
    have "length c = length (concat (file_lines c))" by simp
    note e = evict_lines_drop [OF ev this]
    have "file_lines c = map (\<lambda>s. enc s @ [newline]) xs" unfolding cx by (rule file_lines_jsonl [OF ok])
    then have tail: "concat rest = write_jsonl enc (drop e xs)" using e by (simp add: write_jsonl_def drop_map)
    have le: "e \<le> length xs" using e by (simp add: cx file_lines_jsonl [OF ok])
    have eq: "enforce_budget (disk w) st =
        s\<lparr>bs_disk_bytes := length (concat rest), bs_file := Some (concat rest), bs_disk_count := length xs - e,
          bs_evicted := bs_evicted s + e\<rparr>"
      using False assms(2) c e bytes(1) tail ev unfolding cx [symmetric]
      by (auto simp: enforce_budget_def s_def [symmetric] Let_def content_def max bytes(3) cx)
    show ?thesis
      using s e le tail ok unfolding eq
      by (intro exI [of _ e]) (auto simp: disk_ok_def content_def same_claim_def list_all_drop)
  qed
qed

lemma within_budget_ok:
  assumes "disk_ok enc dec st xs"
  shows "\<exists>e \<le> length xs. disk_ok enc dec (within_budget (disk w) st) (drop e xs) \<and> same_claim st (within_budget (disk w) st) \<and>
    bs_evicted (within_budget (disk w) st) = bs_evicted st + e \<and>
    (bs_claim_open st \<longrightarrow> e = 0 \<and> bs_offset (within_budget (disk w) st) = bs_offset st) \<and>
    (\<not> bs_claim_open st \<longrightarrow> bs_disk_bytes (within_budget (disk w) st) \<le> bs_max_disk st)"
proof (cases "bs_claim_open st \<or> bs_disk_bytes st \<le> bs_max_disk st")
  case True
  then have "within_budget (disk w) st = st" by (auto simp: within_budget_def enforce_budget_def)
  then show ?thesis using assms True by (intro exI [of _ 0]) auto
next
  case False
  then have "within_budget (disk w) st = enforce_budget (disk w) st" by (simp add: within_budget_def)
  then show ?thesis using enforce_ok [OF assms] False by auto
qed

lemma append_ok:
  assumes "disk_ok enc dec st xs" "list_all (line_ok enc dec) ys"
  shows "\<exists>e \<le> length (xs @ written w ys). disk_ok enc dec (append_disk (disk w) enc ys st) (drop e (xs @ written w ys)) \<and>
    same_claim st (append_disk (disk w) enc ys st) \<and> bs_evicted (append_disk (disk w) enc ys st) = bs_evicted st + e \<and>
    (bs_claim_open st \<longrightarrow> e = 0 \<and> bs_offset (append_disk (disk w) enc ys st) = bs_offset st) \<and>
    (\<not> bs_claim_open st \<longrightarrow> bs_disk_bytes (append_disk (disk w) enc ys st) \<le> max (bs_disk_bytes st) (bs_max_disk st))"
proof (cases w)
  case True
  define s where "s = st\<lparr>bs_file := Some (content st @ write_jsonl enc ys),
    bs_disk_count := bs_disk_count st + length ys, bs_disk_bytes := bs_disk_bytes st + length (write_jsonl enc ys)\<rparr>"
  have eq: "append_disk (disk w) enc ys st = within_budget (disk w) s"
    using True by (simp add: append_disk_def resync_ok [OF assms(1)] s_def content_def Let_def)
  have "disk_ok enc dec s (xs @ written w ys)" using assms True by (simp add: disk_ok_def s_def content_def)
  moreover have "same_claim st s" "bs_evicted s = bs_evicted st" "bs_offset s = bs_offset st"
    "bs_claim_open s = bs_claim_open st" "bs_max_disk s = bs_max_disk st"
    by (simp_all add: s_def same_claim_def)
  ultimately show ?thesis
    using within_budget_ok [of enc dec s "xs @ written w ys" w] same_claim_trans unfolding eq by (metis max.coboundedI2)
next
  case False
  then have "append_disk (disk w) enc ys st = st" by (simp add: append_disk_def resync_ok [OF assms(1)])
  then show ?thesis using assms(1) False by (intro exI [of _ 0]) simp
qed

text \<open>A spill moves the samples \<open>ys\<close> behind the protected ones from memory to the end of the file.\<close>

lemma spill_ok:
  assumes "disk_ok enc dec st xs" "list_all (line_ok enc dec) (bs_memory st)" "p \<le> length (bs_memory st)"
    and st': "st' = snd (spill_overflow (disk w) enc p st)"
  obtains ys rest e where "bs_memory st = take p (bs_memory st) @ ys @ rest" "bs_memory st' = take p (bs_memory st) @ rest"
    "e \<le> length (xs @ written w ys)" "disk_ok enc dec st' (drop e (xs @ written w ys))" "same_claim (st\<lparr>bs_memory := bs_memory st'\<rparr>) st'"
    "bs_evicted st' = bs_evicted st + e" "bs_claim_open st \<longrightarrow> e = 0 \<and> bs_offset st' = bs_offset st"
    "length (bs_memory st') \<le> max (bs_max_mem st) p"
    "\<not> bs_claim_open st \<longrightarrow> bs_disk_bytes st' \<le> max (bs_disk_bytes st) (bs_max_disk st)"
proof -
  define n k where "n = length (bs_memory st)" and "k = min (n - bs_max_mem st div 2) (n - p)"
  let ?ms = "bs_memory st"
  show thesis
  proof (cases "n \<le> bs_max_mem st \<or> k = 0")
    case True
    then have "st' = st" by (auto simp: st' spill_overflow_def Let_def n_def k_def)
    moreover have "n \<le> max (bs_max_mem st) p" using True by (auto simp: k_def min_def max_def split: if_splits)
    ultimately show thesis
      using assms(1) by (intro that [of "[]" "drop p ?ms" 0]) (simp_all add: n_def same_claim_def)
  next
    case False
    let ?ys = "take k (drop p ?ms)" and ?rest = "drop (p + k) ?ms"
    define s where "s = st\<lparr>bs_memory := take p ?ms @ ?rest\<rparr>"
    have "disk_ok enc dec s xs" using assms(1) by (simp add: disk_ok_def s_def content_def)
    moreover have "list_all (line_ok enc dec) ?ys" using assms(2) by (intro list_all_take list_all_drop)
    moreover have eq: "st' = append_disk (disk w) enc ?ys s"
      using False by (auto simp: st' spill_overflow_def Let_def n_def k_def s_def)
    ultimately obtain e where e: "e \<le> length (xs @ written w ?ys)" "disk_ok enc dec st' (drop e (xs @ written w ?ys))"
      "same_claim s st'" "bs_evicted st' = bs_evicted s + e"
      "bs_claim_open s \<longrightarrow> e = 0 \<and> bs_offset st' = bs_offset s" "\<not> bs_claim_open s \<longrightarrow> bs_disk_bytes st' \<le> max (bs_disk_bytes s) (bs_max_disk s)"
      using append_ok by blast
    have mem: "bs_memory st' = take p ?ms @ ?rest" using e(3) by (simp add: same_claim_def s_def)
    have len: "length (bs_memory st') \<le> max (bs_max_mem st) p"
      using assms(3) False unfolding mem by (auto simp: k_def n_def min_def max_def)
    have same: "same_claim (st\<lparr>bs_memory := bs_memory st'\<rparr>) st'" using e(3) by (simp add: mem s_def)
    have split: "?ms = take p ?ms @ ?ys @ ?rest" by (metis append_take_drop_id drop_drop add.commute)
    show thesis
      by (rule that [OF split mem e(1,2) same]) (use e(4-6) len in \<open>simp_all add: s_def\<close>)
  qed
qed

section \<open>The operations of the store\<close>

text \<open>
  \<open>holds st xs\<close>: the store holds the samples \<open>xs\<close> on disk and its memory can be written to disk; the memory
  is within its bound, which is doubled while a claim is open.
\<close>

definition holds :: "('a \<Rightarrow> string) \<Rightarrow> (string \<Rightarrow> 'a option) \<Rightarrow> 'a buffer_store \<Rightarrow> 'a list \<Rightarrow> bool" where
  "holds enc dec st xs \<longleftrightarrow> disk_ok enc dec st xs \<and> list_all (line_ok enc dec) (bs_memory st) \<and>
     bs_claimed_mem st \<le> bs_max_mem st \<and>
     length (bs_memory st) \<le> (if bs_claim_open st then 2 * bs_max_mem st else bs_max_mem st)"

text \<open>The claim \<open>cl\<close> of the batch \<open>b\<close> fits the store.\<close>

definition claims :: "('a \<Rightarrow> string) \<Rightarrow> 'a buffer_store \<Rightarrow> 'a list \<Rightarrow> 'a list \<Rightarrow> claim \<Rightarrow> bool" where
  "claims enc st xs b cl \<longleftrightarrow> bs_claim_open st \<and> bs_claimed_mem st = cl_mem cl \<and> cl_disk_lines cl \<le> length xs \<and>
     cl_mem cl \<le> length (bs_memory st) \<and>
     cl_new_offset cl = bs_offset st + length (write_jsonl enc (take (cl_disk_lines cl) xs)) \<and>
     b = take (cl_disk_lines cl) xs @ take (cl_mem cl) (bs_memory st)"

lemma same_claimD:
  assumes "same_claim (st\<lparr>bs_memory := ms\<rparr>) st'"
  shows "bs_max_disk st' = bs_max_disk st" "bs_max_mem st' = bs_max_mem st" "bs_claim_open st' = bs_claim_open st"
    "bs_claimed_mem st' = bs_claimed_mem st"
  using assms by (simp_all add: same_claim_def)

text \<open>Closing: a spill without protected samples leaves a store that holds what is left.\<close>

lemma spill_closed:
  assumes "disk_ok enc dec st xs" "list_all (line_ok enc dec) (bs_memory st)" "\<not> bs_claim_open st" "bs_claimed_mem st = 0"
    and st': "st' = snd (spill_overflow (disk w) enc 0 st)"
  obtains ys rest e where "bs_memory st = ys @ rest" "bs_memory st' = rest" "e \<le> length (xs @ written w ys)"
    "holds enc dec st' (drop e (xs @ written w ys))" "bs_evicted st' = bs_evicted st + e" "\<not> bs_claim_open st'" "bs_claimed_mem st' = 0"
    "bs_max_mem st' = bs_max_mem st" "bs_max_disk st' = bs_max_disk st"
    "bs_disk_bytes st' \<le> max (bs_disk_bytes st) (bs_max_disk st)"
proof -
  obtain ys rest e where sp: "bs_memory st = take 0 (bs_memory st) @ ys @ rest" "bs_memory st' = take 0 (bs_memory st) @ rest"
    "e \<le> length (xs @ written w ys)" "disk_ok enc dec st' (drop e (xs @ written w ys))" "same_claim (st\<lparr>bs_memory := bs_memory st'\<rparr>) st'"
    "bs_evicted st' = bs_evicted st + e" "length (bs_memory st') \<le> max (bs_max_mem st) 0"
    "\<not> bs_claim_open st \<longrightarrow> bs_disk_bytes st' \<le> max (bs_disk_bytes st) (bs_max_disk st)"
    using spill_ok [OF assms(1,2) le0 st'] by metis
  note same = same_claimD [OF sp(5)]
  have mem: "bs_memory st = ys @ rest" "bs_memory st' = rest" using sp(1,2) by simp_all
  have "list_all (line_ok enc dec) rest" using assms(2) by (simp add: mem(1))
  then have "holds enc dec st' (drop e (xs @ written w ys))" using sp(4,7) same assms(3,4) by (simp add: holds_def mem(2))
  then show thesis using that [OF mem sp(3) _ sp(6)] sp(8) same assms(3,4) by simp
qed

lemma enqueue_closed:
  assumes "holds enc dec st xs" "line_ok enc dec s" "\<not> bs_claim_open st" "bs_claimed_mem st = 0"
    and st': "st' = snd (enqueue_store (disk w) enc s st)"
  obtains ys rest e where "bs_memory st @ [s] = ys @ rest" "bs_memory st' = rest" "e \<le> length (xs @ written w ys)"
    "holds enc dec st' (drop e (xs @ written w ys))" "bs_evicted st' = bs_evicted st + e" "\<not> bs_claim_open st'" "bs_claimed_mem st' = 0"
    "bs_max_mem st' = bs_max_mem st" "bs_max_disk st' = bs_max_disk st"
    "bs_disk_bytes st' \<le> max (bs_disk_bytes st) (bs_max_disk st)"
proof -
  define s1 where "s1 = st\<lparr>bs_memory := bs_memory st @ [s]\<rparr>"
  have sel: "bs_memory s1 = bs_memory st @ [s]" "bs_evicted s1 = bs_evicted st" "bs_max_mem s1 = bs_max_mem st"
    "bs_max_disk s1 = bs_max_disk st" "bs_disk_bytes s1 = bs_disk_bytes st" by (simp_all add: s1_def)
  have d1: "disk_ok enc dec s1 xs" "list_all (line_ok enc dec) (bs_memory s1)" "\<not> bs_claim_open s1" "bs_claimed_mem s1 = 0"
    using assms by (simp_all add: s1_def holds_def disk_ok_def content_def)
  have "st' = snd (spill_overflow (disk w) enc 0 s1)"
    using assms(3) by (simp add: st' enqueue_store_def s1_def Let_def)
  from spill_closed [OF d1 this] show thesis using that unfolding sel by metis
qed

lemma enqueue_claimed:
  assumes "holds enc dec st xs" "line_ok enc dec s" "claims enc st xs b cl"
    and st': "st' = snd (enqueue_store (disk w) enc s st)"
  obtains ys rest where "bs_memory st @ [s] = take (cl_mem cl) (bs_memory st) @ ys @ rest"
    "bs_memory st' = take (cl_mem cl) (bs_memory st) @ rest"
    "holds enc dec st' (xs @ written w ys)" "claims enc st' (xs @ written w ys) b cl" "bs_evicted st' = bs_evicted st"
    "bs_max_mem st' = bs_max_mem st" "bs_max_disk st' = bs_max_disk st"
    "length (bs_memory st) < 2 * bs_max_mem st \<longrightarrow> ys = []"
proof -
  let ?m = "cl_mem cl" and ?ms = "bs_memory st"
  define s1 where "s1 = st\<lparr>bs_memory := ?ms @ [s]\<rparr>"
  have cl: "bs_claim_open st" "bs_claimed_mem st = ?m" "?m \<le> length ?ms" using assms(3) by (simp_all add: claims_def)
  have sel: "bs_memory s1 = ?ms @ [s]" "bs_evicted s1 = bs_evicted st" "bs_max_mem s1 = bs_max_mem st"
    "bs_max_disk s1 = bs_max_disk st" "bs_claim_open s1" "bs_claimed_mem s1 = ?m" "bs_offset s1 = bs_offset st"
    "take ?m (bs_memory s1) = take ?m ?ms"
    using cl by (simp_all add: s1_def)
  have d1: "disk_ok enc dec s1 xs" "list_all (line_ok enc dec) (bs_memory s1)"
    using assms(1,2) by (simp_all add: s1_def holds_def disk_ok_def content_def)
  show thesis
  proof (cases "length ?ms < 2 * bs_max_mem st")
    case True
    then have st1: "st' = s1" using cl by (simp add: st' enqueue_store_def s1_def Let_def)
    have "holds enc dec s1 (xs @ written w [])" using assms(1) d1 True sel cl by (simp add: holds_def)
    moreover have "claims enc s1 (xs @ written w []) b cl" using assms(3) sel cl by (simp add: claims_def)
    ultimately show thesis
      unfolding st1 using sel by (intro that [of "[]" "drop ?m ?ms @ [s]"]) (simp_all add: st1)
  next
    case False
    then have st1: "st' = snd (spill_overflow (disk w) enc ?m s1)"
      using cl by (simp add: st' enqueue_store_def s1_def Let_def)
    have le: "?m \<le> length (bs_memory s1)" using cl by (simp add: sel)
    obtain ys rest e where sp: "bs_memory s1 = take ?m ?ms @ ys @ rest" "bs_memory st' = take ?m ?ms @ rest"
      "disk_ok enc dec st' (drop e (xs @ written w ys))" "same_claim (s1\<lparr>bs_memory := bs_memory st'\<rparr>) st'"
      "bs_evicted st' = bs_evicted s1 + e" "bs_claim_open s1 \<longrightarrow> e = 0 \<and> bs_offset st' = bs_offset s1"
      "length (bs_memory st') \<le> max (bs_max_mem s1) ?m"
      using spill_ok [OF d1 le st1] unfolding sel(8) by metis
    note same = same_claimD [OF sp(4)]
    have e: "e = 0" "bs_offset st' = bs_offset st" using sp(6) sel by simp_all
    have m: "?m \<le> bs_max_mem st" using assms(1) cl(2) by (simp add: holds_def)
    have "list_all (line_ok enc dec) (bs_memory st')" using d1(2) unfolding sp(1,2) by simp
    then have "holds enc dec st' (xs @ written w ys)" using sp(3,7) same sel m e by (simp add: holds_def max_def split: if_splits)
    moreover have "claims enc st' (xs @ written w ys) b cl"
      using assms(3) same sel e cl by (simp add: claims_def sp(2))
    ultimately show thesis
      using that [of ys rest] sp(1,2,5) same sel e False by simp
  qed
qed

lemma snapshot_disk_ok:
  assumes "disk_ok enc dec st xs"
  shows "snapshot_disk dec limit st =
    ((take limit xs, min limit (length xs), bs_offset st + length (write_jsonl enc (take limit xs))), st)"
proof (cases "xs = []")
  case True
  then show ?thesis using assms by (simp add: snapshot_disk_def disk_ok_def)
next
  case False
  then obtain c where c: "bs_file st = Some c" using assms by (cases "bs_file st") (auto simp: disk_ok_def content_def)
  have "file_lines (drop (bs_offset st) c) = map (\<lambda>s. enc s @ [newline]) xs"
    using assms file_lines_jsonl [of enc dec xs] by (simp add: disk_ok_def content_def c)
  then show ?thesis
    using assms False read_lines_jsonl [of enc dec xs limit] by (simp add: snapshot_disk_def c disk_ok_def)
qed

text \<open>A snapshot takes the oldest samples, from disk first, and claims them.\<close>

lemma snapshot_ok:
  assumes "holds enc dec st xs" "\<not> bs_claim_open st" "bs_claimed_mem st = 0"
    and snap: "snapshot_store (disk w) dec limit st = ((b, cl), st')"
  shows "b = take limit (xs @ bs_memory st)" "b = [] \<Longrightarrow> st' = st"
    "b \<noteq> [] \<Longrightarrow> holds enc dec st' xs \<and> claims enc st' xs b cl"
    "bs_memory st' = bs_memory st" "bs_evicted st' = bs_evicted st" "bs_max_mem st' = bs_max_mem st"
    "bs_max_disk st' = bs_max_disk st"
proof -
  let ?ms = "bs_memory st"
  define m where "m = min (limit - length (take limit xs)) (length ?ms)"
  have d: "disk_ok enc dec st xs" using assms(1) by (simp add: holds_def)
  have mem: "take m ?ms = take (limit - length xs) ?ms" by (auto simp: m_def min_def)
  have b: "b = take limit xs @ take m ?ms" and st': "st' = (if b \<noteq> [] then st\<lparr>bs_claim_open := True, bs_claimed_mem := m\<rparr> else st)"
    and cl: "b \<noteq> [] \<Longrightarrow> cl = \<lparr>cl_disk_lines = min limit (length xs),
      cl_new_offset = bs_offset st + length (write_jsonl enc (take limit xs)), cl_mem = m\<rparr>"
    using snap assms(2)
    by (auto simp: snapshot_store_def resync_ok [OF d] snapshot_disk_ok [OF d] m_def Let_def min_def split: if_splits)
  show "b = take limit (xs @ ?ms)" by (simp add: b mem)
  show "b = [] \<Longrightarrow> st' = st" by (simp add: st')
  show "bs_memory st' = ?ms" "bs_evicted st' = bs_evicted st" "bs_max_mem st' = bs_max_mem st" "bs_max_disk st' = bs_max_disk st"
    by (simp_all add: st')
  assume ne: "b \<noteq> []"
  have "m \<le> length ?ms" by (simp add: m_def)
  moreover have "disk_ok enc dec st' xs" using d by (simp add: st' disk_ok_def content_def)
  ultimately have "holds enc dec st' xs" using assms(1,2) ne by (simp add: holds_def st')
  moreover have "take (min limit (length xs)) xs = take limit xs" by (simp add: min_def)
  then have "claims enc st' xs b cl" using \<open>m \<le> length ?ms\<close> ne by (simp add: claims_def cl [OF ne] st' b)
  ultimately show "holds enc dec st' xs \<and> claims enc st' xs b cl" ..
qed

lemma close_claim_ok:
  assumes "disk_ok enc dec st xs" "list_all (line_ok enc dec) (bs_memory st)" "\<not> bs_claim_open st" "bs_claimed_mem st = 0"
    and st': "st' = snd (close_claim (disk w) enc st)"
  obtains ys rest e where "bs_memory st = ys @ rest" "bs_memory st' = rest" "e \<le> length (xs @ written w ys)"
    "holds enc dec st' (drop e (xs @ written w ys))" "bs_evicted st' = bs_evicted st + e" "\<not> bs_claim_open st'" "bs_claimed_mem st' = 0"
    "bs_max_mem st' = bs_max_mem st" "bs_max_disk st' = bs_max_disk st" "bs_disk_bytes st' \<le> bs_max_disk st'"
proof -
  define s where "s = snd (spill_overflow (disk w) enc 0 st)"
  obtain ys rest e where sp: "bs_memory st = ys @ rest" "bs_memory s = rest" "e \<le> length (xs @ written w ys)"
    "holds enc dec s (drop e (xs @ written w ys))" "bs_evicted s = bs_evicted st + e" "\<not> bs_claim_open s" "bs_claimed_mem s = 0"
    "bs_max_mem s = bs_max_mem st" "bs_max_disk s = bs_max_disk st"
    using spill_closed [OF assms(1-4) s_def] by metis
  have "disk_ok enc dec s (drop e (xs @ written w ys))" using sp(4) by (simp add: holds_def)
  moreover have eq: "st' = within_budget (disk w) s" by (simp add: st' close_claim_def s_def split_beta)
  ultimately obtain f where f: "f \<le> length (drop e (xs @ written w ys))" "disk_ok enc dec st' (drop f (drop e (xs @ written w ys)))"
    "same_claim s st'" "bs_evicted st' = bs_evicted s + f" "bs_disk_bytes st' \<le> bs_max_disk s"
    using within_budget_ok sp(6) by metis
  have sel: "bs_memory st' = rest" "bs_max_disk st' = bs_max_disk st" "bs_max_mem st' = bs_max_mem st"
    "\<not> bs_claim_open st'" "bs_claimed_mem st' = 0"
    using f(3) sp by (simp_all add: same_claim_def)
  have "drop f (drop e (xs @ written w ys)) = drop (e + f) (xs @ written w ys)" by (simp only: drop_drop add.commute)
  then have "holds enc dec st' (drop (e + f) (xs @ written w ys))" using f(2) sp(2,4,6,8) sel by (simp add: holds_def)
  then show thesis
    using that [of ys rest "e + f"] sp f sel by simp
qed

text \<open>A commit takes the claimed samples off the store, an abort none.\<close>

lemma commit_ok:
  assumes "holds enc dec st xs" "claims enc st xs b cl" and st': "st' = snd (commit_store (disk w) enc cl st)"
  obtains ys rest e where "drop (cl_mem cl) (bs_memory st) = ys @ rest" "bs_memory st' = rest"
    "e \<le> length (drop (cl_disk_lines cl) xs @ written w ys)" "holds enc dec st' (drop e (drop (cl_disk_lines cl) xs @ written w ys))"
    "bs_evicted st' = bs_evicted st + e" "\<not> bs_claim_open st'" "bs_claimed_mem st' = 0"
    "bs_max_mem st' = bs_max_mem st" "bs_max_disk st' = bs_max_disk st" "bs_disk_bytes st' \<le> bs_max_disk st'"
proof -
  let ?d = "cl_disk_lines cl" and ?m = "cl_mem cl"
  have d: "disk_ok enc dec st xs" using assms(1) by (simp add: holds_def)
  define s1 where "s1 = st\<lparr>bs_claim_stale := False\<rparr>"
  define s2 where "s2 = (if ?d \<noteq> 0 then s1\<lparr>bs_offset := cl_new_offset cl, bs_disk_count := bs_disk_count s1 - ?d\<rparr> else s1)"
  define s3 where "s3 = s2\<lparr>bs_memory := drop ?m (bs_memory s2), bs_claim_open := False, bs_claimed_mem := 0\<rparr>"
  define s4 where "s4 = (if bs_disk_count s3 = 0 then unlink_cache (disk w) s3
    else if bs_offset s3 \<ge> COMPACT_THRESHOLD_BYTES then compact (disk w) s3 else s3)"
  have stale: "\<not> bs_claim_stale st" using d by (simp add: disk_ok_def)
  have off: "cl_new_offset cl = bs_offset st + length (write_jsonl enc (take ?d xs))" "?d \<le> length xs"
    using assms(2) by (simp_all add: claims_def)
  define W R where "W = write_jsonl enc (take ?d xs)" and "R = write_jsonl enc (drop ?d xs)"
  have "write_jsonl enc xs = W @ R" unfolding W_def R_def by (metis append_take_drop_id write_jsonl_simps(3))
  then have WR: "drop (bs_offset st) (content st) = W @ R" "bs_offset st \<le> length (content st)"
    using d by (simp_all add: disk_ok_def)
  have "drop (cl_new_offset cl) (content st) = drop (length W) (drop (bs_offset st) (content st))"
    by (simp only: off(1) W_def drop_drop add.commute)
  then have rest: "drop (cl_new_offset cl) (content st) = write_jsonl enc (drop ?d xs)" by (simp add: WR R_def)
  have "length (content st) - bs_offset st = length W + length R" using WR(1) by (metis length_append length_drop)
  then have le: "cl_new_offset cl \<le> length (content st)" using WR(2) by (simp add: off(1) W_def)
  have sel3: "\<not> bs_claim_open s3" "bs_claimed_mem s3 = 0" "bs_memory s3 = drop ?m (bs_memory st)" "bs_evicted s3 = bs_evicted st"
    "bs_max_mem s3 = bs_max_mem st" "bs_max_disk s3 = bs_max_disk st" by (simp_all add: s3_def s2_def s1_def)
  have "bs_offset s3 = cl_new_offset cl" "bs_disk_count s3 = bs_disk_count st - ?d" "content s3 = content st"
    "bs_disk_bytes s3 = bs_disk_bytes st" "\<not> bs_claim_stale s3"
    using off(1) by (simp_all add: s3_def s2_def s1_def content_def)
  then have d3: "disk_ok enc dec s3 (drop ?d xs)"
    using d rest le by (simp add: disk_ok_def list_all_drop)
  have s4: "disk_ok enc dec s4 (drop ?d xs)" "same_claim s3 s4" "bs_evicted s4 = bs_evicted s3"
    using d3 unlink_ok [of enc dec s3 w] compact_ok [OF d3 sel3(1), of w] sel3(1) by (auto simp: s4_def disk_ok_def)
  have sel4: "\<not> bs_claim_open s4" "bs_claimed_mem s4 = 0" "bs_memory s4 = drop ?m (bs_memory st)"
    "bs_max_mem s4 = bs_max_mem st" "bs_max_disk s4 = bs_max_disk st"
    using s4(2) sel3 by (simp_all add: same_claim_def)
  have eq: "st' = snd (close_claim (disk w) enc s4)"
    unfolding st' commit_store_def resync_ok [OF d] Let_def prod.case s4_def s3_def s2_def s1_def
    using stale by (simp only: simp_thms if_True if_False)
  have "list_all (line_ok enc dec) (bs_memory s4)" using assms(1) by (simp add: sel4(3) holds_def list_all_drop)
  from close_claim_ok [OF s4(1) this sel4(1,2) eq] show thesis
    using that s4(3) sel3(4) unfolding sel4(3-5) by metis
qed

lemma abort_ok:
  assumes "holds enc dec st xs" "claims enc st xs b cl" and st': "st' = snd (abort_store (disk w) enc st)"
  obtains ys rest e where "bs_memory st = ys @ rest" "bs_memory st' = rest" "e \<le> length (xs @ written w ys)"
    "holds enc dec st' (drop e (xs @ written w ys))" "bs_evicted st' = bs_evicted st + e" "\<not> bs_claim_open st'" "bs_claimed_mem st' = 0"
    "bs_max_mem st' = bs_max_mem st" "bs_max_disk st' = bs_max_disk st" "bs_disk_bytes st' \<le> bs_max_disk st'"
proof -
  have d: "disk_ok enc dec st xs" using assms(1) by (simp add: holds_def)
  define s where "s = st\<lparr>bs_claim_open := False, bs_claimed_mem := 0\<rparr>"
  have "st\<lparr>bs_claim_open := False, bs_claimed_mem := 0, bs_claim_stale := False\<rparr> = s"
    using d by (simp add: s_def disk_ok_def)
  then have eq: "st' = snd (close_claim (disk w) enc s)" by (simp add: st' abort_store_def resync_ok [OF d])
  have sel: "bs_memory s = bs_memory st" "bs_evicted s = bs_evicted st" "bs_max_mem s = bs_max_mem st"
    "bs_max_disk s = bs_max_disk st" "\<not> bs_claim_open s" "bs_claimed_mem s = 0" by (simp_all add: s_def)
  have "disk_ok enc dec s xs" using d by (simp add: s_def disk_ok_def content_def)
  moreover have "list_all (line_ok enc dec) (bs_memory s)" using assms(1) by (simp add: sel holds_def)
  ultimately show thesis using close_claim_ok [OF _ _ sel(5,6) eq] that unfolding sel(1-4) by metis
qed

end
