(* ===== verification/MetricBufferRuns.thy ===== *)
theory MetricBufferRuns
  imports MetricBufferProps "HOL-Library.Sublist"
begin

text \<open>
  Runs of the buffered metric client on a disk that may refuse appends: no sample is posted twice, and none is
  lost but by a counted eviction or by an append that failed; samples are posted in order, the memory and the
  disk stay within their bounds, and the draining loop ends.
\<close>

section \<open>Runs of the client\<close>

text \<open>
  Samples arrive while a POST is in flight or not; a second flush finds the claim open. The first argument of an
  event says whether the disk accepts appends while it is handled; the other accesses work. The run records
  the samples enqueued (as they are stored) and the samples of the batches that were posted.
\<close>

datatype buf_event = Be_Enqueue bool json | Be_Begin | Be_End bool bool

record buf_run =
  br_client :: metric_client
  br_flight :: "flight option"
  br_enqueued :: "json list"
  br_posted :: "json list"

fun buf_step :: "(json \<Rightarrow> string) \<Rightarrow> (string \<Rightarrow> json option) \<Rightarrow> buf_event \<Rightarrow> buf_run \<Rightarrow> buf_run" where
  "buf_step enc dec (Be_Enqueue w s) r =
     (case client_enqueue (disk w) enc s (br_client r) of
        None \<Rightarrow> r
      | Some mc \<Rightarrow> r\<lparr>br_client := mc, br_enqueued := br_enqueued r @ [sanitize_non_finite s]\<rparr>)"
| "buf_step enc dec Be_Begin r =
     (case flush_begin (disk True) dec (br_client r) of
        (None, mc) \<Rightarrow> r\<lparr>br_client := mc\<rparr>
      | (Some fl, mc) \<Rightarrow> r\<lparr>br_client := mc, br_flight := Some fl\<rparr>)"
| "buf_step enc dec (Be_End w ok) r =
     (case br_flight r of
        None \<Rightarrow> r
      | Some fl \<Rightarrow> r\<lparr>br_client := flush_end (disk w) enc fl ok (br_client r), br_flight := None,
                     br_posted := br_posted r @ (if ok then fst fl else [])\<rparr>)"

abbreviation br_store :: "buf_run \<Rightarrow> json buffer_store" where
  "br_store r \<equiv> mc_store (br_client r)"

definition buf_init :: "nat \<Rightarrow> nat \<Rightarrow> nat \<Rightarrow> buf_run" where
  "buf_init max_disk max_mem limit =
     \<lparr>br_client = client_init (disk True) None [] INGEST_PATH max_disk max_mem limit, br_flight = None, br_enqueued = [],
      br_posted = []\<rparr>"

text \<open>The samples of a run can be coded as lines.\<close>

definition codable :: "(json \<Rightarrow> string) \<Rightarrow> (string \<Rightarrow> json option) \<Rightarrow> buf_event \<Rightarrow> bool" where
  "codable enc dec ev = (case ev of Be_Enqueue w s \<Rightarrow> line_ok enc dec (sanitize_non_finite s) | _ \<Rightarrow> True)"

text \<open>The disk accepts appends during the event.\<close>

definition appends :: "buf_event \<Rightarrow> bool" where
  "appends ev = (case ev of Be_Enqueue w s \<Rightarrow> w | Be_Begin \<Rightarrow> True | Be_End w ok \<Rightarrow> w)"

definition flight_ok :: "(json \<Rightarrow> string) \<Rightarrow> buf_run \<Rightarrow> json list \<Rightarrow> bool" where
  "flight_ok enc r xs \<longleftrightarrow>
     (case br_flight r of
        None \<Rightarrow> \<not> bs_claim_open (br_store r) \<and> bs_claimed_mem (br_store r) = 0
      | Some (b, cl) \<Rightarrow> claims enc (br_store r) xs b cl)"

text \<open>The limits of the store; no event changes them.\<close>

definition limits :: "'a buffer_store \<Rightarrow> nat \<times> nat" where
  "limits st = (bs_max_mem st, bs_max_disk st)"

lemma note_spill_store:
  "holds enc dec (mc_store mc) xs \<Longrightarrow> mc_store (note_spill (disk w) res mc) = mc_store mc"
  by (simp add: note_spill_def resync_ok [of enc dec _ xs] holds_def split: prod.splits)

lemma enqueue_store_of:
  assumes "holds enc dec (snd (enqueue_store (disk w) enc (sanitize_non_finite s) (mc_store mc))) xs"
    and "client_enqueue (disk w) enc s mc = Some mc'"
  shows "mc_store mc' = snd (enqueue_store (disk w) enc (sanitize_non_finite s) (mc_store mc))"
  using assms(2)
  by (auto simp: client_enqueue_def split_beta note_spill_store [of enc dec _ xs] assms(1) split: if_splits)

lemma flush_end_store_of:
  "holds enc dec (snd (commit_store (disk w) enc (snd fl) (mc_store mc))) xs \<Longrightarrow>
     mc_store (flush_end (disk w) enc fl True mc) = snd (commit_store (disk w) enc (snd fl) (mc_store mc))"
  "holds enc dec (snd (abort_store (disk w) enc (mc_store mc))) xs \<Longrightarrow>
     mc_store (flush_end (disk w) enc fl False mc) = snd (abort_store (disk w) enc (mc_store mc))"
  by (simp_all add: flush_end_def Let_def split_beta note_spill_store [of enc dec _ xs] total_store_def
      resync_ok [of enc dec _ xs] holds_def)

lemma init_holds: "holds enc dec (init_store (disk w) None max_disk max_mem) []"
  by (simp add: holds_def disk_ok_def content_def init_store_def Let_def count_lines_from_def)

text \<open>A flush that begins: nothing is left to claim, or the oldest samples are claimed.\<close>

lemma begin_ok:
  assumes "holds enc dec (br_store r) xs" "flight_ok enc r xs" and r': "r' = buf_step enc dec Be_Begin r"
  shows "holds enc dec (br_store r') xs" "flight_ok enc r' xs" "bs_memory (br_store r') = bs_memory (br_store r)"
    "bs_evicted (br_store r') = bs_evicted (br_store r)" "br_enqueued r' = br_enqueued r" "br_posted r' = br_posted r"
    "limits (br_store r') = limits (br_store r)" "br_flight r' = None \<Longrightarrow> r' = r"
    "br_flight r = None \<Longrightarrow> br_flight r' = Some (b, cl) \<Longrightarrow> cl_mem cl = 0 \<or> cl_disk_lines cl = length xs"
    "br_flight r \<noteq> None \<Longrightarrow> br_flight r' = br_flight r"
proof -
  obtain b cl st where snap: "snapshot_store (disk True) dec (mc_batch_limit (br_client r)) (br_store r) = ((b, cl), st)"
    by (metis prod.collapse)
  have base: "br_enqueued r' = br_enqueued r" "br_posted r' = br_posted r"
    by (simp_all add: r' split: prod.splits option.splits)
  show "br_enqueued r' = br_enqueued r" "br_posted r' = br_posted r" by fact+
  have "holds enc dec (br_store r') xs \<and> flight_ok enc r' xs \<and> bs_memory (br_store r') = bs_memory (br_store r) \<and>
    bs_evicted (br_store r') = bs_evicted (br_store r) \<and> limits (br_store r') = limits (br_store r) \<and>
    (br_flight r' = None \<longrightarrow> r' = r) \<and>
    (br_flight r = None \<longrightarrow> (\<forall>b cl. br_flight r' = Some (b, cl) \<longrightarrow> cl_mem cl = 0 \<or> cl_disk_lines cl = length xs)) \<and>
    (br_flight r \<noteq> None \<longrightarrow> br_flight r' = br_flight r)"
  proof (cases "br_flight r")
    case (Some fl)
    then have "bs_claim_open (br_store r)" using assms(2) by (auto simp: flight_ok_def claims_def split: prod.splits)
    then have "b = []" "st = br_store r" using snap by (auto simp: snapshot_store_def)
    then have "r' = r" using snap by (simp add: r' flush_begin_def)
    then show ?thesis using assms Some by simp
  next
    case None
    then have closed: "\<not> bs_claim_open (br_store r)" "bs_claimed_mem (br_store r) = 0"
      using assms(2) by (simp_all add: flight_ok_def)
    note sn = snapshot_ok [OF assms(1) closed snap]
    show ?thesis
    proof (cases "b = []")
      case True
      then have "r' = r" using sn(2) snap by (simp add: r' flush_begin_def)
      then show ?thesis using assms None by simp
    next
      case False
      have h: "holds enc dec st xs" "claims enc st xs b cl" using sn(3) [OF False] by simp_all
      have st: "br_store r' = st" "br_flight r' = Some (b, cl)"
        using snap False resync_ok [of enc dec st xs] h(1) by (simp_all add: r' flush_begin_def holds_def)
      have "cl_mem cl = 0 \<or> cl_disk_lines cl = length xs"
      proof (cases "mc_batch_limit (br_client r) \<le> length xs")
        case True
        then have "length b = mc_batch_limit (br_client r)" using sn(1) by simp
        moreover have "length b = cl_disk_lines cl + cl_mem cl" using h(2) by (simp add: claims_def)
        moreover have "cl_disk_lines cl = mc_batch_limit (br_client r) \<or> cl_mem cl = 0"
          using snap True closed
            snapshot_disk_ok [of enc dec "br_store r" xs] resync_ok [of enc dec "br_store r" xs] assms(1)
          by (auto simp: snapshot_store_def holds_def Let_def min_def split: if_splits)
        ultimately show ?thesis by auto
      next
        case False
        then show ?thesis
          using snap closed
            snapshot_disk_ok [of enc dec "br_store r" xs] resync_ok [of enc dec "br_store r" xs] assms(1)
          by (auto simp: snapshot_store_def holds_def Let_def min_def split: if_splits)
      qed
      then show ?thesis using h sn None by (simp add: st flight_ok_def limits_def)
    qed
  qed
  then show "holds enc dec (br_store r') xs" "flight_ok enc r' xs" "bs_memory (br_store r') = bs_memory (br_store r)"
    "bs_evicted (br_store r') = bs_evicted (br_store r)" "limits (br_store r') = limits (br_store r)"
    "br_flight r' = None \<Longrightarrow> r' = r" "br_flight r = None \<Longrightarrow> br_flight r' = Some (b, cl) \<Longrightarrow> cl_mem cl = 0 \<or> cl_disk_lines cl = length xs"
    "br_flight r \<noteq> None \<Longrightarrow> br_flight r' = br_flight r" for b cl
    by blast+
qed

section \<open>One event of a run\<close>

text \<open>The samples that wait: those on disk, then those in memory.\<close>

abbreviation backlog :: "buf_run \<Rightarrow> json list \<Rightarrow> json list" where
  "backlog r xs \<equiv> xs @ bs_memory (br_store r)"

text \<open>An enqueue appends a sample and may evict the oldest ones; while a POST is in flight it evicts none.\<close>

lemma enqueue_step:
  assumes h: "holds enc dec (br_store r) xs" and f: "flight_ok enc r xs" and l: "codable enc dec (Be_Enqueue w s)"
    and r': "r' = buf_step enc dec (Be_Enqueue w s) r"
  obtains (refused) "r' = r"
  | (closed) xs' kept gone e where "br_flight r = None" "br_flight r' = None" "holds enc dec (br_store r') xs'"
    "flight_ok enc r' xs'" "mset (backlog r xs @ [sanitize_non_finite s]) = mset kept + mset gone" "w \<longrightarrow> gone = []"
    "subseq kept (backlog r xs @ [sanitize_non_finite s])" "e \<le> length kept" "backlog r' xs' = drop e kept"
    "bs_evicted (br_store r') = bs_evicted (br_store r) + e" "limits (br_store r') = limits (br_store r)"
    "bs_disk_bytes (br_store r') \<le> max (bs_disk_bytes (br_store r)) (bs_max_disk (br_store r))"
    "br_enqueued r' = br_enqueued r @ [sanitize_non_finite s]" "br_posted r' = br_posted r"
  | (claimed) xs' gone b cl where "br_flight r = Some (b, cl)" "br_flight r' = Some (b, cl)" "holds enc dec (br_store r') xs'"
    "flight_ok enc r' xs'" "mset (backlog r xs @ [sanitize_non_finite s]) = mset (backlog r' xs') + mset gone"
    "w \<longrightarrow> gone = []" "bs_evicted (br_store r') = bs_evicted (br_store r)" "limits (br_store r') = limits (br_store r)"
    "length (bs_memory (br_store r)) < 2 * bs_max_mem (br_store r) \<longrightarrow>
       xs' = xs \<and> bs_memory (br_store r') = bs_memory (br_store r) @ [sanitize_non_finite s]"
    "br_enqueued r' = br_enqueued r @ [sanitize_non_finite s]" "br_posted r' = br_posted r"
proof (cases "client_enqueue (disk w) enc s (br_client r)")
  case None
  then show thesis using refused by (simp add: r')
next
  case (Some mc)
  let ?s = "sanitize_non_finite s" and ?st = "br_store r"
  define st' where "st' = snd (enqueue_store (disk w) enc ?s ?st)"
  have ls: "line_ok enc dec ?s" using l by (simp add: codable_def)
  have rr: "br_client r' = mc" "br_flight r' = br_flight r" "br_enqueued r' = br_enqueued r @ [?s]" "br_posted r' = br_posted r"
    by (simp_all add: r' Some)
  show thesis
  proof (cases "br_flight r")
    case None
    then have c: "\<not> bs_claim_open ?st" "bs_claimed_mem ?st = 0" using f by (simp_all add: flight_ok_def)
    obtain ys rest e where en: "bs_memory ?st @ [?s] = ys @ rest" "bs_memory st' = rest" "e \<le> length (xs @ written w ys)"
      "holds enc dec st' (drop e (xs @ written w ys))" "bs_evicted st' = bs_evicted ?st + e" "\<not> bs_claim_open st'"
      "bs_claimed_mem st' = 0" "bs_max_mem st' = bs_max_mem ?st" "bs_max_disk st' = bs_max_disk ?st"
      "bs_disk_bytes st' \<le> max (bs_disk_bytes ?st) (bs_max_disk ?st)"
      using enqueue_closed [OF h ls c st'_def] by metis
    have st: "br_store r' = st'" using enqueue_store_of [OF en(4) [unfolded st'_def] Some] by (simp add: rr st'_def)
    define kept where "kept = (xs @ written w ys) @ rest"
    have all: "backlog r xs @ [?s] = xs @ ys @ rest" using en(1) by simp
    have "backlog r' (drop e (xs @ written w ys)) = drop e kept"
      unfolding kept_def st en(2) using en(3) by (simp only: drop_append) simp
    moreover have "flight_ok enc r' (drop e (xs @ written w ys))" using en(6,7) by (simp add: flight_ok_def rr(2) None st)
    moreover have "mset (backlog r xs @ [?s]) = mset kept + mset (unwritten w ys)" unfolding all kept_def by auto
    moreover have "subseq kept (xs @ ys @ rest)" unfolding kept_def append_assoc by (intro list_emb_append_mono) auto
    then have "subseq kept (backlog r xs @ [?s])" by (simp only: all)
    moreover have "e \<le> length kept" unfolding kept_def using en(3) by simp
    ultimately show thesis
      using closed [of "drop e (xs @ written w ys)" kept "unwritten w ys" e] en(4,5,8-10) rr(2-4) None
      by (simp add: st limits_def)
  next
    case fl: (Some fl)
    then obtain b cl where fl': "br_flight r = Some (b, cl)" by (cases fl) simp
    then have c: "claims enc ?st xs b cl" using f by (simp add: flight_ok_def)
    let ?m = "take (cl_mem cl) (bs_memory ?st)"
    obtain ys rest where en: "bs_memory ?st @ [?s] = ?m @ ys @ rest" "bs_memory st' = ?m @ rest"
      "holds enc dec st' (xs @ written w ys)" "claims enc st' (xs @ written w ys) b cl" "bs_evicted st' = bs_evicted ?st"
      "bs_max_mem st' = bs_max_mem ?st" "bs_max_disk st' = bs_max_disk ?st"
      "length (bs_memory ?st) < 2 * bs_max_mem ?st \<longrightarrow> ys = []"
      using enqueue_claimed [OF h ls c st'_def] by metis
    have st: "br_store r' = st'" using enqueue_store_of [OF en(3) [unfolded st'_def] Some] by (simp add: rr st'_def)
    have all: "backlog r xs @ [?s] = xs @ ?m @ ys @ rest" using en(1) by simp
    have "mset (backlog r xs @ [?s]) = mset (backlog r' (xs @ written w ys)) + mset (unwritten w ys)"
      unfolding all st en(2) by auto
    moreover have "ys = [] \<Longrightarrow> bs_memory st' = bs_memory ?st @ [?s]" using en(1,2) by simp
    ultimately show thesis
      using claimed [of b cl "xs @ written w ys" "unwritten w ys"] en(3-8) rr(2-4) fl'
      by (auto simp: st limits_def flight_ok_def)
  qed
qed

text \<open>The end of a POST takes its batch off the samples that wait, or leaves them, and may evict the oldest.\<close>

lemma end_step:
  assumes h: "holds enc dec (br_store r) xs" and f: "flight_ok enc r xs" and fl: "br_flight r = Some (b, cl)"
    and r': "r' = buf_step enc dec (Be_End w ok) r"
    and left: "left = (if ok then drop (cl_disk_lines cl) xs @ drop (cl_mem cl) (bs_memory (br_store r)) else backlog r xs)"
  obtains xs' kept gone e where "br_flight r' = None" "holds enc dec (br_store r') xs'" "flight_ok enc r' xs'"
    "mset left = mset kept + mset gone" "w \<longrightarrow> gone = []" "subseq kept left" "e \<le> length kept" "backlog r' xs' = drop e kept"
    "bs_evicted (br_store r') = bs_evicted (br_store r) + e" "limits (br_store r') = limits (br_store r)"
    "br_enqueued r' = br_enqueued r" "br_posted r' = br_posted r @ (if ok then b else [])"
    "b = take (cl_disk_lines cl) xs @ take (cl_mem cl) (bs_memory (br_store r))"
    "bs_disk_bytes (br_store r') \<le> bs_max_disk (br_store r')"
proof -
  let ?st = "br_store r"
  define st' where "st' = snd (if ok then commit_store (disk w) enc cl ?st else abort_store (disk w) enc ?st)"
  define zs ms where "zs = (if ok then drop (cl_disk_lines cl) xs else xs)"
    and "ms = (if ok then drop (cl_mem cl) (bs_memory ?st) else bs_memory ?st)"
  have c: "claims enc ?st xs b cl" using f fl by (simp add: flight_ok_def)
  obtain ys rest e where en: "ms = ys @ rest" "bs_memory st' = rest" "e \<le> length (zs @ written w ys)"
    "holds enc dec st' (drop e (zs @ written w ys))" "bs_evicted st' = bs_evicted ?st + e" "\<not> bs_claim_open st'" "bs_claimed_mem st' = 0"
    "bs_max_mem st' = bs_max_mem ?st" "bs_max_disk st' = bs_max_disk ?st" "bs_disk_bytes st' \<le> bs_max_disk st'"
  proof (cases ok)
    case True
    then have e: "st' = snd (commit_store (disk w) enc cl ?st)" by (simp add: st'_def)
    show thesis using commit_ok [OF h c e] that True unfolding zs_def ms_def by (simp only: if_True) metis
  next
    case False
    then have e: "st' = snd (abort_store (disk w) enc ?st)" by (simp add: st'_def)
    show thesis using abort_ok [OF h c e] that False unfolding zs_def ms_def by (simp only: if_False) metis
  qed
  have st: "br_store r' = st'"
    using flush_end_store_of [where fl = "(b, cl)" and mc = "br_client r" and xs = "drop e (zs @ written w ys)" and enc = enc
        and dec = dec and w = w] en(4)
    by (cases ok) (simp_all add: r' fl st'_def)
  define kept where "kept = (zs @ written w ys) @ rest"
  have all: "left = zs @ ys @ rest" using en(1) by (simp add: left zs_def ms_def split: if_splits)
  have bl: "backlog r' (drop e (zs @ written w ys)) = drop e kept" unfolding kept_def st en(2) using en(3) by simp
  have rr: "br_flight r' = None" "br_enqueued r' = br_enqueued r" "br_posted r' = br_posted r @ (if ok then b else [])"
    by (simp_all add: r' fl)
  have "flight_ok enc r' (drop e (zs @ written w ys))" using en(6,7) by (simp add: flight_ok_def rr st)
  moreover have "e \<le> length kept" unfolding kept_def using en(3) by simp
  moreover have "mset left = mset kept + mset (unwritten w ys)" unfolding all kept_def by auto
  moreover have "subseq kept left" unfolding all kept_def append_assoc by (intro list_emb_append_mono) auto
  moreover have "b = take (cl_disk_lines cl) xs @ take (cl_mem cl) (bs_memory ?st)" using c by (simp add: claims_def)
  ultimately show thesis
    using that [OF rr(1) _ _ _ _ _ _ bl _ _ rr(2,3), where gone = "unwritten w ys"] en(4,5,8-10) by (simp add: st limits_def)
qed

section \<open>Conservation and bounds\<close>

text \<open>
  The samples enqueued are those posted, those evicted (\<open>lost\<close>), those of appends that failed (\<open>gone\<close>, none
  when all appends work: \<open>ok\<close>) and those that wait; without a POST in flight the file is within its budget.
\<close>

definition run_ok ::
  "(json \<Rightarrow> string) \<Rightarrow> (string \<Rightarrow> json option) \<Rightarrow> bool \<Rightarrow> nat \<times> nat \<Rightarrow> buf_run \<Rightarrow> json list \<Rightarrow> json list \<Rightarrow> json list \<Rightarrow> bool" where
  "run_ok enc dec ok lims r xs lost gone \<longleftrightarrow> holds enc dec (br_store r) xs \<and> flight_ok enc r xs \<and>
     mset (br_enqueued r) = mset (br_posted r) + mset lost + mset gone + mset (backlog r xs) \<and>
     length lost = bs_evicted (br_store r) \<and> limits (br_store r) = lims \<and>
     (br_flight r = None \<longrightarrow> bs_disk_bytes (br_store r) \<le> snd lims) \<and> (ok \<longrightarrow> gone = [])"

lemma run_okI:
  assumes "holds enc dec (br_store r) xs" "flight_ok enc r xs"
    "mset (br_enqueued r) = mset (br_posted r) + mset lost + mset gone + mset (backlog r xs)"
    "length lost = bs_evicted (br_store r)" "limits (br_store r) = lims"
    "br_flight r = None \<Longrightarrow> bs_disk_bytes (br_store r) \<le> snd lims" "ok \<Longrightarrow> gone = []"
  shows "run_ok enc dec ok lims r xs lost gone"
  using assms by (simp add: run_ok_def)

lemma run_okD:
  assumes "run_ok enc dec ok lims r xs lost gone"
  shows "holds enc dec (br_store r) xs" "flight_ok enc r xs"
    "mset (br_enqueued r) = mset (br_posted r) + mset lost + mset gone + mset (backlog r xs)"
    "length lost = bs_evicted (br_store r)" "limits (br_store r) = lims"
    "br_flight r = None \<Longrightarrow> bs_disk_bytes (br_store r) \<le> snd lims" "ok \<Longrightarrow> gone = []"
  using assms by (simp_all add: run_ok_def)

lemma mset_take_drop: "mset (take n xs) + mset (drop n xs) = mset xs"
  by (metis append_take_drop_id mset_append)

text \<open>An eviction moves the oldest waiting samples to the lost ones.\<close>

lemma run_ok_evict:
  assumes "holds enc dec (br_store r) xs" "flight_ok enc r xs" "e \<le> length kept" "backlog r xs = drop e kept"
    "bs_evicted (br_store r) = length lost + e" "limits (br_store r) = lims"
    "br_flight r = None \<Longrightarrow> bs_disk_bytes (br_store r) \<le> snd lims"
    "mset (br_enqueued r) = mset (br_posted r) + mset lost + mset gone + mset kept" "ok \<Longrightarrow> gone = []"
  shows "run_ok enc dec ok lims r xs (lost @ take e kept) gone"
  using assms(1,2)
proof (rule run_okI)
  have "mset kept = mset (take e kept) + mset (drop e kept)" by (simp only: mset_take_drop)
  then show "mset (br_enqueued r) = mset (br_posted r) + mset (lost @ take e kept) + mset gone + mset (backlog r xs)"
    unfolding assms(4,8) by simp
qed (use assms in simp_all)

lemma step_run_ok:
  assumes ok: "run_ok enc dec ok lims r xs lost gone" and ev: "codable enc dec ev" and w: "ok \<longrightarrow> appends ev"
    and r': "r' = buf_step enc dec ev r"
  shows "\<exists>xs lost gone. run_ok enc dec ok lims r' xs lost gone"
proof (cases ev)
  case (Be_Enqueue w s)
  note h = run_okD [OF ok]
  have w: "ok \<longrightarrow> w" using w by (simp add: Be_Enqueue appends_def)
  show ?thesis
  proof (rule enqueue_step [OF h(1,2) ev [unfolded Be_Enqueue] r' [unfolded Be_Enqueue]])
    assume "r' = r"
    then show ?thesis using ok by blast
  next
    fix xs' kept gone' e
    assume en: "br_flight r = None" "holds enc dec (br_store r') xs'" "flight_ok enc r' xs'"
      "mset (backlog r xs @ [sanitize_non_finite s]) = mset kept + mset gone'" "w \<longrightarrow> gone' = []"
      "e \<le> length kept" "backlog r' xs' = drop e kept"
      "bs_evicted (br_store r') = bs_evicted (br_store r) + e" "limits (br_store r') = limits (br_store r)"
      "bs_disk_bytes (br_store r') \<le> max (bs_disk_bytes (br_store r)) (bs_max_disk (br_store r))"
      "br_enqueued r' = br_enqueued r @ [sanitize_non_finite s]" "br_posted r' = br_posted r"
    have "bs_disk_bytes (br_store r') \<le> snd lims" using en(10) h(6) [OF en(1)] h(5) by (auto simp: limits_def)
    moreover have "mset (br_enqueued r') = mset (br_posted r') + mset lost + mset (gone @ gone') + mset kept"
      using h(3) en(4) by (simp add: en(11,12))
    ultimately have "run_ok enc dec ok lims r' xs' (lost @ take e kept) (gone @ gone')"
      using run_ok_evict [OF en(2,3,6,7), of lost lims "gone @ gone'" ok] en(5,8,9) h(4,5,7) w by simp
    then show ?thesis by blast
  next
    fix xs' gone' b cl
    assume en: "br_flight r' = Some (b, cl)" "holds enc dec (br_store r') xs'" "flight_ok enc r' xs'"
      "mset (backlog r xs @ [sanitize_non_finite s]) = mset (backlog r' xs') + mset gone'" "w \<longrightarrow> gone' = []"
      "bs_evicted (br_store r') = bs_evicted (br_store r)" "limits (br_store r') = limits (br_store r)"
      "br_enqueued r' = br_enqueued r @ [sanitize_non_finite s]" "br_posted r' = br_posted r"
    have "mset (br_enqueued r') = mset (br_posted r') + mset lost + mset (gone @ gone') + mset (backlog r' xs')"
      using h(3) en(4) by (simp add: en(8,9) ac_simps)
    then have "run_ok enc dec ok lims r' xs' lost (gone @ gone')"
      by (intro run_okI) (use en h(4,5,7) w in simp_all)
    then show ?thesis by blast
  qed
next
  case Be_Begin
  note h = run_okD [OF ok]
  note b = begin_ok [OF h(1,2) r' [unfolded Be_Begin]]
  have "run_ok enc dec ok lims r' xs lost gone"
  proof (rule run_okI)
    show "mset (br_enqueued r') = mset (br_posted r') + mset lost + mset gone + mset (backlog r' xs)"
      using h(3) by (simp only: b(3,5,6))
    show "br_flight r' = None \<Longrightarrow> bs_disk_bytes (br_store r') \<le> snd lims" using b(8) h(6) by metis
    show "ok \<Longrightarrow> gone = []" by (rule h(7))
  qed (use h(4,5) in \<open>simp_all only: b(1,2,4,7)\<close>)
  then show ?thesis by blast
next
  case (Be_End w posted)
  note h = run_okD [OF ok]
  have w: "ok \<longrightarrow> w" using w by (simp add: Be_End appends_def)
  show ?thesis
  proof (cases "br_flight r")
    case None
    then show ?thesis using ok by (auto simp: r' Be_End)
  next
    case (Some fl)
    then obtain b cl where fl: "br_flight r = Some (b, cl)" by (cases fl) simp
    let ?d = "cl_disk_lines cl" and ?m = "cl_mem cl" and ?ms = "bs_memory (br_store r)"
    let ?left = "if posted then drop ?d xs @ drop ?m ?ms else backlog r xs"
    obtain xs' kept gone' e where en: "br_flight r' = None" "holds enc dec (br_store r') xs'" "flight_ok enc r' xs'"
      "mset ?left = mset kept + mset gone'" "w \<longrightarrow> gone' = []"
      "e \<le> length kept" "backlog r' xs' = drop e kept" "bs_evicted (br_store r') = bs_evicted (br_store r) + e"
      "limits (br_store r') = limits (br_store r)" "br_enqueued r' = br_enqueued r"
      "br_posted r' = br_posted r @ (if posted then b else [])" "b = take ?d xs @ take ?m ?ms"
      "bs_disk_bytes (br_store r') \<le> bs_max_disk (br_store r')"
      by (rule end_step [OF h(1,2) fl r' [unfolded Be_End] refl])
    have "mset (br_posted r') + mset ?left = mset (br_posted r) + mset (backlog r xs)"
      using mset_take_drop [of ?d xs] mset_take_drop [of ?m ?ms] by (auto simp: en(11,12) ac_simps)
    then have "mset (br_enqueued r') = mset (br_posted r') + mset lost + mset gone + mset ?left"
      using h(3) en(10) by (simp add: ac_simps)
    then have "mset (br_enqueued r') = mset (br_posted r') + mset lost + mset (gone @ gone') + mset kept"
      unfolding en(4) by simp
    moreover have "bs_disk_bytes (br_store r') \<le> snd lims" using en(9,13) h(5) by (auto simp: limits_def)
    ultimately have "run_ok enc dec ok lims r' xs' (lost @ take e kept) (gone @ gone')"
      using run_ok_evict [OF en(2,3,6,7), of lost lims "gone @ gone'" ok] en(5,8,9) h(4,5,7) w by simp
    then show ?thesis by blast
  qed
qed

lemma init_run_ok: "run_ok enc dec ok (max_mem, max_disk) (buf_init max_disk max_mem limit) [] [] []"
  using init_holds [of enc dec True max_disk max_mem]
  by (simp add: run_ok_def buf_init_def client_init_def flight_ok_def init_store_def Let_def limits_def)

text \<open>
  Runs whose samples can be coded, as a machine; when \<open>ok\<close> is set the disk accepts every append. Other events
  are ignored.
\<close>

definition coded_step :: "(json \<Rightarrow> string) \<Rightarrow> (string \<Rightarrow> json option) \<Rightarrow> bool \<Rightarrow> buf_event \<Rightarrow> buf_run \<Rightarrow> buf_run" where
  "coded_step enc dec ok ev = (if codable enc dec ev \<and> (ok \<longrightarrow> appends ev) then buf_step enc dec ev else id)"

lemma coded_fold:
  "list_all (codable enc dec) es \<Longrightarrow> (ok \<longrightarrow> list_all appends es) \<Longrightarrow>
     fold (coded_step enc dec ok) es = fold (buf_step enc dec) es"
  by (induction es) (simp_all add: coded_step_def)

interpretation buffer: machine "\<lambda>r. \<exists>limit. r = buf_init max_disk max_mem limit" "coded_step enc dec ok"
  "\<lambda>r. \<exists>xs lost gone. run_ok enc dec ok (max_mem, max_disk) r xs lost gone" for enc dec ok max_disk max_mem
proof
  show "\<exists>xs lost gone. run_ok enc dec ok (max_mem, max_disk) r xs lost gone"
    if "\<exists>limit. r = buf_init max_disk max_mem limit" for r
    using that init_run_ok by blast
  show "\<exists>xs lost gone. run_ok enc dec ok (max_mem, max_disk) (coded_step enc dec ok ev r) xs lost gone"
    if "\<exists>xs lost gone. run_ok enc dec ok (max_mem, max_disk) r xs lost gone" for r ev
    using that step_run_ok [OF _ _ _ refl] by (auto simp: coded_step_def)
qed

lemma imp_refl: "P \<longrightarrow> P"
  by simp

lemma run_ok_reached:
  assumes "list_all (codable enc dec) es" "r = fold (buf_step enc dec) es (buf_init max_disk max_mem limit)"
  obtains xs lost gone where "run_ok enc dec (list_all appends es) (max_mem, max_disk) r xs lost gone"
  using buffer.inv_run [of "buf_init max_disk max_mem limit" max_disk max_mem enc dec "list_all appends es" es]
  unfolding coded_fold [OF assms(1) imp_refl] assms(2) [symmetric] by blast

section \<open>Order\<close>

text \<open>
  At most \<open>max_mem\<close> samples arrive between the beginning of a flush and its end: the claimed samples and the
  new ones then fit the doubled bound, and no sample overtakes a claimed one through the disk.
\<close>

fun short_posts :: "nat \<Rightarrow> bool \<Rightarrow> nat \<Rightarrow> buf_event list \<Rightarrow> bool" where
  "short_posts mm begun j [] \<longleftrightarrow> True"
| "short_posts mm begun j (Be_Enqueue w s # es) \<longleftrightarrow> (begun \<longrightarrow> j < mm) \<and> short_posts mm begun (Suc j) es"
| "short_posts mm begun j (Be_Begin # es) \<longleftrightarrow> short_posts mm True (if begun then j else 0) es"
| "short_posts mm begun j (Be_End w ok # es) \<longleftrightarrow> short_posts mm False 0 es"

definition claim_fits :: "buf_run \<Rightarrow> json list \<Rightarrow> bool \<Rightarrow> nat \<Rightarrow> bool" where
  "claim_fits r xs begun j \<longleftrightarrow>
     (case br_flight r of
        None \<Rightarrow> True
      | Some (b, cl) \<Rightarrow> begun \<and> length (bs_memory (br_store r)) \<le> bs_max_mem (br_store r) + j \<and>
          (cl_mem cl = 0 \<or> cl_disk_lines cl = length xs))"

definition in_order ::
  "(json \<Rightarrow> string) \<Rightarrow> (string \<Rightarrow> json option) \<Rightarrow> nat \<Rightarrow> bool \<Rightarrow> nat \<Rightarrow> buf_run \<Rightarrow> json list \<Rightarrow> bool" where
  "in_order enc dec mm begun j r xs \<longleftrightarrow> holds enc dec (br_store r) xs \<and> flight_ok enc r xs \<and> bs_max_mem (br_store r) = mm \<and>
     subseq (br_posted r @ backlog r xs) (br_enqueued r) \<and> claim_fits r xs begun j"

lemma in_orderI:
  assumes "holds enc dec (br_store r) xs" "flight_ok enc r xs" "bs_max_mem (br_store r) = mm"
    "subseq (br_posted r @ backlog r xs) (br_enqueued r)" "claim_fits r xs begun j"
  shows "in_order enc dec mm begun j r xs"
  using assms by (simp add: in_order_def)

lemma in_orderD:
  assumes "in_order enc dec mm begun j r xs"
  shows "holds enc dec (br_store r) xs" "flight_ok enc r xs" "bs_max_mem (br_store r) = mm"
    "subseq (br_posted r @ backlog r xs) (br_enqueued r)" "claim_fits r xs begun j"
  using assms by (simp_all add: in_order_def)

lemma limitsD: "limits st' = limits st \<Longrightarrow> bs_max_mem st' = bs_max_mem st"
  by (simp add: limits_def)

lemma subseq_drop: "subseq (drop e xs) xs"
  by (simp add: suffix_drop suffix_imp_subseq)

lemma subseq_evict:
  assumes a: "subseq (ps @ ws) qs" and k: "subseq kept (ws @ [x])"
  shows "subseq (ps @ drop e kept) (qs @ [x])"
proof -
  have "subseq (ps @ drop e kept) (ps @ kept)" by (intro list_emb_append_mono subseq_drop) simp
  also have "subseq (ps @ kept) (ps @ ws @ [x])" using k by (intro list_emb_append_mono) simp_all
  also have "subseq (ps @ ws @ [x]) (qs @ [x])" using list_emb_append_mono [OF a, of "[x]" "[x]"] by simp
  finally show ?thesis .
qed

text \<open>A batch is the oldest part of the samples that wait.\<close>

lemma batch_first:
  assumes "cl_mem cl = 0 \<or> cl_disk_lines cl = length xs"
  shows "(take (cl_disk_lines cl) xs @ take (cl_mem cl) ms) @ drop (cl_disk_lines cl) xs @ drop (cl_mem cl) ms = xs @ ms"
  using assms
proof
  assume "cl_mem cl = 0"
  then show ?thesis by (simp flip: append_assoc)
qed simp

lemma begin_in_order:
  assumes "in_order enc dec mm begun j r xs" "r' = buf_step enc dec Be_Begin r"
  shows "in_order enc dec mm True (if begun then j else 0) r' xs"
proof -
  note h = in_orderD [OF assms(1)] and b = begin_ok [OF in_orderD(1,2) [OF assms(1)] assms(2)]
  have "claim_fits r' xs True (if begun then j else 0)"
  proof (cases "br_flight r")
    case None
    then have "length (bs_memory (br_store r)) \<le> bs_max_mem (br_store r)" using h(1,2) by (simp add: holds_def flight_ok_def)
    then show ?thesis using b(9) [OF None] limitsD [OF b(7)]
      by (auto simp: claim_fits_def b(3) split: option.splits)
  next
    case (Some fl)
    then have "br_flight r' = br_flight r" using b(10) by simp
    then show ?thesis using h(5) limitsD [OF b(7)] by (auto simp: claim_fits_def b(3) Some split: prod.splits)
  qed
  moreover have "subseq (br_posted r' @ backlog r' xs) (br_enqueued r')" using h(4) by (simp only: b(3,5,6))
  moreover have "bs_max_mem (br_store r') = mm" using limitsD [OF b(7)] h(3) by simp
  ultimately show ?thesis by (intro in_orderI [OF b(1,2)])
qed

lemma enqueue_in_order:
  assumes o: "in_order enc dec mm begun j r xs" and c: "codable enc dec (Be_Enqueue w s)" and short: "begun \<longrightarrow> j < mm"
    and r': "r' = buf_step enc dec (Be_Enqueue w s) r"
  shows "\<exists>xs. in_order enc dec mm begun (Suc j) r' xs"
proof -
  note h = in_orderD [OF o]
  show ?thesis
  proof (rule enqueue_step [OF h(1,2) c r'])
    assume "r' = r"
    moreover have "claim_fits r xs begun (Suc j)" using h(5) by (auto simp: claim_fits_def split: option.splits)
    ultimately show ?thesis using in_orderI [OF h(1-4)] by blast
  next
    fix xs' kept and e :: nat
    assume en: "br_flight r' = None" "holds enc dec (br_store r') xs'" "flight_ok enc r' xs'"
      "backlog r' xs' = drop e kept" "limits (br_store r') = limits (br_store r)"
      "br_enqueued r' = br_enqueued r @ [sanitize_non_finite s]" "br_posted r' = br_posted r"
      "subseq kept (backlog r xs @ [sanitize_non_finite s])"
    have "subseq (br_posted r' @ backlog r' xs') (br_enqueued r')" using subseq_evict [OF h(4) en(8)] by (simp only: en(4,6,7))
    moreover have "claim_fits r' xs' begun (Suc j)" by (simp add: claim_fits_def en(1))
    ultimately show ?thesis using in_orderI [OF en(2,3)] limitsD [OF en(5)] h(3) by metis
  next
    fix xs' b cl
    assume en: "br_flight r = Some (b, cl)" "br_flight r' = Some (b, cl)" "holds enc dec (br_store r') xs'"
      "flight_ok enc r' xs'" "limits (br_store r') = limits (br_store r)"
      "length (bs_memory (br_store r)) < 2 * bs_max_mem (br_store r) \<longrightarrow>
         xs' = xs \<and> bs_memory (br_store r') = bs_memory (br_store r) @ [sanitize_non_finite s]"
      "br_enqueued r' = br_enqueued r @ [sanitize_non_finite s]" "br_posted r' = br_posted r"
    have f: "begun" "length (bs_memory (br_store r)) \<le> bs_max_mem (br_store r) + j" "cl_mem cl = 0 \<or> cl_disk_lines cl = length xs"
      using h(5) by (simp_all add: claim_fits_def en(1))
    then have m: "xs' = xs" "bs_memory (br_store r') = bs_memory (br_store r) @ [sanitize_non_finite s]"
      using short en(6) h(3) by simp_all
    have "subseq (br_posted r' @ backlog r' xs') (br_enqueued r')"
      using subseq_evict [OF h(4) subseq_order.order_refl, where e = 0] by (simp add: m en(7,8))
    moreover have "claim_fits r' xs' begun (Suc j)" using f limitsD [OF en(5)] by (simp add: claim_fits_def en(2) m)
    ultimately show ?thesis using in_orderI [OF en(3,4)] limitsD [OF en(5)] h(3) by metis
  qed
qed

lemma end_in_order:
  assumes o: "in_order enc dec mm begun j r xs" and r': "r' = buf_step enc dec (Be_End w ok) r"
  shows "\<exists>xs. in_order enc dec mm False 0 r' xs"
proof (cases "br_flight r")
  case None
  then have "claim_fits r' xs False 0" "r' = r" by (simp_all add: claim_fits_def r')
  then show ?thesis using in_orderI [OF in_orderD(1-4) [OF o]] by blast
next
  case (Some fl)
  then obtain b cl where fl: "br_flight r = Some (b, cl)" by (cases fl) simp
  note h = in_orderD [OF o]
  let ?d = "cl_disk_lines cl" and ?m = "cl_mem cl" and ?ms = "bs_memory (br_store r)"
  let ?left = "if ok then drop ?d xs @ drop ?m ?ms else backlog r xs"
  obtain xs' kept and e :: nat where en: "br_flight r' = None" "holds enc dec (br_store r') xs'" "flight_ok enc r' xs'"
    "backlog r' xs' = drop e kept" "limits (br_store r') = limits (br_store r)" "br_enqueued r' = br_enqueued r"
    "br_posted r' = br_posted r @ (if ok then b else [])" "b = take ?d xs @ take ?m ?ms" "subseq kept ?left"
    by (rule end_step [OF h(1,2) fl r' refl])
  have "?m = 0 \<or> ?d = length xs" using h(5) by (simp add: claim_fits_def fl)
  then have "br_posted r' @ ?left = br_posted r @ backlog r xs"
    using batch_first [of cl xs ?ms] by (auto simp: en(7,8))
  then have "subseq (br_posted r' @ ?left) (br_enqueued r')" using h(4) by (simp only: en(6))
  moreover have "subseq (drop e kept) ?left" using subseq_drop en(9) by (rule subseq_order.trans)
  then have "subseq (br_posted r' @ backlog r' xs') (br_posted r' @ ?left)"
    unfolding en(4) by (intro list_emb_append_mono) simp
  ultimately have "subseq (br_posted r' @ backlog r' xs') (br_enqueued r')" by (rule subseq_order.trans [rotated])
  moreover have "claim_fits r' xs' False 0" by (simp add: claim_fits_def en(1))
  ultimately show ?thesis using in_orderI [OF en(2,3)] limitsD [OF en(5)] h(3) by metis
qed

lemma in_order_fold:
  "in_order enc dec mm begun j r xs \<Longrightarrow> list_all (codable enc dec) es \<Longrightarrow> short_posts mm begun j es \<Longrightarrow>
     \<exists>begun j xs. in_order enc dec mm begun j (fold (buf_step enc dec) es r) xs"
proof (induction mm begun j es arbitrary: r xs rule: short_posts.induct)
  case (2 mm begun j w s es)
  have p: "codable enc dec (Be_Enqueue w s)" "begun \<longrightarrow> j < mm" "list_all (codable enc dec) es" "short_posts mm begun (Suc j) es"
    using "2.prems"(2,3) by simp_all
  obtain xs' where "in_order enc dec mm begun (Suc j) (buf_step enc dec (Be_Enqueue w s) r) xs'"
    using enqueue_in_order [OF "2.prems"(1) p(1,2) refl] by (rule exE)
  from "2.IH" [OF this p(3,4)] show ?case by (simp only: fold_simps)
next
  case (3 mm begun j es)
  have p: "list_all (codable enc dec) es" "short_posts mm True (if begun then j else 0) es"
    using "3.prems"(2,3) by simp_all
  from "3.IH" [OF begin_in_order [OF "3.prems"(1) refl] p] show ?case by (simp only: fold_simps)
next
  case (4 mm begun j w ok es)
  have p: "list_all (codable enc dec) es" "short_posts mm False 0 es"
    using "4.prems"(2,3) by simp_all
  obtain xs' where "in_order enc dec mm False 0 (buf_step enc dec (Be_End w ok) r) xs'"
    using end_in_order [OF "4.prems"(1) refl] by (rule exE)
  from "4.IH" [OF this p] show ?case by (simp only: fold_simps)
qed auto

lemma init_in_order: "in_order enc dec max_mem False 0 (buf_init max_disk max_mem limit) []"
  using init_run_ok [of enc dec True max_mem max_disk limit]
  by (simp add: in_order_def run_ok_def claim_fits_def limits_def buf_init_def client_init_def init_store_def Let_def)

section \<open>Draining\<close>

abbreviation buffered :: "metric_client \<Rightarrow> nat" where
  "buffered mc \<equiv> fst (total_store (disk True) (mc_store mc))"

definition idle :: "(json \<Rightarrow> string) \<Rightarrow> (string \<Rightarrow> json option) \<Rightarrow> metric_client \<Rightarrow> json list \<Rightarrow> bool" where
  "idle enc dec mc xs \<longleftrightarrow> holds enc dec (mc_store mc) xs \<and> \<not> bs_claim_open (mc_store mc) \<and> bs_claimed_mem (mc_store mc) = 0"

lemma total_ok:
  "holds enc dec st xs \<Longrightarrow> total_store (disk w) st = (length (xs @ bs_memory st), st)"
  using resync_ok [of enc dec st xs] by (simp add: total_store_def holds_def disk_ok_def)

lemma flush_once_limit: "mc_batch_limit (flush_once io enc dec ok mc) = mc_batch_limit mc"
  by (simp add: flush_once_def flush_begin_def flush_end_def note_spill_def Let_def split: prod.splits option.splits)

text \<open>A flush leaves no more samples than it found, and fewer when its POST succeeds.\<close>

lemma flush_once_ok:
  assumes i: "idle enc dec mc xs" and mc': "mc' = flush_once (disk w) enc dec ok mc"
  obtains xs' where "idle enc dec mc' xs'" "length (xs' @ bs_memory (mc_store mc')) \<le> length (xs @ bs_memory (mc_store mc))"
    "ok \<and> 0 < mc_batch_limit mc \<and> xs @ bs_memory (mc_store mc) \<noteq> [] \<longrightarrow>
       length (xs' @ bs_memory (mc_store mc')) < length (xs @ bs_memory (mc_store mc))"
proof -
  let ?st = "mc_store mc"
  have h: "holds enc dec ?st xs" "\<not> bs_claim_open ?st" "bs_claimed_mem ?st = 0" using i by (simp_all add: idle_def)
  obtain b cl st where snap: "snapshot_store (disk w) dec (mc_batch_limit mc) ?st = ((b, cl), st)" by (metis prod.collapse)
  note sn = snapshot_ok [OF h snap]
  show thesis
  proof (cases "b = []")
    case True
    then have "mc' = mc" using sn(2) snap by (simp add: mc' flush_once_def flush_begin_def)
    moreover have "mc_batch_limit mc = 0 \<or> xs @ bs_memory ?st = []" using sn(1) True by auto
    ultimately show thesis using that [of xs] i by auto
  next
    case False
    define r where "r = \<lparr>br_client = snd (flush_begin (disk w) dec mc), br_flight = Some (b, cl), br_enqueued = [], br_posted = []\<rparr>"
    have hc: "holds enc dec st xs" "claims enc st xs b cl" using sn(3) [OF False] by simp_all
    have st: "br_store r = st" "br_flight r = Some (b, cl)"
      using snap False resync_ok [of enc dec st xs] hc(1) by (simp_all add: r_def flush_begin_def holds_def)
    define r' where "r' = buf_step enc dec (Be_End w ok) r"
    have mc1: "mc' = br_client r'"
      using snap False by (simp add: mc' flush_once_def flush_begin_def r_def r'_def)
    have f: "holds enc dec (br_store r) xs" "flight_ok enc r xs" using hc by (simp_all add: st flight_ok_def)
    let ?left = "if ok then drop (cl_disk_lines cl) xs @ drop (cl_mem cl) (bs_memory (br_store r)) else backlog r xs"
    obtain xs' kept and e :: nat where en: "br_flight r' = None" "holds enc dec (br_store r') xs'" "flight_ok enc r' xs'"
      "backlog r' xs' = drop e kept" "subseq kept ?left"
      by (rule end_step [OF f st(2) r'_def refl])
    have i': "idle enc dec mc' xs'" using en(1-3) by (simp add: idle_def flight_ok_def mc1)
    have c: "length b = cl_disk_lines cl + cl_mem cl" "0 < length b" "cl_disk_lines cl \<le> length xs"
      "cl_mem cl \<le> length (bs_memory ?st)"
      using hc(2) False by (auto simp: claims_def sn(4))
    have k: "length ?left \<le> length (xs @ bs_memory ?st)" using c by (simp add: st sn(4))
    have k': "ok \<Longrightarrow> length ?left < length (xs @ bs_memory ?st)" using c by (simp add: st sn(4)) linarith
    have le: "length (xs' @ bs_memory (mc_store mc')) \<le> length ?left" unfolding mc1 en(4) using list_emb_length [OF en(5)] by simp
    show thesis by (rule that [OF i' le_trans [OF le k]]) (intro impI le_less_trans [OF le k'], simp)
  qed
qed

lemma drain_ok:
  assumes "idle enc dec mc xs" "n = length (xs @ bs_memory (mc_store mc))" "n < fuel \<or> prev = Some n \<and> 0 < fuel"
  shows "\<exists>mc'. stop_drain (disk w) enc dec posts fuel k prev mc = Some mc' \<and>
    ((\<forall>i. posts i) \<and> 0 < mc_batch_limit mc \<and> prev \<noteq> Some n \<longrightarrow> buffered mc' = 0)"
  using assms
proof (induction fuel arbitrary: k prev mc xs n)
  case (Suc fuel)
  have tot: "total_store (disk v) (mc_store mc) = (n, mc_store mc)" for v
    using total_ok Suc.prems(1,2) by (auto simp: idle_def)
  show ?case
  proof (cases "n = 0 \<or> prev = Some n")
    case True
    then show ?thesis using tot by auto
  next
    case False
    define mc1 where "mc1 = flush_once (disk w) enc dec (posts k) mc"
    obtain xs' where x: "idle enc dec mc1 xs'" "length (xs' @ bs_memory (mc_store mc1)) \<le> n"
      "posts k \<and> 0 < mc_batch_limit mc \<and> xs @ bs_memory (mc_store mc) \<noteq> [] \<longrightarrow> length (xs' @ bs_memory (mc_store mc1)) < n"
      using flush_once_ok [OF Suc.prems(1) mc1_def] Suc.prems(2) by metis
    define n' where "n' = length (xs' @ bs_memory (mc_store mc1))"
    have "n' < fuel \<or> Some n = Some n' \<and> 0 < fuel" using x(2) Suc.prems(3) False by (auto simp: n'_def)
    from Suc.IH [OF x(1) n'_def this, of "Suc k"]
    obtain mc' where d: "stop_drain (disk w) enc dec posts fuel (Suc k) (Some n) mc1 = Some mc'"
      "(\<forall>i. posts i) \<and> 0 < mc_batch_limit mc1 \<and> Some n \<noteq> Some n' \<longrightarrow> buffered mc' = 0" by blast
    have "xs @ bs_memory (mc_store mc) \<noteq> []" using False Suc.prems(2) by auto
    then have "(\<forall>i. posts i) \<and> 0 < mc_batch_limit mc \<longrightarrow> buffered mc' = 0"
      using d(2) x(3) flush_once_limit [of "disk w" enc dec "posts k" mc] by (auto simp: n'_def mc1_def)
    moreover have "stop_drain (disk w) enc dec posts (Suc fuel) k prev mc = Some mc'"
      using d(1) False by (simp add: tot mc1_def)
    ultimately show ?thesis by blast
  qed
qed auto

section \<open>An example run\<close>

text \<open>
  Samples with one text field, coded as \<^verbatim>\<open>json.dumps\<close> does. Three samples overflow a memory queue of two; the
  first two are posted, a second POST fails, and the disk budget evicts four; then the disk refuses an append.
\<close>

definition ex_sample :: "string \<Rightarrow> json" where
  "ex_sample c = J_Obj [(''k'', J_Str c)]"

definition ex_open :: string where
  "ex_open = ''{'' @ [CHR 0x22] @ ''k'' @ [CHR 0x22] @ '': '' @ [CHR 0x22]"

fun ex_enc :: "json \<Rightarrow> string" where
  "ex_enc (J_Obj [(k, J_Str c)]) = ex_open @ c @ [CHR 0x22] @ ''}''"
| "ex_enc x = ''null''"

definition ex_dec :: "string \<Rightarrow> json option" where
  "ex_dec t = (if take 7 t = ex_open then Some (ex_sample (drop 7 (take (length t - 2) t))) else None)"

definition ex_buf_events :: "buf_event list" where
  "ex_buf_events = map (Be_Enqueue True \<circ> ex_sample) [''a'', ''b'', ''c''] @
     [Be_Begin, Be_Enqueue True (ex_sample ''d''), Be_End True True] @
     map (Be_Enqueue True \<circ> ex_sample) [''e'', ''f'', ''g'', ''h''] @
     [Be_Begin, Be_Enqueue True (ex_sample ''i''), Be_End True False] @
     map (Be_Enqueue False \<circ> ex_sample) [''j'', ''k'']"

definition ex_buf_run :: buf_run where
  "ex_buf_run = fold (buf_step ex_enc ex_dec) ex_buf_events (buf_init 25 2 2)"

lemma ex_codable: "list_all (codable ex_enc ex_dec) ex_buf_events"
  by code_simp

lemma ex_short: "short_posts 2 False 0 ex_buf_events"
  by code_simp

lemma ex_buf_counts:
  "br_posted ex_buf_run = map ex_sample [''a'', ''b''] \<and> bs_evicted (br_store ex_buf_run) = 4 \<and> br_flight ex_buf_run = None \<and>
     bs_memory (br_store ex_buf_run) = map ex_sample [''k''] \<and> buffered (br_client ex_buf_run) = 3"
  by code_simp

section \<open>Properties\<close>



text \<open>
  C21: in any run of a client that starts without a cache file, on a disk that may refuse any of the appends,
  when at most \<open>max_mem\<close> samples arrive while one POST is in flight, the samples posted, then those in the
  cache file, then those in memory are a subsequence of the samples enqueued: they are posted in the order of
  their arrival, and the flushes to come will keep it.
\<close>

theorem metric_samples_in_order:
  assumes "list_all (codable enc dec) es" "short_posts max_mem False 0 es"
    "r = fold (buf_step enc dec) es (buf_init max_disk max_mem limit)"
  shows "\<exists>filed. disk_ok enc dec (br_store r) filed \<and> subseq (br_posted r @ filed @ bs_memory (br_store r)) (br_enqueued r)"
proof -
  obtain begun j filed where o: "in_order enc dec max_mem begun j r filed"
    using in_order_fold [OF init_in_order assms(1,2)] unfolding assms(3) by metis
  note h = in_orderD [OF o]
  have "disk_ok enc dec (br_store r) filed" using h(1) by (simp add: holds_def)
  then show ?thesis using h(4) by blast
qed

theorem metric_samples_in_order_witness:
  "short_posts 2 False 0 ex_buf_events \<and> bs_evicted (br_store ex_buf_run) = 4 \<and>
   (\<exists>filed. disk_ok ex_enc ex_dec (br_store ex_buf_run) filed \<and>
      subseq (br_posted ex_buf_run @ filed @ bs_memory (br_store ex_buf_run)) (br_enqueued ex_buf_run))"
  using metric_samples_in_order [OF ex_codable ex_short ex_buf_run_def] ex_short ex_buf_counts by simp

text \<open>
  C22: in any run of a client that starts without a cache file, on a disk that may refuse any of the appends,
  the memory queue never holds more than \<open>max_mem\<close> samples, or twice as many while a POST is in flight,
  and the cache file never more than \<open>max_disk\<close> bytes unless a POST is in flight.
\<close>

theorem metric_buffer_bounded:
  assumes "list_all (codable enc dec) es" "r = fold (buf_step enc dec) es (buf_init max_disk max_mem limit)"
  shows "length (bs_memory (br_store r)) \<le> (if br_flight r = None then max_mem else 2 * max_mem) \<and>
    (br_flight r = None \<longrightarrow> length (case_option [] id (bs_file (br_store r))) \<le> max_disk)"
proof -
  obtain filed lost gone where ok: "run_ok enc dec (list_all appends es) (max_mem, max_disk) r filed lost gone"
    by (rule run_ok_reached [OF assms(1,2)])
  note h = run_okD [OF ok]
  have "bs_claim_open (br_store r) \<longleftrightarrow> br_flight r \<noteq> None"
    using h(2) by (auto simp: flight_ok_def claims_def split: option.splits)
  moreover have "bs_disk_bytes (br_store r) = length (content (br_store r))" using h(1) by (simp add: holds_def disk_ok_def)
  ultimately show ?thesis using h(1,5,6) by (auto simp: holds_def limits_def content_def)
qed

theorem metric_buffer_bounded_witness:
  "list_all (codable ex_enc ex_dec) ex_buf_events \<and> length (bs_memory (br_store ex_buf_run)) \<le> 2 \<and>
   length (case_option [] id (bs_file (br_store ex_buf_run))) \<le> 25"
  using metric_buffer_bounded [OF ex_codable ex_buf_run_def] ex_codable ex_buf_counts by simp

text \<open>
  C23: after any such run the draining loop of \<^verbatim>\<open>stop\<close> returns after at most one turn more than there are samples buffered, whatever
  the server answers and whether the disk accepts appends or not; when every POST succeeds it leaves the
  buffer empty.
\<close>

theorem drain_returns:
  assumes "list_all (codable enc dec) es" "r = fold (buf_step enc dec) es (buf_init max_disk max_mem limit)"
    "br_flight r = None"
  shows "\<exists>mc. stop_drain (disk w) enc dec posts (Suc (buffered (br_client r))) 0 None (br_client r) = Some mc \<and>
    ((\<forall>k. posts k) \<and> 0 < mc_batch_limit (br_client r) \<longrightarrow> buffered mc = 0)"
proof -
  obtain filed lost gone where ok: "run_ok enc dec (list_all appends es) (max_mem, max_disk) r filed lost gone"
    by (rule run_ok_reached [OF assms(1,2)])
  note h = run_okD [OF ok]
  have i: "idle enc dec (br_client r) filed" using h(1,2) assms(3) by (simp add: idle_def flight_ok_def)
  have b: "buffered (br_client r) = length (filed @ bs_memory (br_store r))" using total_ok [OF h(1)] by simp
  show ?thesis using drain_ok [OF i b, where fuel = "Suc (buffered (br_client r))" and prev = None and posts = posts and k = 0 and w = w] by auto
qed

theorem drain_returns_witness:
  "br_flight ex_buf_run = None \<and>
   (\<exists>mc. stop_drain (disk True) ex_enc ex_dec (\<lambda>k. True) 4 0 None (br_client ex_buf_run) = Some mc \<and> buffered mc = 0)"
proof -
  have "mc_batch_limit (br_client ex_buf_run) = 2" by code_simp
  then show ?thesis
    using drain_returns [OF ex_codable ex_buf_run_def, where posts = "\<lambda>k. True" and w = True] ex_buf_counts
    by (simp only: ex_buf_counts) (simp add: numeral_eq_Suc)
qed

text \<open>
  C24: a disk that refuses an append loses samples: an enqueue that overflows the memory queue takes the oldest
  samples out of memory and reports them as spilled, although none was written to the file, none stays in
  memory and none is counted as evicted.
\<close>

theorem failed_append_loses_samples:
  assumes "\<not> io_append io" "\<not> bs_claim_open st" "length (bs_memory st) = bs_max_mem st" "1 < bs_max_mem st"
    "k = Suc (bs_max_mem st) - bs_max_mem st div 2" "enqueue_store io enc s st = ((spilled, first, evicted), st')"
  shows "spilled = k \<and> bs_memory st' = drop k (bs_memory st @ [s]) \<and> bs_file st' = bs_file st \<and>
    bs_evicted st' = bs_evicted st \<and> 1 < k"
proof -
  define s1 where "s1 = st\<lparr>bs_memory := drop k (bs_memory st @ [s])\<rparr>"
  have "bs_memory (snd (resync_if_rotated io x)) = bs_memory x \<and> bs_file (snd (resync_if_rotated io x)) = bs_file x \<and>
      bs_evicted (snd (resync_if_rotated io x)) = bs_evicted x" for x :: "'a buffer_store"
    by (simp add: resync_if_rotated_def reset_disk_state_def Let_def split: option.splits)
  note rs = this [of s1]
  have "\<not> Suc (bs_max_mem st) \<le> bs_max_mem st div 2" by linarith
  then have "st' = snd (resync_if_rotated io s1)" "spilled = k"
    using assms by (auto simp: enqueue_store_def spill_overflow_def append_disk_def Let_def s1_def)
  then show ?thesis using rs assms(4,5) by (auto simp: s1_def)
qed

theorem failed_append_loses_samples_witness:
  "bs_memory (snd (enqueue_store (disk False) ex_enc (ex_sample ''c'')
      ((init_store (disk True) None 25 2)\<lparr>bs_memory := map ex_sample [''a'', ''b'']\<rparr>))) = [ex_sample ''c'']"
proof -
  let ?io = "disk False" and ?st = "(init_store (disk True) None 25 2)\<lparr>bs_memory := map ex_sample [''a'', ''b'']\<rparr>"
  let ?res = "enqueue_store ?io ex_enc (ex_sample ''c'') ?st"
  have eq: "?res = ((fst (fst ?res), fst (snd (fst ?res)), snd (snd (fst ?res))), snd ?res)" by simp
  have "\<not> io_append ?io" "\<not> bs_claim_open ?st" "length (bs_memory ?st) = bs_max_mem ?st" "1 < bs_max_mem ?st"
    by (simp_all add: init_store_def Let_def)
  from failed_append_loses_samples [OF this refl eq] show ?thesis by (simp add: init_store_def Let_def)
qed

text \<open>Values a JSON text can carry.\<close>

fun finite_json :: "json \<Rightarrow> bool" where
  "finite_json J_Inf = False"
| "finite_json (J_Obj kvs) = list_all (\<lambda>(k, v). finite_json v) kvs"
| "finite_json (J_List vs) = list_all finite_json vs"
| "finite_json x = True"

text \<open>
  C25: what \<^verbatim>\<open>_sanitize_non_finite\<close> stores holds no infinity or NaN at any depth, and it changes exactly the
  values that hold one.
\<close>

theorem sanitized_finite: "finite_json (sanitize_non_finite x) \<and> (sanitize_non_finite x = x \<longleftrightarrow> finite_json x)"
proof (induction x rule: sanitize_non_finite.induct)
  case (2 kvs)
  then show ?case by (induction kvs) auto
next
  case (3 vs)
  then show ?case by (induction vs) auto
qed simp_all

end
