(* ===== verification/Reconciler.thy ===== *)
theory Reconciler
  imports AutopilotPlanner
begin

text \<open>
  The autopilot reconciler (\<^verbatim>\<open>src/llm-systems-manager/backend/autopilot.py\<close>): the ledger it keeps between
  ticks, the grace it gives to blank samples, the execution of planned actions and the proposals for the
  others, the writes that keep pins and pools in line with the placements, and the executor.

  The observation, the outcome of an executed action, the hosts with a tool run in flight and the fresh
  proposal ids are inputs of a tick. The sets that only suppress repeated log lines are left out. An action
  kind is one the planner produces; the executor's branches for other kinds are not reached. The planner's
  record \<open>ledger\<close> has no field for \<^verbatim>\<open>blank_since\<close>, which the planner does not read: it is a field of the
  reconciler.
\<close>

section \<open>State\<close>

definition BLANK_GRACE_S :: secs where "BLANK_GRACE_S = 90"
definition SAT_HISTORY_WINDOW_S :: secs where "SAT_HISTORY_WINDOW_S = 1200"
definition ENTRY_RETRY_S :: secs where "ENTRY_RETRY_S = 300"

type_synonym blank_map = "(string, (string, secs) dict) dict"
type_synonym action_sig = "action_kind \<times> string \<times> string \<times> string"

definition sig_of :: "action \<Rightarrow> action_sig" where
  "sig_of a = (ac_kind a, ac_provider a, ac_model a, ac_agent a)"

record proposal =
  pr_id :: string
  pr_sig :: action_sig
  pr_action :: action
  pr_created :: secs
  pr_reason :: string

record reconciler =
  re_proposals :: "(string, proposal) dict"
  re_sat :: "(string, (secs \<times> rat) list) dict"
  re_ledger :: ledger
  re_blank :: blank_map
  re_last_plan :: "secs option"
  re_snapshot :: "proposal list"
  re_view :: ledger
  re_blank_view :: blank_map

definition empty_ledger :: ledger where
  "empty_ledger = \<lparr>le_last_action = [], le_placed_at = [], le_in_flight = 0, le_backoff = [], le_unload_backoff = [],
                   le_confirmed = []\<rparr>"

definition init_reconciler :: reconciler where
  "init_reconciler =
     \<lparr>re_proposals = [], re_sat = [], re_ledger = empty_ledger, re_blank = [], re_last_plan = None, re_snapshot = [],
      re_view = empty_ledger, re_blank_view = []\<rparr>"

record tick_input =
  ti_desired :: desired
  ti_observed :: observed
  ti_sat :: "string \<Rightarrow> string \<Rightarrow> rat option"
  ti_exec :: "action \<Rightarrow> bool"
  ti_busy :: "action \<Rightarrow> string list"
  ti_pid :: "action \<Rightarrow> string"

section \<open>Stale keys\<close>

definition keep_keys :: "'k list \<Rightarrow> ('k, 'v) dict \<Rightarrow> ('k, 'v) dict" where
  "keep_keys ks d = filter (\<lambda>(k, v). k \<in> set ks) d"

definition prune_stale_keys :: "desired \<Rightarrow> observed \<Rightarrow> reconciler \<Rightarrow> reconciler" where
  "prune_stale_keys des obs st =
     (let keys = map entry_id (de_entries des); aids = dict_keys (ob_agents obs); led = re_ledger st;
          known = map (\<lambda>(k, amap). (k, keep_keys aids amap))
      in st\<lparr>re_sat := keep_keys keys (re_sat st),
            re_ledger := led\<lparr>le_placed_at := keep_keys keys (le_placed_at led),
                             le_backoff := keep_keys keys (le_backoff led),
                             le_unload_backoff := known (keep_keys keys (le_unload_backoff led)),
                             le_confirmed := keep_keys keys (le_confirmed led),
                             le_last_action := keep_keys aids (le_last_action led)\<rparr>,
            re_blank := known (keep_keys keys (re_blank st))\<rparr>)"

section \<open>Blank samples\<close>

definition sample_blank :: "agent_obs \<Rightarrow> string \<Rightarrow> bool" where
  "sample_blank a prov =
     (if loaded_models a prov \<noteq> [] then False
      else (case (case ao_answered a of None \<Rightarrow> None | Some d \<Rightarrow> dict_get d prov) of
              Some b \<Rightarrow> \<not> b
            | None \<Rightarrow> prov \<noteq> ''llama'' \<or> ao_server_state a = None))"

text \<open>\<^verbatim>\<open>k.rpartition("/")\<close>: what precedes and what follows the last slash.\<close>

definition rpartition_slash :: "string \<Rightarrow> string \<times> string" where
  "rpartition_slash k =
     (let prov = rev (takeWhile (\<lambda>c. c \<noteq> CHR ''/'') (rev k))
      in (take (length k - Suc (length prov)) k, prov))"

type_synonym injection = "string \<times> string \<times> string"

definition debounce_aid ::
  "bool \<Rightarrow> secs \<Rightarrow> observed \<Rightarrow> string \<Rightarrow> string \<Rightarrow> string \<Rightarrow> (string, secs) dict \<times> injection list \<Rightarrow>
   (string, secs) dict \<times> injection list" where
  "debounce_aid record now obs model prov aid acc =
     (case acc of (since_map, injs) \<Rightarrow>
        (case dict_get (ob_agents obs) aid of
           None \<Rightarrow> acc
         | Some a \<Rightarrow>
             (if \<not> reporting a then acc
              else if \<not> sample_blank a prov then ((if record then dict_pop aid since_map else since_map), injs)
              else (let since_map' = (if record then dict_setdefault aid now since_map else since_map)
                    in case dict_get since_map' aid of
                         None \<Rightarrow> (since_map', injs)
                       | Some since \<Rightarrow>
                           (since_map', if now - since < BLANK_GRACE_S then injs @ [(aid, prov, model)] else injs)))))"

definition debounce_key ::
  "bool \<Rightarrow> secs \<Rightarrow> observed \<Rightarrow> string \<times> string list \<Rightarrow> blank_map \<times> injection list \<Rightarrow> blank_map \<times> injection list" where
  "debounce_key record now obs row acc =
     (case (row, acc) of ((k, aids), (blank, injs)) \<Rightarrow>
        (case rpartition_slash k of (model, prov) \<Rightarrow>
           (case fold (debounce_aid record now obs model prov) aids (dict_get_or blank k [], injs) of
              (since_map, injs') \<Rightarrow> ((if record then dict_set k since_map blank else blank), injs'))))"

definition update_agent :: "string \<Rightarrow> (agent_obs \<Rightarrow> agent_obs) \<Rightarrow> observed \<Rightarrow> observed" where
  "update_agent aid f obs = obs\<lparr>ob_agents := map (\<lambda>(i, a). (i, if i = aid then f a else a)) (ob_agents obs)\<rparr>"

definition inject :: "injection \<Rightarrow> observed \<Rightarrow> observed" where
  "inject i obs =
     (case i of (aid, prov, model) \<Rightarrow>
        update_agent aid (\<lambda>a. a\<lparr>ao_loaded := dict_set prov (loaded_models a prov @ [model]) (ao_loaded a)\<rparr>) obs)"

definition debounce_blank ::
  "bool \<Rightarrow> secs \<Rightarrow> observed \<Rightarrow> (string, string list) dict \<Rightarrow> blank_map \<Rightarrow> blank_map \<times> observed" where
  "debounce_blank record now obs confirmed blank =
     (case fold (debounce_key record now obs) confirmed (blank, []) of
        (blank', injs) \<Rightarrow> (blank', fold inject injs obs))"

section \<open>Placement rows\<close>

definition set_add :: "'a \<Rightarrow> 'a list \<Rightarrow> 'a list" where
  "set_add x xs = (if x \<in> set xs then xs else xs @ [x])"

text \<open>The entry \<^verbatim>\<open>{"model": model, "provider": provider}\<close>; \<^verbatim>\<open>_placements\<close> reads no other field.\<close>

definition key_entry :: "string \<Rightarrow> entry" where
  "key_entry k =
     (case rpartition_slash k of (model, prov) \<Rightarrow>
        \<lparr>en_model = model, en_provider = prov, en_placement = [], en_failover = [], en_priority = 0, en_min = 0,
         en_max = 0, en_rank_by = None, en_autoscale = None\<rparr>)"

type_synonym confirmed_rows = "(string, secs) dict \<times> (string, string list) dict"

definition prune_row :: "secs \<Rightarrow> observed \<Rightarrow> string \<Rightarrow> string \<times> secs \<Rightarrow> confirmed_rows \<Rightarrow> confirmed_rows" where
  "prune_row now obs k row acc =
     (case (row, acc) of ((aid, ts), (amap, confirmed)) \<Rightarrow>
        (if aid \<in> set (placements (key_entry k) obs)
         then (amap, dict_set k (set_add aid (dict_get_or confirmed k [])) confirmed)
         else if now - ts < PLACEMENT_FRESH_S then acc
         else (case dict_get (ob_agents obs) aid of
                 None \<Rightarrow> (dict_pop aid amap, confirmed)
               | Some a \<Rightarrow> if ao_live a then (dict_pop aid amap, confirmed) else acc)))"

definition prune_rows ::
  "secs \<Rightarrow> observed \<Rightarrow> string \<times> (string, secs) dict \<Rightarrow>
   (string, (string, secs) dict) dict \<times> (string, string list) dict \<Rightarrow>
   (string, (string, secs) dict) dict \<times> (string, string list) dict" where
  "prune_rows now obs row acc =
     (case (row, acc) of ((k, amap), (placed, confirmed)) \<Rightarrow>
        (case fold (prune_row now obs k) amap (amap, confirmed) of
           (amap', confirmed') \<Rightarrow> (dict_set k amap' placed, confirmed')))"

definition prune_placed_at :: "secs \<Rightarrow> observed \<Rightarrow> reconciler \<Rightarrow> reconciler" where
  "prune_placed_at now obs st =
     (let led = re_ledger st;
          (placed, conf) = fold (prune_rows now obs) (le_placed_at led) (le_placed_at led, le_confirmed led);
          conf' = filter (\<lambda>(k, aids). aids \<noteq> [])
                    (map (\<lambda>(k, aids). (k, filter (\<lambda>aid. aid \<in> set (dict_keys (dict_get_or placed k []))) aids)) conf);
          blank' = filter (\<lambda>(k, m). m \<noteq> [])
                     (map (\<lambda>(k, m). (k, keep_keys (dict_get_or conf' k []) m)) (re_blank st))
      in st\<lparr>re_ledger := led\<lparr>le_placed_at := placed, le_confirmed := conf'\<rparr>, re_blank := blank'\<rparr>)"

section \<open>Saturation history\<close>

definition sat_entry ::
  "observed \<Rightarrow> (string \<Rightarrow> string \<Rightarrow> rat option) \<Rightarrow> secs \<Rightarrow> entry \<Rightarrow> (string, (secs \<times> rat) list) dict \<Rightarrow>
   (string, (secs \<times> rat) list) dict" where
  "sat_entry obs sat now e hist =
     (let k = entry_id e; placed = placements e obs;
          vals = [s. aid \<leftarrow> placed, Some s \<leftarrow> [sat aid (en_provider e)]];
          kept = (if placed \<noteq> [] then filter (\<lambda>(t, s). t \<ge> now - SAT_HISTORY_WINDOW_S) (dict_get_or hist k []) else [])
      in dict_set k (case vals of [] \<Rightarrow> kept | v # vs \<Rightarrow> kept @ [(now, fold max vs v)]) hist)"

definition refresh_sat_history ::
  "desired \<Rightarrow> observed \<Rightarrow> (string \<Rightarrow> string \<Rightarrow> rat option) \<Rightarrow> secs \<Rightarrow> reconciler \<Rightarrow> reconciler" where
  "refresh_sat_history des obs sat now st = st\<lparr>re_sat := fold (sat_entry obs sat now) (de_entries des) (re_sat st)\<rparr>"

section \<open>Running an action\<close>

definition failover_class :: "action \<Rightarrow> bool" where
  "failover_class a = prefix ''failover:'' (ac_reason a)"

text \<open>\<^verbatim>\<open>d.get(k, {}).pop(aid, None)\<close> on a dictionary of dictionaries.\<close>

definition pop_nested :: "'k \<Rightarrow> 'a \<Rightarrow> ('k, ('a, 'v) dict) dict \<Rightarrow> ('k, ('a, 'v) dict) dict" where
  "pop_nested k aid d = (case dict_get d k of None \<Rightarrow> d | Some m \<Rightarrow> dict_set k (dict_pop aid m) d)"

definition note_success :: "secs \<Rightarrow> action \<Rightarrow> reconciler \<Rightarrow> reconciler" where
  "note_success now a st =
     (let led = re_ledger st; k = ac_entry a; aid = ac_agent a;
          placed = (if ac_kind a = Load \<or> ac_kind a = ScaleUp
                    then dict_set k (dict_set aid now (dict_get_or (le_placed_at led) k [])) (le_placed_at led)
                    else if ac_kind a = ScaleDown then pop_nested k aid (le_placed_at led)
                    else le_placed_at led);
          conf = (case dict_get (le_confirmed led) k of
                    None \<Rightarrow> le_confirmed led
                  | Some aids \<Rightarrow> dict_set k (removeAll aid aids) (le_confirmed led));
          blank = (case dict_get (re_blank st) k of
                     None \<Rightarrow> re_blank st
                   | Some m \<Rightarrow> if dict_pop aid m = [] then dict_pop k (re_blank st)
                               else dict_set k (dict_pop aid m) (re_blank st))
      in st\<lparr>re_ledger := led\<lparr>le_last_action := dict_set aid now (le_last_action led), le_placed_at := placed,
                             le_confirmed := conf\<rparr>, re_blank := blank\<rparr>)"

definition note_failure :: "secs \<Rightarrow> action \<Rightarrow> reconciler \<Rightarrow> reconciler" where
  "note_failure now a st =
     (let led = re_ledger st; k = ac_entry a
      in if ac_kind a = ScaleDown
         then st\<lparr>re_ledger := led\<lparr>le_unload_backoff :=
                    dict_set k (dict_set (ac_agent a) (now + ENTRY_RETRY_S) (dict_get_or (le_unload_backoff led) k []))
                      (le_unload_backoff led)\<rparr>\<rparr>
         else if ac_kind a \<noteq> Wake
         then st\<lparr>re_ledger := led\<lparr>le_backoff := dict_set k (now + ENTRY_RETRY_S) (le_backoff led)\<rparr>\<rparr>
         else st)"

definition in_flight_inc :: "reconciler \<Rightarrow> reconciler" where
  "in_flight_inc st = st\<lparr>re_ledger := (re_ledger st)\<lparr>le_in_flight := le_in_flight (re_ledger st) + 1\<rparr>\<rparr>"

definition in_flight_dec :: "reconciler \<Rightarrow> reconciler" where
  "in_flight_dec st = st\<lparr>re_ledger := (re_ledger st)\<lparr>le_in_flight := max 0 (le_in_flight (re_ledger st) - 1)\<rparr>\<rparr>"

text \<open>The action is executed or, on a busy host, skipped.\<close>

definition run_action ::
  "(action \<Rightarrow> bool) \<Rightarrow> string list \<Rightarrow> secs \<Rightarrow> action \<Rightarrow> reconciler \<Rightarrow> bool \<times> reconciler" where
  "run_action exec busy now a st =
     (if ac_agent a \<in> set busy then (False, st)
      else (let st1 = (if failover_class a then in_flight_inc st else st);
                ok = exec a;
                st2 = (if failover_class a then in_flight_dec st1 else st1)
            in (ok, if ok then note_success now a st2 else note_failure now a st2)))"

section \<open>The tick\<close>

definition refresh_snapshot :: "reconciler \<Rightarrow> reconciler" where
  "refresh_snapshot st =
     st\<lparr>re_snapshot := sort_key pr_created (dict_values (re_proposals st)), re_view := re_ledger st,
        re_blank_view := re_blank st\<rparr>"

definition propose :: "string \<Rightarrow> secs \<Rightarrow> action \<Rightarrow> reconciler \<Rightarrow> reconciler" where
  "propose pid now a st =
     (if list_ex (\<lambda>p. pr_sig p = sig_of a) (dict_values (re_proposals st)) then st
      else st\<lparr>re_proposals :=
                dict_set pid \<lparr>pr_id = pid, pr_sig = sig_of a, pr_action = a, pr_created = now, pr_reason = ac_reason a\<rparr>
                  (re_proposals st)\<rparr>)"

definition drop_unloaded :: "action \<Rightarrow> observed \<Rightarrow> observed" where
  "drop_unloaded a obs =
     update_agent (ac_agent a)
       (\<lambda>ag. ag\<lparr>ao_loaded := dict_set (ac_provider a)
                               (filter (\<lambda>m. m \<noteq> ac_model a) (loaded_models ag (ac_provider a))) (ao_loaded ag)\<rparr>) obs"

definition act :: "tick_input \<Rightarrow> secs \<Rightarrow> action \<Rightarrow> reconciler \<times> observed \<Rightarrow> reconciler \<times> observed" where
  "act ti now a acc =
     (case acc of (st, obs) \<Rightarrow>
        (if ac_auto a
         then (case run_action (ti_exec ti) (ti_busy ti a) now a st of
                 (ok, st') \<Rightarrow> (st', if ok \<and> ac_kind a = ScaleDown then drop_unloaded a obs else obs))
         else (propose (ti_pid ti a) now a st, obs)))"

text \<open>What precedes the planner in a tick: the state and the observation it plans on.\<close>

definition before_plan :: "tick_input \<Rightarrow> secs \<Rightarrow> reconciler \<Rightarrow> reconciler \<times> observed" where
  "before_plan ti now st0 =
     (let des = ti_desired ti; st1 = prune_stale_keys des (ti_observed ti) st0;
          (blank, obs1) = debounce_blank True now (ti_observed ti) (le_confirmed (re_ledger st1)) (re_blank st1);
          st2 = prune_placed_at now obs1 (st1\<lparr>re_blank := blank\<rparr>);
          st3 = refresh_sat_history des obs1 (ti_sat ti) now st2
      in (st3, obs1\<lparr>ob_sat := re_sat st3\<rparr>))"

text \<open>A tick: the actions, the status of the entries, the observation left for the route sync, the state.\<close>

type_synonym tick_result = "action list \<times> (string, entry_stat) dict \<times> observed \<times> reconciler"

definition rec_tick :: "tick_input \<Rightarrow> secs \<Rightarrow> reconciler \<Rightarrow> tick_result option" where
  "rec_tick ti now st0 =
     (case before_plan ti now st0 of (st, obs) \<Rightarrow>
        (case plan (ti_desired ti) obs (re_ledger st) now of
           None \<Rightarrow> None
         | Some acts \<Rightarrow>
             (let sigs = map sig_of acts;
                  st1 = st\<lparr>re_proposals := filter (\<lambda>(pid, p). pr_sig p \<in> set sigs) (re_proposals st)\<rparr>;
                  (st2, obs2) = fold (act ti now) acts (st1, obs);
                  st3 = refresh_snapshot (st2\<lparr>re_last_plan := Some now\<rparr>)
              in Some (acts, entry_status (ti_desired ti) obs2 (Some (re_ledger st3)) (Some now), obs2, st3))))"

text \<open>\<open>None\<close>: the \<^verbatim>\<open>KeyError\<close> of an unknown proposal, which the route answers with 404.\<close>

definition apply_proposal ::
  "(action \<Rightarrow> bool) \<Rightarrow> string list \<Rightarrow> string \<Rightarrow> secs \<Rightarrow> reconciler \<Rightarrow> (bool \<times> action \<times> reconciler) option" where
  "apply_proposal exec busy pid now st =
     (case dict_get (re_proposals st) pid of
        None \<Rightarrow> None
      | Some p \<Rightarrow>
          (case run_action exec busy now (pr_action p) (st\<lparr>re_proposals := dict_pop pid (re_proposals st)\<rparr>) of
             (ok, st') \<Rightarrow> Some (ok, pr_action p, refresh_snapshot st')))"

definition dismiss :: "string \<Rightarrow> reconciler \<Rightarrow> reconciler" where
  "dismiss pid st = refresh_snapshot (st\<lparr>re_proposals := dict_pop pid (re_proposals st)\<rparr>)"

text \<open>The observation of the GET route: the grace applied, the ledger untouched.\<close>

definition observe :: "secs \<Rightarrow> observed \<Rightarrow> reconciler \<Rightarrow> observed" where
  "observe now obs st = snd (debounce_blank False now obs (le_confirmed (re_view st)) (re_blank_view st))"

section \<open>Routing\<close>

text \<open>
  The part of the registry the autopilot writes: per provider the pins (model to agent) and the pool, and what
  \<^verbatim>\<open>set_pool_membership\<close> reads of the agents.
\<close>

record registry_agent =
  ra_caps :: "string list"
  ra_approved :: bool

record routing =
  rg_agents :: "(string, registry_agent) dict"
  rg_pins :: "(string, (string, string) dict) dict"
  rg_pools :: "(string, string list) dict"

definition pins_of :: "routing \<Rightarrow> string \<Rightarrow> (string, string) dict" where
  "pins_of rt prov = dict_get_or (rg_pins rt) prov []"

definition pool_of :: "routing \<Rightarrow> string \<Rightarrow> string list" where
  "pool_of rt prov = dict_get_or (rg_pools rt) prov []"

text \<open>\<^verbatim>\<open>pin_dict_key\<close> of the registered providers.\<close>

definition has_pins :: "string \<Rightarrow> bool" where
  "has_pins prov \<longleftrightarrow> prov \<in> {''llama'', ''lms'', ''vllm''}"

text \<open>\<open>Inl\<close>: the error text. An absent position, or one out of range, appends.\<close>

definition set_pool_membership ::
  "string \<Rightarrow> string \<Rightarrow> bool \<Rightarrow> int option \<Rightarrow> routing \<Rightarrow> string + routing" where
  "set_pool_membership aid prov in_pool position rt =
     (let refusal = (if \<not> in_pool then None
                     else (case dict_get (rg_agents rt) aid of
                             None \<Rightarrow> Some ''unknown agent''
                           | Some a \<Rightarrow>
                               if prov \<notin> set (ra_caps a)
                               then Some (''agent does not advertise '' @ prov @ '' capability'')
                               else if \<not> ra_approved a then Some ''agent not approved'' else None))
      in case refusal of
           Some err \<Rightarrow> Inl err
         | None \<Rightarrow>
             (let pool = remove1 aid (pool_of rt prov);
                  pool' = (if \<not> in_pool then pool
                           else (case position of
                                   Some i \<Rightarrow> if 0 \<le> i \<and> i \<le> int (length pool)
                                             then take (nat i) pool @ aid # drop (nat i) pool else pool @ [aid]
                                 | None \<Rightarrow> pool @ [aid]))
              in Inr (rt\<lparr>rg_pools := dict_set prov pool' (rg_pools rt)\<rparr>)))"

definition pool_update :: "string \<Rightarrow> string \<Rightarrow> bool \<Rightarrow> routing \<Rightarrow> routing" where
  "pool_update prov aid in_pool rt =
     (case set_pool_membership aid prov in_pool None rt of Inl err \<Rightarrow> rt | Inr rt' \<Rightarrow> rt')"

text \<open>\<^verbatim>\<open>_prod_mutate_pins\<close>: \<open>None\<close> for a mutation that reports no change.\<close>

definition mutate_pins ::
  "string \<Rightarrow> ((string, string) dict \<Rightarrow> (string, string) dict option) \<Rightarrow> routing \<Rightarrow> routing" where
  "mutate_pins prov f rt =
     (if \<not> has_pins prov then rt
      else (case f (pins_of rt prov) of None \<Rightarrow> rt | Some pins \<Rightarrow> rt\<lparr>rg_pins := dict_set prov pins (rg_pins rt)\<rparr>))"

definition set_pin :: "string \<Rightarrow> string \<Rightarrow> string option \<Rightarrow> routing \<Rightarrow> routing" where
  "set_pin prov model aid rt =
     mutate_pins prov
       (\<lambda>pins. Some (case aid of None \<Rightarrow> dict_pop model pins
                     | Some i \<Rightarrow> if i = [] then dict_pop model pins else dict_set model i pins)) rt"

definition clear_pin_if :: "string \<Rightarrow> string \<Rightarrow> string \<Rightarrow> routing \<Rightarrow> routing" where
  "clear_pin_if prov model aid rt =
     mutate_pins prov (\<lambda>pins. if dict_get pins model = Some aid then Some (dict_pop model pins) else None) rt"

definition clear_host_pins :: "string \<Rightarrow> string \<Rightarrow> string \<Rightarrow> routing \<Rightarrow> routing" where
  "clear_host_pins prov aid keep_model rt =
     mutate_pins prov
       (\<lambda>pins. if list_ex (\<lambda>(m, i). i = aid \<and> m \<noteq> keep_model) pins
               then Some (filter (\<lambda>(m, i). \<not> (i = aid \<and> m \<noteq> keep_model)) pins) else None) rt"

datatype route_write = Pin string string "string option" | Pool_Add string string

definition entry_writes ::
  "observed \<Rightarrow> routing \<Rightarrow> ledger option \<Rightarrow> secs option \<Rightarrow> string list \<Rightarrow> entry \<Rightarrow> route_write list" where
  "entry_writes obs rt led now busy e =
     (let prov = en_provider e; model = en_model e; multi = (en_max e > 1);
          placed = effective_placements e (entry_id e) obs led now;
          adds = (if multi then map (Pool_Add prov) (filter (\<lambda>aid. aid \<notin> set (pool_of rt prov) \<and> aid \<notin> set busy) placed)
                  else []);
          cur = dict_get (pins_of rt prov) model
      in if placed = [] then []
         else if \<not> has_pins prov then adds
         else if multi \<and> length placed > 1 then adds @ (if cur \<noteq> None then [Pin prov model None] else [])
         else if (case cur of None \<Rightarrow> False | Some c \<Rightarrow> c \<in> set placed) then adds
         else adds @ (case find (\<lambda>aid. aid \<notin> set busy) placed of
                        None \<Rightarrow> [] | Some target \<Rightarrow> [Pin prov model (Some target)]))"

definition route_sync_writes ::
  "desired \<Rightarrow> observed \<Rightarrow> routing \<Rightarrow> ledger option \<Rightarrow> secs option \<Rightarrow> string list \<Rightarrow> route_write list" where
  "route_sync_writes des obs rt led now busy =
     (if \<not> de_enabled des then [] else concat (map (entry_writes obs rt led now busy) (de_entries des)))"

fun apply_write :: "route_write \<Rightarrow> routing \<Rightarrow> routing" where
  "apply_write (Pin prov model aid) rt = set_pin prov model aid rt"
| "apply_write (Pool_Add prov aid) rt = pool_update prov aid True rt"

definition route_sync ::
  "desired \<Rightarrow> observed \<Rightarrow> ledger option \<Rightarrow> secs option \<Rightarrow> string list \<Rightarrow> routing \<Rightarrow> routing" where
  "route_sync des obs led now busy rt = fold apply_write (route_sync_writes des obs rt led now busy) rt"

section \<open>The executor\<close>

text \<open>
  The answers of the agent: \<open>None\<close> is an exception. Every call is recorded with its path; the vLLM service
  rewrite counts as one call.
\<close>

record exec_deps =
  xd_proxy :: "string \<Rightarrow> bool option"
  xd_vllm :: "bool option"

datatype exec_outcome = Refused | Unsupported | Error_Outcome | Ok_Outcome | Fail_Outcome

record executed =
  xe_ok :: bool
  xe_outcome :: exec_outcome
  xe_calls :: "string list"
  xe_routing :: routing

definition route_replica :: "(string, entry) dict \<Rightarrow> action \<Rightarrow> bool \<Rightarrow> routing \<Rightarrow> routing" where
  "route_replica entries a in_pool rt =
     (if (case dict_get entries (ac_entry a) of None \<Rightarrow> False | Some e \<Rightarrow> en_max e > 1)
      then pool_update (ac_provider a) (ac_agent a) in_pool rt
      else if in_pool then set_pin (ac_provider a) (ac_model a) (Some (ac_agent a)) rt
      else clear_pin_if (ac_provider a) (ac_model a) (ac_agent a) rt)"

definition load_path :: "string \<Rightarrow> string" where "load_path prov = ''/'' @ prov @ ''/load''"
definition unload_path :: "string \<Rightarrow> string" where "unload_path prov = ''/'' @ prov @ ''/unload''"
definition wake_path :: string where "wake_path = ''/llama/server/wake''"
definition vllm_path :: string where "vllm_path = ''/vllm/server/svcconfig''"

text \<open>The call of an action and its answer; a load for an unknown provider makes none.\<close>

definition agent_call :: "exec_deps \<Rightarrow> action \<Rightarrow> string list \<times> bool option" where
  "agent_call xd a =
     (case ac_kind a of
        Wake \<Rightarrow> ([wake_path], xd_proxy xd wake_path)
      | ScaleDown \<Rightarrow> ([unload_path (ac_provider a)], xd_proxy xd (unload_path (ac_provider a)))
      | _ \<Rightarrow> (if ac_provider a = ''llama'' \<or> ac_provider a = ''lms''
              then ([load_path (ac_provider a)], xd_proxy xd (load_path (ac_provider a)))
              else if ac_provider a = ''vllm'' then ([vllm_path], xd_vllm xd) else ([], Some False)))"

definition route_executed :: "(string, entry) dict \<Rightarrow> action \<Rightarrow> routing \<Rightarrow> routing" where
  "route_executed entries a rt =
     (case ac_kind a of
        Wake \<Rightarrow> rt
      | ScaleDown \<Rightarrow> route_replica entries a False rt
      | _ \<Rightarrow> (let rt' = route_replica entries a True rt
              in if ac_provider a \<in> set SINGLE_RESIDENT_PROVIDERS
                 then clear_host_pins (ac_provider a) (ac_agent a) (ac_model a) rt' else rt'))"

definition execute :: "exec_deps \<Rightarrow> (string, entry) dict \<Rightarrow> action \<Rightarrow> routing \<Rightarrow> executed" where
  "execute xd entries a rt =
     (if ac_provider a = ''vllm'' \<and> ac_auto a
      then \<lparr>xe_ok = False, xe_outcome = Refused, xe_calls = [], xe_routing = rt\<rparr>
      else if ac_kind a = ScaleDown \<and> ac_provider a \<notin> set UNLOADABLE_PROVIDERS
      then \<lparr>xe_ok = False, xe_outcome = Unsupported, xe_calls = [], xe_routing = rt\<rparr>
      else (case agent_call xd a of
              (calls, None) \<Rightarrow> \<lparr>xe_ok = False, xe_outcome = Error_Outcome, xe_calls = calls, xe_routing = rt\<rparr>
            | (calls, Some ok) \<Rightarrow>
                \<lparr>xe_ok = ok, xe_outcome = (if ok then Ok_Outcome else Fail_Outcome), xe_calls = calls,
                 xe_routing = (if ok then route_executed entries a rt else rt)\<rparr>))"

end
