(* ===== verification/ReconcilerProps.thy ===== *)
theory ReconcilerProps
  imports Reconciler PlannerSafety Interfaces
begin

text \<open>
  Properties of the autopilot reconciler, alone and composed with the planner: the grace for blank samples,
  the invariant of its ledger and proposals, cooldown and back-off across ticks, and the routing writes.
\<close>

section \<open>Dictionaries\<close>

lemma keep_keys_get: "dict_get (keep_keys ks d) k = (if k \<in> set ks then dict_get d k else None)"
  by (induction d) (auto simp: keep_keys_def)

lemma keep_keys_get_or: "k \<in> set ks \<Longrightarrow> dict_get_or (keep_keys ks d) k v = dict_get_or d k v"
  by (simp add: dict_get_or_def keep_keys_get)

lemma keep_keys_ok: "dict_ok d \<Longrightarrow> dict_ok (keep_keys ks d)"
  by (simp add: keep_keys_def distinct_map_filter)

lemma map_snd_get: "dict_get (map (\<lambda>(k, v). (k, f k v)) d) k = map_option (f k) (dict_get d k)"
  by (induction d) auto

lemma dict_set_memD: "(k', v') \<in> set (dict_set k v d) \<Longrightarrow> (k' = k \<and> v' = v) \<or> (k', v') \<in> set d"
  by (induction d) (auto split: if_splits)

lemma dict_set_memD_ok: "dict_ok d \<Longrightarrow> (k', v') \<in> set (dict_set k v d) \<Longrightarrow> (k' = k \<and> v' = v) \<or> k' \<noteq> k \<and> (k', v') \<in> set d"
  by (metis dict_get_iff dict_ok_set dict_set_get fun_upd_apply option.inject)

lemma dict_get_or_mem:
  "dict_ok d \<Longrightarrow> x \<in> set (dict_get_or d k []) \<longleftrightarrow> (\<exists>xs. (k, xs) \<in> set d \<and> x \<in> set xs)"
proof (cases "dict_get d k")
  case None
  then have "k \<notin> fst ` set d" by (simp add: map_of_eq_None_iff)
  then show ?thesis using None by (force simp: dict_get_or_def)
next
  case (Some ys)
  assume "dict_ok d"
  then have "(k, xs) \<in> set d \<longleftrightarrow> ys = xs" for xs using dict_get_iff [of d k xs] Some by simp
  then show ?thesis using Some by (simp add: dict_get_or_def)
qed

lemma dict_pop_keys: "fst ` set (dict_pop k d) = fst ` set d - {k}"
  by (metis delete_keys set_map set_removeAll)

lemma dict_set_keys: "fst ` set (dict_set k v d) = insert k (fst ` set d)"
  by (induction d) auto

section \<open>Keys of entries\<close>

lemma rpartition_entry_id:
  assumes "CHR ''/'' \<notin> set (en_provider e)"
  shows "rpartition_slash (entry_id e) = (en_model e, en_provider e)"
proof -
  have "takeWhile (\<lambda>c. c \<noteq> CHR ''/'') (rev (entry_id e)) = rev (en_provider e)"
    using assms by (auto simp: entry_id_def takeWhile_append)
  then show ?thesis by (simp add: rpartition_slash_def entry_id_def Let_def)
qed

lemma rpartition_slashD:
  assumes "rpartition_slash k = (m, p)" "m \<noteq> []"
  shows "k = m @ ''/'' @ p"
proof -
  define q where "q = takeWhile (\<lambda>c. c \<noteq> CHR ''/'') (rev k)"
  have p: "p = rev q" "m = take (length k - Suc (length q)) k"
    using assms(1) by (auto simp: rpartition_slash_def q_def Let_def)
  have ne: "dropWhile (\<lambda>c. c \<noteq> CHR ''/'') (rev k) \<noteq> []"
  proof
    assume "dropWhile (\<lambda>c. c \<noteq> CHR ''/'') (rev k) = []"
    then have "q = rev k" unfolding q_def by (metis append_Nil2 takeWhile_dropWhile_id)
    then show False using p(2) assms(2) by simp
  qed
  then obtain c r where c: "dropWhile (\<lambda>c. c \<noteq> CHR ''/'') (rev k) = c # r" by (cases "dropWhile (\<lambda>c. c \<noteq> CHR ''/'') (rev k)") auto
  have "c = CHR ''/''" using hd_dropWhile [OF ne] c by simp
  then have "rev k = q @ CHR ''/'' # r" using c unfolding q_def by (metis takeWhile_dropWhile_id)
  then have k: "k = rev r @ CHR ''/'' # rev q" by (metis rev_rev_ident rev_append rev.simps(2) append_assoc append_Cons append_Nil)
  show ?thesis using p by (simp add: k)
qed

section \<open>Blank samples\<close>

text \<open>The confirmed host \<open>aid\<close> of the key \<open>k\<close> reports a blank sample that is still in its grace.\<close>

definition held_blank :: "secs \<Rightarrow> observed \<Rightarrow> blank_map \<Rightarrow> string \<Rightarrow> string \<Rightarrow> bool" where
  "held_blank now obs blank k aid \<longleftrightarrow>
     (case dict_get (ob_agents obs) aid of
        None \<Rightarrow> False
      | Some a \<Rightarrow> reporting a \<and> sample_blank a (snd (rpartition_slash k)) \<and>
                  now - dict_get_or (dict_get_or blank k []) aid now < BLANK_GRACE_S)"

definition blank_at :: "observed \<Rightarrow> string \<Rightarrow> string \<Rightarrow> bool" where
  "blank_at obs p i \<longleftrightarrow> (case dict_get (ob_agents obs) i of None \<Rightarrow> False | Some a \<Rightarrow> reporting a \<and> sample_blank a p)"

lemma held_blank_iff:
  "held_blank now obs blank k i \<longleftrightarrow> blank_at obs (snd (rpartition_slash k)) i \<and>
     now - dict_get_or (dict_get_or blank k []) i now < BLANK_GRACE_S"
  by (auto simp: held_blank_def blank_at_def split: option.splits)

lemma debounce_one:
  assumes "debounce_aid True now obs m p i (sm, injs) = (sm1, injs1)"
  shows "blank_at obs p j \<Longrightarrow> dict_get_or sm1 j now = dict_get_or sm j now"
    "set injs1 = set injs \<union> (if blank_at obs p i \<and> now - dict_get_or sm i now < BLANK_GRACE_S then {(i, p, m)} else {})"
  using assms
  by (auto simp: debounce_aid_def blank_at_def dict_get_or_def dict_setdefault_get delete_conv Let_def
      split: option.splits if_splits)

lemma debounce_aids:
  assumes "fold (debounce_aid True now obs m p) aids (sm, injs) = (sm', injs')"
    and "\<And>i. blank_at obs p i \<Longrightarrow> dict_get_or sm i now = dict_get_or d i now"
  shows "set injs' = set injs \<union> {(i, p, m) |i. i \<in> set aids \<and> blank_at obs p i \<and> now - dict_get_or d i now < BLANK_GRACE_S}"
  using assms
proof (induction aids arbitrary: sm injs)
  case (Cons i aids)
  obtain sm1 injs1 where one: "debounce_aid True now obs m p i (sm, injs) = (sm1, injs1)" by fastforce
  have "blank_at obs p j \<Longrightarrow> dict_get_or sm1 j now = dict_get_or d j now" for j
    using debounce_one(1) [OF one] Cons.prems(2) by simp
  then have "set injs' = set injs1 \<union> {(i, p, m) |i. i \<in> set aids \<and> blank_at obs p i \<and> now - dict_get_or d i now < BLANK_GRACE_S}"
    using Cons.IH [of sm1 injs1] Cons.prems(1) by (simp add: one)
  then show ?case using debounce_one(2) [OF one] Cons.prems(2) [of i] by auto
qed simp

lemma debounce_keys:
  assumes "fold (debounce_key True now obs) conf (bl, injs) = (bl', injs')" "dict_ok conf"
    and "\<And>k. k \<in> set (dict_keys conf) \<Longrightarrow> dict_get_or bl k [] = dict_get_or blank k []"
  shows "set injs' = set injs \<union>
    {(i, snd (rpartition_slash k), fst (rpartition_slash k)) |i k aids. (k, aids) \<in> set conf \<and> i \<in> set aids \<and> held_blank now obs blank k i}"
  using assms
proof (induction conf arbitrary: bl injs)
  case (Cons row conf)
  obtain k aids m p where row: "row = (k, aids)" "rpartition_slash k = (m, p)" by (metis prod.exhaust)
  obtain sm1 injs1 where one: "fold (debounce_aid True now obs m p) aids (dict_get_or bl k [], injs) = (sm1, injs1)"
    by fastforce
  have step: "debounce_key True now obs row (bl, injs) = (dict_set k sm1 bl, injs1)"
    by (simp add: debounce_key_def row one)
  have eq: "dict_get_or bl k [] = dict_get_or blank k []" using Cons.prems(3) by (simp add: row)
  have new: "set injs1 = set injs \<union> {(i, p, m) |i. i \<in> set aids \<and> held_blank now obs blank k i}"
    using debounce_aids [OF one, of "dict_get_or blank k []"] by (simp add: eq held_blank_iff row(2))
  have "dict_ok conf" "k \<notin> set (dict_keys conf)" using Cons.prems(2) by (simp_all add: row(1))
  moreover have "dict_get_or (dict_set k sm1 bl) j [] = dict_get_or blank j []" if "j \<in> set (dict_keys conf)" for j
    using that Cons.prems(3) [of j] \<open>k \<notin> set (dict_keys conf)\<close> by (auto simp: dict_get_or_set)
  ultimately have "set injs' = set injs1 \<union> {(i, snd (rpartition_slash k), fst (rpartition_slash k)) |i k aids.
      (k, aids) \<in> set conf \<and> i \<in> set aids \<and> held_blank now obs blank k i}"
    using Cons.IH Cons.prems(1) by (simp add: step)
  moreover have "p = snd (rpartition_slash k)" "m = fst (rpartition_slash k)" by (simp_all add: row(2))
  ultimately show ?case unfolding new by (auto simp: row(1))
qed simp

lemma inject_get:
  "dict_get (ob_agents (inject (i, p, m) obs)) aid =
     map_option (\<lambda>a. if aid = i then a\<lparr>ao_loaded := dict_set p (loaded_models a p @ [m]) (ao_loaded a)\<rparr> else a)
       (dict_get (ob_agents obs) aid)"
  by (simp add: inject_def update_agent_def map_snd_get [where f = "\<lambda>j a. if j = i then _ a else a"])

lemma inject_loaded:
  "loaded_models (a\<lparr>ao_loaded := dict_set p (loaded_models a p @ [m]) (ao_loaded a)\<rparr>) q =
     loaded_models a q @ (if q = p then [m] else [])"
  by (simp add: loaded_models_def dict_get_or_set)

text \<open>What the injections add to the models an agent shows.\<close>

lemma injected:
  assumes "dict_get (ob_agents obs) aid = Some a"
  shows "\<exists>a'. dict_get (ob_agents (fold inject injs obs)) aid = Some a' \<and> reporting a' = reporting a \<and>
    set (loaded_models a' q) = set (loaded_models a q) \<union> {m. (aid, q, m) \<in> set injs}"
  using assms
proof (induction injs arbitrary: obs a)
  case (Cons x injs)
  obtain i p m where x: "x = (i, p, m)" by (metis prod.exhaust)
  define b where "b = (if aid = i then a\<lparr>ao_loaded := dict_set p (loaded_models a p @ [m]) (ao_loaded a)\<rparr> else a)"
  have "dict_get (ob_agents (inject x obs)) aid = Some b" by (simp add: x inject_get Cons.prems b_def)
  from Cons.IH [OF this] obtain a' where a': "dict_get (ob_agents (fold inject injs (inject x obs))) aid = Some a'"
    "reporting a' = reporting b" "set (loaded_models a' q) = set (loaded_models b q) \<union> {m. (aid, q, m) \<in> set injs}" by blast
  have "reporting b = reporting a" "set (loaded_models b q) = set (loaded_models a q) \<union> {m'. (aid, q, m') = x}"
    by (auto simp: b_def reporting_def inject_loaded x)
  then show ?case using a' by (intro exI [of _ a']) auto
qed simp

lemma inject_keys: "dict_keys (ob_agents (fold inject injs obs)) = dict_keys (ob_agents obs)"
  by (induction injs arbitrary: obs) (auto simp: inject_def update_agent_def split: prod.splits)

lemma placements_iff:
  "dict_ok (ob_agents obs) \<Longrightarrow> aid \<in> set (placements e obs) \<longleftrightarrow>
     (\<exists>a. dict_get (ob_agents obs) aid = Some a \<and> reporting a \<and> en_model e \<in> set (loaded_models a (en_provider e)))"
  by (auto simp: placements_def dict_get_iff)

lemma debounced_placement:
  assumes ok: "dict_ok conf" "dict_ok (ob_agents obs)" and e: "CHR ''/'' \<notin> set (en_provider e)" "en_model e \<noteq> []"
    and a: "dict_get (ob_agents obs) aid = Some a" "reporting a" "sample_blank a (en_provider e)"
  shows "aid \<in> set (placements e (snd (debounce_blank True now obs conf blank))) \<longleftrightarrow>
    aid \<in> set (dict_get_or conf (entry_id e) []) \<and> now - dict_get_or (dict_get_or blank (entry_id e) []) aid now < BLANK_GRACE_S"
proof -
  let ?k = "entry_id e"
  obtain bl injs where f: "fold (debounce_key True now obs) conf (blank, []) = (bl, injs)" by fastforce
  have obs': "snd (debounce_blank True now obs conf blank) = fold inject injs obs" by (simp add: debounce_blank_def f)
  note ins = debounce_keys [OF f ok(1), of blank, simplified]
  note part = rpartition_entry_id [OF e(1)]
  have held: "held_blank now obs blank ?k aid \<longleftrightarrow> now - dict_get_or (dict_get_or blank ?k []) aid now < BLANK_GRACE_S"
    using a by (simp add: held_blank_def part)
  have key: "k = ?k" if "snd (rpartition_slash k) = en_provider e" "fst (rpartition_slash k) = en_model e" for k
    using rpartition_slashD [of k "en_model e" "en_provider e"] that e(2) by (simp add: entry_id_def prod_eq_iff)
  have "(aid, en_provider e, en_model e) \<in> set injs \<longleftrightarrow>
      (\<exists>aids. (?k, aids) \<in> set conf \<and> aid \<in> set aids \<and> held_blank now obs blank ?k aid)"
  proof
    assume "(aid, en_provider e, en_model e) \<in> set injs"
    then obtain k aids where "(k, aids) \<in> set conf" "aid \<in> set aids" "held_blank now obs blank k aid"
      "snd (rpartition_slash k) = en_provider e" "fst (rpartition_slash k) = en_model e"
      unfolding ins by auto
    then show "\<exists>aids. (?k, aids) \<in> set conf \<and> aid \<in> set aids \<and> held_blank now obs blank ?k aid" using key by blast
  next
    assume "\<exists>aids. (?k, aids) \<in> set conf \<and> aid \<in> set aids \<and> held_blank now obs blank ?k aid"
    then show "(aid, en_provider e, en_model e) \<in> set injs"
      unfolding ins by (auto simp: part intro!: exI [of _ ?k])
  qed
  also have "\<dots> \<longleftrightarrow> aid \<in> set (dict_get_or conf ?k []) \<and> held_blank now obs blank ?k aid"
    using dict_get_or_mem [OF ok(1)] by blast
  finally have inj: "(aid, en_provider e, en_model e) \<in> set injs \<longleftrightarrow> aid \<in> set (dict_get_or conf ?k []) \<and>
      now - dict_get_or (dict_get_or blank ?k []) aid now < BLANK_GRACE_S" by (simp add: held)
  obtain a' where a': "dict_get (ob_agents (fold inject injs obs)) aid = Some a'" "reporting a'"
    "set (loaded_models a' (en_provider e)) = set (loaded_models a (en_provider e)) \<union> {m. (aid, en_provider e, m) \<in> set injs}"
    using injected [OF a(1)] a(2) by metis
  have "loaded_models a (en_provider e) = []" using a(3) by (auto simp: sample_blank_def split: if_splits)
  then have "aid \<in> set (placements e (fold inject injs obs)) \<longleftrightarrow> (aid, en_provider e, en_model e) \<in> set injs"
    using a' ok(2) by (subst placements_iff) (auto simp: inject_keys)
  then show ?thesis by (simp add: obs' inj)
qed

section \<open>The invariant of the reconciler\<close>

text \<open>
  Confirmed placements have a placement row, blank marks belong to confirmed placements, no migration is in
  flight between two operations, no two proposals are for the same action, and what the routes read without
  the lock is what the state holds.
\<close>

definition rows_ok :: "(string, (string, secs) dict) dict \<Rightarrow> (string, string list) dict \<Rightarrow> blank_map \<Rightarrow> bool" where
  "rows_ok placed conf blank \<longleftrightarrow> dict_ok conf \<and> dict_ok blank \<and>
     (\<forall>(k, aids) \<in> set conf. set aids \<subseteq> set (dict_keys (dict_get_or placed k []))) \<and>
     (\<forall>(k, m) \<in> set blank. set (dict_keys m) \<subseteq> set (dict_get_or conf k []))"

lemma rows_okI:
  assumes "dict_ok conf" "dict_ok blank"
    "\<And>k aids. (k, aids) \<in> set conf \<Longrightarrow> set aids \<subseteq> set (dict_keys (dict_get_or placed k []))"
    "\<And>k m. (k, m) \<in> set blank \<Longrightarrow> set (dict_keys m) \<subseteq> set (dict_get_or conf k [])"
  shows "rows_ok placed conf blank"
proof -
  have "\<forall>x \<in> set conf. case x of (k, aids) \<Rightarrow> set aids \<subseteq> set (dict_keys (dict_get_or placed k []))"
    by (rule ballI, rule case_prodI2, rule assms(3)) simp
  moreover have "\<forall>x \<in> set blank. case x of (k, m) \<Rightarrow> set (dict_keys m) \<subseteq> set (dict_get_or conf k [])"
    by (rule ballI, rule case_prodI2, rule assms(4)) simp
  ultimately show ?thesis using assms(1,2) unfolding rows_ok_def by blast
qed

lemma rows_okD:
  assumes "rows_ok placed conf blank"
  shows "dict_ok conf" "dict_ok blank"
    "(k, aids) \<in> set conf \<Longrightarrow> set aids \<subseteq> set (dict_keys (dict_get_or placed k []))"
    "(k, m) \<in> set blank \<Longrightarrow> set (dict_keys m) \<subseteq> set (dict_get_or conf k [])"
  using assms unfolding rows_ok_def by fast+

definition proposals_ok :: "(string, proposal) dict \<Rightarrow> bool" where
  "proposals_ok ps \<longleftrightarrow> distinct (map pr_sig (dict_values ps))"

definition ledger_ok :: "reconciler \<Rightarrow> bool" where
  "ledger_ok st \<longleftrightarrow> rows_ok (le_placed_at (re_ledger st)) (le_confirmed (re_ledger st)) (re_blank st) \<and>
     le_in_flight (re_ledger st) = 0 \<and> proposals_ok (re_proposals st)"

definition rec_ok :: "reconciler \<Rightarrow> bool" where
  "rec_ok st \<longleftrightarrow> ledger_ok st \<and> re_view st = re_ledger st \<and> re_blank_view st = re_blank st \<and>
     re_snapshot st = sort_key pr_created (dict_values (re_proposals st))"

lemma fst_map_snd: "map (fst \<circ> (\<lambda>(k, v). (k, f k v))) d = dict_keys d"
  by (induction d) auto

lemma dict_ok_map_snd: "dict_ok (map (\<lambda>(k, v). (k, f k v)) d) = dict_ok d"
  by (simp add: comp_def split_beta)

lemma dict_ok_filter: "dict_ok d \<Longrightarrow> dict_ok (filter P d)"
  by (rule distinct_map_filter)

lemma prune_row_conf_ok: "dict_ok conf \<Longrightarrow> dict_ok (snd (fold (prune_row now obs k) amap (am, conf)))"
proof (induction amap arbitrary: am conf)
  case (Cons row amap)
  have "dict_ok (snd (prune_row now obs k row (am, conf)))"
    using Cons.prems by (auto simp: prune_row_def intro: dict_intros split: prod.splits option.splits)
  then show ?case using Cons.IH by (metis fold_simps(2) prod.collapse)
qed simp

lemma prune_rows_conf_ok: "dict_ok conf \<Longrightarrow> dict_ok (snd (fold (prune_rows now obs) rows (placed, conf)))"
proof (induction rows arbitrary: placed conf)
  case (Cons row rows)
  have "dict_ok (snd (prune_rows now obs row (placed, conf)))"
    using prune_row_conf_ok [OF Cons.prems, of now obs "fst row" "snd row" "snd row"]
    by (auto simp: prune_rows_def split: prod.splits)
  then show ?case using Cons.IH by (metis fold_simps(2) prod.collapse)
qed simp

lemma prune_placed_rows_ok:
  assumes "dict_ok (le_confirmed (re_ledger st))" "dict_ok (re_blank st)" and st': "st' = prune_placed_at now obs st"
  shows "rows_ok (le_placed_at (re_ledger st')) (le_confirmed (re_ledger st')) (re_blank st')"
    "le_in_flight (re_ledger st') = le_in_flight (re_ledger st)" "re_proposals st' = re_proposals st"
    "le_last_action (re_ledger st') = le_last_action (re_ledger st)" "le_backoff (re_ledger st') = le_backoff (re_ledger st)"
proof -
  obtain placed conf where f: "fold (prune_rows now obs) (le_placed_at (re_ledger st))
      (le_placed_at (re_ledger st), le_confirmed (re_ledger st)) = (placed, conf)" by fastforce
  have ok: "dict_ok conf" using prune_rows_conf_ok [OF assms(1)] f by (metis snd_conv)
  define conf' where "conf' = filter (\<lambda>(k, aids). aids \<noteq> [])
      (map (\<lambda>(k, aids). (k, filter (\<lambda>aid. aid \<in> set (dict_keys (dict_get_or placed k []))) aids)) conf)"
  define blank' where "blank' = filter (\<lambda>(k, m). m \<noteq> []) (map (\<lambda>(k, m). (k, keep_keys (dict_get_or conf' k []) m)) (re_blank st))"
  have eq: "st' = st\<lparr>re_ledger := (re_ledger st)\<lparr>le_placed_at := placed, le_confirmed := conf'\<rparr>, re_blank := blank'\<rparr>"
    by (simp add: st' prune_placed_at_def f Let_def conf'_def blank'_def)
  have "dict_ok conf'" "dict_ok blank'"
    unfolding conf'_def blank'_def
    by (intro dict_ok_filter iffD2 [OF dict_ok_map_snd] ok assms(2))+
  moreover have "set aids \<subseteq> set (dict_keys (dict_get_or placed k []))" if "(k, aids) \<in> set conf'" for k aids
    using that by (auto simp: conf'_def)
  moreover have "set (dict_keys m) \<subseteq> set (dict_get_or conf' k [])" if "(k, m) \<in> set blank'" for k m
    using that by (auto simp: blank'_def keep_keys_def)
  ultimately have "rows_ok placed conf' blank'" by (rule rows_okI)
  then show "rows_ok (le_placed_at (re_ledger st')) (le_confirmed (re_ledger st')) (re_blank st')" by (simp add: eq)
  show "le_in_flight (re_ledger st') = le_in_flight (re_ledger st)" "re_proposals st' = re_proposals st"
    "le_last_action (re_ledger st') = le_last_action (re_ledger st)" "le_backoff (re_ledger st') = le_backoff (re_ledger st)"
    by (simp_all add: eq)
qed

lemma pop_nested_get_or:
  "dict_get_or (pop_nested k aid d) j [] = (if j = k then dict_pop aid (dict_get_or d k []) else dict_get_or d j [])"
  by (cases "dict_get d k") (simp_all add: pop_nested_def dict_get_or_def update_conv)

text \<open>A successful action keeps the rows in line.\<close>

lemma note_success_rows:
  assumes "rows_ok (le_placed_at (re_ledger st)) (le_confirmed (re_ledger st)) (re_blank st)"
    and st': "st' = note_success now a st"
  shows "rows_ok (le_placed_at (re_ledger st')) (le_confirmed (re_ledger st')) (re_blank st')"
proof -
  let ?k = "ac_entry a" and ?aid = "ac_agent a" and ?led = "re_ledger st"
  define placed where "placed = (if ac_kind a = Load \<or> ac_kind a = ScaleUp
      then dict_set ?k (dict_set ?aid now (dict_get_or (le_placed_at ?led) ?k [])) (le_placed_at ?led)
      else if ac_kind a = ScaleDown then pop_nested ?k ?aid (le_placed_at ?led) else le_placed_at ?led)"
  define conf where "conf = (case dict_get (le_confirmed ?led) ?k of None \<Rightarrow> le_confirmed ?led
      | Some aids \<Rightarrow> dict_set ?k (removeAll ?aid aids) (le_confirmed ?led))"
  define blank where "blank = (case dict_get (re_blank st) ?k of None \<Rightarrow> re_blank st
      | Some m \<Rightarrow> if dict_pop ?aid m = [] then dict_pop ?k (re_blank st) else dict_set ?k (dict_pop ?aid m) (re_blank st))"
  have eq: "le_placed_at (re_ledger st') = placed" "le_confirmed (re_ledger st') = conf" "re_blank st' = blank"
    by (simp_all add: st' note_success_def Let_def placed_def conf_def blank_def)
  note ok = rows_okD [OF assms(1)]
  have pl: "set (dict_keys (dict_get_or placed k [])) \<supseteq> set (dict_keys (dict_get_or (le_placed_at ?led) k [])) - (if k = ?k then {?aid} else {})" for k
    by (auto simp: placed_def dict_get_or_set pop_nested_get_or dict_set_keys dict_pop_keys)
  have "dict_get_or conf k [] = (if k = ?k then removeAll ?aid (dict_get_or (le_confirmed ?led) ?k []) else dict_get_or (le_confirmed ?led) k [])" for k
    by (cases "dict_get (le_confirmed ?led) ?k") (simp_all add: conf_def dict_get_or_def update_conv)
  then have cf: "set (dict_get_or conf k []) = set (dict_get_or (le_confirmed ?led) k []) - (if k = ?k then {?aid} else {})" for k
    by simp
  have "dict_ok conf" "dict_ok blank" using ok(1,2)
    by (auto simp: conf_def blank_def intro: dict_intros split: option.splits)
  moreover have "set aids \<subseteq> set (dict_keys (dict_get_or placed k []))" if "(k, aids) \<in> set conf" for k aids
  proof -
    have a: "set aids = set (dict_get_or conf k [])"
      using that \<open>dict_ok conf\<close> by (simp add: dict_get_or_def dict_get_iff [THEN iffD2])
    have "set (dict_get_or (le_confirmed ?led) k []) \<subseteq> set (dict_keys (dict_get_or (le_placed_at ?led) k []))"
      using ok(1,3) by (cases "dict_get (le_confirmed ?led) k") (auto simp: dict_get_or_def dict_get_iff)
    then show ?thesis using pl [of k] unfolding a cf by blast
  qed
  moreover have "set (dict_keys m) \<subseteq> set (dict_get_or conf k [])" if "(k, m) \<in> set blank" for k m
  proof -
    have "dict_get blank k = Some m" using that \<open>dict_ok blank\<close> by (simp add: dict_get_iff)
    then obtain m' where m': "dict_get (re_blank st) k = Some m'" "set (dict_keys m) \<subseteq> set (dict_keys m') - (if k = ?k then {?aid} else {})"
      by (cases "k = ?k"; cases "dict_get (re_blank st) ?k")
        (auto simp: blank_def dict_pop_keys delete_conv update_conv split: if_splits)
    then have "set (dict_keys m') \<subseteq> set (dict_get_or (le_confirmed ?led) k [])" using ok(2,4) by (simp add: dict_get_iff)
    then show ?thesis using m'(2) unfolding cf by blast
  qed
  ultimately show ?thesis unfolding eq by (rule rows_okI)
qed

lemma in_flight_bracket:
  "le_in_flight (re_ledger st) = 0 \<Longrightarrow> in_flight_dec (in_flight_inc st) = st"
  by (simp add: in_flight_inc_def in_flight_dec_def)

lemma run_action_eq:
  assumes "le_in_flight (re_ledger st) = 0"
  shows "run_action exec busy now a st =
    (if ac_agent a \<in> set busy then (False, st) else (exec a, if exec a then note_success now a st else note_failure now a st))"
  using in_flight_bracket [OF assms] by (simp add: run_action_def)

lemma note_failure_rows:
  "le_placed_at (re_ledger (note_failure now a st)) = le_placed_at (re_ledger st)"
  "le_confirmed (re_ledger (note_failure now a st)) = le_confirmed (re_ledger st)"
  "re_blank (note_failure now a st) = re_blank st"
  by (simp_all add: note_failure_def Let_def)

lemma note_other:
  "re_proposals (note_success now a st) = re_proposals st" "re_proposals (note_failure now a st) = re_proposals st"
  "le_in_flight (re_ledger (note_success now a st)) = le_in_flight (re_ledger st)"
  "le_in_flight (re_ledger (note_failure now a st)) = le_in_flight (re_ledger st)"
  by (simp_all add: note_success_def note_failure_def Let_def)

lemma run_ledger_ok: "ledger_ok st \<Longrightarrow> ledger_ok (snd (run_action exec busy now a st))"
proof -
  assume ok: "ledger_ok st"
  then have z: "le_in_flight (re_ledger st) = 0" by (simp add: ledger_ok_def)
  show ?thesis using ok note_success_rows [OF _ refl, of st now a]
    by (simp add: run_action_eq [OF z] ledger_ok_def note_failure_rows note_other)
qed

lemma update_sigs:
  assumes "s \<notin> set (map f (dict_values d))" "f v = s" "distinct (map f (dict_values d))"
  shows "distinct (map f (dict_values (dict_set k v d))) \<and> set (map f (dict_values (dict_set k v d))) \<subseteq> insert s (set (map f (dict_values d)))"
  using assms by (induction d) (auto split: if_splits)

lemma propose_ok: "ledger_ok st \<Longrightarrow> ledger_ok (propose pid now a st)"
proof (cases "list_ex (\<lambda>p. pr_sig p = sig_of a) (dict_values (re_proposals st))")
  case True
  then show "ledger_ok st \<Longrightarrow> ledger_ok (propose pid now a st)" by (simp add: propose_def)
next
  case False
  assume ok: "ledger_ok st"
  let ?p = "\<lparr>pr_id = pid, pr_sig = sig_of a, pr_action = a, pr_created = now, pr_reason = ac_reason a\<rparr>"
  have "sig_of a \<notin> set (map pr_sig (dict_values (re_proposals st)))" using False by (auto simp: list_ex_iff)
  then have "proposals_ok (dict_set pid ?p (re_proposals st))"
    using update_sigs [of "sig_of a" pr_sig "re_proposals st" ?p] ok by (simp add: proposals_ok_def ledger_ok_def)
  then show ?thesis using ok by (simp add: propose_def False ledger_ok_def)
qed

lemma act_ok: "ledger_ok (fst acc) \<Longrightarrow> ledger_ok (fst (act ti now a acc))"
  using run_ledger_ok [of "fst acc" "ti_exec ti" "ti_busy ti a" now a] propose_ok [of "fst acc" "ti_pid ti a" now a]
  by (simp add: act_def split_beta)

lemma acts_ok: "ledger_ok (fst acc) \<Longrightarrow> ledger_ok (fst (fold (act ti now) acts acc))"
  by (induction acts arbitrary: acc) (simp_all add: act_ok)

lemma debounce_key_ok:
  "dict_ok (fst acc) \<Longrightarrow> dict_ok (fst (fold (debounce_key r now obs) conf acc))"
proof (induction conf arbitrary: acc)
  case (Cons row conf)
  have "dict_ok (fst (debounce_key r now obs row acc))"
    using Cons.prems by (simp add: debounce_key_def dict_ok_set split_beta)
  then show ?case using Cons.IH by simp
qed simp

lemma prune_stale_get:
  assumes "st' = prune_stale_keys des obs st"
  shows "dict_ok (le_confirmed (re_ledger st)) \<Longrightarrow> dict_ok (le_confirmed (re_ledger st'))"
    "dict_ok (re_blank st) \<Longrightarrow> dict_ok (re_blank st')" "le_in_flight (re_ledger st') = le_in_flight (re_ledger st)"
    "re_proposals st' = re_proposals st"
    "h \<in> set (dict_keys (ob_agents obs)) \<Longrightarrow> dict_get_or (le_last_action (re_ledger st')) h v = dict_get_or (le_last_action (re_ledger st)) h v"
    "k \<in> set (map entry_id (de_entries des)) \<Longrightarrow> dict_get_or (le_backoff (re_ledger st')) k v = dict_get_or (le_backoff (re_ledger st)) k v"
  by (simp_all add: assms prune_stale_keys_def Let_def keep_keys_ok keep_keys_get_or fst_map_snd)

text \<open>What a tick plans on.\<close>

lemma before_plan_ok:
  assumes "ledger_ok st0" "before_plan ti now st0 = (st, obs)"
  shows "ledger_ok st" "re_proposals st = re_proposals st0"
    "h \<in> set (dict_keys (ob_agents (ti_observed ti))) \<Longrightarrow>
       dict_get_or (le_last_action (re_ledger st)) h v = dict_get_or (le_last_action (re_ledger st0)) h v"
    "k \<in> set (map entry_id (de_entries (ti_desired ti))) \<Longrightarrow>
       dict_get_or (le_backoff (re_ledger st)) k v = dict_get_or (le_backoff (re_ledger st0)) k v"
proof -
  define s1 where "s1 = prune_stale_keys (ti_desired ti) (ti_observed ti) st0"
  obtain blank obs1 where d: "debounce_blank True now (ti_observed ti) (le_confirmed (re_ledger s1)) (re_blank s1) = (blank, obs1)"
    by fastforce
  define s2 where "s2 = prune_placed_at now obs1 (s1\<lparr>re_blank := blank\<rparr>)"
  have st: "st = refresh_sat_history (ti_desired ti) obs1 (ti_sat ti) now s2"
    using assms(2) by (simp add: before_plan_def s1_def [symmetric] d s2_def Let_def)
  note p1 = prune_stale_get [OF s1_def]
  have "dict_ok (le_confirmed (re_ledger st0))" "dict_ok (re_blank st0)" "le_in_flight (re_ledger st0) = 0"
    using assms(1) by (simp_all add: ledger_ok_def rows_ok_def)
  then have "dict_ok (le_confirmed (re_ledger s1))" "dict_ok (re_blank s1)" "le_in_flight (re_ledger s1) = 0" by (simp_all add: p1)
  moreover from this have "dict_ok blank"
    using debounce_key_ok [of "(re_blank s1, [])" True now "ti_observed ti" "le_confirmed (re_ledger s1)"] d
    by (simp add: debounce_blank_def split: prod.splits)
  ultimately have p2: "rows_ok (le_placed_at (re_ledger s2)) (le_confirmed (re_ledger s2)) (re_blank s2)"
    "le_in_flight (re_ledger s2) = 0" "re_proposals s2 = re_proposals st0"
    "le_last_action (re_ledger s2) = le_last_action (re_ledger s1)" "le_backoff (re_ledger s2) = le_backoff (re_ledger s1)"
    using prune_placed_rows_ok [OF _ _ s2_def] p1(4) by simp_all
  have led: "re_ledger st = re_ledger s2" "re_blank st = re_blank s2" "re_proposals st = re_proposals s2"
    by (simp_all add: st refresh_sat_history_def)
  show "ledger_ok st" using assms(1) p2(1-3) by (simp add: ledger_ok_def led)
  show "re_proposals st = re_proposals st0" by (simp add: led p2(3))
  show "h \<in> set (dict_keys (ob_agents (ti_observed ti))) \<Longrightarrow>
       dict_get_or (le_last_action (re_ledger st)) h v = dict_get_or (le_last_action (re_ledger st0)) h v"
    "k \<in> set (map entry_id (de_entries (ti_desired ti))) \<Longrightarrow>
       dict_get_or (le_backoff (re_ledger st)) k v = dict_get_or (le_backoff (re_ledger st0)) k v"
    using p1(5,6) by (simp_all add: led p2(4,5))
qed

section \<open>The reconciler as a machine\<close>

datatype rec_event = Re_Tick tick_input secs | Re_Apply "action \<Rightarrow> bool" "string list" string secs | Re_Dismiss string

fun rec_step :: "rec_event \<Rightarrow> reconciler \<Rightarrow> reconciler" where
  "rec_step (Re_Tick ti now) st = (case rec_tick ti now st of None \<Rightarrow> st | Some (acts, stat, obs, st') \<Rightarrow> st')"
| "rec_step (Re_Apply exec busy pid now) st =
     (case apply_proposal exec busy pid now st of None \<Rightarrow> st | Some (ok, a, st') \<Rightarrow> st')"
| "rec_step (Re_Dismiss pid) st = dismiss pid st"

text \<open>A tick in parts.\<close>

lemma tick_SomeE:
  assumes "rec_tick ti now st0 = Some (acts, stat, obs2, st')"
  obtains st obs st2 where "before_plan ti now st0 = (st, obs)" "plan (ti_desired ti) obs (re_ledger st) now = Some acts"
    "fold (act ti now) acts
       (st\<lparr>re_proposals := filter (\<lambda>(pid, p). pr_sig p \<in> set (map sig_of acts)) (re_proposals st)\<rparr>, obs) = (st2, obs2)"
    "st' = refresh_snapshot (st2\<lparr>re_last_plan := Some now\<rparr>)"
  using assms by (auto simp: rec_tick_def Let_def split: prod.splits option.splits)

lemma ledger_ok_proposals:
  "ledger_ok st \<Longrightarrow> proposals_ok ps \<Longrightarrow> ledger_ok (st\<lparr>re_proposals := ps\<rparr>)"
  by (simp add: ledger_ok_def)

lemma proposals_ok_filter: "proposals_ok ps \<Longrightarrow> proposals_ok (filter P ps)"
  by (induction ps) (auto simp: proposals_ok_def)

lemma proposals_ok_pop: "proposals_ok ps \<Longrightarrow> proposals_ok (dict_pop pid ps)"
  by (simp add: AList.delete_eq proposals_ok_filter)

lemma refresh_rec_ok: "ledger_ok st \<Longrightarrow> rec_ok (refresh_snapshot st)"
  by (simp add: refresh_snapshot_def rec_ok_def ledger_ok_def)

lemma rec_okD: "rec_ok st \<Longrightarrow> ledger_ok st"
  by (simp add: rec_ok_def)

lemma rec_ok_step:
  assumes "rec_ok st"
  shows "rec_ok (rec_step ev st)"
proof (cases ev)
  case (Re_Tick ti now)
  show ?thesis
  proof (cases "rec_tick ti now st")
    case None
    then show ?thesis using assms by (simp add: Re_Tick)
  next
    case (Some r)
    then obtain acts stat obs2 st' where t: "rec_tick ti now st = Some (acts, stat, obs2, st')" by (cases r) auto
    from tick_SomeE [OF t] obtain s obs s2 where p: "before_plan ti now st = (s, obs)"
      "fold (act ti now) acts
         (s\<lparr>re_proposals := filter (\<lambda>(pid, p). pr_sig p \<in> set (map sig_of acts)) (re_proposals s)\<rparr>, obs) = (s2, obs2)"
      "st' = refresh_snapshot (s2\<lparr>re_last_plan := Some now\<rparr>)" by metis
    have "ledger_ok s" using before_plan_ok(1) [OF rec_okD [OF assms] p(1)] .
    then have "ledger_ok (s\<lparr>re_proposals := filter (\<lambda>(pid, p). pr_sig p \<in> set (map sig_of acts)) (re_proposals s)\<rparr>)"
      by (intro ledger_ok_proposals proposals_ok_filter) (simp_all add: ledger_ok_def)
    then have "ledger_ok s2" using acts_ok [of _ ti now acts] p(2) by (metis fst_conv)
    then have "ledger_ok (s2\<lparr>re_last_plan := Some now\<rparr>)" by (simp add: ledger_ok_def)
    then show ?thesis by (simp add: Re_Tick t p(3) refresh_rec_ok)
  qed
next
  case (Re_Apply exec busy pid now)
  let ?s = "st\<lparr>re_proposals := dict_pop pid (re_proposals st)\<rparr>"
  have "ledger_ok ?s" using rec_okD [OF assms]
    by (intro ledger_ok_proposals proposals_ok_pop) (simp_all add: ledger_ok_def)
  then have "rec_ok (refresh_snapshot (snd (run_action exec busy now a ?s)))" for a
    by (intro refresh_rec_ok run_ledger_ok)
  then show ?thesis using assms by (auto simp: Re_Apply apply_proposal_def split_beta split: option.splits)
next
  case (Re_Dismiss pid)
  have "ledger_ok (st\<lparr>re_proposals := dict_pop pid (re_proposals st)\<rparr>)" using rec_okD [OF assms]
    by (intro ledger_ok_proposals proposals_ok_pop) (simp_all add: ledger_ok_def)
  then show ?thesis by (simp add: Re_Dismiss dismiss_def refresh_rec_ok)
qed

lemma rec_ok_init: "rec_ok init_reconciler"
  by (simp add: rec_ok_def ledger_ok_def rows_ok_def proposals_ok_def init_reconciler_def empty_ledger_def)

interpretation pilot: machine "\<lambda>st. st = init_reconciler" rec_step rec_ok
  by unfold_locales (simp_all add: rec_ok_init rec_ok_step)

section \<open>What a success or a failure holds back\<close>

text \<open>The actions a tick executed itself, with their outcome, and those of a sequence of events.\<close>

definition executed_by :: "tick_input \<Rightarrow> secs \<Rightarrow> action list \<Rightarrow> (secs \<times> action \<times> bool) list" where
  "executed_by ti now acts =
     map (\<lambda>a. (now, a, ti_exec ti a)) (filter (\<lambda>a. ac_auto a \<and> ac_agent a \<notin> set (ti_busy ti a)) acts)"

fun history :: "rec_event list \<Rightarrow> reconciler \<Rightarrow> (secs \<times> action \<times> bool) list" where
  "history [] st = []"
| "history (ev # es) st =
     (case ev of
        Re_Tick ti now \<Rightarrow> (case rec_tick ti now st of None \<Rightarrow> [] | Some (acts, r) \<Rightarrow> executed_by ti now acts)
      | _ \<Rightarrow> []) @ history es (rec_step ev st)"

text \<open>
  A time mark of the ledger that no watched event lowers below \<open>t\<close>, and that keeps the planner from actions
  of some kind for a span of time.
\<close>

locale tick_guard =
  fixes mark :: "reconciler \<Rightarrow> secs"
    and watched :: "secs \<Rightarrow> rec_event \<Rightarrow> bool"
    and concerns :: "action \<Rightarrow> bool"
    and span :: secs
  assumes mark_step: "rec_ok st \<Longrightarrow> watched t ev \<Longrightarrow> t \<le> mark st \<Longrightarrow> t \<le> mark (rec_step ev st)"
    and guarded: "rec_ok st \<Longrightarrow> watched t (Re_Tick ti now) \<Longrightarrow> rec_tick ti now st = Some (acts, r) \<Longrightarrow> a \<in> set acts \<Longrightarrow>
      concerns a \<Longrightarrow> mark st + span \<le> now"
begin

lemma guarded_history:
  "rec_ok st \<Longrightarrow> t \<le> mark st \<Longrightarrow> list_all (watched t) es \<Longrightarrow> (t', b, ok) \<in> set (history es st) \<Longrightarrow> concerns b \<Longrightarrow>
     t + span \<le> t'"
proof (induction es arbitrary: st)
  case (Cons ev es)
  have w: "watched t ev" "list_all (watched t) es" using Cons.prems(3) by simp_all
  show ?case
  proof (cases "(t', b, ok) \<in> set (history es (rec_step ev st))")
    case True
    show ?thesis
      using Cons.IH [OF rec_ok_step [OF Cons.prems(1)] mark_step [OF Cons.prems(1) w(1) Cons.prems(2)] w(2) True Cons.prems(5)] .
  next
    case False
    then obtain ti now acts r where e: "ev = Re_Tick ti now" "rec_tick ti now st = Some (acts, r)" "t' = now" "b \<in> set acts"
      using Cons.prems(4) by (auto simp: executed_by_def split: rec_event.splits option.splits)
    have "mark st + span \<le> now" by (rule guarded [OF Cons.prems(1) w(1) [unfolded e(1)] e(2,4) Cons.prems(5)])
    then show ?thesis using Cons.prems(2) e(3) by linarith
  qed
qed simp

end

lemma note_marks:
  "le_last_action (re_ledger (note_success now a st)) = dict_set (ac_agent a) now (le_last_action (re_ledger st))"
  "le_last_action (re_ledger (note_failure now a st)) = le_last_action (re_ledger st)"
  "le_backoff (re_ledger (note_success now a st)) = le_backoff (re_ledger st)"
  "le_backoff (re_ledger (note_failure now a st)) =
     (if is_placement a then dict_set (ac_entry a) (now + ENTRY_RETRY_S) (le_backoff (re_ledger st)) else le_backoff (re_ledger st))"
proof -
  show "le_backoff (re_ledger (note_failure now a st)) =
     (if is_placement a then dict_set (ac_entry a) (now + ENTRY_RETRY_S) (le_backoff (re_ledger st)) else le_backoff (re_ledger st))"
    by (cases "ac_kind a") (simp_all add: note_failure_def is_placement_def Let_def)
qed (simp_all add: note_success_def note_failure_def Let_def)

lemma run_marks:
  "le_last_action (re_ledger (snd (run_action exec busy now a st))) =
     (if ac_agent a \<notin> set busy \<and> exec a then dict_set (ac_agent a) now (le_last_action (re_ledger st))
      else le_last_action (re_ledger st))"
  "le_backoff (re_ledger (snd (run_action exec busy now a st))) =
     (if ac_agent a \<notin> set busy \<and> \<not> exec a \<and> is_placement a then dict_set (ac_entry a) (now + ENTRY_RETRY_S) (le_backoff (re_ledger st))
      else le_backoff (re_ledger st))"
  by (simp_all add: run_action_def note_marks in_flight_inc_def in_flight_dec_def Let_def)

lemma act_marks:
  "le_last_action (re_ledger (fst (act ti now a acc))) =
     (if ac_auto a \<and> ac_agent a \<notin> set (ti_busy ti a) \<and> ti_exec ti a
      then dict_set (ac_agent a) now (le_last_action (re_ledger (fst acc))) else le_last_action (re_ledger (fst acc)))"
  "le_backoff (re_ledger (fst (act ti now a acc))) =
     (if ac_auto a \<and> ac_agent a \<notin> set (ti_busy ti a) \<and> \<not> ti_exec ti a \<and> is_placement a
      then dict_set (ac_entry a) (now + ENTRY_RETRY_S) (le_backoff (re_ledger (fst acc))) else le_backoff (re_ledger (fst acc)))"
  by (simp_all add: act_def split_beta run_marks propose_def)

abbreviation last_act :: "string \<Rightarrow> reconciler \<Rightarrow> secs" where
  "last_act h st \<equiv> dict_get_or (le_last_action (re_ledger st)) h 0"

abbreviation last_fail :: "string \<Rightarrow> reconciler \<Rightarrow> secs" where
  "last_fail k st \<equiv> dict_get_or (le_backoff (re_ledger st)) k 0 - ENTRY_RETRY_S"

lemma acts_keep_marks:
  assumes "t \<le> now"
  shows "t \<le> last_act h (fst acc) \<Longrightarrow> t \<le> last_act h (fst (fold (act ti now) acts acc))"
    "t \<le> last_fail k (fst acc) \<Longrightarrow> t \<le> last_fail k (fst (fold (act ti now) acts acc))"
  using assms by (induction acts arbitrary: acc) (simp_all add: act_marks dict_get_or_set)

lemma acts_set_marks:
  assumes "(now, a, ok) \<in> set (executed_by ti now acts)"
  shows "ok \<Longrightarrow> now \<le> last_act (ac_agent a) (fst (fold (act ti now) acts acc))"
    "\<not> ok \<Longrightarrow> is_placement a \<Longrightarrow> now \<le> last_fail (ac_entry a) (fst (fold (act ti now) acts acc))"
proof -
  have a: "a \<in> set acts" "ac_auto a" "ac_agent a \<notin> set (ti_busy ti a)" "ok = ti_exec ti a"
    using assms by (auto simp: executed_by_def)
  then obtain xs ys where "acts = xs @ a # ys" by (meson split_list)
  then have f: "fold (act ti now) acts acc = fold (act ti now) ys (act ti now a (fold (act ti now) xs acc))" by simp
  show "ok \<Longrightarrow> now \<le> last_act (ac_agent a) (fst (fold (act ti now) acts acc))"
    unfolding f by (rule acts_keep_marks(1)) (use a in \<open>simp_all add: act_marks dict_get_or_set\<close>)
  show "\<not> ok \<Longrightarrow> is_placement a \<Longrightarrow> now \<le> last_fail (ac_entry a) (fst (fold (act ti now) acts acc))"
    unfolding f by (rule acts_keep_marks(2)) (use a in \<open>simp_all add: act_marks dict_get_or_set\<close>)
qed

text \<open>The events after time \<open>t\<close> that see the host \<open>h\<close>, or want the entry with the key \<open>k\<close>.\<close>

fun sees :: "string \<Rightarrow> secs \<Rightarrow> rec_event \<Rightarrow> bool" where
  "sees h t (Re_Tick ti now) \<longleftrightarrow> t \<le> now \<and> h \<in> set (dict_keys (ob_agents (ti_observed ti))) \<and> providers_ok (ti_desired ti)"
| "sees h t (Re_Apply exec busy pid now) \<longleftrightarrow> t \<le> now"
| "sees h t (Re_Dismiss pid) \<longleftrightarrow> True"

fun wants :: "string \<Rightarrow> secs \<Rightarrow> rec_event \<Rightarrow> bool" where
  "wants k t (Re_Tick ti now) \<longleftrightarrow> t \<le> now \<and> k \<in> set (map entry_id (de_entries (ti_desired ti))) \<and> providers_ok (ti_desired ti)"
| "wants k t (Re_Apply exec busy pid now) \<longleftrightarrow> t \<le> now"
| "wants k t (Re_Dismiss pid) \<longleftrightarrow> True"

lemma tick_marks:
  assumes "rec_ok st0" "rec_tick ti now st0 = Some (acts, stat, obs2, st')" "before_plan ti now st0 = (st, obs)"
  obtains s where "re_ledger st' = re_ledger (fst (fold (act ti now) acts (s, obs)))" "re_ledger s = re_ledger st"
proof -
  from tick_SomeE [OF assms(2)] assms(3) obtain s2 where f: "fold (act ti now) acts
       (st\<lparr>re_proposals := filter (\<lambda>(pid, p). pr_sig p \<in> set (map sig_of acts)) (re_proposals st)\<rparr>, obs) = (s2, obs2)"
    "st' = refresh_snapshot (s2\<lparr>re_last_plan := Some now\<rparr>)" by (metis prod.inject)
  show thesis
    by (rule that [of "st\<lparr>re_proposals := filter (\<lambda>(pid, p). pr_sig p \<in> set (map sig_of acts)) (re_proposals st)\<rparr>"])
      (simp_all only: f fst_conv, simp_all add: refresh_snapshot_def)
qed

lemma step_keeps_marks:
  assumes "rec_ok st"
  shows "sees h t ev \<Longrightarrow> t \<le> last_act h st \<Longrightarrow> t \<le> last_act h (rec_step ev st)"
    "wants k t ev \<Longrightarrow> t \<le> last_fail k st \<Longrightarrow> t \<le> last_fail k (rec_step ev st)"
proof -
  have "(sees h t ev \<longrightarrow> t \<le> last_act h st \<longrightarrow> t \<le> last_act h (rec_step ev st)) \<and>
    (wants k t ev \<longrightarrow> t \<le> last_fail k st \<longrightarrow> t \<le> last_fail k (rec_step ev st))"
  proof (cases ev)
    case (Re_Tick ti now)
    obtain s obs where bp: "before_plan ti now st = (s, obs)" by fastforce
    note kept = before_plan_ok(3,4) [OF rec_okD [OF assms] bp]
    show ?thesis
    proof (cases "rec_tick ti now st")
      case (Some r)
      then obtain acts stat obs2 st' where t: "rec_tick ti now st = Some (acts, stat, obs2, st')" by (cases r) auto
      obtain s' where s': "re_ledger st' = re_ledger (fst (fold (act ti now) acts (s', obs)))" "re_ledger s' = re_ledger s"
        by (rule tick_marks [OF assms t bp])
      show ?thesis
        using acts_keep_marks [where acc = "(s', obs)" and t = t and now = now] kept by (simp add: Re_Tick t s')
    qed (simp add: Re_Tick)
  next
    case (Re_Apply exec busy pid now)
    then show ?thesis
      by (auto simp: apply_proposal_def split_beta refresh_snapshot_def run_marks dict_get_or_set split: option.splits)
  next
    case (Re_Dismiss pid)
    then show ?thesis by (simp add: dismiss_def refresh_snapshot_def)
  qed
  then show "sees h t ev \<Longrightarrow> t \<le> last_act h st \<Longrightarrow> t \<le> last_act h (rec_step ev st)"
    "wants k t ev \<Longrightarrow> t \<le> last_fail k st \<Longrightarrow> t \<le> last_fail k (rec_step ev st)" by blast+
qed

lemma tick_guarded:
  assumes "rec_ok st" "rec_tick ti now st = Some (acts, r)" "a \<in> set acts" "providers_ok (ti_desired ti)"
  shows "ac_agent a \<in> set (dict_keys (ob_agents (ti_observed ti))) \<Longrightarrow> last_act (ac_agent a) st + COOLDOWN_S \<le> now"
    "ac_entry a \<in> set (map entry_id (de_entries (ti_desired ti))) \<Longrightarrow> last_fail (ac_entry a) st + ENTRY_RETRY_S \<le> now"
proof -
  obtain stat obs2 st' where t: "rec_tick ti now st = Some (acts, stat, obs2, st')" using assms(2) by (cases r) auto
  from tick_SomeE [OF t] obtain s obs where p: "before_plan ti now st = (s, obs)"
    "plan (ti_desired ti) obs (re_ledger s) now = Some acts" by metis
  have "action_sound (ti_desired ti) obs (re_ledger s) now a" by (rule plan_action_sound [OF assms(4) p(2) assms(3)])
  then have "\<not> cooling (ac_agent a) (re_ledger s) now" "\<not> backing_off (ac_entry a) (re_ledger s) now"
    by (auto simp: action_sound_def action_entry_def)
  then show "ac_agent a \<in> set (dict_keys (ob_agents (ti_observed ti))) \<Longrightarrow> last_act (ac_agent a) st + COOLDOWN_S \<le> now"
    "ac_entry a \<in> set (map entry_id (de_entries (ti_desired ti))) \<Longrightarrow> last_fail (ac_entry a) st + ENTRY_RETRY_S \<le> now"
    using before_plan_ok(3,4) [OF rec_okD [OF assms(1)] p(1)] by (simp_all add: cooling_def backing_off_def)
qed

interpretation cooldown: tick_guard "last_act h" "sees h" "\<lambda>a. ac_agent a = h" COOLDOWN_S for h
proof
  show "t \<le> last_act h (rec_step ev st)" if "rec_ok st" "sees h t ev" "t \<le> last_act h st" for st t ev
    by (rule step_keeps_marks(1) [OF that])
  show "last_act h st + COOLDOWN_S \<le> now"
    if "rec_ok st" "sees h t (Re_Tick ti now)" "rec_tick ti now st = Some (acts, r)" "a \<in> set acts" "ac_agent a = h"
    for st t ti now acts r a
    using tick_guarded(1) [OF that(1,3,4)] that(2,5) by simp
qed

interpretation backoff: tick_guard "last_fail k" "wants k" "\<lambda>a. ac_entry a = k" ENTRY_RETRY_S for k
proof
  show "t \<le> last_fail k (rec_step ev st)" if "rec_ok st" "wants k t ev" "t \<le> last_fail k st" for st t ev
    by (rule step_keeps_marks(2) [OF that])
  show "last_fail k st + ENTRY_RETRY_S \<le> now"
    if "rec_ok st" "wants k t (Re_Tick ti now)" "rec_tick ti now st = Some (acts, r)" "a \<in> set acts" "ac_entry a = k"
    for st t ti now acts r a
    using tick_guarded(2) [OF that(1,3,4)] that(2,5) by simp
qed

text \<open>What a tick leaves behind for the host of a success and for the entry of a failed placement.\<close>

lemma tick_sets_marks:
  assumes "rec_ok st" "rec_tick ti now st = Some (acts, stat, obs2, st')" "(now, a, ok) \<in> set (executed_by ti now acts)"
  shows "rec_ok st'" "ok \<Longrightarrow> now \<le> last_act (ac_agent a) st'" "\<not> ok \<Longrightarrow> is_placement a \<Longrightarrow> now \<le> last_fail (ac_entry a) st'"
proof -
  obtain s obs where bp: "before_plan ti now st = (s, obs)" by fastforce
  obtain s' where s': "re_ledger st' = re_ledger (fst (fold (act ti now) acts (s', obs)))"
    by (rule tick_marks [OF assms(1,2) bp])
  show "rec_ok st'" using rec_ok_step [OF assms(1), of "Re_Tick ti now"] assms(2) by simp
  show "ok \<Longrightarrow> now \<le> last_act (ac_agent a) st'" "\<not> ok \<Longrightarrow> is_placement a \<Longrightarrow> now \<le> last_fail (ac_entry a) st'"
    using acts_set_marks [OF assms(3), of "(s', obs)"] by (simp_all add: s')
qed

section \<open>Routing writes\<close>

definition admits :: "routing \<Rightarrow> string \<Rightarrow> string \<Rightarrow> bool" where
  "admits rt prov aid = (case dict_get (rg_agents rt) aid of None \<Rightarrow> False | Some a \<Rightarrow> prov \<in> set (ra_caps a) \<and> ra_approved a)"

lemma pool_update_pool:
  "pool_of (pool_update prov aid True rt) q =
     (if q = prov \<and> admits rt prov aid then remove1 aid (pool_of rt prov) @ [aid] else pool_of rt q)"
  by (simp add: pool_update_def set_pool_membership_def admits_def pool_of_def dict_get_or_set Let_def split: option.splits)

lemma pins_of_pools [simp]: "pins_of (rt\<lparr>rg_pools := x\<rparr>) = pins_of rt"
  by (rule ext) (simp add: pins_of_def)

lemma pool_update_other:
  "rg_agents (pool_update prov aid b rt) = rg_agents rt" "pins_of (pool_update prov aid b rt) = pins_of rt"
  by (simp_all add: pool_update_def set_pool_membership_def Let_def split: option.splits sum.splits if_splits)

lemma set_pin_other: "rg_agents (set_pin p m x rt) = rg_agents rt" "pool_of (set_pin p m x rt) q = pool_of rt q"
  by (simp_all add: set_pin_def mutate_pins_def pool_of_def)

lemma set_pin_get:
  "dict_get (pins_of (set_pin p m x rt) q) j =
     (if has_pins p \<and> q = p \<and> j = m then (if x = Some [] then None else x) else dict_get (pins_of rt q) j)"
  by (cases x) (auto simp: set_pin_def mutate_pins_def pins_of_def dict_get_or_set update_conv delete_conv)

lemma writes_agents: "rg_agents (fold apply_write ws rt) = rg_agents rt"
proof (induction ws arbitrary: rt)
  case (Cons w ws)
  then show ?case by (cases w) (simp_all add: pool_update_other set_pin_other)
qed simp

lemma pool_kept: "aid \<in> set (pool_of rt q) \<Longrightarrow> aid \<in> set (pool_of (fold apply_write ws rt) q)"
proof (induction ws arbitrary: rt)
  case (Cons w ws)
  have "aid \<in> set (pool_of (apply_write w rt) q)"
  proof (cases w)
    case (Pin p m x)
    then show ?thesis using Cons.prems by (simp add: set_pin_other)
  next
    case (Pool_Add p i)
    then show ?thesis using Cons.prems by (cases "aid = i") (auto simp: pool_update_pool)
  qed
  then show ?case using Cons.IH by simp
qed simp

lemma pool_added:
  "Pool_Add q aid \<in> set ws \<Longrightarrow> admits rt q aid \<Longrightarrow> aid \<in> set (pool_of (fold apply_write ws rt) q)"
proof -
  assume a: "Pool_Add q aid \<in> set ws" "admits rt q aid"
  then obtain us vs where ws: "ws = us @ Pool_Add q aid # vs" by (meson split_list)
  have "admits (fold apply_write us rt) q aid" using a(2) by (simp add: admits_def writes_agents)
  then show ?thesis unfolding ws by (auto simp: pool_update_pool intro!: pool_kept)
qed

lemma pins_unwritten:
  "(\<And>x. Pin p m x \<notin> set ws) \<Longrightarrow> dict_get (pins_of (fold apply_write ws rt) p) m = dict_get (pins_of rt p) m"
proof (induction ws arbitrary: rt)
  case (Cons w ws)
  have "dict_get (pins_of (apply_write w rt) p) m = dict_get (pins_of rt p) m"
    using Cons.prems by (cases w) (auto simp: set_pin_get pool_update_other)
  then show ?case using Cons by simp
qed simp

lemma entry_writes_pins: "Pin p m x \<in> set (entry_writes obs rt led now busy e) \<Longrightarrow> p = en_provider e \<and> m = en_model e"
  by (auto simp: entry_writes_def Let_def split: if_splits option.splits)

text \<open>The pin of an entry after the sync depends on the writes of that entry only.\<close>

lemma pins_synced:
  assumes "distinct (map (\<lambda>e. (en_provider e, en_model e)) es)" "e \<in> set es"
    and w: "w = (\<lambda>e. entry_writes obs rt led now busy e)"
  shows "dict_get (pins_of (fold apply_write (concat (map w es)) r) (en_provider e)) (en_model e) =
    dict_get (pins_of (fold apply_write (w e) (fold apply_write (concat (map w (takeWhile (\<lambda>f. f \<noteq> e) es))) r)) (en_provider e)) (en_model e)"
    "dict_get (pins_of (fold apply_write (concat (map w (takeWhile (\<lambda>f. f \<noteq> e) es))) r) (en_provider e)) (en_model e) =
       dict_get (pins_of r (en_provider e)) (en_model e)"
proof -
  obtain us vs where es: "es = us @ e # vs" "e \<notin> set us" using split_list_first [OF assms(2)] by blast
  have tw: "takeWhile (\<lambda>f. f \<noteq> e) es = us" using es by (auto simp: takeWhile_append)
  have other: "Pin (en_provider e) (en_model e) x \<notin> set (concat (map w xs))" if "set xs \<subseteq> set us \<union> set vs" for xs x
  proof
    assume "Pin (en_provider e) (en_model e) x \<in> set (concat (map w xs))"
    then obtain f where f: "f \<in> set xs" "Pin (en_provider e) (en_model e) x \<in> set (w f)" by auto
    have "(en_provider f, en_model f) = (en_provider e, en_model e)" using entry_writes_pins [OF f(2) [unfolded w]] by simp
    moreover have "f \<in> set us \<union> set vs" using f(1) that by blast
    ultimately have "(en_provider e, en_model e) \<in> (\<lambda>e. (en_provider e, en_model e)) ` (set us \<union> set vs)"
      by (metis (no_types, lifting) image_eqI)
    then show False using assms(1) unfolding es(1) by auto
  qed
  show "dict_get (pins_of (fold apply_write (concat (map w es)) r) (en_provider e)) (en_model e) =
    dict_get (pins_of (fold apply_write (w e) (fold apply_write (concat (map w (takeWhile (\<lambda>f. f \<noteq> e) es))) r)) (en_provider e)) (en_model e)"
    unfolding tw using pins_unwritten [OF other, of vs] by (simp add: es(1))
  show "dict_get (pins_of (fold apply_write (concat (map w (takeWhile (\<lambda>f. f \<noteq> e) es))) r) (en_provider e)) (en_model e) =
       dict_get (pins_of r (en_provider e)) (en_model e)"
    unfolding tw using pins_unwritten [OF other, of us] by simp
qed

lemma pool_adds_pins: "pins_of (fold apply_write (map (Pool_Add q) xs) rt) = pins_of rt"
  by (induction xs arbitrary: rt) (simp_all add: pool_update_other)

lemma entry_pin:
  assumes placed: "placed = effective_placements e (entry_id e) obs led now" "placed \<noteq> []" "[] \<notin> set placed"
    and p: "has_pins (en_provider e)"
    and cur: "cur = dict_get (pins_of rt (en_provider e)) (en_model e)" "dict_get (pins_of s (en_provider e)) (en_model e) = cur"
  shows "dict_get (pins_of (fold apply_write (entry_writes obs rt led now busy e) s) (en_provider e)) (en_model e) =
    (if en_max e > 1 \<and> length placed > 1 then None
     else if (case cur of None \<Rightarrow> False | Some c \<Rightarrow> c \<in> set placed) then cur
     else (case find (\<lambda>aid. aid \<notin> set busy) placed of None \<Rightarrow> cur | Some t \<Rightarrow> Some t))"
proof -
  define adds where "adds = (if en_max e > 1 then filter (\<lambda>aid. aid \<notin> set (pool_of rt (en_provider e)) \<and> aid \<notin> set busy) placed else [])"
  define rest where "rest = (if en_max e > 1 \<and> length placed > 1 then (if cur \<noteq> None then [Pin (en_provider e) (en_model e) None] else [])
    else if (case cur of None \<Rightarrow> False | Some c \<Rightarrow> c \<in> set placed) then []
    else (case find (\<lambda>aid. aid \<notin> set busy) placed of None \<Rightarrow> [] | Some t \<Rightarrow> [Pin (en_provider e) (en_model e) (Some t)]))"
  have w: "entry_writes obs rt led now busy e = map (Pool_Add (en_provider e)) adds @ rest"
    using placed(2) p by (auto simp: entry_writes_def Let_def placed(1) [symmetric] cur(1) [symmetric] adds_def rest_def)
  define s' where "s' = fold apply_write (map (Pool_Add (en_provider e)) adds) s"
  have s': "dict_get (pins_of s' (en_provider e)) (en_model e) = cur" by (simp add: s'_def pool_adds_pins cur(2))
  have ne: "find (\<lambda>aid. aid \<notin> set busy) placed = Some t \<Longrightarrow> t \<noteq> []" for t using find_SomeD [of _ placed t] placed(3) by auto
  have "dict_get (pins_of (fold apply_write rest s') (en_provider e)) (en_model e) =
    (if en_max e > 1 \<and> length placed > 1 then None
     else if (case cur of None \<Rightarrow> False | Some c \<Rightarrow> c \<in> set placed) then cur
     else (case find (\<lambda>aid. aid \<notin> set busy) placed of None \<Rightarrow> cur | Some t \<Rightarrow> Some t))"
    using ne s' p by (auto simp: rest_def set_pin_get split: option.splits)
  then show ?thesis by (simp add: w s'_def)
qed

lemma rows_ok_get:
  assumes "rows_ok placed conf blank"
  shows "set (dict_get_or conf k []) \<subseteq> set (dict_keys (dict_get_or placed k []))"
    "set (dict_keys (dict_get_or blank k [])) \<subseteq> set (dict_get_or conf k [])"
proof -
  note ok = rows_okD [OF assms]
  show "set (dict_get_or conf k []) \<subseteq> set (dict_keys (dict_get_or placed k []))"
  proof (cases "dict_get conf k")
    case (Some aids)
    then show ?thesis using ok(3) [of k aids] map_of_SomeD [OF Some] by (simp add: dict_get_or_def [of conf])
  qed (simp add: dict_get_or_def [of conf])
  show "set (dict_keys (dict_get_or blank k [])) \<subseteq> set (dict_get_or conf k [])"
  proof (cases "dict_get blank k")
    case (Some m)
    then show ?thesis using ok(4) [of k m] map_of_SomeD [OF Some] by (simp add: dict_get_or_def [of blank])
  qed (simp add: dict_get_or_def [of blank])
qed

text \<open>A host that loaded a model of a single-resident provider is the pin target of no other model.\<close>

lemma clear_host_pins_only:
  assumes "has_pins p" "dict_get (pins_of (clear_host_pins p aid keep rt) p) m = Some aid"
  shows "m = keep"
proof (cases "list_ex (\<lambda>(m, i). i = aid \<and> m \<noteq> keep) (pins_of rt p)")
  case True
  then have "dict_get (filter (\<lambda>(m, i). \<not> (i = aid \<and> m \<noteq> keep)) (pins_of rt p)) m = Some aid"
    using assms by (simp add: clear_host_pins_def mutate_pins_def pins_of_def dict_get_or_set)
  from map_of_SomeD [OF this] show ?thesis by simp
next
  case False
  then have "dict_get (pins_of rt p) m = Some aid" using assms by (simp add: clear_host_pins_def mutate_pins_def)
  from map_of_SomeD [OF this] False show ?thesis by (auto simp: list_ex_iff)
qed

lemma load_pins_exclusive:
  assumes "xe_ok (execute xd entries a rt)" "is_placement a" "ac_provider a \<in> set SINGLE_RESIDENT_PROVIDERS"
    "dict_get (pins_of (xe_routing (execute xd entries a rt)) (ac_provider a)) m = Some (ac_agent a)"
  shows "m = ac_model a"
proof (rule clear_host_pins_only)
  show "has_pins (ac_provider a)" using assms(3) by (auto simp: SINGLE_RESIDENT_PROVIDERS_def has_pins_def)
  have "xe_routing (execute xd entries a rt) =
      clear_host_pins (ac_provider a) (ac_agent a) (ac_model a) (route_replica entries a True rt)"
    using assms(1-3) by (auto simp: execute_def route_executed_def is_placement_def Let_def split: if_splits prod.splits option.splits)
  then show "dict_get (pins_of (clear_host_pins (ac_provider a) (ac_agent a) (ac_model a) (route_replica entries a True rt))
      (ac_provider a)) m = Some (ac_agent a)" using assms(4) by simp
qed

text \<open>The sync sends new traffic only to hosts that serve the model and have no tool run in flight.\<close>

lemma route_sync_avoids_busy:
  assumes "w \<in> set (route_sync_writes des obs rt led now busy)" "w = Pool_Add p aid \<or> w = Pin p m (Some aid)"
  shows "aid \<notin> set busy \<and> (\<exists>e \<in> set (de_entries des). en_provider e = p \<and> aid \<in> set (effective_placements e (entry_id e) obs led now))"
  using assms
  by (auto simp: route_sync_writes_def entry_writes_def Let_def split: if_splits option.splits
      dest!: find_SomeD find_SomeD [OF sym])

section \<open>An example fleet\<close>

text \<open>
  The fleet of the planner's examples. The first tick wakes a host and loads a model there; no later
  observation shows the model, so its row is dropped and a tick 300 seconds later plans the load again.
\<close>

definition ex_ti :: "bool \<Rightarrow> tick_input" where
  "ex_ti ok = \<lparr>ti_desired = ex_desired, ti_observed = ex_observed, ti_sat = (\<lambda>_ _. None), ti_exec = (\<lambda>_. ok),
     ti_busy = (\<lambda>_. []), ti_pid = (\<lambda>_. ''p'')\<rparr>"

definition ex_load_action :: action where
  "ex_load_action = mk_action Load ex_entry ''a'' ''failover: m/llama recovering onto a (displacing old)'' True"

definition ex_blank_agent :: agent_obs where
  "ex_blank_agent = ex_agent\<lparr>ao_loaded := [(''llama'', [])], ao_answered := Some [(''llama'', False)]\<rparr>"

definition ex_blank_obs :: observed where
  "ex_blank_obs = ex_observed\<lparr>ob_agents := [(''a'', ex_blank_agent)]\<rparr>"

definition ex_placed_obs :: observed where
  "ex_placed_obs = ex_observed\<lparr>ob_agents := [(''a'', ex_agent\<lparr>ao_loaded := [(''llama'', [''m''])]\<rparr>)]\<rparr>"

definition ex_routing :: routing where
  "ex_routing = \<lparr>rg_agents = [(''a'', \<lparr>ra_caps = [''llama''], ra_approved = True\<rparr>)], rg_pins = [(''llama'', [(''m'', ''b'')])],
     rg_pools = []\<rparr>"

definition ex_ticks :: "bool \<Rightarrow> bool" where
  "ex_ticks ok =
     (case rec_tick (ex_ti ok) 1000 init_reconciler of
        None \<Rightarrow> False
      | Some (acts, stat, obs, st) \<Rightarrow>
          (1000, ex_load_action, ok) \<in> set (executed_by (ex_ti ok) 1000 acts) \<and>
          (1300, ex_load_action, ok) \<in> set (history [Re_Tick (ex_ti ok) 1300] st))"

lemma ex_ticks: "ex_ticks True" "ex_ticks False"
  by code_simp+

lemma ex_ticksE:
  assumes "ex_ticks ok"
  obtains acts stat obs st where "rec_tick (ex_ti ok) 1000 (fold rec_step [] init_reconciler) = Some (acts, stat, obs, st)"
    "(1000, ex_load_action, ok) \<in> set (executed_by (ex_ti ok) 1000 acts)"
    "(1300, ex_load_action, ok) \<in> set (history [Re_Tick (ex_ti ok) 1300] st)"
proof (cases "rec_tick (ex_ti ok) 1000 init_reconciler")
  case None
  then show thesis using assms by (simp add: ex_ticks_def)
next
  case (Some r)
  then obtain acts stat obs st where t: "rec_tick (ex_ti ok) 1000 init_reconciler = Some (acts, stat, obs, st)" by (cases r) auto
  have "rec_tick (ex_ti ok) 1000 (fold rec_step [] init_reconciler) = Some (acts, stat, obs, st)" by (simp add: t)
  moreover have "(1000, ex_load_action, ok) \<in> set (executed_by (ex_ti ok) 1000 acts) \<and>
      (1300, ex_load_action, ok) \<in> set (history [Re_Tick (ex_ti ok) 1300] st)"
    using assms unfolding ex_ticks_def t option.case prod.case .
  ultimately show thesis using that by blast
qed

section \<open>Properties\<close>

text \<open>
  C19: a confirmed placement survives blank samples for exactly 90 seconds: while the provider of a reporting host
  does not answer, the planner sees the model on the host if and only if the placement is confirmed and the
  blank, if one was seen before, is younger than the grace.
\<close>

theorem blank_grace_exact:
  assumes "dict_ok conf" "dict_ok (ob_agents obs)" "CHR ''/'' \<notin> set (en_provider e)" "en_model e \<noteq> []"
    "dict_get (ob_agents obs) aid = Some a" "reporting a" "sample_blank a (en_provider e)"
  shows "aid \<in> set (placements e (snd (debounce_blank True now obs conf blank))) \<longleftrightarrow>
    aid \<in> set (dict_get_or conf (entry_id e) []) \<and> now - dict_get_or (dict_get_or blank (entry_id e) []) aid now < BLANK_GRACE_S"
  by (rule debounced_placement [OF assms])

theorem blank_grace_exact_witness:
  "''a'' \<in> set (placements ex_entry (snd (debounce_blank True 1050 ex_blank_obs [(''m/llama'', [''a''])] [(''m/llama'', [(''a'', 1000)])]))) \<and>
   ''a'' \<notin> set (placements ex_entry (snd (debounce_blank True 1090 ex_blank_obs [(''m/llama'', [''a''])] [(''m/llama'', [(''a'', 1000)])])))"
proof -
  have h: "dict_ok [(''m/llama'', [''a''])]" "dict_ok (ob_agents ex_blank_obs)" "CHR ''/'' \<notin> set (en_provider ex_entry)"
    "en_model ex_entry \<noteq> []" "dict_get (ob_agents ex_blank_obs) ''a'' = Some ex_blank_agent" "reporting ex_blank_agent"
    "sample_blank ex_blank_agent (en_provider ex_entry)" "entry_id ex_entry = ''m/llama''"
    by code_simp+
  show ?thesis
    using blank_grace_exact [OF h(1-7), of 1050 "[(''m/llama'', [(''a'', 1000)])]"]
      blank_grace_exact [OF h(1-7), of 1090 "[(''m/llama'', [(''a'', 1000)])]"]
    by (simp add: h(8) dict_get_or_def BLANK_GRACE_S_def)
qed

text \<open>
  C17: after any sequence of ticks, applied and dismissed proposals: every confirmed placement has a placement row,
  every blank mark belongs to a confirmed placement, no migration is counted as in flight, no two proposals are
  for the same action, and the snapshots read without the lock show the current ledger and proposals.
\<close>

theorem reconciler_invariant:
  "let st = fold rec_step es init_reconciler; led = re_ledger st in
     (\<forall>k. set (dict_get_or (le_confirmed led) k []) \<subseteq> set (dict_keys (dict_get_or (le_placed_at led) k []))) \<and>
     (\<forall>k. set (dict_keys (dict_get_or (re_blank st) k [])) \<subseteq> set (dict_get_or (le_confirmed led) k [])) \<and>
     le_in_flight led = 0 \<and> distinct (map pr_sig (dict_values (re_proposals st))) \<and>
     re_view st = led \<and> re_blank_view st = re_blank st \<and>
     re_snapshot st = sort_key pr_created (dict_values (re_proposals st))"
proof -
  have ok: "rec_ok (fold rec_step es init_reconciler)" by (rule pilot.inv_run) simp
  then have l: "ledger_ok (fold rec_step es init_reconciler)" by (rule rec_okD)
  then show ?thesis using ok rows_ok_get
    unfolding Let_def rec_ok_def ledger_ok_def proposals_ok_def by blast
qed

text \<open>
  C4: ticks respect the cooldown of a host: after an action of a tick has succeeded on a host at time \<open>t\<close>, no
  later tick executes an action there before \<open>t\<close> plus 120 seconds, whatever happens in between, as long as the
  clock does not go back and every tick observes the host.
\<close>

theorem host_cooldown:
  assumes "rec_tick ti t (fold rec_step es0 init_reconciler) = Some (acts, stat, obs, st)"
    "(t, a, True) \<in> set (executed_by ti t acts)" "list_all (sees (ac_agent a) t) es"
    "(t', b, ok) \<in> set (history es st)" "ac_agent b = ac_agent a"
  shows "t + COOLDOWN_S \<le> t'"
proof -
  have ok: "rec_ok (fold rec_step es0 init_reconciler)" by (rule pilot.inv_run) simp
  note m = tick_sets_marks [OF ok assms(1,2)]
  show ?thesis using cooldown.guarded_history [OF m(1) m(2) assms(3-5)] by simp
qed

theorem host_cooldown_witness:
  "\<exists>acts stat obs st. rec_tick (ex_ti True) 1000 init_reconciler = Some (acts, stat, obs, st) \<and>
     (1300, ex_load_action, True) \<in> set (history [Re_Tick (ex_ti True) 1300] st) \<and> 1000 + COOLDOWN_S \<le> (1300 :: rat)"
proof -
  obtain acts stat obs st where t: "rec_tick (ex_ti True) 1000 (fold rec_step [] init_reconciler) = Some (acts, stat, obs, st)"
    "(1000, ex_load_action, True) \<in> set (executed_by (ex_ti True) 1000 acts)"
    "(1300, ex_load_action, True) \<in> set (history [Re_Tick (ex_ti True) 1300] st)"
    by (rule ex_ticksE [OF ex_ticks(1)])
  have "list_all (sees (ac_agent ex_load_action) 1000) [Re_Tick (ex_ti True) 1300]" by code_simp
  from host_cooldown [OF t(1,2) this t(3) refl] show ?thesis using t by auto
qed

text \<open>
  C18: a failed load or scale-up holds its entry back: when a tick at time \<open>t\<close> fails to place a model, no later tick
  executes any action for that entry before \<open>t\<close> plus 300 seconds, as long as the clock does not go back and the
  entry stays configured.
\<close>

theorem failed_load_backs_off:
  assumes "rec_tick ti t (fold rec_step es0 init_reconciler) = Some (acts, stat, obs, st)"
    "(t, a, False) \<in> set (executed_by ti t acts)" "is_placement a" "list_all (wants (ac_entry a) t) es"
    "(t', b, ok) \<in> set (history es st)" "ac_entry b = ac_entry a"
  shows "t + ENTRY_RETRY_S \<le> t'"
proof -
  have ok: "rec_ok (fold rec_step es0 init_reconciler)" by (rule pilot.inv_run) simp
  note m = tick_sets_marks [OF ok assms(1,2)]
  show ?thesis using backoff.guarded_history [OF m(1) m(3) assms(4-6)] assms(3) by simp
qed

theorem failed_load_backs_off_witness:
  "\<exists>acts stat obs st. rec_tick (ex_ti False) 1000 init_reconciler = Some (acts, stat, obs, st) \<and>
     (1300, ex_load_action, False) \<in> set (history [Re_Tick (ex_ti False) 1300] st) \<and> 1000 + ENTRY_RETRY_S \<le> (1300 :: rat)"
proof -
  obtain acts stat obs st where t: "rec_tick (ex_ti False) 1000 (fold rec_step [] init_reconciler) = Some (acts, stat, obs, st)"
    "(1000, ex_load_action, False) \<in> set (executed_by (ex_ti False) 1000 acts)"
    "(1300, ex_load_action, False) \<in> set (history [Re_Tick (ex_ti False) 1300] st)"
    by (rule ex_ticksE [OF ex_ticks(2)])
  have w: "list_all (wants (ac_entry ex_load_action) 1000) [Re_Tick (ex_ti False) 1300]" "is_placement ex_load_action" by code_simp+
  from failed_load_backs_off [OF t(1,2) w(2,1) t(3) refl] show ?thesis using t by auto
qed

text \<open>
  C20: the routing sync converges in one round: after its writes are applied, a second sync for the same
  observation has nothing to write, for entries with distinct models and placements on approved hosts that
  offer the provider.
\<close>

theorem route_sync_converges:
  assumes "distinct (map (\<lambda>e. (en_provider e, en_model e)) (de_entries des))"
    "\<And>e aid. e \<in> set (de_entries des) \<Longrightarrow> aid \<in> set (effective_placements e (entry_id e) obs led now) \<Longrightarrow>
       admits rt (en_provider e) aid \<and> aid \<noteq> []"
  shows "route_sync_writes des obs (route_sync des obs led now busy rt) led now busy = []"
proof (cases "de_enabled des")
  case True
  define w where "w = (\<lambda>e. entry_writes obs rt led now busy e)"
  define rt' where "rt' = route_sync des obs led now busy rt"
  have rt': "rt' = fold apply_write (concat (map w (de_entries des))) rt"
    by (simp add: rt'_def route_sync_def route_sync_writes_def True w_def)
  have "entry_writes obs rt' led now busy e = []" if e: "e \<in> set (de_entries des)" for e
  proof (cases "effective_placements e (entry_id e) obs led now = []")
    case False
    let ?p = "en_provider e" and ?m = "en_model e"
    define placed where "placed = effective_placements e (entry_id e) obs led now"
    define cur where "cur = dict_get (pins_of rt ?p) ?m"
    have adm: "admits rt ?p aid \<and> aid \<noteq> []" if "aid \<in> set placed" for aid using assms(2) e that by (simp add: placed_def)
    have pool: "aid \<in> set (pool_of rt' ?p) \<or> aid \<in> set busy" if "aid \<in> set placed" "en_max e > 1" for aid
    proof -
      have "aid \<in> set (pool_of rt ?p) \<or> aid \<in> set busy \<or> Pool_Add ?p aid \<in> set (concat (map w (de_entries des)))"
        using that False e by (auto simp: w_def entry_writes_def Let_def placed_def intro!: bexI [of _ e])
      then show ?thesis unfolding rt' using pool_kept pool_added adm [OF that(1)] by blast
    qed
    have "dict_get (pins_of rt' ?p) ?m = (if en_max e > 1 \<and> length placed > 1 then None
     else if (case cur of None \<Rightarrow> False | Some c \<Rightarrow> c \<in> set placed) then cur
     else (case find (\<lambda>aid. aid \<notin> set busy) placed of None \<Rightarrow> cur | Some t \<Rightarrow> Some t))" if "has_pins ?p"
    proof -
      define s where "s = fold apply_write (concat (map w (takeWhile (\<lambda>f. f \<noteq> e) (de_entries des)))) rt"
      note sy = pins_synced [OF assms(1) e w_def, of rt, folded s_def]
      have "dict_get (pins_of rt' ?p) ?m = dict_get (pins_of (fold apply_write (entry_writes obs rt led now busy e) s) ?p) ?m"
        unfolding rt' sy(1) by (simp add: w_def)
      also have "\<dots> = (if en_max e > 1 \<and> length placed > 1 then None
        else if (case cur of None \<Rightarrow> False | Some c \<Rightarrow> c \<in> set placed) then cur
        else (case find (\<lambda>aid. aid \<notin> set busy) placed of None \<Rightarrow> cur | Some t \<Rightarrow> Some t))"
        by (rule entry_pin [OF placed_def _ _ that cur_def]) (use False adm sy(2) in \<open>auto simp: placed_def cur_def\<close>)
      finally show ?thesis .
    qed
    then show ?thesis using False pool
      by (auto simp: entry_writes_def Let_def placed_def [symmetric] filter_empty_conv split: option.splits dest: find_SomeD)
  qed (simp add: entry_writes_def)
  then show ?thesis by (simp add: route_sync_writes_def rt'_def)
qed (simp add: route_sync_writes_def)

theorem route_sync_converges_witness:
  "route_sync_writes ex_desired ex_placed_obs ex_routing None None [] = [Pool_Add ''llama'' ''a'', Pin ''llama'' ''m'' (Some ''a'')] \<and>
   route_sync_writes ex_desired ex_placed_obs (route_sync ex_desired ex_placed_obs None None [] ex_routing) None None [] = []"
proof -
  have e: "de_entries ex_desired = [ex_entry]" "effective_placements ex_entry (entry_id ex_entry) ex_placed_obs None None = [''a'']"
    "admits ex_routing (en_provider ex_entry) ''a''" by code_simp+
  have "route_sync_writes ex_desired ex_placed_obs (route_sync ex_desired ex_placed_obs None None [] ex_routing) None None [] = []"
    by (rule route_sync_converges) (auto simp: e)
  moreover have "route_sync_writes ex_desired ex_placed_obs ex_routing None None [] = [Pool_Add ''llama'' ''a'', Pin ''llama'' ''m'' (Some ''a'')]"
    by code_simp
  ultimately show ?thesis by blast
qed

end
