(* ===== verification/Spec2Isabelle.thy ===== *)
theory Spec2Isabelle
  imports PowerArbiter PlannerReplicas JobTheorems RateWindows StreamPools CounterWindow DispatchProps
    ToolQueueProps ToolActivity MetricBufferRuns ReconcilerProps
begin

text \<open>
  \<^bold>\<open>A verification library for LLM Systems Manager\<close>

  The program has three processes. The \<^emph>\<open>manager\<close> (\<^verbatim>\<open>src/llm-systems-manager/backend\<close>) keeps the desired
  state of a fleet of inference hosts, plans model placements and runs jobs. An \<^emph>\<open>agent\<close>
  (\<^verbatim>\<open>src/agent\<close>) on every host reports which models are resident, switches the power profile of the
  host, derives rates from the inference server's counters and buffers the metrics it forwards. The \<^emph>\<open>alarm engine\<close>
  (\<^verbatim>\<open>src/llm-systems-alarm-engine/backend\<close>) evaluates rules over the metrics the agents push and keeps
  the alerts. The development models the decision logic of the three, one theory per component.

  \<^bold>\<open>Shared theories\<close>

  \<^item> \<open>Prelude\<close>: Python dictionaries in insertion order, rounding and number formatting, sorting facts.
  \<^item> \<open>Interfaces\<close>: the contracts several components share, as locales: \<open>pruned_window\<close> (time-stamped
    queues whose expired head is dropped), \<open>machine\<close> and \<open>guarded_machine\<close> (components driven by events
    with an invariant and a transition property). They are interpreted on the rate counters, the
    power arbiter, the stream pools, the job service, the tool queue, the activity tracker, the metric buffer and
    the autopilot reconciler. \<open>ReconcilerProps\<close> adds \<open>tick_guard\<close>, interpreted on its cooldown and its
    back-off, and \<open>StreamPools\<close> adds \<open>capped_pool\<close>, interpreted on both pools.

  \<^bold>\<open>Manager\<close>

  \<^item> \<open>AutopilotPlanner\<close> models \<^verbatim>\<open>autopilot_planner.py\<close>, every function: ranking of candidates, budgets,
    \<^verbatim>\<open>plan\<close> and \<^verbatim>\<open>entry_status\<close>. \<open>PlannerSafety\<close> abstracts a pass to the step relation \<open>pass_step\<close> and
    proves that a pass never oversubscribes memory, never displaces managed models, makes at most one
    failover, scales down only when that is safe, and never raises. \<open>PlannerReplicas\<close> counts replicas
    per entry and proves that the status shown to operators agrees with what a pass does.
  \<^item> \<open>Reconciler\<close> models \<^verbatim>\<open>autopilot.py\<close> around the planner: the tick with its ledger, the grace for blank
    samples, execution and proposals, the routing writes (with \<^verbatim>\<open>set_pool_membership\<close> of
    \<^verbatim>\<open>agent_registry.py\<close>) and the executor. \<open>ReconcilerProps\<close> composes it with \<open>PlannerSafety\<close>: the ledger
    stays consistent, ticks respect cooldown and back-off over any sequence of events, the grace is exact,
    the routing sync converges, avoids busy hosts and leaves one pin per single-resident host.
  \<^item> \<open>JobService\<close> models \<^verbatim>\<open>jobs.py\<close>: the ledger, the phases of a dispatcher tick, recovery after a restart,
    and the routes. \<open>JobProps\<close> and \<open>JobTheorems\<close> prove mutual exclusion and the worker limit, that ended
    jobs stay ended, that live jobs are never lost, that \<^verbatim>\<open>on_finish\<close> runs exactly once when each event is
    atomic (and twice whenever a job ends between the read and the write of \<^verbatim>\<open>_apply\<close>), periodic runs, time-outs and permissions.
  \<^item> \<open>ToolQueue\<close> models \<^verbatim>\<open>tool_queue.py\<close>, a client of the job service, and the start routes that use it
    (\<^verbatim>\<open>_tool_start\<close> and its helpers in \<^verbatim>\<open>llm-systems-manager.py\<close>): validation, labels, the handlers of a tool
    run and of a Report Card run as functions of what they meet (agent answers, clock, cancel flag), and the
    start-or-queue decision. \<open>ToolQueueProps\<close> composes it with the job machine: the runs of a host are
    bounded and one at a time (as long as the live runs of the fleet fit into one listing of the ledger), a run is started once however often its job is executed, it is finished
    only after a sighting, it always ends, and a start is answered by the host or the queue, not both.
  \<^item> \<open>ToolActivity\<close> models \<^verbatim>\<open>tool_activity.py\<close>: the recorded runs, the cached probes and the sweep; the busy
    agents are characterised exactly, and in every state a cached answer older than a run is shown to drop it.
  \<^item> \<open>RateWindows\<close> models \<^verbatim>\<open>rate_counter.py\<close> and proves that pruning loses nothing that is asked for.
  \<^item> \<open>StreamPools\<close> models \<^verbatim>\<open>stream_pool.py\<close> of the manager and of the agent.

  \<^bold>\<open>Agent\<close>

  \<^item> \<open>Residency\<close> models \<^verbatim>\<open>providers/residency.py\<close>.
  \<^item> \<open>PowerArbiter\<close> models \<^verbatim>\<open>providers/power_arbiter.py\<close>: every critical section is a function on the record
    \<open>arbiter\<close>, the worker loop a decision and a switch, whose unit restarts and record writes are effects that the
    functions return. Proved over all event sequences: the rate cap on the restarts issued,
    that a settled answer means an applied profile, back-off after failures, owner priority, and that
    the written record survives a restart.
  \<^item> \<open>CounterWindow\<close> models \<^verbatim>\<open>providers/llama_counters.py\<close>, the number parser included, and proves the
    windowed ratios equal to those of the full history of readings.

  \<^item> \<open>MetricBuffer\<close> models \<^verbatim>\<open>buffered_metric_client.py\<close>: the memory queue and its overflow file as bytes, the
    claim a flush holds while it posts, the disk budget, recovery when the file was rotated, and the client's
    counters; every file access may fail. \<open>MetricBufferProps\<close> says what each operation of the store does on a
    disk that may refuse appends and otherwise works (\<open>disk\<close>), and \<open>MetricBufferRuns\<close> shows for all
    interleavings on such a disk that samples are conserved but for those of refused appends, posted in order,
    and kept within the bounds, that the draining loop ends, and that a failing append loses samples.

  \<^bold>\<open>Alarm engine\<close>

  \<^item> \<open>AlertStore\<close> models \<^verbatim>\<open>models/alert.py\<close>, \<^verbatim>\<open>storage/ae_alarms_db.py\<close> and \<^verbatim>\<open>AlertRepository\<close> of
    \<^verbatim>\<open>storage/repositories.py\<close>: the hot table, the history table, the event table, the cache of ongoing
    alerts and the ignore windows. \<open>AlertManager\<close> models \<^verbatim>\<open>engine/alert_manager.py\<close>.
  \<^item> \<open>AlertLifecycle\<close> gives the invariant of the store (each alert in one table, ongoing ones with
    distinct rules, the cache consistent) and shows that each operation keeps it; \<open>AlertTheorems\<close> draws
    the consequences for all runs without a resume of a closed alert, and shows what such a resume does and
    that deleting over HTTP leaves an ignore window in place.
  \<^item> \<open>AlarmRules\<close> models \<^verbatim>\<open>models/alarm_rule.py\<close>, \<^verbatim>\<open>models/metrics.py\<close> and the thresholds and quiet hours of
    \<^verbatim>\<open>engine/threshold_evaluator.py\<close>; \<open>AnomalyDetector\<close> models \<^verbatim>\<open>engine/anomaly_detector.py\<close> and proves the
    regression to be the least-squares line and the z-score and percentile rules selective.
  \<^item> \<open>RuleEngine\<close> models \<^verbatim>\<open>engine/rule_engine.py\<close> on top of the four; \<open>RuleEngineProps\<close> relates its streak
    counters to the history of verdicts, and \<open>AlarmSystem\<close> composes engine, manager and store into the
    step relation \<open>alarm_reach\<close> and the event machine \<open>sys_step\<close>, which carries the snapshot of the current
    cycle; \<open>evaluate_all_run\<close> shows a cycle of the code to be a sequence of its events, with requests wherever
    the code awaits. Alerts need consecutive breaches, a sustained breach raises one, auto-resolve needs
    consecutive recoveries, and as long as no closed alert is resumed no rule has two ongoing alerts.
  \<^item> \<open>Notifications\<close> models \<^verbatim>\<open>models/notification.py\<close> (channels, policies, masking of secrets) and
    \<open>NotificationDispatcher\<close> the decisions of \<^verbatim>\<open>engine/notification_dispatcher.py\<close>, a dispatch task split at
    its sends. \<open>DispatchProps\<close> shows, over any interleaving of tasks, that the channels a task selects respect the
    repeat intervals and that clears follow alarms, and, composed with the rule engine, that evaluations on a
    snapshot in which an alert is handled announce at most its resolution.

  \<^bold>\<open>Idealisations\<close>

  Finite floats are exact rationals (reals where square roots occur): comparisons are exact, sums and
  products are not rounded; where the code tests for infinities or NaN the model has a flag or a
  constructor. Text is ASCII where case or white space matters. A section the code runs under a lock,
  or without an \<^verbatim>\<open>await\<close>, is one function on the state; interleavings are sequences of such sections.
  SQL tables are lists of rows in insertion order, queries are filters and stable sorts, and the
  database is attached and does not fail; ISO time stamps are compared as times. Hooks, handlers,
  notification dispatch and broadcasts are arguments or entries of an effect log. Fresh ids are a
  hypothesis where the code draws a UUID. Every loop is structural recursion or has a measure, and clock
  readings are inputs of the operations that make them. Fuel is used once, for the draining loop of the
  metric client: one turn more than there are samples buffered is enough, and \<open>drain_returns\<close> proves it.

  \<^bold>\<open>Not modelled\<close>

  The HTTP layers, SSE transport, web sockets, TLS and authentication plumbing, the InfluxDB and SQLite
  drivers, subprocess and systemd handling beyond the arbiter's two calls, hardware collectors, the
  installers, the chat bot and the user interface: they are I/O around the logic above. The
  autopilot's observer and the validation of its state, the gateway's routing, forecasting, energy accounting, the assistant
  (\<^verbatim>\<open>tower*.py\<close>) and the auto-tuners are logic of their own that this library does not cover.
\<close>

end
